(* ===== verification/Prelude.thy ===== *)
theory Prelude
  imports Main
begin

text \<open>
  What the component theories share: JavaScript's string trimming and lower-casing, the small part
  of SQL the stores rely on (a table is the list of its rows in insertion order), and an interface
  for state machines whose operations keep an invariant.

  A HOL \<open>char\<close> stands for one UTF-16 code unit below 256; \<open>null\<close> and \<open>undefined\<close> are
  \<open>None\<close>. A point in time is its number of milliseconds since the epoch, an \<open>int\<close>: the
  code stores \<open>toISOString\<close> of it and compares those strings, and for the years 0 to 9999 the
  string order is the order of the numbers.
\<close>

named_theorems sql_simps \<open>unfolding of the SQL operations on tables\<close>

type_synonym ms = int

subsection \<open>JavaScript strings\<close>

definition is_js_space :: "char \<Rightarrow> bool" where
  "is_js_space c = (let n = (of_char c :: nat) in (9 \<le> n \<and> n \<le> 13) \<or> n = 32 \<or> n = 160)"

definition js_trim :: "string \<Rightarrow> string" where
  "js_trim s = rev (dropWhile is_js_space (rev (dropWhile is_js_space s)))"

definition js_lower_char :: "char \<Rightarrow> char" where
  "js_lower_char c =
     (let n = (of_char c :: nat) in
      if (65 \<le> n \<and> n \<le> 90) \<or> (192 \<le> n \<and> n \<le> 222 \<and> n \<noteq> 215) then char_of (n + 32) else c)"

definition js_lower :: "string \<Rightarrow> string" where
  "js_lower s = map js_lower_char s"

text \<open>A string that is null, undefined or empty is falsy.\<close>

definition truthy :: "string option \<Rightarrow> bool" where
  "truthy s = (case s of None \<Rightarrow> False | Some t \<Rightarrow> t \<noteq> [])"

definition or_else :: "'a option \<Rightarrow> 'a \<Rightarrow> 'a" where
  "or_else x d = (case x of None \<Rightarrow> d | Some y \<Rightarrow> y)"

lemma truthy_simps [simp]: "truthy None = False" "truthy (Some s) = (s \<noteq> [])"
  by (simp_all add: truthy_def)

lemma or_else_simps [simp]: "or_else None d = d" "or_else (Some y) d = y"
  by (simp_all add: or_else_def)

text \<open>\<open>xs.join(sep)\<close>\<close>

fun join_with :: "string \<Rightarrow> string list \<Rightarrow> string" where
  "join_with sep [] = []"
| "join_with sep [x] = x"
| "join_with sep (x # y # ys) = x @ sep @ join_with sep (y # ys)"

lemma js_trim_Nil [simp]: "js_trim [] = []"
  by (simp add: js_trim_def)

lemma js_trim_length: "length (js_trim s) \<le> length s"
  unfolding js_trim_def
  by (metis length_dropWhile_le length_rev order_trans)

lemma dropWhile_snoc_keep: "\<not> P y \<Longrightarrow> dropWhile P (xs @ [y]) = dropWhile P xs @ [y]"
  by (induction xs) auto

lemma js_trim_idem [simp]: "js_trim (js_trim s) = js_trim s"
proof -
  let ?d = "dropWhile is_js_space"
  show ?thesis
  proof (cases "?d s")
    case Nil
    then have "js_trim s = []" by (simp only: js_trim_def rev.simps dropWhile.simps)
    then show ?thesis by simp
  next
    case (Cons a u)
    then have na: "\<not> is_js_space a" by (metis dropWhile_eq_Cons_conv)
    let ?r = "?d (rev (a # u))"
    have r: "?r = ?d (rev u) @ [a]" using na by (simp add: dropWhile_snoc_keep)
    have t: "js_trim s = rev ?r" using Cons by (simp add: js_trim_def)
    have "?d (rev ?r) = rev ?r" using r na by simp
    moreover have "?d ?r = ?r" by (rule dropWhile_idem)
    ultimately show ?thesis using t by (simp add: js_trim_def)
  qed
qed

text \<open>\<open>parseInt(s, 10)\<close>: blanks and a sign, then the leading digits; \<open>None\<close> is NaN.\<close>

definition is_digit :: "char \<Rightarrow> bool" where
  "is_digit c = (let n = (of_char c :: nat) in 48 \<le> n \<and> n \<le> 57)"

definition digits_value :: "string \<Rightarrow> int" where
  "digits_value ds = foldl (\<lambda>v c. 10 * v + (of_char c - 48)) 0 ds"

definition parse_int :: "string \<Rightarrow> int option" where
  "parse_int s =
     (let t = dropWhile is_js_space s;
          neg = (t \<noteq> [] \<and> hd t = CHR ''-'');
          u = (if t \<noteq> [] \<and> (hd t = CHR ''-'' \<or> hd t = CHR ''+'') then tl t else t);
          ds = takeWhile is_digit u
      in if ds = [] then None else Some (if neg then - digits_value ds else digits_value ds))"

subsection \<open>SQL tables\<close>

text \<open>A comparison with NULL is not true, so a row with a NULL column is not selected by \<open>=\<close>.\<close>

definition sql_eq :: "'a option \<Rightarrow> 'a option \<Rightarrow> bool" where
  "sql_eq x y = (case x of None \<Rightarrow> False | Some a \<Rightarrow> (case y of None \<Rightarrow> False | Some b \<Rightarrow> a = b))"

definition sql_where :: "('r \<Rightarrow> bool) \<Rightarrow> 'r list \<Rightarrow> 'r list" where
  "sql_where p t = filter p t"

definition sql_update :: "('r \<Rightarrow> bool) \<Rightarrow> ('r \<Rightarrow> 'r) \<Rightarrow> 'r list \<Rightarrow> 'r list" where
  "sql_update p f t = map (\<lambda>r. if p r then f r else r) t"

definition sql_delete :: "('r \<Rightarrow> bool) \<Rightarrow> 'r list \<Rightarrow> 'r list" where
  "sql_delete p t = filter (\<lambda>r. \<not> p r) t"

definition sql_get :: "'r list \<Rightarrow> 'r option" where
  "sql_get t = (case t of [] \<Rightarrow> None | r # _ \<Rightarrow> Some r)"

text \<open>ORDER BY: stable on the order of insertion where the keys are equal.\<close>

definition order_asc :: "('r \<Rightarrow> 'k::linorder) \<Rightarrow> 'r list \<Rightarrow> 'r list" where
  "order_asc k t = sort_key k t"

definition order_desc :: "('r \<Rightarrow> 'k::linorder) \<Rightarrow> 'r list \<Rightarrow> 'r list" where
  "order_desc k t = rev (sort_key k (rev t))"

lemma sql_eq_simps [simp]:
  "sql_eq None y = False" "sql_eq x None = False" "sql_eq (Some a) (Some b) = (a = b)"
  by (auto simp: sql_eq_def split: option.splits)

lemma sql_eq_Some: "sql_eq x (Some b) = (x = Some b)"
  by (cases x) auto

declare sql_where_def [sql_simps] sql_update_def [sql_simps] sql_delete_def [sql_simps]

lemma sql_get_simps [simp]: "sql_get [] = None" "sql_get (r # t) = Some r"
  by (simp_all add: sql_get_def)

lemma sql_get_None [simp]: "sql_get t = None \<longleftrightarrow> t = []"
  by (cases t) auto

lemma sql_get_in: "sql_get t = Some r \<Longrightarrow> r \<in> set t"
  by (cases t) auto

lemma set_order_asc [simp]: "set (order_asc k t) = set t"
  by (simp add: order_asc_def)

lemma set_order_desc [simp]: "set (order_desc k t) = set t"
  by (simp add: order_desc_def)

lemma length_order [simp]: "length (order_asc k t) = length t" "length (order_desc k t) = length t"
  by (simp_all add: order_asc_def order_desc_def)

lemma sorted_order_asc: "sorted (map k (order_asc k t))"
  by (simp add: order_asc_def)

lemma order_asc_sorted: "sorted (map k t) \<Longrightarrow> order_asc k t = t"
  by (simp add: order_asc_def sort_key_id_if_sorted)

lemma insort_key_above: "\<forall>y \<in> set t. k y < k x \<Longrightarrow> insort_key k x t = t @ [x]"
  by (induction t) auto

lemma sort_key_rev_strict: "sorted_wrt (<) (map k t) \<Longrightarrow> sort_key k (rev t) = t"
  by (induction t rule: rev_induct) (auto simp: sorted_wrt_append insort_key_above)

text \<open>Rows with ascending keys in insertion order, as AUTOINCREMENT gives.\<close>

lemma order_desc_strict: "sorted_wrt (<) (map k t) \<Longrightarrow> order_desc k t = rev t"
  by (simp add: order_desc_def sort_key_rev_strict)

lemma sql_get_rev: "sql_get (rev t) = (if t = [] then None else Some (last t))"
  by (cases t rule: rev_cases) auto

lemma order_desc_Nil [simp]: "order_desc k t = [] \<longleftrightarrow> t = []"
  by (metis length_0_conv length_order(2))

lemma set_sql_where [simp]: "set (sql_where p t) = {r \<in> set t. p r}"
  by (auto simp: sql_where_def)

lemma length_sql_update [simp]: "length (sql_update p f t) = length t"
  by (simp add: sql_update_def)

lemma sql_update_append: "sql_update p f (t @ u) = sql_update p f t @ sql_update p f u"
  by (simp add: sql_update_def)

lemma map_sql_update: "(\<And>r. g (f r) = g r) \<Longrightarrow> map g (sql_update p f t) = map g t"
  by (induction t) (auto simp: sql_update_def)

subsection \<open>State machines that keep an invariant\<close>

text \<open>
  The interface of a component whose operations run one after the other: every operation takes a
  state that satisfies the invariant to one that does. Each component that is a state machine
  interprets it on its own step function; runs are folds of that step.
\<close>

locale invariant_machine =
  fixes step :: "'op \<Rightarrow> 's \<Rightarrow> 's" and inv :: "'s \<Rightarrow> bool"
  assumes step_inv: "inv s \<Longrightarrow> inv (step x s)"
begin

lemma run_inv: "inv s \<Longrightarrow> inv (fold step xs s)"
  by (induction xs arbitrary: s) (auto simp: step_inv)

lemma run_split_inv: "inv s \<Longrightarrow> inv (fold step xs s) \<and> inv (fold step (xs @ ys) s)"
  using run_inv by blast

end

end
