(* ===== verification/Audit_Chain.thy ===== *)
theory Audit_Chain
  imports Prelude
begin

text \<open>
  The chained audit log of \<open>memory-server/src/core/audit-chain.ts\<close> over the table
  \<open>mem_audit_log\<close>. SHA-256 is a parameter \<open>H\<close> from the concatenated input to the hex digest;
  what the theorems need of it (no collision among the inputs that occur) is a hypothesis of each.
  \<open>created_at\<close> is the text the code hashes, passed in where the code reads the clock.
\<close>

subsection \<open>The table\<close>

record audit_row =
  ar_id :: int
  ar_action :: string
  ar_actor :: string
  ar_target_type :: string
  ar_target_id :: string
  ar_details_json :: string
  ar_created_at :: string
  ar_prev_hash :: "string option"

text \<open>The rows in insertion order, and the next value of the AUTOINCREMENT key.\<close>

record audit_log =
  al_rows :: "audit_row list"
  al_next :: int

definition empty_log :: audit_log where
  "empty_log = \<lparr>al_rows = [], al_next = 1\<rparr>"

definition insert_audit_row ::
  "string \<Rightarrow> string \<Rightarrow> string \<Rightarrow> string \<Rightarrow> string \<Rightarrow> string \<Rightarrow> string option \<Rightarrow> audit_log \<Rightarrow> audit_log"
where
  "insert_audit_row action actor ttype tid details created prev l =
     \<lparr>al_rows = al_rows l @ [\<lparr>ar_id = al_next l, ar_action = action, ar_actor = actor,
        ar_target_type = ttype, ar_target_id = tid, ar_details_json = details,
        ar_created_at = created, ar_prev_hash = prev\<rparr>],
      al_next = al_next l + 1\<rparr>"

subsection \<open>Hashing, appending, verifying\<close>

definition HASH_LEN :: nat where
  "HASH_LEN = 32"

definition unit_sep :: string where
  "unit_sep = [CHR 0x1F]"

definition chain_input :: "string \<Rightarrow> string \<Rightarrow> string \<Rightarrow> string \<Rightarrow> string \<Rightarrow> string \<Rightarrow> string" where
  "chain_input prev action ttype tid details created =
     prev @ unit_sep @ action @ unit_sep @ ttype @ unit_sep @ tid @ unit_sep @ details
       @ unit_sep @ created"

definition chainHash ::
  "(string \<Rightarrow> string) \<Rightarrow> string \<Rightarrow> string \<Rightarrow> string \<Rightarrow> string \<Rightarrow> string \<Rightarrow> string \<Rightarrow> string" where
  "chainHash H prev action ttype tid details created =
     take HASH_LEN (H (chain_input prev action ttype tid details created))"

definition lastPrevHash :: "audit_log \<Rightarrow> string" where
  "lastPrevHash l =
     (case sql_get (order_desc ar_id (sql_where (\<lambda>r. ar_prev_hash r \<noteq> None) (al_rows l))) of
        None \<Rightarrow> []
      | Some row \<Rightarrow> or_else (ar_prev_hash row) [])"

definition appendAuditChain ::
  "(string \<Rightarrow> string) \<Rightarrow> string \<Rightarrow> string \<Rightarrow> string \<Rightarrow> string \<Rightarrow> string \<Rightarrow> string \<Rightarrow> audit_log \<Rightarrow>
     string \<times> audit_log"
where
  "appendAuditChain H created action ttype tid details actor l =
     (let prev = lastPrevHash l;
          newHash = chainHash H prev action ttype tid details created
      in (newHash, insert_audit_row action actor ttype tid details created (Some newHash) l))"

datatype chain_verdict = Verified nat | BrokenAt int

definition row_hash :: "(string \<Rightarrow> string) \<Rightarrow> string \<Rightarrow> audit_row \<Rightarrow> string" where
  "row_hash H prev r =
     chainHash H prev (ar_action r) (ar_target_type r) (ar_target_id r) (ar_details_json r)
       (ar_created_at r)"

fun verify_rows :: "(string \<Rightarrow> string) \<Rightarrow> string \<Rightarrow> nat \<Rightarrow> audit_row list \<Rightarrow> chain_verdict" where
  "verify_rows H prev n [] = Verified n"
| "verify_rows H prev n (r # rs) =
     (if Some (row_hash H prev r) \<noteq> ar_prev_hash r then BrokenAt (ar_id r)
      else verify_rows H (or_else (ar_prev_hash r) []) (Suc n) rs)"

definition verifyAuditChain :: "(string \<Rightarrow> string) \<Rightarrow> int \<Rightarrow> audit_log \<Rightarrow> chain_verdict" where
  "verifyAuditChain H fromId l =
     verify_rows H [] 0
       (order_asc ar_id (sql_where (\<lambda>r. fromId \<le> ar_id r \<and> ar_prev_hash r \<noteq> None) (al_rows l)))"

subsection \<open>Well-formed logs\<close>

text \<open>What AUTOINCREMENT gives: keys from 1 on, ascending in insertion order, below the next one.\<close>

definition wf_log :: "audit_log \<Rightarrow> bool" where
  "wf_log l \<longleftrightarrow> sorted_wrt (<) (map ar_id (al_rows l)) \<and>
     (\<forall>r \<in> set (al_rows l). 1 \<le> ar_id r \<and> ar_id r < al_next l) \<and> 1 \<le> al_next l"

definition chained_rows :: "audit_log \<Rightarrow> audit_row list" where
  "chained_rows l = filter (\<lambda>r. ar_prev_hash r \<noteq> None) (al_rows l)"

lemma wf_empty [simp]: "wf_log empty_log"
  by (simp add: wf_log_def empty_log_def)

lemma wf_insert: "wf_log l \<Longrightarrow> wf_log (insert_audit_row a b c d e f g l)"
  by (fastforce simp: wf_log_def insert_audit_row_def sorted_wrt_append)

lemma chained_insert:
  "chained_rows (insert_audit_row a b c d e f g l) =
     chained_rows l @ (if g = None then [] else
       [\<lparr>ar_id = al_next l, ar_action = a, ar_actor = b, ar_target_type = c, ar_target_id = d,
         ar_details_json = e, ar_created_at = f, ar_prev_hash = g\<rparr>])"
  by (auto simp: chained_rows_def insert_audit_row_def)

lemma sorted_ids_filter: "wf_log l \<Longrightarrow> sorted (map ar_id (filter P (al_rows l)))"
  unfolding wf_log_def
  by (metis sorted_wrt_filter sorted_wrt_map strict_sorted_imp_sorted)

lemma verify_chained:
  "wf_log l \<Longrightarrow> verifyAuditChain H k l =
     verify_rows H [] 0 (filter (\<lambda>r. k \<le> ar_id r) (chained_rows l))"
  unfolding verifyAuditChain_def chained_rows_def sql_where_def filter_filter
  by (subst order_asc_sorted) (auto simp: sorted_ids_filter conj_commute)

lemma verify_from_0: "wf_log l \<Longrightarrow> verifyAuditChain H 0 l = verify_rows H [] 0 (chained_rows l)"
  by (subst verify_chained)
     (fastforce simp: wf_log_def chained_rows_def intro!: arg_cong [where f = "verify_rows H [] 0"] filter_True)+

definition head_hash :: "string \<Rightarrow> audit_row list \<Rightarrow> string" where
  "head_hash p rs = (if rs = [] then p else or_else (ar_prev_hash (last rs)) [])"

lemma where_chained: "sql_where (\<lambda>r. ar_prev_hash r \<noteq> None) (al_rows l) = chained_rows l"
  by (simp add: sql_where_def chained_rows_def)

lemma lastPrevHash_chained:
  assumes "wf_log l"
  shows "lastPrevHash l = head_hash [] (chained_rows l)"
proof -
  have "sorted_wrt (<) (map ar_id (chained_rows l))"
    using assms unfolding wf_log_def chained_rows_def by (metis sorted_wrt_filter sorted_wrt_map)
  then show ?thesis
    unfolding lastPrevHash_def where_chained by (simp add: order_desc_strict sql_get_rev head_hash_def)
qed

lemma head_hash_Nil [simp]: "head_hash p [] = p"
  by (simp add: head_hash_def)

lemma head_hash_Cons [simp]: "head_hash p (r # rs) = head_hash (or_else (ar_prev_hash r) []) rs"
  by (simp add: head_hash_def)

lemma head_hash_snoc [simp]: "head_hash p (rs @ [r]) = or_else (ar_prev_hash r) []"
  by (simp add: head_hash_def)

lemma verify_rows_append:
  "verify_rows H p n (xs @ ys) =
     (case verify_rows H p n xs of
        BrokenAt i \<Rightarrow> BrokenAt i
      | Verified m \<Rightarrow> verify_rows H (head_hash p xs) m ys)"
  by (induction xs arbitrary: p n) (simp_all split: chain_verdict.split)

lemma verify_rows_count: "verify_rows H p n xs = Verified m \<Longrightarrow> m = n + length xs"
  by (induction xs arbitrary: p n) (fastforce split: if_splits)+

subsection \<open>The log as an attested journal\<close>

text \<open>
  The interface the recorder and the gate use: an attested entry and a plain one can be written,
  and what has been attested stays verifiable, whatever the order of the writes.
\<close>

locale attested_journal =
  fixes attest :: "'e \<Rightarrow> 'l \<Rightarrow> 'l" and plain :: "'o \<Rightarrow> 'l \<Rightarrow> 'l"
    and wf :: "'l \<Rightarrow> bool" and verified :: "'l \<Rightarrow> nat option"
  assumes wf_attest: "wf l \<Longrightarrow> wf (attest e l)"
    and wf_plain: "wf l \<Longrightarrow> wf (plain x l)"
    and verified_attest: "wf l \<Longrightarrow> verified l = Some n \<Longrightarrow> verified (attest e l) = Some (Suc n)"
    and verified_plain: "wf l \<Longrightarrow> verified l = Some n \<Longrightarrow> verified (plain x l) = Some n"
begin

lemma verified_run:
  "wf l \<Longrightarrow> verified l = Some n \<Longrightarrow>
     wf (fold (case_sum attest plain) ws l) \<and>
     verified (fold (case_sum attest plain) ws l) = Some (n + length (filter isl ws))"
proof (induction ws arbitrary: l n)
  case (Cons w ws)
  show ?case
  proof (cases w)
    case (Inl e)
    with Cons.IH [OF wf_attest verified_attest] Cons.prems show ?thesis by simp
  next
    case (Inr x)
    with Cons.IH [OF wf_plain verified_plain] Cons.prems show ?thesis by simp
  qed
qed simp

end

record audit_write =
  aw_action :: string
  aw_target_type :: string
  aw_target_id :: string
  aw_details_json :: string
  aw_actor :: string
  aw_created_at :: string

definition write_chained :: "(string \<Rightarrow> string) \<Rightarrow> audit_write \<Rightarrow> audit_log \<Rightarrow> audit_log" where
  "write_chained H w l = snd (appendAuditChain H (aw_created_at w) (aw_action w) (aw_target_type w)
     (aw_target_id w) (aw_details_json w) (aw_actor w) l)"

definition write_plain :: "audit_write \<Rightarrow> audit_log \<Rightarrow> audit_log" where
  "write_plain w l = insert_audit_row (aw_action w) (aw_actor w) (aw_target_type w)
     (aw_target_id w) (aw_details_json w) (aw_created_at w) None l"

definition verified_count :: "(string \<Rightarrow> string) \<Rightarrow> audit_log \<Rightarrow> nat option" where
  "verified_count H l =
     (case verifyAuditChain H 0 l of Verified n \<Rightarrow> Some n | BrokenAt i \<Rightarrow> None)"

lemma write_chained_rows:
  assumes "wf_log l"
  shows "\<exists>r. chained_rows (write_chained H w l) = chained_rows l @ [r] \<and>
    ar_prev_hash r = Some (row_hash H (head_hash [] (chained_rows l)) r)"
  using assms
  by (auto simp: write_chained_def appendAuditChain_def Let_def chained_insert row_hash_def
      lastPrevHash_chained)

lemma wf_write_chained: "wf_log l \<Longrightarrow> wf_log (write_chained H w l)"
  by (simp add: write_chained_def appendAuditChain_def Let_def wf_insert)

interpretation aj: attested_journal "write_chained H" write_plain wf_log "verified_count H"
  for H :: "string \<Rightarrow> string"
proof unfold_locales
  fix l e n
  assume wf: "wf_log l" and n: "verified_count H l = Some n"
  from wf obtain r where r: "chained_rows (write_chained H e l) = chained_rows l @ [r]"
    "ar_prev_hash r = Some (row_hash H (head_hash [] (chained_rows l)) r)"
    using write_chained_rows by blast
  with wf n show "verified_count H (write_chained H e l) = Some (Suc n)"
    by (auto simp: verified_count_def verify_from_0 wf_write_chained verify_rows_append
        split: chain_verdict.splits)
qed (auto simp: wf_write_chained write_plain_def wf_insert verified_count_def verify_from_0
    chained_insert)

subsection \<open>What the chain commits to\<close>

text \<open>The fields the hash covers: all but the key, the actor and the hash itself.\<close>

definition hashed_fields :: "audit_row \<Rightarrow> string list" where
  "hashed_fields r =
     [ar_action r, ar_target_type r, ar_target_id r, ar_details_json r, ar_created_at r]"

definition row_input :: "string \<Rightarrow> audit_row \<Rightarrow> string" where
  "row_input p r = chain_input p (ar_action r) (ar_target_type r) (ar_target_id r)
     (ar_details_json r) (ar_created_at r)"

fun chain_inputs :: "string \<Rightarrow> audit_row list \<Rightarrow> string set" where
  "chain_inputs p [] = {}"
| "chain_inputs p (r # rs) = insert (row_input p r) (chain_inputs (or_else (ar_prev_hash r) []) rs)"

definition sep_free :: "string \<Rightarrow> bool" where
  "sep_free s \<longleftrightarrow> CHR 0x1F \<notin> set s"

definition sep_free_row :: "audit_row \<Rightarrow> bool" where
  "sep_free_row r \<longleftrightarrow> sep_free (ar_action r) \<and> sep_free (ar_target_type r) \<and>
     sep_free (ar_target_id r) \<and> sep_free (ar_details_json r)"

lemma row_hash_input: "row_hash H p r = take HASH_LEN (H (row_input p r))"
  by (simp add: row_hash_def chainHash_def row_input_def)

lemma split_at_sep:
  "sep_free a \<Longrightarrow> sep_free b \<Longrightarrow> a @ unit_sep @ x = b @ unit_sep @ y \<Longrightarrow> a = b \<and> x = y"
  by (auto simp: sep_free_def unit_sep_def append_eq_append_conv2 Cons_eq_append_conv append_eq_Cons_conv)

lemma row_input_inject:
  assumes "row_input p r = row_input q r'" "sep_free p" "sep_free q" "sep_free_row r" "sep_free_row r'"
  shows "p = q \<and> hashed_fields r = hashed_fields r'"
  using assms unfolding row_input_def chain_input_def sep_free_row_def hashed_fields_def
  by (metis split_at_sep)

lemma verify_rows_linked:
  "verify_rows H p n xs = Verified m \<Longrightarrow> r \<in> set xs \<Longrightarrow> \<exists>q. ar_prev_hash r = Some (row_hash H q r)"
  by (induction xs arbitrary: p n) (auto split: if_splits, metis)

lemma chain_inputs_append:
  "chain_inputs p (xs @ [r]) = insert (row_input (head_hash p xs) r) (chain_inputs p xs)"
  by (induction xs arbitrary: p) auto

lemma head_hash_sep_free:
  assumes "verify_rows H p n xs = Verified m" "\<And>x. sep_free (H x)" "sep_free p"
  shows "sep_free (head_hash p xs)"
proof (cases xs rule: rev_cases)
  case (snoc ys r)
  then obtain q where "ar_prev_hash r = Some (row_hash H q r)"
    using verify_rows_linked [OF assms(1), of r] by auto
  with snoc assms(2) show ?thesis
    by (auto simp: row_hash_input sep_free_def dest: in_set_takeD)
qed (use assms in simp)

lemma verified_snoc:
  "verify_rows H p n (xs @ [r]) = Verified m \<Longrightarrow>
     (\<exists>k. verify_rows H p n xs = Verified k) \<and> ar_prev_hash r = Some (row_hash H (head_hash p xs) r)"
  by (auto simp: verify_rows_append split: chain_verdict.splits if_splits)

lemma chain_commits:
  assumes "length xs = length ys"
    and "verify_rows H p n xs = Verified m" and "verify_rows H p n ys = Verified k"
    and "head_hash p xs = head_hash p ys"
    and "inj_on (\<lambda>x. take HASH_LEN (H x)) (chain_inputs p xs \<union> chain_inputs p ys)"
    and "\<And>x. sep_free (H x)" and "sep_free p" and "\<forall>r \<in> set xs \<union> set ys. sep_free_row r"
  shows "map hashed_fields xs = map hashed_fields ys"
  using assms
proof (induction xs arbitrary: ys m k rule: rev_induct)
  case (snoc r xs)
  then obtain ys' r' where ys: "ys = ys' @ [r']" by (cases ys rule: rev_cases) auto
  note vx = verified_snoc [OF snoc.prems(2)]
  note vy = verified_snoc [OF snoc.prems(3) [unfolded ys]]
  have same_hash: "row_hash H (head_hash p xs) r = row_hash H (head_hash p ys') r'"
    using snoc.prems(4) vx vy by (simp add: ys)
  have "row_input (head_hash p xs) r = row_input (head_hash p ys') r'"
  proof (rule inj_onD [OF snoc.prems(5)])
    show "take HASH_LEN (H (row_input (head_hash p xs) r)) = take HASH_LEN (H (row_input (head_hash p ys') r'))"
      using same_hash by (simp add: row_hash_input)
  qed (simp_all add: ys chain_inputs_append)
  moreover have "sep_free (head_hash p xs)" "sep_free (head_hash p ys')"
    using vx vy snoc.prems(6,7) by (blast intro: head_hash_sep_free)+
  ultimately have same: "head_hash p xs = head_hash p ys' \<and> hashed_fields r = hashed_fields r'"
    using snoc.prems(8) by (intro row_input_inject) (auto simp: ys)
  obtain i j where "verify_rows H p n xs = Verified i" "verify_rows H p n ys' = Verified j"
    using vx vy by blast
  moreover have "inj_on (\<lambda>x. take HASH_LEN (H x)) (chain_inputs p xs \<union> chain_inputs p ys')"
    by (rule inj_on_subset [OF snoc.prems(5)]) (auto simp: ys chain_inputs_append)
  ultimately have "map hashed_fields xs = map hashed_fields ys'"
    using snoc same by (auto simp: ys)
  with same show ?case by (simp add: ys)
qed simp

subsection \<open>Properties\<close>

definition audit_run :: "(string \<Rightarrow> string) \<Rightarrow> (audit_write + audit_write) list \<Rightarrow> audit_log" where
  "audit_run H ws = fold (case_sum (write_chained H) write_plain) ws empty_log"

lemma wf_audit_run: "wf_log (audit_run H ws)"
  and verified_audit_run: "verified_count H (audit_run H ws) = Some (length (filter isl ws))"
  using aj.verified_run [of empty_log H 0 ws]
  by (auto simp: audit_run_def verified_count_def verifyAuditChain_def empty_log_def sql_where_def
      order_asc_def wf_log_def)

lemma audit_run_verified: "verifyAuditChain H 0 (audit_run H ws) = Verified (length (filter isl ws))"
  using verified_audit_run [of H ws]
  by (simp add: verified_count_def split: chain_verdict.splits)

text \<open>
  C12. Every history of audit writes verifies: after any interleaving of chained appends
  (appendAuditChain) and plain inserts that leave prev_hash NULL, verifyAuditChain from the start
  accepts the log and counts exactly the chained rows.
\<close>

theorem audit_history_verifies:
  "verifyAuditChain H 0 (audit_run H ws) = Verified (length (filter isl ws))"
  by (rule audit_run_verified)

text \<open>An intruder who edits stored rows in place, keeping their keys and hash columns.\<close>

definition edit_row :: "int \<Rightarrow> (audit_row \<Rightarrow> audit_row) \<Rightarrow> audit_log \<Rightarrow> audit_log" where
  "edit_row k f l = l\<lparr>al_rows := sql_update (\<lambda>r. ar_id r = k) f (al_rows l)\<rparr>"

lemma wf_edit: "wf_log l \<Longrightarrow> (\<And>r. ar_id (f r) = ar_id r) \<Longrightarrow> wf_log (edit_row k f l)"
  unfolding wf_log_def edit_row_def by (auto simp: map_sql_update) (auto simp: sql_update_def)

lemma chained_edit:
  "(\<And>r. ar_prev_hash (f r) = ar_prev_hash r) \<Longrightarrow>
     chained_rows (edit_row k f l) = sql_update (\<lambda>r. ar_id r = k) f (chained_rows l)"
  by (auto simp: chained_rows_def edit_row_def sql_update_def filter_map o_def intro!: filter_cong)

lemma row_input_same_prefix:
  assumes "row_input p r = row_input p r'" "sep_free_row r" "sep_free_row r'"
  shows "hashed_fields r = hashed_fields r'"
proof -
  have "row_input [] r = row_input [] r'" using assms(1) by (simp add: row_input_def chain_input_def)
  then show ?thesis using assms(2,3) row_input_inject [of "[]" r "[]" r'] by (simp add: sep_free_def)
qed

text \<open>
  C14. Tampering is located: in a log that verifies, changing the action, the target, the details or the
  time of a chained row in place (key and prev_hash kept) makes verifyAuditChain report the chain broken at
  exactly that row. This needs that no field but the time contains the separator, before or after the
  change, and that the truncated hash does not collide on the two inputs.
\<close>

theorem tampering_is_located:
  assumes wf: "wf_log l" and ok: "verifyAuditChain H 0 l = Verified n"
    and rows: "chained_rows l = pre @ r # post"
    and keeps: "\<And>x. ar_id (f x) = ar_id x" "\<And>x. ar_prev_hash (f x) = ar_prev_hash x"
    and changed: "hashed_fields (f r) \<noteq> hashed_fields r"
    and seps: "sep_free_row r" "sep_free_row (f r)"
    and collision_free: "inj_on (\<lambda>x. take HASH_LEN (H x)) {row_input (head_hash [] pre) r, row_input (head_hash [] pre) (f r)}"
  shows "verifyAuditChain H 0 (edit_row (ar_id r) f l) = BrokenAt (ar_id r)"
proof -
  have "row_input (head_hash [] pre) (f r) \<noteq> row_input (head_hash [] pre) r"
    using row_input_same_prefix changed seps by metis
  then have hash: "row_hash H (head_hash [] pre) (f r) \<noteq> row_hash H (head_hash [] pre) r"
    using collision_free by (auto simp: row_hash_input)
  have "sorted_wrt (<) (map ar_id (chained_rows l))"
    using wf unfolding wf_log_def chained_rows_def by (metis sorted_wrt_filter sorted_wrt_map)
  then have pre: "sql_update (\<lambda>x. ar_id x = ar_id r) f pre = pre"
    by (fastforce simp: rows sql_update_def sorted_wrt_append intro: map_idI)
  have edited: "chained_rows (edit_row (ar_id r) f l)
      = pre @ f r # sql_update (\<lambda>x. ar_id x = ar_id r) f post"
    using pre by (simp add: chained_edit keeps rows sql_update_append) (simp add: sql_update_def)
  from ok have "\<exists>m. verify_rows H [] 0 pre = Verified m"
    "ar_prev_hash r = Some (row_hash H (head_hash [] pre) r)"
    by (auto simp: verify_from_0 wf rows verify_rows_append split: chain_verdict.splits if_splits)
  with hash show ?thesis
    by (auto simp: verify_from_0 wf_edit wf keeps edited verify_rows_append)
qed

text \<open>
  The newest hash commits to the whole history: two logs that verify, with as many chained rows
  and the same newest hash, agree on action, target, details and time of every chained row, as
  long as the truncated hash has no collision among the inputs of the two chains, digests and
  fields do not contain the unit separator.
\<close>

theorem newest_hash_commits:
  assumes "wf_log l" "wf_log l'"
    and "verifyAuditChain H 0 l = Verified n" "verifyAuditChain H 0 l' = Verified n"
    and "lastPrevHash l = lastPrevHash l'"
    and "inj_on (\<lambda>x. take HASH_LEN (H x))
           (chain_inputs [] (chained_rows l) \<union> chain_inputs [] (chained_rows l'))"
    and "\<And>x. sep_free (H x)"
    and "\<forall>r \<in> set (chained_rows l) \<union> set (chained_rows l'). sep_free_row r"
  shows "map hashed_fields (chained_rows l) = map hashed_fields (chained_rows l')"
  using assms verify_rows_count [of H "[]" 0 "chained_rows l" n]
    verify_rows_count [of H "[]" 0 "chained_rows l'" n]
  by (intro chain_commits [where H = H and p = "[]" and n = 0 and m = n and k = n])
     (auto simp: verify_from_0 lastPrevHash_chained sep_free_def)

text \<open>
  What the chain does not protect: rewriting the actor of any row, or cutting rows off the end,
  leaves a verified log verified.
\<close>

theorem actor_and_tail_unprotected:
  assumes "wf_log l" and "verifyAuditChain H 0 l = Verified n"
  shows "verifyAuditChain H 0 (edit_row k (\<lambda>r. r\<lparr>ar_actor := a\<rparr>) l) = Verified n \<and>
    (\<exists>m \<le> n. verifyAuditChain H 0 (l\<lparr>al_rows := take j (al_rows l)\<rparr>) = Verified m)"
proof (intro conjI)
  have "verify_rows H p i (sql_update (\<lambda>r. ar_id r = k) (\<lambda>r. r\<lparr>ar_actor := a\<rparr>) rs)
      = verify_rows H p i rs" for p i rs
    by (induction rs arbitrary: p i) (auto simp: sql_update_def row_hash_def)
  then show "verifyAuditChain H 0 (edit_row k (\<lambda>r. r\<lparr>ar_actor := a\<rparr>) l) = Verified n"
    using assms by (simp add: verify_from_0 wf_edit chained_edit)
  have wf': "wf_log (l\<lparr>al_rows := take j (al_rows l)\<rparr>)"
    using assms(1) by (auto simp: wf_log_def take_map [symmetric] sorted_wrt_take dest: in_set_takeD)
  have "chained_rows l = chained_rows (l\<lparr>al_rows := take j (al_rows l)\<rparr>)
      @ chained_rows (l\<lparr>al_rows := drop j (al_rows l)\<rparr>)"
    by (simp add: chained_rows_def flip: filter_append)
  then obtain m where m: "verify_rows H [] 0 (chained_rows (l\<lparr>al_rows := take j (al_rows l)\<rparr>)) = Verified m"
    using assms by (auto simp: verify_from_0 verify_rows_append split: chain_verdict.splits)
  moreover have "m \<le> n"
    using verify_rows_count [OF m] verify_rows_count [OF assms(2) [unfolded verify_from_0 [OF assms(1)]]]
      \<open>chained_rows l = _\<close> by simp
  ultimately show "\<exists>m \<le> n. verifyAuditChain H 0 (l\<lparr>al_rows := take j (al_rows l)\<rparr>) = Verified m"
    by (auto simp: verify_from_0 wf')
qed

text \<open>
  Verification from a later row restarts with the empty predecessor: in a log that verifies,
  verifyAuditChain from a key that leaves out an earlier chained row reports a break at the first
  row it reads, unless that row's hash happens to be the one of a first row.
\<close>

theorem verify_from_later_row_breaks:
  assumes "wf_log l" and "verifyAuditChain H 0 l = Verified n"
    and "chained_rows l = pre @ r # post" and "\<forall>x \<in> set pre. ar_id x < k" and "k \<le> ar_id r"
    and "row_hash H [] r \<noteq> row_hash H (head_hash [] pre) r"
  shows "verifyAuditChain H k l = BrokenAt (ar_id r)"
proof -
  from assms have "ar_prev_hash r = Some (row_hash H (head_hash [] pre) r)"
    by (auto simp: verify_from_0 verify_rows_append split: chain_verdict.splits if_splits)
  moreover have "filter (\<lambda>x. k \<le> ar_id x) (chained_rows l) = r # filter (\<lambda>x. k \<le> ar_id x) post"
    using assms(4,5) by (auto simp: assms(3) filter_empty_conv)
  ultimately show ?thesis using assms(1,6) by (simp add: verify_chained)
qed

subsection \<open>Witnesses\<close>

definition w_strip :: audit_write where
  "w_strip = \<lparr>aw_action = ''strip'', aw_target_type = ''obs'', aw_target_id = ''o1'',
     aw_details_json = ''{}'', aw_actor = ''sys'', aw_created_at = ''t1''\<rparr>"

definition w_warn :: audit_write where
  "w_warn = \<lparr>aw_action = ''warn'', aw_target_type = ''ev'', aw_target_id = ''e1'',
     aw_details_json = ''{}'', aw_actor = ''sys'', aw_created_at = ''t2''\<rparr>"

definition no_sep :: "string \<Rightarrow> string" where
  "no_sep x = filter (\<lambda>c. c \<noteq> CHR 0x1F) x"

definition log2 :: audit_log where
  "log2 = audit_run no_sep [Inl w_strip, Inr w_warn, Inl w_warn]"

definition row_strip :: audit_row where
  "row_strip = \<lparr>ar_id = 1, ar_action = ''strip'', ar_actor = ''sys'', ar_target_type = ''obs'',
     ar_target_id = ''o1'', ar_details_json = ''{}'', ar_created_at = ''t1'',
     ar_prev_hash = Some ''stripobso1{}t1''\<rparr>"

definition row_warn :: audit_row where
  "row_warn = \<lparr>ar_id = 3, ar_action = ''warn'', ar_actor = ''sys'', ar_target_type = ''ev'',
     ar_target_id = ''e1'', ar_details_json = ''{}'', ar_created_at = ''t2'',
     ar_prev_hash = Some ''stripobso1{}t1warneve1{}t2''\<rparr>"

lemma log2_rows: "chained_rows log2 = [row_strip, row_warn]"
  by code_simp

lemma log2_wf: "wf_log log2"
  by (simp add: log2_def wf_audit_run)

lemma log2_verified: "verifyAuditChain no_sep 0 log2 = Verified 2"
  by (simp add: log2_def audit_run_verified)

theorem tampering_is_located_witness:
  "verifyAuditChain no_sep 0 (edit_row 1 (\<lambda>r. r\<lparr>ar_details_json := ''[]''\<rparr>) log2) = BrokenAt 1"
proof -
  have "verifyAuditChain no_sep 0 (edit_row (ar_id row_strip) (\<lambda>r. r\<lparr>ar_details_json := ''[]''\<rparr>) log2)
      = BrokenAt (ar_id row_strip)"
  proof (rule tampering_is_located [OF log2_wf log2_verified, of "[]" row_strip "[row_warn]"])
    show "sep_free_row row_strip" "sep_free_row (row_strip\<lparr>ar_details_json := ''[]''\<rparr>)"
      "hashed_fields (row_strip\<lparr>ar_details_json := ''[]''\<rparr>) \<noteq> hashed_fields row_strip"
      by code_simp+
    have "take HASH_LEN (no_sep (row_input (head_hash [] []) row_strip)) \<noteq>
        take HASH_LEN (no_sep (row_input (head_hash [] []) (row_strip\<lparr>ar_details_json := ''[]''\<rparr>)))"
      by code_simp
    then show "inj_on (\<lambda>x. take HASH_LEN (no_sep x)) {row_input (head_hash [] []) row_strip,
        row_input (head_hash [] []) (row_strip\<lparr>ar_details_json := ''[]''\<rparr>)}"
      by (auto simp: inj_on_def)
  qed (simp_all add: log2_rows)
  then show ?thesis by (simp add: row_strip_def)
qed

definition log1 :: audit_log where
  "log1 = audit_run no_sep [Inl w_strip]"

definition log1' :: audit_log where
  "log1' = audit_run no_sep [Inl (w_strip\<lparr>aw_actor := ''other''\<rparr>)]"

lemma log1_rows:
  "chained_rows log1 = [row_strip]" "chained_rows log1' = [row_strip\<lparr>ar_actor := ''other''\<rparr>]"
  by code_simp+

theorem newest_hash_commits_witness:
  "log1 \<noteq> log1' \<and> map hashed_fields (chained_rows log1) = map hashed_fields (chained_rows log1')"
proof
  show "log1 \<noteq> log1'" by code_simp
  show "map hashed_fields (chained_rows log1) = map hashed_fields (chained_rows log1')"
  proof (rule newest_hash_commits [where H = no_sep and n = 1])
    show "verifyAuditChain no_sep 0 log1 = Verified 1" "verifyAuditChain no_sep 0 log1' = Verified 1"
      by (simp_all add: log1_def log1'_def audit_run_verified)
    show "lastPrevHash log1 = lastPrevHash log1'" by code_simp
    show "\<forall>r \<in> set (chained_rows log1) \<union> set (chained_rows log1'). sep_free_row r"
      by (simp add: log1_rows) code_simp
  qed (simp_all add: log1_def log1'_def wf_audit_run log1_rows [unfolded log1_def log1'_def]
      row_input_def sep_free_def no_sep_def)
qed

theorem actor_and_tail_unprotected_witness:
  "verifyAuditChain no_sep 0 (edit_row 1 (\<lambda>r. r\<lparr>ar_actor := ''mallory''\<rparr>) log2) = Verified 2 \<and>
   (\<exists>m \<le> 2. verifyAuditChain no_sep 0 (log2\<lparr>al_rows := take 1 (al_rows log2)\<rparr>) = Verified m)"
  by (rule actor_and_tail_unprotected [OF log2_wf log2_verified])

theorem verify_from_later_row_breaks_witness: "verifyAuditChain no_sep 2 log2 = BrokenAt 3"
proof -
  have "verifyAuditChain no_sep 2 log2 = BrokenAt (ar_id row_warn)"
  proof (rule verify_from_later_row_breaks [OF log2_wf log2_verified, of "[row_strip]" row_warn "[]"])
    show "row_hash no_sep [] row_warn \<noteq> row_hash no_sep (head_hash [] [row_strip]) row_warn"
      by code_simp
  qed (simp_all add: log2_rows, simp_all add: row_strip_def row_warn_def)
  then show ?thesis by (simp add: row_warn_def)
qed

end
