(* ===== verification/Privacy_Tags.thy ===== *)
theory Privacy_Tags
  imports Prelude "HOL-Library.Sublist"
begin

text \<open>
  The ingest sanitizer of \<open>memory-server/src/core/privacy-tags.ts\<close>. The regular expression
  \<open>/<private\b[^>]*>[\s\S]*?<\/private>/gi\<close> is written out as the matcher it denotes: at one
  position it can match in at most one way, because \<open>[^>]*>\<close> stops at the first \<open>>\<close> and the
  lazy \<open>[\s\S]*?\<close> at the first closing tag. The digest of a block is a parameter.
\<close>

subsection \<open>The pattern\<close>

definition ascii_fold :: "char \<Rightarrow> char" where
  "ascii_fold c = (let n = (of_char c :: nat) in if 65 \<le> n \<and> n \<le> 90 then char_of (n + 32) else c)"

definition is_word_char :: "char \<Rightarrow> bool" where
  "is_word_char c = (let n = (of_char c :: nat) in
     (48 \<le> n \<and> n \<le> 57) \<or> (65 \<le> n \<and> n \<le> 90) \<or> n = 95 \<or> (97 \<le> n \<and> n \<le> 122))"

text \<open>\<open>chop_ci p s\<close>: what follows \<open>p\<close> in \<open>s\<close>, letters compared without case.\<close>

fun chop_ci :: "string \<Rightarrow> string \<Rightarrow> string option" where
  "chop_ci [] s = Some s"
| "chop_ci (p # ps) [] = None"
| "chop_ci (p # ps) (c # s) = (if ascii_fold p = ascii_fold c then chop_ci ps s else None)"

definition at_word_boundary :: "string \<Rightarrow> bool" where
  "at_word_boundary s = (case s of [] \<Rightarrow> True | c # _ \<Rightarrow> \<not> is_word_char c)"

fun after_first :: "string \<Rightarrow> string \<Rightarrow> string option" where
  "after_first p [] = chop_ci p []"
| "after_first p (c # s) =
     (case chop_ci p (c # s) of Some r \<Rightarrow> Some r | None \<Rightarrow> after_first p s)"

text \<open>A match that starts at the first character, and what it leaves.\<close>

definition match_private :: "string \<Rightarrow> string option" where
  "match_private s =
     (case chop_ci ''<private'' s of
        None \<Rightarrow> None
      | Some r \<Rightarrow>
          if at_word_boundary r
          then (case dropWhile (\<lambda>c. c \<noteq> CHR ''>'') r of
                  [] \<Rightarrow> None
                | _ # body \<Rightarrow> after_first ''</private>'' body)
          else None)"

lemma chop_ci_length: "chop_ci p s = Some r \<Longrightarrow> length s = length p + length r"
  by (induction p s rule: chop_ci.induct) (auto split: if_splits)

lemma chop_ci_suffix: "chop_ci p s = Some r \<Longrightarrow> suffix r s"
  by (induction p s rule: chop_ci.induct) (auto split: if_splits intro: suffix_ConsI)

lemma after_first_suffix: "after_first p s = Some r \<Longrightarrow> suffix r s"
  by (induction p s rule: after_first.induct)
     (auto split: option.splits dest: chop_ci_suffix intro: suffix_ConsI)

lemma match_private_Some:
  assumes "match_private s = Some r"
  obtains u c body where "chop_ci ''<private'' s = Some u" "at_word_boundary u"
    "dropWhile (\<lambda>c. c \<noteq> CHR ''>'') u = c # body" "after_first ''</private>'' body = Some r"
  using assms unfolding match_private_def by (auto split: option.splits if_splits list.splits)

lemma match_private_parts:
  assumes "match_private s = Some r"
  shows "suffix r s \<and> length r < length s"
proof -
  obtain u c body where u: "chop_ci ''<private'' s = Some u"
    and d: "dropWhile (\<lambda>c. c \<noteq> CHR ''>'') u = c # body"
    and r: "after_first ''</private>'' body = Some r"
    using match_private_Some [OF assms] .
  have "suffix (c # body) u" using d suffix_dropWhile by metis
  then have "suffix body u" by (auto dest: suffix_ConsD)
  moreover have "suffix u s" "suffix r body"
    using u r by (auto dest: chop_ci_suffix after_first_suffix)
  moreover have "length s = 8 + length u" using chop_ci_length [OF u] by simp
  ultimately show ?thesis
    by (metis add_strict_increasing suffix_length_le suffix_order.trans zero_less_numeral)
qed

lemmas match_private_shorter = match_private_parts [THEN conjunct2]
lemmas match_private_suffix = match_private_parts [THEN conjunct1]

subsection \<open>Global match and replace\<close>

function strip_all :: "string \<Rightarrow> string" where
  "strip_all [] = []"
| "strip_all (c # s) =
     (case match_private (c # s) of
        Some r \<Rightarrow> strip_all r
      | None \<Rightarrow> c # strip_all s)"
  by pat_completeness auto
termination
  by (relation "measure length") (auto dest: match_private_shorter)

function private_blocks :: "string \<Rightarrow> string list" where
  "private_blocks [] = []"
| "private_blocks (c # s) =
     (case match_private (c # s) of
        Some r \<Rightarrow> take (length (c # s) - length r) (c # s) # private_blocks r
      | None \<Rightarrow> private_blocks s)"
  by pat_completeness auto
termination
  by (relation "measure length") (auto dest: match_private_shorter)

definition stripPrivateBlocksRaw :: "string option \<Rightarrow> string option" where
  "stripPrivateBlocksRaw text =
     (case text of
        None \<Rightarrow> None
      | Some t \<Rightarrow> if t = [] then Some t else Some (strip_all t))"

definition stripPrivateBlocks :: "string option \<Rightarrow> string option" where
  "stripPrivateBlocks text = stripPrivateBlocksRaw text"

text \<open>
  The audited variant returns the stripped text and what it hands to \<open>onStrip\<close>, when it calls it:
  the number of blocks and the first 16 characters of the digest of each.
\<close>

definition stripPrivateBlocksAudited ::
  "(string \<Rightarrow> string) \<Rightarrow> string option \<Rightarrow> bool \<Rightarrow> string option \<times> (nat \<times> string list) option" where
  "stripPrivateBlocksAudited H text has_callback =
     (case text of
        None \<Rightarrow> (None, None)
      | Some t \<Rightarrow>
          if t = [] then (Some t, None)
          else (let matches = private_blocks t; stripped = strip_all t
                in (Some stripped,
                    if matches \<noteq> [] \<and> has_callback
                    then Some (length matches, map (\<lambda>m. take 16 (H m)) matches)
                    else None)))"

subsection \<open>How the text splits\<close>

lemma chop_ci_split:
  "chop_ci p s = Some r \<Longrightarrow> \<exists>x. s = x @ r \<and> (\<forall>r'. chop_ci p (x @ r') = Some r')"
proof (induction p s rule: chop_ci.induct)
  case (3 p ps c s)
  then obtain x where "s = x @ r \<and> (\<forall>r'. chop_ci ps (x @ r') = Some r')"
    by (auto split: if_splits)
  with 3 show ?case by (intro exI [of _ "c # x"]) (auto split: if_splits)
qed auto

lemma chop_ci_append: "chop_ci p x = Some y \<Longrightarrow> chop_ci p (x @ z) = Some (y @ z)"
  by (induction p x rule: chop_ci.induct) (auto split: if_splits)

lemma after_first_split:
  "after_first p s = Some r \<Longrightarrow> \<exists>x. s = x @ r \<and> after_first p x = Some []"
proof (induction p s rule: after_first.induct)
  case (1 p)
  then show ?case
    by (intro exI [of _ "[]"]) (auto dest: chop_ci_suffix)
next
  case (2 p c s)
  show ?case
  proof (cases "chop_ci p (c # s)")
    case (Some q)
    with "2.prems" have "chop_ci p (c # s) = Some r" by simp
    then obtain x where x: "c # s = x @ r" "\<forall>r'. chop_ci p (x @ r') = Some r'"
      using chop_ci_split by blast
    then have "chop_ci p x = Some []" by (metis append_Nil2)
    then have "after_first p x = Some []" by (cases x) auto
    with x show ?thesis by blast
  next
    case None
    with "2" obtain x where x: "s = x @ r" "after_first p x = Some []" by auto
    have "chop_ci p (c # x) = None"
    proof (cases "chop_ci p (c # x)")
      case (Some y)
      then have "chop_ci p (c # s) = Some (y @ r)" using chop_ci_append x(1) by fastforce
      with None show ?thesis by simp
    qed simp
    with x show ?thesis by (intro exI [of _ "c # x"]) auto
  qed
qed

text \<open>A matched block is itself one well-formed block, with nothing left over.\<close>

lemma match_private_split:
  assumes "match_private s = Some r"
  shows "\<exists>b. s = b @ r \<and> b \<noteq> [] \<and> match_private b = Some []"
proof -
  obtain u c body where u: "chop_ci ''<private'' s = Some u" "at_word_boundary u"
    and d: "dropWhile (\<lambda>c. c \<noteq> CHR ''>'') u = c # body"
    and r: "after_first ''</private>'' body = Some r"
    using match_private_Some [OF assms] .
  obtain x where x: "s = x @ u" "\<And>r'. chop_ci ''<private'' (x @ r') = Some r'"
    using chop_ci_split [OF u(1)] by blast
  obtain y where y: "body = y @ r" "after_first ''</private>'' y = Some []"
    using after_first_split [OF r] by blast
  define w where "w = takeWhile (\<lambda>c. c \<noteq> CHR ''>'') u"
  have uw: "u = w @ c # y @ r" using d y by (metis takeWhile_dropWhile_id w_def)
  have c: "c = CHR ''>''" using d by (metis (mono_tags) dropWhile_eq_Cons_conv)
  have "\<forall>z \<in> set w. z \<noteq> CHR ''>''" by (auto simp: w_def dest: set_takeWhileD)
  then have "dropWhile (\<lambda>c. c \<noteq> CHR ''>'') (w @ c # y) = c # y"
    using c by (simp add: dropWhile_append2)
  moreover have "at_word_boundary (w @ c # y)"
    using u(2) uw by (cases w) (auto simp: at_word_boundary_def)
  ultimately have "match_private (x @ w @ c # y) = Some []"
    using x(2) y(2) by (simp add: match_private_def)
  moreover have "s = (x @ w @ c # y) @ r" using x(1) uw by simp
  ultimately show ?thesis by blast
qed

lemma block_of_match:
  assumes "match_private (c # s) = Some r"
  obtains b where "c # s = b @ r" "b \<noteq> []" "match_private b = Some []"
    "private_blocks (c # s) = b # private_blocks r" "strip_all (c # s) = strip_all r"
proof -
  obtain b where b: "c # s = b @ r" "b \<noteq> []" "match_private b = Some []"
    using match_private_split [OF assms] by blast
  then have "take (length (c # s) - length r) (c # s) = b" by simp
  with assms have "private_blocks (c # s) = b # private_blocks r" by (simp del: take_Cons')
  moreover have "strip_all (c # s) = strip_all r" using assms by simp
  ultimately show thesis using b that by metis
qed

lemma shuffles_block: "z \<in> shuffles xs ys \<Longrightarrow> b @ z \<in> shuffles xs (b @ ys)"
  by (induction b) (auto intro: Cons_in_shuffles_rightI)

lemma strip_splits:
  "t \<in> shuffles (strip_all t) (concat (private_blocks t)) \<and>
   (\<forall>b \<in> set (private_blocks t). match_private b = Some [])"
proof (induction t rule: strip_all.induct)
  case (2 c s)
  show ?case
  proof (cases "match_private (c # s)")
    case None
    with 2 show ?thesis by (auto intro: Cons_in_shuffles_leftI)
  next
    case (Some r)
    then obtain b where b: "c # s = b @ r" "match_private b = Some []"
      "private_blocks (c # s) = b # private_blocks r" "strip_all (c # s) = strip_all r"
      using block_of_match by metis
    have "c # s \<in> shuffles (strip_all r) (b @ concat (private_blocks r))"
      unfolding b(1) using 2(2) [OF Some] by (blast intro: shuffles_block)
    with 2(2) [OF Some] b(2) show ?thesis by (simp only: b(3,4) concat.simps list.set) blast
  qed
qed simp

lemma strip_no_block: "private_blocks t = [] \<Longrightarrow> strip_all t = t"
  by (induction t rule: strip_all.induct) (auto split: option.splits)

lemma strip_changes: "private_blocks t \<noteq> [] \<Longrightarrow> length (strip_all t) < length t"
proof -
  assume "private_blocks t \<noteq> []"
  then obtain b bs where bs: "private_blocks t = b # bs" by (cases "private_blocks t") auto
  with strip_splits [of t] have "match_private b = Some []" by simp
  then have "b \<noteq> []" using match_private_shorter by fastforce
  moreover have "length t = length (strip_all t) + length (concat (private_blocks t))"
    using strip_splits [of t] length_shuffles by blast
  ultimately show ?thesis using bs by simp
qed

lemma no_block_iff: "private_blocks t = [] \<longleftrightarrow> (\<forall>s. suffix s t \<longrightarrow> match_private s = None)"
proof (induction t rule: private_blocks.induct)
  case 1
  then show ?case by (auto simp: match_private_def)
next
  case (2 c s)
  then show ?case by (auto split: option.splits simp: suffix_Cons)
qed

subsection \<open>Properties\<close>

text \<open>
  Stripping only takes blocks out: the text is an interleaving, in order, of the kept text and
  the reported blocks, and each reported block is a complete private block from its opening tag to
  the first closing one. Nothing else is lost and nothing is invented.
\<close>

theorem strip_partitions_text:
  "t \<in> shuffles (strip_all t) (concat (private_blocks t)) \<and>
   (\<forall>b \<in> set (private_blocks t). match_private b = Some [])"
  by (rule strip_splits)

theorem strip_partitions_text_witness:
  "''a <PRIVATE why=x>k</private> b'' \<in> shuffles ''a  b'' ''<PRIVATE why=x>k</private>''"
proof -
  have "strip_all ''a <PRIVATE why=x>k</private> b'' = ''a  b''"
    and "private_blocks ''a <PRIVATE why=x>k</private> b'' = [''<PRIVATE why=x>k</private>'']"
    by code_simp+
  then show ?thesis
    using strip_partitions_text [of "''a <PRIVATE why=x>k</private> b''"]
    by (simp only: concat.simps append_Nil2)
qed

text \<open>
  The audit callback of stripPrivateBlocksAudited fires exactly when the stored content differs
  from the input; it reports the number of removed blocks (at least one) and one 16-character
  digest prefix for each, and the text returned is that of stripPrivateBlocks.
\<close>

theorem strip_audited_iff_changed:
  "case stripPrivateBlocksAudited H (Some t) True of
     (u, report) \<Rightarrow>
       u = stripPrivateBlocks (Some t) \<and> (report = None \<longleftrightarrow> u = Some t) \<and>
       (case report of None \<Rightarrow> True
        | Some (n, hashes) \<Rightarrow> 0 < n \<and> n = length (private_blocks t) \<and>
            hashes = map (\<lambda>b. take 16 (H b)) (private_blocks t))"
  using strip_no_block [of t] strip_changes [of t]
  by (auto simp: stripPrivateBlocksAudited_def stripPrivateBlocks_def stripPrivateBlocksRaw_def Let_def)

text \<open>
  Malformed tags are left alone: when no position of the text starts a well-formed block, and
  only then, no block is reported, and the text comes back unchanged.
\<close>

theorem strip_leaves_malformed:
  "(private_blocks t = []) = (\<forall>s. suffix s t \<longrightarrow> match_private s = None) \<and>
   (private_blocks t = [] \<longrightarrow> stripPrivateBlocks (Some t) = Some t)"
  using no_block_iff strip_no_block by (auto simp: stripPrivateBlocks_def stripPrivateBlocksRaw_def)

theorem strip_leaves_malformed_witness:
  "stripPrivateBlocks (Some ''<private>x</privat>'') = Some ''<private>x</privat>''"
proof -
  have "private_blocks ''<private>x</privat>'' = []" by code_simp
  then show ?thesis using strip_leaves_malformed by blast
qed

text \<open>
  The sanitizer makes a single pass: taking out one block can join the text around it into a
  new well-formed block, which is stored; a second pass would remove it.
\<close>

theorem strip_single_pass_leaks:
  "strip_all ''<pri<private></private>vate>key</private>'' = ''<private>key</private>'' \<and>
   strip_all ''<private>key</private>'' = []"
  by code_simp

end
