(* ===== verification/Tables.thy ===== *)
theory Tables
  imports Prelude "HOL-Library.Char_ord" "HOL-Library.List_Lexorder" Complex_Main
begin

text \<open>
  The rows of the SQLite tables the recorder, the gate, the verifier and the forget policy share
  (\<open>memory-server/src/db/schema.ts\<close>), column for column; a nullable column is an option. Texts,
  ISO timestamps included, are strings and compare as SQLite compares them, character by character.
  A REAL column is a rational: rounding of doubles is not modelled.
\<close>

record session_row =
  ss_session_id :: string
  ss_platform :: string
  ss_project :: string
  ss_started_at :: string
  ss_ended_at :: "string option"
  ss_summary :: "string option"
  ss_summary_mode :: "string option"
  ss_correlation_id :: "string option"
  ss_user_id :: string
  ss_team_id :: "string option"
  ss_created_at :: string
  ss_updated_at :: string

record event_row =
  ev_event_id :: string
  ev_platform :: string
  ev_project :: string
  ev_session_id :: string
  ev_event_type :: string
  ev_ts :: string
  ev_payload_json :: string
  ev_tags_json :: string
  ev_privacy_tags_json :: string
  ev_dedupe_hash :: string
  ev_observation_id :: "string option"
  ev_correlation_id :: "string option"
  ev_user_id :: string
  ev_team_id :: "string option"
  ev_created_at :: string

record obs_row =
  ob_id :: string
  ob_event_id :: "string option"
  ob_platform :: string
  ob_project :: string
  ob_session_id :: string
  ob_title :: "string option"
  ob_content :: string
  ob_content_redacted :: string
  ob_content_dedupe_hash :: "string option"
  ob_raw_text :: "string option"
  ob_observation_type :: string
  ob_memory_type :: string
  ob_tags_json :: string
  ob_privacy_tags_json :: string
  ob_signal_score :: "rat option"
  ob_access_count :: "int option"
  ob_user_id :: string
  ob_team_id :: "string option"
  ob_event_time :: "string option"
  ob_observed_at :: "string option"
  ob_valid_from :: "string option"
  ob_valid_to :: "string option"
  ob_supersedes :: "string option"
  ob_invalidated_at :: "string option"
  ob_archived_at :: "string option"
  ob_expires_at :: "string option"
  ob_thread_id :: "string option"
  ob_topic :: "string option"
  ob_branch :: "string option"
  ob_created_at :: string
  ob_updated_at :: string

record tag_row =
  tg_observation_id :: string
  tg_tag :: string
  tg_tag_type :: string
  tg_created_at :: string

record link_row =
  li_from :: string
  li_to :: string
  li_relation :: string
  li_weight :: rat
  li_created_at :: string

record retry_row =
  rt_id :: nat
  rt_event_json :: string
  rt_reason :: string
  rt_retry_count :: int
  rt_next_retry_at :: string
  rt_created_at :: string
  rt_updated_at :: string

text \<open>A row that is in force: not archived.\<close>

definition live :: "obs_row \<Rightarrow> bool" where
  "live r \<longleftrightarrow> ob_archived_at r = None"

text \<open>The live rows that carry a content hash: what both dedupe paths look up.\<close>

definition live_with_hash :: "string \<Rightarrow> obs_row list \<Rightarrow> obs_row list" where
  "live_with_hash h t = sql_where (\<lambda>r. sql_eq (ob_content_dedupe_hash r) (Some h) \<and> live r) t"

lemma live_with_hash_empty:
  "live_with_hash h t = [] \<longleftrightarrow> (\<forall>r \<in> set t. live r \<longrightarrow> ob_content_dedupe_hash r \<noteq> Some h)"
  by (auto simp: live_with_hash_def sql_where_def filter_empty_conv sql_eq_Some)

end
