(* ===== verification/Ddouns_Gate.thy ===== *)
theory Ddouns_Gate
  imports Tables Privacy_Tags
begin

text \<open>
  The substrate gate of \<open>memory-server/src/core/ddouns-gate.ts\<close>: environment configuration, the
  dedup probe on \<open>mem_observations\<close>, the closure-evidence check with its tag cache, and the
  verdict. \<open>git rev-parse\<close> is a parameter; the process-wide cache is passed as state. The regular
  expression of the marker is written out in its matching order: the attribute nearest to the first
  \<open>>\<close> is tried first, as the greedy \<open>[^>]*\<close> does.
\<close>

subsection \<open>Configuration\<close>

datatype gate_mode = Block | Warn | Audit

record gate_config =
  gc_enabled :: bool
  gc_mode :: gate_mode
  gc_git_root :: "string option"

record gate_env =
  DDOUNS_GATE_ENABLED :: "string option"
  DDOUNS_GATE_MODE :: "string option"
  DDOUNS_GATE_GIT_ROOT :: "string option"

definition resolveGateConfig :: "gate_env \<Rightarrow> gate_config" where
  "resolveGateConfig env =
     (let rawMode = js_lower (or_else (DDOUNS_GATE_MODE env) ''block'') in
      \<lparr>gc_enabled = (DDOUNS_GATE_ENABLED env = Some ''1''),
       gc_mode = (if rawMode = ''warn'' then Warn else if rawMode = ''audit'' then Audit else Block),
       gc_git_root = DDOUNS_GATE_GIT_ROOT env\<rparr>)"

subsection \<open>Dedup probe\<close>

text \<open>The table is \<open>None\<close> when the query throws (it may not exist yet on a first run).\<close>

definition dedupCheckL1 :: "obs_row list option \<Rightarrow> string option \<Rightarrow> bool \<times> string option" where
  "dedupCheckL1 db candidateHash =
     (if \<not> truthy candidateHash then (False, None)
      else (case db of
              None \<Rightarrow> (False, candidateHash)
            | Some t \<Rightarrow>
                (sql_get (live_with_hash (or_else candidateHash []) t) \<noteq> None, candidateHash)))"

subsection \<open>Closure evidence\<close>

definition is_quote :: "char \<Rightarrow> bool" where
  "is_quote c \<longleftrightarrow> c = CHR 0x22 \<or> c = CHR 0x27"

text \<open>\<open>tag\s*=\s*["']([^"']+)["'][^>]*\/?>\<close> at the start of the text: the captured value.\<close>

definition tag_attribute :: "string \<Rightarrow> string option" where
  "tag_attribute v =
     (case chop_ci ''tag'' v of
        None \<Rightarrow> None
      | Some w \<Rightarrow>
          (case dropWhile is_js_space w of
             [] \<Rightarrow> None
           | e # w2 \<Rightarrow>
               if e \<noteq> CHR ''='' then None
               else (case dropWhile is_js_space w2 of
                       [] \<Rightarrow> None
                     | q # w4 \<Rightarrow>
                         if \<not> is_quote q then None
                         else (let val = takeWhile (\<lambda>c. \<not> is_quote c) w4 in
                               case dropWhile (\<lambda>c. \<not> is_quote c) w4 of
                                 [] \<Rightarrow> None
                               | q2 # w5 \<Rightarrow>
                                   if val \<noteq> [] \<and> CHR ''>'' \<in> set w5 then Some val else None))))"

text \<open>
  \<open>[^>]*\btag...\<close> after the element name: the attribute may start behind any of the first \<open>k\<close>
  characters that is not a word character; the longest prefix is tried first.
\<close>

fun last_tag_attribute :: "nat \<Rightarrow> string \<Rightarrow> string option" where
  "last_tag_attribute 0 u = None"
| "last_tag_attribute (Suc k) u =
     (case (if is_word_char (u ! k) then None else tag_attribute (drop (Suc k) u)) of
        Some v \<Rightarrow> Some v
      | None \<Rightarrow> last_tag_attribute k u)"

definition closure_marker_at :: "string \<Rightarrow> string option" where
  "closure_marker_at s =
     (case chop_ci ''<closure_evidence'' s of
        None \<Rightarrow> None
      | Some u \<Rightarrow>
          if at_word_boundary u
          then last_tag_attribute (length (takeWhile (\<lambda>c. c \<noteq> CHR ''>'') u)) u
          else None)"

fun match_closure :: "string \<Rightarrow> string option" where
  "match_closure [] = None"
| "match_closure (c # s) =
     (case closure_marker_at (c # s) of Some v \<Rightarrow> Some v | None \<Rightarrow> match_closure s)"

datatype spawn_result = Exited int | NoStatus | Threw

type_synonym tag_cache = "string \<rightharpoonup> bool"
type_synonym git = "string option \<Rightarrow> string \<Rightarrow> spawn_result"

definition cache_key :: "string option \<Rightarrow> string \<Rightarrow> string" where
  "cache_key cwd tag = or_else cwd ''.'' @ ''::'' @ tag"

definition gitTagExists :: "git \<Rightarrow> string \<Rightarrow> string option \<Rightarrow> tag_cache \<Rightarrow> bool \<times> tag_cache" where
  "gitTagExists git tag cwd cache =
     (case cache (cache_key cwd tag) of
        Some b \<Rightarrow> (b, cache)
      | None \<Rightarrow>
          (case git cwd tag of
             Threw \<Rightarrow> (False, cache(cache_key cwd tag \<mapsto> False))
           | r \<Rightarrow> (let b = (r = Exited 0) in (b, cache(cache_key cwd tag \<mapsto> b)))))"

definition resetGateCaches :: "tag_cache \<Rightarrow> tag_cache" where
  "resetGateCaches cache = Map.empty"

record closure_result =
  cl_reject :: bool
  cl_reason :: "string option"
  cl_tag :: "string option"

definition closureCheckL1 ::
  "git \<Rightarrow> string \<Rightarrow> string option \<Rightarrow> tag_cache \<Rightarrow> closure_result \<times> tag_cache" where
  "closureCheckL1 git content cwd cache =
     (case match_closure content of
        None \<Rightarrow> (\<lparr>cl_reject = False, cl_reason = None, cl_tag = None\<rparr>, cache)
      | Some m \<Rightarrow>
          (let tag = js_trim m in
           if tag = []
           then (\<lparr>cl_reject = True,
                  cl_reason = Some ''closure_evidence marker has empty tag'', cl_tag = None\<rparr>, cache)
           else (case gitTagExists git tag cwd cache of
                   (ok, cache') \<Rightarrow>
                     if \<not> ok
                     then (\<lparr>cl_reject = True,
                            cl_reason = Some (''closure_evidence tag '' @ [CHR 0x27] @ tag @ [CHR 0x27]
                                              @ '' does not resolve via git rev-parse''),
                            cl_tag = Some tag\<rparr>, cache')
                     else (\<lparr>cl_reject = False, cl_reason = None, cl_tag = Some tag\<rparr>, cache'))))"

subsection \<open>Verdict\<close>

datatype gate_decision = Accept | Reject | WarnDecision

record gate_verdict =
  gv_decision :: gate_decision
  gv_reasons :: "string list"
  gv_closure_evidence :: "string option"

definition evaluateGateL2 :: gate_verdict where
  "evaluateGateL2 = \<lparr>gv_decision = Accept, gv_reasons = [], gv_closure_evidence = None\<rparr>"

definition evaluateGate ::
  "git \<Rightarrow> gate_env \<Rightarrow> string \<Rightarrow> obs_row list option \<Rightarrow> string option \<Rightarrow> tag_cache \<Rightarrow>
     gate_verdict \<times> tag_cache"
where
  "evaluateGate git env content db contentDedupeHash cache =
     (let cfg = resolveGateConfig env in
      case closureCheckL1 git content (gc_git_root cfg) cache of
        (closure, cache') \<Rightarrow>
          if cl_reject closure
          then (\<lparr>gv_decision = Reject,
                 gv_reasons = [or_else (cl_reason closure) ''closure_evidence rejected''],
                 gv_closure_evidence = cl_tag closure\<rparr>, cache')
          else if fst (dedupCheckL1 db contentDedupeHash)
          then (\<lparr>gv_decision = Reject, gv_reasons = [''dedup_collision_l1''],
                 gv_closure_evidence = cl_tag closure\<rparr>, cache')
          else (evaluateGateL2, cache'))"

subsection \<open>Specification\<close>

text \<open>What the gate promises, without cache and without order of evaluation.\<close>

definition closure_violation :: "git \<Rightarrow> string option \<Rightarrow> string \<Rightarrow> bool" where
  "closure_violation git cwd content =
     (case match_closure content of
        None \<Rightarrow> False
      | Some m \<Rightarrow> js_trim m = [] \<or> git cwd (js_trim m) \<noteq> Exited 0)"

text \<open>The tag a closure marker names, and what is wrong with it.\<close>

definition named_tag :: "string \<Rightarrow> string option" where
  "named_tag content =
     (case match_closure content of None \<Rightarrow> None | Some m \<Rightarrow> if js_trim m = [] then None else Some (js_trim m))"

definition closure_complaint :: "string \<Rightarrow> string" where
  "closure_complaint content =
     (case named_tag content of
        None \<Rightarrow> ''closure_evidence marker has empty tag''
      | Some tag \<Rightarrow> ''closure_evidence tag '' @ [CHR 0x27] @ tag @ [CHR 0x27] @ '' does not resolve via git rev-parse'')"

definition already_stored :: "obs_row list option \<Rightarrow> string option \<Rightarrow> bool" where
  "already_stored db h =
     (case db of None \<Rightarrow> False
      | Some t \<Rightarrow> truthy h \<and> (\<exists>r \<in> set t. live r \<and> ob_content_dedupe_hash r = h))"

text \<open>The cache holds only answers of git, for the directory the process runs with.\<close>

definition cache_sound :: "git \<Rightarrow> string option \<Rightarrow> tag_cache \<Rightarrow> bool" where
  "cache_sound git cwd cache \<longleftrightarrow>
     (\<forall>tag b. cache (cache_key cwd tag) = Some b \<longrightarrow> b = (git cwd tag = Exited 0))"

lemma cache_sound_empty [simp]: "cache_sound git cwd Map.empty"
  by (simp add: cache_sound_def)

lemma gitTagExists_sound:
  assumes "cache_sound git cwd cache"
  shows "fst (gitTagExists git tag cwd cache) = (git cwd tag = Exited 0) \<and>
    cache_sound git cwd (snd (gitTagExists git tag cwd cache))"
  using assms
  by (auto simp: gitTagExists_def cache_sound_def cache_key_def Let_def
      split: option.splits spawn_result.splits)

lemma closureCheckL1_spec:
  assumes "cache_sound git cwd cache"
  shows "cl_reject (fst (closureCheckL1 git content cwd cache)) = closure_violation git cwd content
    \<and> cache_sound git cwd (snd (closureCheckL1 git content cwd cache))"
proof (cases "match_closure content")
  case None
  with assms show ?thesis by (simp add: closureCheckL1_def closure_violation_def)
next
  case (Some m)
  obtain ok cache' where g: "gitTagExists git (js_trim m) cwd cache = (ok, cache')" by fastforce
  with gitTagExists_sound [OF assms, of "js_trim m"]
  have "ok = (git cwd (js_trim m) = Exited 0)" "cache_sound git cwd cache'" by auto
  with Some g assms show ?thesis
    by (simp add: closureCheckL1_def closure_violation_def Let_def)
qed

lemma closureCheckL1_reports:
  "cl_tag (fst (closureCheckL1 git content cwd cache)) = named_tag content"
  "cl_reject (fst (closureCheckL1 git content cwd cache)) \<Longrightarrow>
     cl_reason (fst (closureCheckL1 git content cwd cache)) = Some (closure_complaint content)"
  by (auto simp: closureCheckL1_def named_tag_def closure_complaint_def Let_def split: option.splits prod.splits if_splits)

lemma dedupCheckL1_spec: "fst (dedupCheckL1 db h) = already_stored db h"
  by (cases h) (auto simp: dedupCheckL1_def already_stored_def live_with_hash_empty split: option.splits)

lemma evaluateGate_decision:
  assumes "cache_sound git (DDOUNS_GATE_GIT_ROOT env) cache"
  shows "gv_decision (fst (evaluateGate git env content db h cache))
      = (if closure_violation git (DDOUNS_GATE_GIT_ROOT env) content \<or> already_stored db h
         then Reject else Accept)"
    and "cache_sound git (DDOUNS_GATE_GIT_ROOT env) (snd (evaluateGate git env content db h cache))"
  using closureCheckL1_spec [OF assms, of content]
  by (auto simp: evaluateGate_def Let_def resolveGateConfig_def dedupCheckL1_spec evaluateGateL2_def
      split: prod.splits)

subsection \<open>Properties\<close>

text \<open>
  C2. The gate's verdict is its specification, the closure check first: with a tag cache that only holds
  answers of git (an empty one does, and every call keeps it so), content with an empty or unresolvable
  closure tag is rejected with the complaint about its tag and the tag as evidence, whether it is stored
  already or not; other content is rejected as a duplicate, with the tag it names, exactly when its dedupe
  hash is on a live observation; everything else is accepted without reasons or evidence.
\<close>

theorem gate_meets_specification:
  assumes "cache_sound git (DDOUNS_GATE_GIT_ROOT env) cache"
  shows "fst (evaluateGate git env content db h cache) =
      (if closure_violation git (DDOUNS_GATE_GIT_ROOT env) content
       then \<lparr>gv_decision = Reject, gv_reasons = [closure_complaint content], gv_closure_evidence = named_tag content\<rparr>
       else if already_stored db h
       then \<lparr>gv_decision = Reject, gv_reasons = [''dedup_collision_l1''], gv_closure_evidence = named_tag content\<rparr>
       else \<lparr>gv_decision = Accept, gv_reasons = [], gv_closure_evidence = None\<rparr>) \<and>
    cache_sound git (DDOUNS_GATE_GIT_ROOT env) (snd (evaluateGate git env content db h cache))"
  using closureCheckL1_spec [OF assms, of content] closureCheckL1_reports [of git content "DDOUNS_GATE_GIT_ROOT env" cache]
  by (auto simp: evaluateGate_def Let_def resolveGateConfig_def dedupCheckL1_spec evaluateGateL2_def
      split: prod.splits)

definition sample_env :: gate_env where
  "sample_env = \<lparr>DDOUNS_GATE_ENABLED = Some ''1'', DDOUNS_GATE_MODE = None, DDOUNS_GATE_GIT_ROOT = None\<rparr>"

definition sample_git :: git where
  "sample_git cwd tag = (if tag = ''v1'' then Exited 0 else Exited 128)"

definition sample_marker :: string where
  "sample_marker = ''done <closure_evidence kind=a tag= '' @ [CHR 0x22] @ ''v2'' @ [CHR 0x22] @ ''/>''"

text \<open>Stored content with a bad tag: the complaint is about the tag.\<close>

definition stored_marker :: "obs_row list option" where
  "stored_marker = Some [\<lparr>ob_id = ''o'', ob_event_id = None, ob_platform = ''p'', ob_project = ''x'', ob_session_id = ''s'',
     ob_title = None, ob_content = sample_marker, ob_content_redacted = sample_marker,
     ob_content_dedupe_hash = Some ''h'', ob_raw_text = None, ob_observation_type = ''context'', ob_memory_type = ''m'',
     ob_tags_json = ''[]'', ob_privacy_tags_json = ''[]'', ob_signal_score = None, ob_access_count = None,
     ob_user_id = ''u'', ob_team_id = None, ob_event_time = None, ob_observed_at = None, ob_valid_from = None,
     ob_valid_to = None, ob_supersedes = None, ob_invalidated_at = None, ob_archived_at = None,
     ob_expires_at = None, ob_thread_id = None, ob_topic = None, ob_branch = None, ob_created_at = ''t'',
     ob_updated_at = ''t''\<rparr>]"

theorem gate_meets_specification_witness:
  "gv_reasons (fst (evaluateGate sample_git sample_env sample_marker stored_marker (Some ''h'') Map.empty)) =
     [''closure_evidence tag '' @ [CHR 0x27] @ ''v2'' @ [CHR 0x27] @ '' does not resolve via git rev-parse''] \<and>
   gv_reasons (fst (evaluateGate sample_git sample_env ''done'' stored_marker (Some ''h'') Map.empty)) =
     [''dedup_collision_l1'']"
proof -
  have "closure_violation sample_git (DDOUNS_GATE_GIT_ROOT sample_env) sample_marker"
    "named_tag sample_marker = Some ''v2''"
    "\<not> closure_violation sample_git (DDOUNS_GATE_GIT_ROOT sample_env) ''done''" by code_simp+
  moreover have "already_stored stored_marker (Some ''h'')"
    by (simp add: already_stored_def stored_marker_def live_def truthy_def)
  ultimately show ?thesis
    using gate_meets_specification [OF cache_sound_empty, of sample_git sample_env sample_marker stored_marker "Some ''h''"]
      gate_meets_specification [OF cache_sound_empty, of sample_git sample_env "''done''" stored_marker "Some ''h''"]
    by (simp add: closure_complaint_def)
qed

end
