(* ===== verification/Lease_Store.thy ===== *)
theory Lease_Store
  imports Prelude
begin

text \<open>
  The lease store of \<open>memory-server/src/lease/lease-store.ts\<close> over the table \<open>mem_leases\<close>.
  The clock and the id generator are arguments of the operations that read them. Times are
  milliseconds. A metadata object is its JSON text. The \<open>details\<close> message of a refused request is
  left out. An INSERT under an id that exists raises (PRIMARY KEY), which is a response here.
\<close>

subsection \<open>Rows, requests, responses\<close>

datatype lease_status = LActive | LReleased | LExpired

record lease =
  le_lease_id :: string
  le_target :: string
  le_agent_id :: string
  le_project :: "string option"
  le_status :: lease_status
  le_ttl_ms :: int
  le_acquired_at :: ms
  le_renewed_at :: "ms option"
  le_expires_at :: ms
  le_released_at :: "ms option"
  le_metadata :: "string option"
  le_user_id :: "string option"
  le_team_id :: "string option"

type_synonym leases = "lease list"

text \<open>What callers see of a row: everything but the tenant stamp.\<close>

record lease_view =
  lv_lease_id :: string
  lv_target :: string
  lv_agent_id :: string
  lv_project :: "string option"
  lv_status :: lease_status
  lv_ttl_ms :: int
  lv_acquired_at :: ms
  lv_renewed_at :: "ms option"
  lv_expires_at :: ms
  lv_released_at :: "ms option"
  lv_metadata :: "string option"

definition DEFAULT_LEASE_TTL_MS :: int where
  "DEFAULT_LEASE_TTL_MS = 600000"

definition MAX_LEASE_TTL_MS :: int where
  "MAX_LEASE_TTL_MS = 3600000"

record acquire_request =
  aq_target :: "string option"
  aq_agent_id :: "string option"
  aq_project :: "string option"
  aq_ttl_ms :: "int option"
  aq_metadata :: "string option"
  aq_user_id :: "string option"
  aq_team_id :: "string option"

record tenant_scope =
  tn_user_id :: "string option"
  tn_team_id :: "string option"

datatype acquire_response =
    Acquired lease_view
  | AlreadyLeased string ms string
  | InvalidTarget
  | InvalidAgentId
  | InvalidTtl
  | DuplicateLeaseId

datatype lease_error = NotFound | NotOwner | LeaseExpired | LeaseInvalidTtl

type_synonym lease_response = "lease_error + lease_view"

definition lease_parseRow :: "lease \<Rightarrow> lease_view" where
  "lease_parseRow r =
     \<lparr>lv_lease_id = le_lease_id r, lv_target = le_target r, lv_agent_id = le_agent_id r,
      lv_project = le_project r, lv_status = le_status r, lv_ttl_ms = le_ttl_ms r,
      lv_acquired_at = le_acquired_at r, lv_renewed_at = le_renewed_at r,
      lv_expires_at = le_expires_at r, lv_released_at = le_released_at r,
      lv_metadata = le_metadata r\<rparr>"

subsection \<open>Operations\<close>

definition sweepExpired :: "ms \<Rightarrow> leases \<Rightarrow> leases" where
  "sweepExpired now t =
     sql_update (\<lambda>r. le_status r = LActive \<and> le_expires_at r \<le> now)
       (\<lambda>r. r\<lparr>le_status := LExpired, le_released_at := Some (or_else (le_released_at r) now)\<rparr>) t"

text \<open>The WHERE clause of the contention check.\<close>

definition same_scope :: "string option \<Rightarrow> string option \<Rightarrow> bool" where
  "same_scope p q \<longleftrightarrow> (p = None \<and> q = None) \<or> sql_eq p q"

definition tenant_contends :: "string option \<Rightarrow> string option \<Rightarrow> lease \<Rightarrow> bool" where
  "tenant_contends user team r \<longleftrightarrow>
     (user \<noteq> None \<or> team \<noteq> None \<longrightarrow>
        (le_user_id r = None \<and> le_team_id r = None) \<or>
        (user \<noteq> None \<and> sql_eq (le_user_id r) user) \<or>
        (team \<noteq> None \<and> sql_eq (le_team_id r) team))"

definition contends :: "ms \<Rightarrow> string \<Rightarrow> acquire_request \<Rightarrow> lease \<Rightarrow> bool" where
  "contends now target req r \<longleftrightarrow>
     le_target r = target \<and> le_status r = LActive \<and> now < le_expires_at r \<and>
     same_scope (le_project r) (aq_project req) \<and>
     tenant_contends (aq_user_id req) (aq_team_id req) r"

definition acquire ::
  "ms \<Rightarrow> string \<Rightarrow> acquire_request \<Rightarrow> leases \<Rightarrow> acquire_response \<times> leases" where
  "acquire now new_id req t =
     (let target = js_trim (or_else (aq_target req) []);
          agentId = js_trim (or_else (aq_agent_id req) []);
          ttlMs = (case aq_ttl_ms req of Some n \<Rightarrow> if 0 < n then n else DEFAULT_LEASE_TTL_MS
                   | None \<Rightarrow> DEFAULT_LEASE_TTL_MS)
      in if target = [] then (InvalidTarget, t)
         else if agentId = [] then (InvalidAgentId, t)
         else if MAX_LEASE_TTL_MS < ttlMs then (InvalidTtl, t)
         else (let t1 = sweepExpired now t in
               case sql_get (order_desc le_acquired_at (sql_where (contends now target req) t1)) of
                 Some held \<Rightarrow>
                   (AlreadyLeased (le_agent_id held) (le_expires_at held) (le_lease_id held), t1)
               | None \<Rightarrow>
                   (let row = \<lparr>le_lease_id = new_id, le_target = target, le_agent_id = agentId,
                          le_project = aq_project req, le_status = LActive, le_ttl_ms = ttlMs,
                          le_acquired_at = now, le_renewed_at = None, le_expires_at = now + ttlMs,
                          le_released_at = None, le_metadata = aq_metadata req,
                          le_user_id = aq_user_id req, le_team_id = aq_team_id req\<rparr>
                    in if \<exists>r \<in> set t1. le_lease_id r = new_id then (DuplicateLeaseId, t1)
                       else (Acquired (lease_parseRow row), t1 @ [row]))))"

definition find_lease :: "string \<Rightarrow> leases \<Rightarrow> lease option" where
  "find_lease i t = sql_get (sql_where (\<lambda>r. le_lease_id r = i) t)"

definition matchesTenant :: "lease \<Rightarrow> tenant_scope option \<Rightarrow> bool" where
  "matchesTenant r tenant =
     (case tenant of
        None \<Rightarrow> True
      | Some s \<Rightarrow>
          if tn_user_id s = None \<and> tn_team_id s = None then True
          else if le_user_id r = None \<and> le_team_id r = None then True
          else if tn_user_id s \<noteq> None \<and> le_user_id r = tn_user_id s then True
          else tn_team_id s \<noteq> None \<and> le_team_id r \<noteq> None \<and> le_team_id r = tn_team_id s)"

definition release ::
  "ms \<Rightarrow> string \<Rightarrow> string \<Rightarrow> tenant_scope option \<Rightarrow> leases \<Rightarrow> lease_response \<times> leases" where
  "release now leaseId agentId tenant t =
     (case find_lease leaseId t of
        None \<Rightarrow> (Inl NotFound, t)
      | Some row \<Rightarrow>
          if \<not> matchesTenant row tenant then (Inl NotFound, t)
          else if le_agent_id row \<noteq> agentId then (Inl NotOwner, t)
          else (let t1 = sql_update (\<lambda>r. le_lease_id r = leaseId)
                       (\<lambda>r. r\<lparr>le_status := LReleased, le_released_at := Some now\<rparr>) t
                in case find_lease leaseId t1 of
                     Some updated \<Rightarrow> (Inr (lease_parseRow updated), t1)
                   | None \<Rightarrow> (Inl NotFound, t1)))"

definition renew ::
  "ms \<Rightarrow> string \<Rightarrow> string \<Rightarrow> int option \<Rightarrow> tenant_scope option \<Rightarrow> leases \<Rightarrow> lease_response \<times> leases"
where
  "renew now leaseId agentId ttlMs tenant t =
     (case find_lease leaseId t of
        None \<Rightarrow> (Inl NotFound, t)
      | Some row \<Rightarrow>
          if \<not> matchesTenant row tenant then (Inl NotFound, t)
          else if le_agent_id row \<noteq> agentId then (Inl NotOwner, t)
          else if le_status row \<noteq> LActive \<or> le_expires_at row \<le> now then (Inl LeaseExpired, t)
          else (let effectiveTtl =
                      (case ttlMs of Some n \<Rightarrow> if 0 < n then n else le_ttl_ms row
                       | None \<Rightarrow> le_ttl_ms row)
                in if MAX_LEASE_TTL_MS < effectiveTtl then (Inl LeaseInvalidTtl, t)
                   else (Inr ((lease_parseRow row)\<lparr>lv_renewed_at := Some now,
                               lv_expires_at := now + effectiveTtl, lv_ttl_ms := effectiveTtl\<rparr>),
                         sql_update (\<lambda>r. le_lease_id r = leaseId)
                           (\<lambda>r. r\<lparr>le_renewed_at := Some now, le_expires_at := now + effectiveTtl,
                                  le_ttl_ms := effectiveTtl\<rparr>) t)))"

definition get_lease :: "ms \<Rightarrow> string \<Rightarrow> leases \<Rightarrow> lease_view option \<times> leases" where
  "get_lease now leaseId t =
     (let t1 = sweepExpired now t in (map_option lease_parseRow (find_lease leaseId t1), t1))"

definition listActive :: "ms \<Rightarrow> string option \<Rightarrow> leases \<Rightarrow> lease_view list \<times> leases" where
  "listActive now target t =
     (let t1 = sweepExpired now t;
          rows = (if truthy target
                  then order_desc le_acquired_at
                         (sql_where (\<lambda>r. le_status r = LActive \<and> sql_eq (Some (le_target r)) target) t1)
                  else order_desc le_acquired_at (sql_where (\<lambda>r. le_status r = LActive) t1))
      in (map lease_parseRow rows, t1))"

subsection \<open>Runs of the store\<close>

text \<open>One call of the store, made a number of milliseconds after the one before.\<close>

datatype lease_op =
    OpAcquire string acquire_request
  | OpRelease string string "tenant_scope option"
  | OpRenew string string "int option" "tenant_scope option"
  | OpGet string
  | OpListActive "string option"

type_synonym lease_state = "ms \<times> leases"

definition lease_step :: "nat \<times> lease_op \<Rightarrow> lease_state \<Rightarrow> lease_state" where
  "lease_step x s =
     (let now = fst s + int (fst x); t = snd s in
      (now, case snd x of
              OpAcquire i req \<Rightarrow> snd (acquire now i req t)
            | OpRelease i agent tn \<Rightarrow> snd (release now i agent tn t)
            | OpRenew i agent ttl tn \<Rightarrow> snd (renew now i agent ttl tn t)
            | OpGet i \<Rightarrow> snd (get_lease now i t)
            | OpListActive tg \<Rightarrow> snd (listActive now tg t)))"

text \<open>A lease is held while it is active and not past its expiry.\<close>

definition held :: "ms \<Rightarrow> lease \<Rightarrow> bool" where
  "held now r \<longleftrightarrow> le_status r = LActive \<and> now < le_expires_at r"

definition tenants_overlap :: "lease \<Rightarrow> lease \<Rightarrow> bool" where
  "tenants_overlap a b \<longleftrightarrow>
     (le_user_id a = None \<and> le_team_id a = None) \<or> (le_user_id b = None \<and> le_team_id b = None) \<or>
     sql_eq (le_user_id a) (le_user_id b) \<or> sql_eq (le_team_id a) (le_team_id b)"

text \<open>Two leases that exclude each other: one target, one project scope, tenants that overlap.\<close>

definition clash :: "lease \<Rightarrow> lease \<Rightarrow> bool" where
  "clash a b \<longleftrightarrow>
     le_target a = le_target b \<and> le_project a = le_project b \<and> tenants_overlap a b"

definition exclusive_leases :: "lease_state \<Rightarrow> bool" where
  "exclusive_leases s \<longleftrightarrow>
     sorted_wrt (\<lambda>a b. held (fst s) a \<longrightarrow> held (fst s) b \<longrightarrow> \<not> clash a b) (snd s) \<and>
     distinct (map le_lease_id (snd s))"

subsection \<open>Lemmas\<close>

lemma same_scope_eq [simp]: "same_scope p q \<longleftrightarrow> p = q"
  by (cases p; cases q) (auto simp: same_scope_def)

lemma find_lease_Some: "find_lease i t = Some r \<Longrightarrow> r \<in> set t \<and> le_lease_id r = i"
  by (auto simp: find_lease_def dest: sql_get_in)

lemma ids_sweep [simp]: "map le_lease_id (sweepExpired now t) = map le_lease_id t"
  by (simp add: sweepExpired_def map_sql_update)

lemma set_ids_sweep [simp]: "le_lease_id ` set (sweepExpired now t) = le_lease_id ` set t"
  by (metis ids_sweep set_map)

text \<open>Rewriting every row keeps exclusion when no row becomes held and no scope changes.\<close>

lemma sorted_wrt_rewrite:
  assumes "sorted_wrt P t" and "\<And>a b. P a b \<Longrightarrow> Q (f a) (f b)"
  shows "sorted_wrt Q (map f t)"
  using assms by (induction t) auto

definition same_claim :: "lease \<Rightarrow> lease \<Rightarrow> bool" where
  "same_claim a b \<longleftrightarrow> le_lease_id a = le_lease_id b \<and> le_target a = le_target b \<and>
     le_project a = le_project b \<and> le_user_id a = le_user_id b \<and> le_team_id a = le_team_id b \<and>
     le_agent_id a = le_agent_id b \<and> le_acquired_at a = le_acquired_at b"

lemma clash_same_claim: "same_claim a a' \<Longrightarrow> same_claim b b' \<Longrightarrow> clash a' b' = clash a b"
  by (simp add: clash_def tenants_overlap_def same_claim_def)

lemma clash_sym: "clash a b = clash b a"
  by (auto simp: clash_def tenants_overlap_def sql_eq_def split: option.splits)

lemma exclusive_rewrite:
  assumes "exclusive_leases (c, t)"
    and f: "\<And>r. r \<in> set t \<Longrightarrow> same_claim r (f r) \<and> (held now (f r) \<longrightarrow> held c r)"
  shows "exclusive_leases (now, map f t)"
proof -
  have "map le_lease_id (map f t) = map le_lease_id t"
    using f by (auto simp: same_claim_def)
  moreover have "sorted_wrt (\<lambda>a b. held now (f a) \<longrightarrow> held now (f b) \<longrightarrow> \<not> clash (f a) (f b)) t"
    by (rule sorted_wrt_mono_rel[where P = "\<lambda>a b. held c a \<longrightarrow> held c b \<longrightarrow> \<not> clash a b"])
      (use assms in \<open>auto simp: exclusive_leases_def dest: f clash_same_claim\<close>)
  ultimately show ?thesis
    using assms(1) by (simp add: exclusive_leases_def sorted_wrt_map del: map_map)
qed

lemma exclusive_sql_update:
  assumes "exclusive_leases (c, t)" "c \<le> now"
    and "\<And>r. r \<in> set t \<Longrightarrow> p r \<Longrightarrow> same_claim r (f r) \<and> (held now (f r) \<longrightarrow> held c r)"
  shows "exclusive_leases (now, sql_update p f t)"
  unfolding sql_update_def
  by (rule exclusive_rewrite[OF assms(1)]) (use assms(2,3) in \<open>auto simp: same_claim_def held_def\<close>)

lemma exclusive_later: "exclusive_leases (c, t) \<Longrightarrow> c \<le> now \<Longrightarrow> exclusive_leases (now, t)"
  using exclusive_sql_update[of c t now "\<lambda>_. False" id] by (simp add: sql_update_def)

lemma exclusive_sweep: "exclusive_leases (c, t) \<Longrightarrow> c \<le> now \<Longrightarrow> exclusive_leases (now, sweepExpired now t)"
  unfolding sweepExpired_def
  by (rule exclusive_sql_update) (auto simp: same_claim_def held_def)

lemma contends_iff_clash:
  "contends now (le_target row) req r \<longleftrightarrow> held now r \<and> clash r row"
  if "le_project row = aq_project req" "le_user_id row = aq_user_id req" "le_team_id row = aq_team_id req"
  using that
  by (auto simp: contends_def held_def clash_def tenant_contends_def tenants_overlap_def sql_eq_def
      split: option.splits)

lemma exclusive_acquire:
  assumes "exclusive_leases (c, t)" "c \<le> now"
  shows "exclusive_leases (now, snd (acquire now i req t))"
proof -
  let ?t1 = "sweepExpired now t"
  have e: "exclusive_leases (now, ?t1)" by (rule exclusive_sweep[OF assms])
  have app: "exclusive_leases (now, ?t1 @ [row])"
    if "sql_where (contends now (le_target row) req) ?t1 = []" "\<forall>r \<in> set ?t1. le_lease_id r \<noteq> le_lease_id row"
      "le_project row = aq_project req" "le_user_id row = aq_user_id req" "le_team_id row = aq_team_id req"
    for row
    using e that contends_iff_clash[of row req now]
    by (fastforce simp: exclusive_leases_def sorted_wrt_append sql_where_def filter_empty_conv
        simp del: ids_sweep set_ids_sweep)
  show ?thesis
    using e exclusive_later[OF assms]
    by (auto simp: acquire_def Let_def split: option.split intro!: app)
qed

lemma exclusive_release:
  assumes "exclusive_leases (c, t)" "c \<le> now"
  shows "exclusive_leases (now, snd (release now i agent tn t))"
proof -
  have "exclusive_leases (now, sql_update (\<lambda>r. le_lease_id r = i)
          (\<lambda>r. r\<lparr>le_status := LReleased, le_released_at := Some now\<rparr>) t)"
    by (rule exclusive_sql_update[OF assms]) (auto simp: same_claim_def held_def)
  then show ?thesis
    using exclusive_later[OF assms] by (auto simp: release_def Let_def split: option.split)
qed

lemma find_lease_unique:
  "distinct (map le_lease_id t) \<Longrightarrow> find_lease i t = Some row \<Longrightarrow> r \<in> set t \<Longrightarrow> le_lease_id r = i \<Longrightarrow> r = row"
  by (metis distinct_map find_lease_Some inj_onD)

lemma exclusive_renew:
  assumes "exclusive_leases (c, t)" "c \<le> now"
  shows "exclusive_leases (now, snd (renew now i agent ttl tn t))"
proof (cases "find_lease i t")
  case None
  then show ?thesis using exclusive_later[OF assms] by (simp add: renew_def)
next
  case (Some row)
  have d: "distinct (map le_lease_id t)" using assms(1) by (simp add: exclusive_leases_def)
  have "exclusive_leases (now, sql_update (\<lambda>r. le_lease_id r = i)
          (\<lambda>r. r\<lparr>le_renewed_at := Some now, le_expires_at := now + e, le_ttl_ms := e\<rparr>) t)"
    if "held now row" for e
    by (rule exclusive_sql_update[OF assms])
      (use that assms(2) find_lease_unique[OF d Some] in \<open>auto simp: same_claim_def held_def\<close>)
  then show ?thesis
    using exclusive_later[OF assms] Some by (auto simp: renew_def Let_def held_def not_le)
qed

lemma exclusive_step: "exclusive_leases s \<Longrightarrow> exclusive_leases (lease_step x s)"
  by (cases s; cases x; cases "snd x")
    (auto simp: lease_step_def Let_def get_lease_def listActive_def
      intro: exclusive_acquire exclusive_release exclusive_renew exclusive_sweep)

interpretation lease_machine: invariant_machine lease_step exclusive_leases
  by unfold_locales (rule exclusive_step)

subsection \<open>What an acquire is granted on\<close>

lemma contends_sweep:
  "(\<exists>r \<in> set (sweepExpired now t). contends now tg req r \<and> Q (le_agent_id r) (le_expires_at r) (le_lease_id r))
     \<longleftrightarrow> (\<exists>r \<in> set t. contends now tg req r \<and> Q (le_agent_id r) (le_expires_at r) (le_lease_id r))"
proof -
  define f :: "lease \<Rightarrow> lease" where "f r = (if le_status r = LActive \<and> le_expires_at r \<le> now
      then r\<lparr>le_status := LExpired, le_released_at := Some (or_else (le_released_at r) now)\<rparr> else r)" for r
  have "contends now tg req (f r) = contends now tg req r \<and> le_agent_id (f r) = le_agent_id r \<and>
        le_expires_at (f r) = le_expires_at r \<and> le_lease_id (f r) = le_lease_id r" for r
    by (simp add: f_def contends_def)
  moreover have "sweepExpired now t = map f t"
    by (simp add: sweepExpired_def sql_update_def f_def)
  ultimately show ?thesis by simp
qed

definition ttl_of :: "acquire_request \<Rightarrow> int" where
  "ttl_of req = (case aq_ttl_ms req of Some n \<Rightarrow> if 0 < n then n else DEFAULT_LEASE_TTL_MS
                 | None \<Rightarrow> DEFAULT_LEASE_TTL_MS)"

definition well_formed_request :: "acquire_request \<Rightarrow> bool" where
  "well_formed_request req \<longleftrightarrow> js_trim (or_else (aq_target req) []) \<noteq> [] \<and>
     js_trim (or_else (aq_agent_id req) []) \<noteq> [] \<and> ttl_of req \<le> MAX_LEASE_TTL_MS"

abbreviation request_target :: "acquire_request \<Rightarrow> string" where
  "request_target req \<equiv> js_trim (or_else (aq_target req) [])"

definition blocker :: "ms \<Rightarrow> acquire_request \<Rightarrow> leases \<Rightarrow> lease option" where
  "blocker now req t = sql_get (order_desc le_acquired_at
     (sql_where (contends now (request_target req) req) (sweepExpired now t)))"

definition granted_lease :: "ms \<Rightarrow> string \<Rightarrow> acquire_request \<Rightarrow> lease" where
  "granted_lease now i req =
     \<lparr>le_lease_id = i, le_target = request_target req,
      le_agent_id = js_trim (or_else (aq_agent_id req) []),
      le_project = aq_project req, le_status = LActive, le_ttl_ms = ttl_of req,
      le_acquired_at = now, le_renewed_at = None, le_expires_at = now + ttl_of req,
      le_released_at = None, le_metadata = aq_metadata req,
      le_user_id = aq_user_id req, le_team_id = aq_team_id req\<rparr>"

lemma acquire_blocked:
  assumes "well_formed_request req" "blocker now req t = Some h"
  shows "acquire now i req t =
    (AlreadyLeased (le_agent_id h) (le_expires_at h) (le_lease_id h), sweepExpired now t)"
  using assms by (simp add: acquire_def well_formed_request_def blocker_def Let_def ttl_of_def)

lemma acquire_free:
  assumes "well_formed_request req" "blocker now req t = None"
  shows "acquire now i req t =
    (if i \<in> le_lease_id ` set t then (DuplicateLeaseId, sweepExpired now t)
     else (Acquired (lease_parseRow (granted_lease now i req)), sweepExpired now t @ [granted_lease now i req]))"
proof -
  have "(\<exists>r \<in> set (sweepExpired now t). le_lease_id r = i) \<longleftrightarrow> i \<in> le_lease_id ` set t"
    by (metis (no_types, lifting) image_iff set_ids_sweep)
  then show ?thesis
    using assms
    by (simp add: acquire_def well_formed_request_def blocker_def Let_def ttl_of_def granted_lease_def
        del: sql_get_None)
qed

lemma acquire_invalid: "\<not> well_formed_request req \<Longrightarrow>
    snd (acquire now i req t) = t \<and> fst (acquire now i req t) \<in> {InvalidTarget, InvalidAgentId, InvalidTtl}"
  by (auto simp: acquire_def well_formed_request_def Let_def ttl_of_def)

lemma no_blocker: "blocker now req t = None \<longleftrightarrow> \<not> (\<exists>r \<in> set t. contends now (request_target req) req r)"
  using contends_sweep[of now t "request_target req" req "\<lambda>_ _ _. True"]
  by (auto simp: blocker_def sql_where_def filter_empty_conv)

lemma some_blocker:
  assumes "blocker now req t = Some h"
  shows "\<exists>r \<in> set t. contends now (request_target req) req r \<and> le_agent_id r = le_agent_id h \<and>
           le_expires_at r = le_expires_at h \<and> le_lease_id r = le_lease_id h"
proof -
  have "h \<in> set (sweepExpired now t) \<and> contends now (request_target req) req h"
    using sql_get_in[OF assms[unfolded blocker_def]] by simp
  then show ?thesis
    using contends_sweep[of now t "request_target req" req
        "\<lambda>a e l. a = le_agent_id h \<and> e = le_expires_at h \<and> l = le_lease_id h"] by blast
qed

text \<open>A well-formed acquire is granted exactly when no lease of the table that is active, not past
  its expiry, on the same target and project and of an overlapping tenant stands in its way (an expired
  lease never blocks, swept or not) and the generated id is fresh; the granted lease is stored under the
  caller's agent id, is held from now and ends after its time to live, which is at most an hour. When
  the answer names a holder, that holder is a blocking lease of the table. An ill-formed request changes
  nothing.\<close>

theorem acquire_grants_iff_free:
  "(\<exists>v. fst (acquire now i req t) = Acquired v) =
     (well_formed_request req \<and> i \<notin> le_lease_id ` set t \<and>
      \<not> (\<exists>r \<in> set t. contends now (request_target req) req r)) \<and>
   (case fst (acquire now i req t) of
      Acquired v \<Rightarrow>
        (\<exists>row. snd (acquire now i req t) = sweepExpired now t @ [row] \<and> lease_parseRow row = v \<and>
               held now row \<and> le_expires_at row = now + le_ttl_ms row \<and>
               0 < le_ttl_ms row \<and> le_ttl_ms row \<le> 3600000 \<and>
               le_agent_id row = js_trim (or_else (aq_agent_id req) []))
    | AlreadyLeased agent e l \<Rightarrow>
        snd (acquire now i req t) = sweepExpired now t \<and>
        (\<exists>r \<in> set t. contends now (request_target req) req r \<and>
                     le_agent_id r = agent \<and> le_expires_at r = e \<and> le_lease_id r = l)
    | DuplicateLeaseId \<Rightarrow> snd (acquire now i req t) = sweepExpired now t \<and> i \<in> le_lease_id ` set t
    | _ \<Rightarrow> snd (acquire now i req t) = t \<and> \<not> well_formed_request req)"
proof (cases "well_formed_request req")
  case False
  then show ?thesis using acquire_invalid[OF False, of now i t] by (cases "fst (acquire now i req t)") auto
next
  case True
  have ttl: "0 < ttl_of req" "ttl_of req \<le> 3600000"
    using True by (auto simp: ttl_of_def well_formed_request_def DEFAULT_LEASE_TTL_MS_def
        MAX_LEASE_TTL_MS_def split: option.splits)
  show ?thesis
  proof (cases "blocker now req t")
    case None
    then show ?thesis
      using True ttl no_blocker[of now req t]
      by (auto simp: acquire_free held_def granted_lease_def)
  next
    case (Some h)
    then show ?thesis
      using True some_blocker[OF Some] no_blocker[of now req t] by (simp add: acquire_blocked)
  qed
qed

subsection \<open>Properties of runs\<close>

text \<open>C8. Mutual exclusion: after any sequence of calls on an empty store, whatever the arguments and
  however much time passes between them, no two held leases have one target and one project scope and
  overlapping tenants.\<close>

theorem leases_exclude_each_other:
  assumes "fold lease_step calls (start, []) = (now, t)" "i < j" "j < length t"
    and "held now (t ! i)" "held now (t ! j)"
  shows "\<not> clash (t ! i) (t ! j)"
proof -
  have "exclusive_leases (start, [])" by (simp add: exclusive_leases_def)
  then have "exclusive_leases (fold lease_step calls (start, []))" by (rule lease_machine.run_inv)
  then show ?thesis using assms by (auto simp: exclusive_leases_def sorted_wrt_iff_nth_less)
qed

lemma release_cases:
  "release now i agent tn t =
     (case find_lease i t of
        Some row \<Rightarrow> if \<not> matchesTenant row tn then (Inl NotFound, t)
                    else if le_agent_id row \<noteq> agent then (Inl NotOwner, t)
                    else (Inr ((lease_parseRow row)\<lparr>lv_status := LReleased, lv_released_at := Some now\<rparr>),
                          sql_update (\<lambda>r. le_lease_id r = i)
                            (\<lambda>r. r\<lparr>le_status := LReleased, le_released_at := Some now\<rparr>) t)
      | None \<Rightarrow> (Inl NotFound, t))"
proof -
  have upd: "find_lease i (sql_update (\<lambda>r. le_lease_id r = i) f t) = map_option f (find_lease i t)"
    if "\<And>r. le_lease_id (f r) = le_lease_id r" for f
    using that by (induction t) (auto simp: find_lease_def sql_where_def sql_update_def)
  show ?thesis
    by (simp add: release_def upd Let_def lease_parseRow_def split: option.split)
qed

text \<open>C20. Only the agent that acquired a lease, from a tenant it belongs to, can release or renew it; a
  caller of another tenant gets the very answer of an id that does not exist, a caller of the tenant that
  is another agent gets \<open>not_owner\<close>, and in every refused case the table is as it was.\<close>

theorem lease_changes_need_ownership:
  "(case fst (release now i agent tn t) of
      Inr v \<Rightarrow> \<exists>r. find_lease i t = Some r \<and> matchesTenant r tn \<and> le_agent_id r = agent
    | Inl NotFound \<Rightarrow> snd (release now i agent tn t) = t \<and>
        (find_lease i t = None \<or> (\<exists>r. find_lease i t = Some r \<and> \<not> matchesTenant r tn))
    | Inl e \<Rightarrow> e = NotOwner \<and> snd (release now i agent tn t) = t) \<and>
   (case fst (renew now i agent ttl tn t) of
      Inr v \<Rightarrow> \<exists>r. find_lease i t = Some r \<and> matchesTenant r tn \<and> le_agent_id r = agent \<and> held now r \<and>
                  lv_ttl_ms v \<le> 3600000 \<and> lv_expires_at v = now + lv_ttl_ms v
    | Inl NotFound \<Rightarrow> snd (renew now i agent ttl tn t) = t \<and>
        (find_lease i t = None \<or> (\<exists>r. find_lease i t = Some r \<and> \<not> matchesTenant r tn))
    | Inl e \<Rightarrow> snd (renew now i agent ttl tn t) = t)"
  by (auto simp: release_cases renew_def Let_def held_def MAX_LEASE_TTL_MS_def split: option.split)

lemma progress_update:
  assumes "c \<le> now" "\<And>r. r \<in> set t \<Longrightarrow> p r \<Longrightarrow> same_claim r (f r) \<and> (held now (f r) \<longrightarrow> held c r)"
  shows "\<forall>k < length t. same_claim (t ! k) (sql_update p f t ! k) \<and>
           (held now (sql_update p f t ! k) \<longrightarrow> held c (t ! k))"
proof -
  have "same_claim (t ! k) (sql_update p f t ! k) \<and> (held now (sql_update p f t ! k) \<longrightarrow> held c (t ! k))"
    if "k < length t" for k
    using assms(1) assms(2)[of "t ! k"] that
    by (cases "p (t ! k)") (auto simp: sql_update_def same_claim_def held_def)
  then show ?thesis by blast
qed

definition progress :: "lease_state \<Rightarrow> lease_state \<Rightarrow> bool" where
  "progress s s' \<longleftrightarrow> length (snd s) \<le> length (snd s') \<and>
     (\<forall>k < length (snd s). same_claim (snd s ! k) (snd s' ! k) \<and>
        (held (fst s') (snd s' ! k) \<longrightarrow> held (fst s) (snd s ! k)))"

lemma progress_sql_update:
  "c \<le> now \<Longrightarrow> (\<And>r. r \<in> set t \<Longrightarrow> p r \<Longrightarrow> same_claim r (f r) \<and> (held now (f r) \<longrightarrow> held c r)) \<Longrightarrow>
    progress (c, t) (now, sql_update p f t @ u)"
  using progress_update[of c now t p f] by (auto simp: progress_def nth_append)

lemma progress_sweep: "c \<le> now \<Longrightarrow> progress (c, t) (now, sweepExpired now t @ u)"
  unfolding sweepExpired_def by (rule progress_sql_update) (auto simp: same_claim_def held_def)

lemma progress_later: "c \<le> now \<Longrightarrow> progress (c, t) (now, t)"
  by (auto simp: progress_def same_claim_def held_def)

lemma progress_trans: "progress s s' \<Longrightarrow> progress s' s'' \<Longrightarrow> progress s s''"
  by (auto simp: progress_def same_claim_def)

lemma progress_step:
  assumes "exclusive_leases s"
  shows "progress s (lease_step x s)"
proof -
  obtain c t where s: "s = (c, t)" by (cases s)
  have d: "distinct (map le_lease_id t)" using assms s by (simp add: exclusive_leases_def)
  have acq: "progress (c, t) (now, snd (acquire now i req t))" if "c \<le> now" for now i req
    using progress_sweep[OF that, of t "[]"] progress_sweep[OF that, of t] progress_later[OF that, of t]
    by (cases "well_formed_request req"; cases "blocker now req t")
      (auto simp: acquire_free acquire_blocked acquire_invalid)
  have rel: "progress (c, t) (now, snd (release now i a tn t))" if "c \<le> now" for now i a tn
    using progress_sql_update[OF that, of t "\<lambda>r. le_lease_id r = i"
        "\<lambda>r. r\<lparr>le_status := LReleased, le_released_at := Some now\<rparr>" "[]"] progress_later[OF that, of t]
    by (auto simp: release_cases same_claim_def held_def split: option.split)
  have ren: "progress (c, t) (now, snd (renew now i a ttl tn t))" if n: "c \<le> now" for now i a ttl tn
  proof (cases "find_lease i t")
    case None
    then show ?thesis using progress_later[OF n] by (simp add: renew_def)
  next
    case (Some row)
    have "progress (c, t) (now, sql_update (\<lambda>r. le_lease_id r = i)
        (\<lambda>r. r\<lparr>le_renewed_at := Some now, le_expires_at := now + e, le_ttl_ms := e\<rparr>) t @ [])"
      if "held now row" for e
      by (rule progress_sql_update[OF n])
        (use that n find_lease_unique[OF d Some] in \<open>auto simp: same_claim_def held_def\<close>)
    then show ?thesis
      using progress_later[OF n] Some by (auto simp: renew_def Let_def held_def not_le)
  qed
  show ?thesis
    using acq rel ren progress_sweep[of c _ t "[]"]
    by (auto simp: s lease_step_def Let_def get_lease_def listActive_def split: lease_op.split)
qed

lemma progress_run: "exclusive_leases s \<Longrightarrow> progress s (fold lease_step xs s)"
proof (induction xs arbitrary: s)
  case Nil
  then show ?case by (simp add: progress_def same_claim_def)
next
  case (Cons x xs)
  then show ?case using progress_step progress_trans exclusive_step by (metis fold_simps(2))
qed

text \<open>The lease history is permanent: whatever calls follow a state of the store, every row is still
  there, at its place, with the id, target, project, tenant, agent and acquisition time it had, and a
  lease that was not held (expired, released) is not held again: renewing keeps a lease alive but never
  revives one.\<close>

theorem lost_leases_stay_lost:
  assumes "fold lease_step before (start, []) = (c, t)" "fold lease_step later (c, t) = (now, t')"
    and "k < length t"
  shows "k < length t' \<and> same_claim (t ! k) (t' ! k) \<and> (\<not> held c (t ! k) \<longrightarrow> \<not> held now (t' ! k))"
proof -
  have "exclusive_leases (start, [])" by (simp add: exclusive_leases_def)
  then have "exclusive_leases (c, t)" using assms(1) lease_machine.run_inv by metis
  then have "progress (c, t) (now, t')" using progress_run assms(2) by metis
  then show ?thesis using assms(3) by (auto simp: progress_def)
qed

text \<open>A run: one agent acquires, another is refused, the lease runs out, the other acquires; the first
  one's renewal fails.\<close>

definition sample_acquire :: "string \<Rightarrow> acquire_request" where
  "sample_acquire agent = \<lparr>aq_target = Some ''src/a.ts'', aq_agent_id = Some agent, aq_project = None,
     aq_ttl_ms = Some 1000, aq_metadata = None, aq_user_id = None, aq_team_id = None\<rparr>"

definition sample_lease :: "string \<Rightarrow> string \<Rightarrow> lease_status \<Rightarrow> ms \<Rightarrow> ms option \<Rightarrow> lease" where
  "sample_lease i agent st from released =
     \<lparr>le_lease_id = i, le_target = ''src/a.ts'', le_agent_id = agent, le_project = None,
      le_status = st, le_ttl_ms = 1000, le_acquired_at = from, le_renewed_at = None,
      le_expires_at = from + 1000, le_released_at = released, le_metadata = None,
      le_user_id = None, le_team_id = None\<rparr>"

definition sample_calls :: "(nat \<times> lease_op) list" where
  "sample_calls = [(0, OpAcquire ''L1'' (sample_acquire ''a'')), (10, OpAcquire ''L2'' (sample_acquire ''b'')),
     (1000, OpAcquire ''L3'' (sample_acquire ''b'')), (5, OpRenew ''L1'' ''a'' None None)]"

lemma sample_calls_run:
  "fold lease_step sample_calls (0, []) =
     (1015, [sample_lease ''L1'' ''a'' LExpired 0 (Some 1010), sample_lease ''L3'' ''b'' LActive 1010 None])"
  by code_simp

theorem lost_leases_stay_lost_witness:
  "(0::nat) < 2 \<and> same_claim (sample_lease ''L1'' ''a'' LExpired 0 (Some 1010)) (sample_lease ''L1'' ''a'' LExpired 0 (Some 1010))"
proof -
  have l: "fold lease_step [(7, OpGet ''L1'')] (1015, [sample_lease ''L1'' ''a'' LExpired 0 (Some 1010),
      sample_lease ''L3'' ''b'' LActive 1010 None]) = (1022, [sample_lease ''L1'' ''a'' LExpired 0 (Some 1010),
      sample_lease ''L3'' ''b'' LActive 1010 None])"
    by code_simp
  show ?thesis
    using lost_leases_stay_lost[OF sample_calls_run l, of 0] by simp
qed

text \<open>Two tenants hold leases on one target at once.\<close>

definition tenant_acquire :: "string \<Rightarrow> acquire_request" where
  "tenant_acquire user = (sample_acquire user)\<lparr>aq_user_id := Some user\<rparr>"

definition tenant_lease :: "string \<Rightarrow> string \<Rightarrow> lease" where
  "tenant_lease i user = (sample_lease i user LActive 5 None)\<lparr>le_user_id := Some user\<rparr>"

theorem leases_exclude_each_other_witness:
  "\<not> clash (tenant_lease ''L1'' ''u'') (tenant_lease ''L2'' ''v'')"
proof -
  have r: "fold lease_step [(0, OpAcquire ''L1'' (tenant_acquire ''u'')), (0, OpAcquire ''L2'' (tenant_acquire ''v''))]
      (5, []) = (5, [tenant_lease ''L1'' ''u'', tenant_lease ''L2'' ''v''])"
    by code_simp
  show ?thesis
    using leases_exclude_each_other[OF r, of 0 1]
    by (simp add: held_def tenant_lease_def sample_lease_def)
qed

end
