(* ===== verification/Signal_Store.thy ===== *)
theory Signal_Store
  imports Prelude
begin

text \<open>
  The signal store of \<open>memory-server/src/lease/signal-store.ts\<close> over the table \<open>mem_signals\<close>:
  messages between agents, replies that join a thread, inbox reads and acknowledgements. The clock and
  the id generator are arguments of the operations. A property that may be absent or null is an
  \<open>option option\<close> (absent is \<open>None\<close>, null is \<open>Some None\<close>) where the code tells the two apart.
  An INSERT under an id that exists raises (PRIMARY KEY), which is an error value here.
\<close>

subsection \<open>Rows, requests, responses\<close>

record signal =
  sg_signal_id :: string
  sg_thread_id :: string
  sg_from :: string
  sg_to :: "string option"
  sg_reply_to :: "string option"
  sg_content :: string
  sg_project :: "string option"
  sg_sent_at :: ms
  sg_expires_at :: "ms option"
  sg_acked_at :: "ms option"
  sg_acked_by :: "string option"
  sg_user_id :: "string option"
  sg_team_id :: "string option"

type_synonym signals = "signal list"

record signal_view =
  sv_signal_id :: string
  sv_thread_id :: string
  sv_from :: string
  sv_to :: "string option"
  sv_reply_to :: "string option"
  sv_content :: string
  sv_project :: "string option"
  sv_sent_at :: ms
  sv_expires_at :: "ms option"
  sv_acked_at :: "ms option"
  sv_acked_by :: "string option"

record send_request =
  sd_from :: "string option"
  sd_to :: "string option"
  sd_thread_id :: "string option"
  sd_reply_to :: "string option"
  sd_content :: "string option"
  sd_project :: "string option option"
  sd_expires_in_ms :: "int option"
  sd_user_id :: "string option"
  sd_team_id :: "string option"

record read_request =
  rd_agent_id :: "string option"
  rd_thread_id :: "string option"
  rd_include_broadcast :: "bool option"
  rd_project :: "string option"
  rd_all_projects :: bool
  rd_user_id :: "string option"
  rd_team_id :: "string option"
  rd_limit :: "int option"

record ack_request =
  ak_signal_id :: string
  ak_agent_id :: string
  ak_user_id :: "string option"
  ak_team_id :: "string option"

datatype send_error = InvalidFrom | InvalidContent | ReplyTargetMissing | DuplicateSignalId

datatype ack_error = AckNotFound | AlreadyAcked | NotRecipient

definition signal_parseRow :: "signal \<Rightarrow> signal_view" where
  "signal_parseRow r =
     \<lparr>sv_signal_id = sg_signal_id r, sv_thread_id = sg_thread_id r, sv_from = sg_from r,
      sv_to = sg_to r, sv_reply_to = sg_reply_to r, sv_content = sg_content r,
      sv_project = sg_project r, sv_sent_at = sg_sent_at r, sv_expires_at = sg_expires_at r,
      sv_acked_at = sg_acked_at r, sv_acked_by = sg_acked_by r\<rparr>"

subsection \<open>Operations\<close>

text \<open>The tenant check of \<open>send\<close> and \<open>ack\<close>: a caller without a tenant and a row without a stamp
  always pass.\<close>

definition tenant_matches :: "string option \<Rightarrow> string option \<Rightarrow> signal \<Rightarrow> bool" where
  "tenant_matches user team r \<longleftrightarrow>
     (if user \<noteq> None \<or> team \<noteq> None
      then (sg_user_id r = None \<and> sg_team_id r = None) \<or>
           (user \<noteq> None \<and> sg_user_id r = user) \<or>
           (team \<noteq> None \<and> sg_team_id r \<noteq> None \<and> sg_team_id r = team)
      else True)"

definition find_signal :: "string \<Rightarrow> signals \<Rightarrow> signal option" where
  "find_signal i t = sql_get (sql_where (\<lambda>r. sg_signal_id r = i) t)"

text \<open>What a reply takes from its parent: the thread and the project, or a refusal.\<close>

definition reply_scope :: "send_request \<Rightarrow> signals \<Rightarrow> (send_error + string \<times> string option) option" where
  "reply_scope req t =
     (case sd_reply_to req of
        None \<Rightarrow> None
      | Some p \<Rightarrow>
          if p = [] then None
          else case find_signal p t of
              None \<Rightarrow> Some (Inl ReplyTargetMissing)
            | Some parent \<Rightarrow>
                if sd_project req \<noteq> None \<and> sd_project req \<noteq> Some (sg_project parent)
                then Some (Inl ReplyTargetMissing)
                else if \<not> tenant_matches (sd_user_id req) (sd_team_id req) parent
                then Some (Inl ReplyTargetMissing)
                else Some (Inr (sg_thread_id parent, sg_project parent)))"

definition insert_signal :: "signal \<Rightarrow> signals \<Rightarrow> (send_error + signal_view) \<times> signals" where
  "insert_signal row t =
     (if \<exists>r \<in> set t. sg_signal_id r = sg_signal_id row then (Inl DuplicateSignalId, t)
      else (Inr (signal_parseRow row), t @ [row]))"

text \<open>The thread and project of a message: those of its parent, or those asked for.\<close>

definition message_scope :: "send_request \<Rightarrow> signals \<Rightarrow> send_error + string \<times> string option" where
  "message_scope req t =
     (case reply_scope req t of
        None \<Rightarrow> Inr (js_trim (or_else (sd_thread_id req) []), or_else (sd_project req) None)
      | Some scope \<Rightarrow> scope)"

definition signal_row :: "ms \<Rightarrow> string \<Rightarrow> send_request \<Rightarrow> string \<times> string option \<Rightarrow> signal" where
  "signal_row now signalId req scope =
     \<lparr>sg_signal_id = signalId,
      sg_thread_id = (if fst scope = [] then signalId else fst scope),
      sg_from = js_trim (or_else (sd_from req) []), sg_to = sd_to req,
      sg_reply_to = sd_reply_to req, sg_content = or_else (sd_content req) [],
      sg_project = snd scope, sg_sent_at = now,
      sg_expires_at = (case sd_expires_in_ms req of Some n \<Rightarrow> if 0 < n then Some (now + n) else None
                       | None \<Rightarrow> None),
      sg_acked_at = None, sg_acked_by = None,
      sg_user_id = sd_user_id req, sg_team_id = sd_team_id req\<rparr>"

definition send :: "ms \<Rightarrow> string \<Rightarrow> send_request \<Rightarrow> signals \<Rightarrow> (send_error + signal_view) \<times> signals" where
  "send now new_id req t =
     (if js_trim (or_else (sd_from req) []) = [] then (Inl InvalidFrom, t)
      else if or_else (sd_content req) [] = [] then (Inl InvalidContent, t)
      else case message_scope req t of
          Inl e \<Rightarrow> (Inl e, t)
        | Inr scope \<Rightarrow> insert_signal (signal_row now new_id req scope) t)"

text \<open>The WHERE clause of \<open>read\<close>.\<close>

definition in_inbox :: "ms \<Rightarrow> string \<Rightarrow> read_request \<Rightarrow> signal \<Rightarrow> bool" where
  "in_inbox now agentId req r \<longleftrightarrow>
     sg_acked_at r = None \<and>
     (case sg_expires_at r of None \<Rightarrow> True | Some e \<Rightarrow> now < e) \<and>
     (if rd_include_broadcast req \<noteq> Some False
      then sg_to r = Some agentId \<or> sg_to r = None else sg_to r = Some agentId) \<and>
     (truthy (rd_thread_id req) \<longrightarrow> rd_thread_id req = Some (sg_thread_id r)) \<and>
     (rd_user_id req \<noteq> None \<or> rd_team_id req \<noteq> None \<longrightarrow>
        (sg_user_id r = None \<and> sg_team_id r = None) \<or>
        (rd_user_id req \<noteq> None \<and> sql_eq (sg_user_id r) (rd_user_id req)) \<or>
        (rd_team_id req \<noteq> None \<and> sql_eq (sg_team_id r) (rd_team_id req))) \<and>
     (\<not> rd_all_projects req \<longrightarrow>
        (case rd_project req of None \<Rightarrow> sg_project r = None
         | Some p \<Rightarrow> sg_project r = Some p \<or> sg_project r = None))"

definition read_limit :: "read_request \<Rightarrow> nat" where
  "read_limit req = (case rd_limit req of Some n \<Rightarrow> if 0 < n then nat n else 100 | None \<Rightarrow> 100)"

definition read_signals :: "ms \<Rightarrow> read_request \<Rightarrow> signals \<Rightarrow> signal_view list" where
  "read_signals now req t =
     (let agentId = js_trim (or_else (rd_agent_id req) []) in
      if agentId = [] then []
      else map signal_parseRow
             (take (read_limit req) (order_asc sg_sent_at (sql_where (in_inbox now agentId req) t))))"

definition ack :: "ms \<Rightarrow> ack_request \<Rightarrow> signals \<Rightarrow> (ack_error + signal_view) \<times> signals" where
  "ack now req t =
     (case find_signal (ak_signal_id req) t of
        None \<Rightarrow> (Inl AckNotFound, t)
      | Some row \<Rightarrow>
          if \<not> tenant_matches (ak_user_id req) (ak_team_id req) row then (Inl AckNotFound, t)
          else if sg_acked_at row \<noteq> None then (Inl AlreadyAcked, t)
          else if sg_to row \<noteq> None \<and> sg_to row \<noteq> Some (ak_agent_id req) then (Inl NotRecipient, t)
          else (let t1 = sql_update (\<lambda>r. sg_signal_id r = ak_signal_id req)
                       (\<lambda>r. r\<lparr>sg_acked_at := Some now, sg_acked_by := Some (ak_agent_id req)\<rparr>) t
                in case find_signal (ak_signal_id req) t1 of
                     Some updated \<Rightarrow> (Inr (signal_parseRow updated), t1)
                   | None \<Rightarrow> (Inl AckNotFound, t1)))"

definition get_signal :: "string \<Rightarrow> signals \<Rightarrow> signal_view option" where
  "get_signal i t = map_option signal_parseRow (find_signal i t)"

subsection \<open>Runs of the store\<close>

datatype signal_op = OpSend string send_request | OpAck ack_request | OpRead read_request

type_synonym signal_state = "ms \<times> signals"

definition signal_step :: "nat \<times> signal_op \<Rightarrow> signal_state \<Rightarrow> signal_state" where
  "signal_step x s =
     (let now = fst s + int (fst x); t = snd s in
      (now, case snd x of
              OpSend i req \<Rightarrow> snd (send now i req t)
            | OpAck req \<Rightarrow> snd (ack now req t)
            | OpRead req \<Rightarrow> t))"

text \<open>
  Threads hold together: ids are unique, and a reply comes after its parent in the table, in the same
  thread and project.
\<close>

definition joins :: "signal \<Rightarrow> signal \<Rightarrow> bool" where
  "joins r p \<longleftrightarrow> sg_reply_to r = Some (sg_signal_id p) \<and> sg_project r = sg_project p \<and>
     sg_thread_id r = (if sg_thread_id p = [] then sg_signal_id r else sg_thread_id p)"

definition threaded :: "signals \<Rightarrow> bool" where
  "threaded t \<longleftrightarrow> (\<forall>k < length t. (sg_thread_id (t ! k) = [] \<longrightarrow> sg_signal_id (t ! k) = []) \<and>
     (truthy (sg_reply_to (t ! k)) \<longrightarrow> (\<exists>j < k. joins (t ! k) (t ! j))))"

definition wf_signals :: "signal_state \<Rightarrow> bool" where
  "wf_signals s \<longleftrightarrow> distinct (map sg_signal_id (snd s)) \<and> threaded (snd s)"

subsection \<open>Lemmas\<close>

lemma find_signal_Some: "find_signal i t = Some r \<Longrightarrow> r \<in> set t \<and> sg_signal_id r = i"
  by (auto simp: find_signal_def dest: sql_get_in)

lemma find_signal_update:
  "(\<And>r. sg_signal_id (f r) = sg_signal_id r) \<Longrightarrow>
    find_signal i (sql_update (\<lambda>r. sg_signal_id r = i) f t) = map_option f (find_signal i t)"
  by (induction t) (auto simp: find_signal_def sql_where_def sql_update_def)

lemma find_signal_unique:
  "distinct (map sg_signal_id t) \<Longrightarrow> r \<in> set t \<Longrightarrow> find_signal (sg_signal_id r) t = Some r"
  by (cases "find_signal (sg_signal_id r) t")
    (auto simp: find_signal_def sql_where_def filter_empty_conv distinct_map inj_on_def dest: sql_get_in)

definition mark_acked :: "ms \<Rightarrow> string \<Rightarrow> string \<Rightarrow> signals \<Rightarrow> signals" where
  "mark_acked now i agent t = sql_update (\<lambda>r. sg_signal_id r = i)
     (\<lambda>r. r\<lparr>sg_acked_at := Some now, sg_acked_by := Some agent\<rparr>) t"

text \<open>\<open>ack\<close> without the second SELECT.\<close>

lemma ack_cases:
  "ack now req t =
     (case find_signal (ak_signal_id req) t of
        None \<Rightarrow> (Inl AckNotFound, t)
      | Some row \<Rightarrow>
          if \<not> tenant_matches (ak_user_id req) (ak_team_id req) row then (Inl AckNotFound, t)
          else if sg_acked_at row \<noteq> None then (Inl AlreadyAcked, t)
          else if sg_to row \<noteq> None \<and> sg_to row \<noteq> Some (ak_agent_id req) then (Inl NotRecipient, t)
          else (Inr ((signal_parseRow row)\<lparr>sv_acked_at := Some now, sv_acked_by := Some (ak_agent_id req)\<rparr>),
                mark_acked now (ak_signal_id req) (ak_agent_id req) t))"
  by (simp add: ack_def find_signal_update Let_def signal_parseRow_def mark_acked_def split: option.split)

text \<open>Every operation leaves the rows as they are, marks one acknowledged, or appends one.\<close>

lemma ack_table: "snd (ack now req t) = t \<or>
    snd (ack now req t) = mark_acked now (ak_signal_id req) (ak_agent_id req) t"
  by (simp add: ack_cases split: option.split)

definition reply_ok :: "signal \<Rightarrow> signals \<Rightarrow> bool" where
  "reply_ok row t \<longleftrightarrow> (sg_thread_id row = [] \<longrightarrow> sg_signal_id row = []) \<and>
     (truthy (sg_reply_to row) \<longrightarrow> (\<exists>p \<in> set t. joins row p))"

lemma reply_scope_Some: "reply_scope req t = Some (Inr (th, pr)) \<Longrightarrow>
    \<exists>p. sd_reply_to req = Some (sg_signal_id p) \<and> p \<in> set t \<and> th = sg_thread_id p \<and> pr = sg_project p \<and>
        tenant_matches (sd_user_id req) (sd_team_id req) p"
  by (auto simp: reply_scope_def dest!: find_signal_Some split: option.splits if_splits)

lemma reply_scope_None: "reply_scope req t = None \<longleftrightarrow> \<not> truthy (sd_reply_to req)"
  by (auto simp: reply_scope_def truthy_def split: option.splits)

lemma insert_signal_cases: "insert_signal row t =
    (if sg_signal_id row \<in> sg_signal_id ` set t then (Inl DuplicateSignalId, t)
     else (Inr (signal_parseRow row), t @ [row]))"
proof -
  have "(\<exists>r \<in> set t. sg_signal_id r = sg_signal_id row) = (sg_signal_id row \<in> sg_signal_id ` set t)"
    by (metis (no_types, lifting) image_iff)
  then show ?thesis by (simp add: insert_signal_def)
qed

lemma scope_reply_ok:
  assumes "message_scope req t = Inr scope"
  shows "reply_ok (signal_row now i req scope) t"
proof (cases "reply_scope req t")
  case None
  then show ?thesis by (simp add: reply_ok_def signal_row_def reply_scope_None)
next
  case (Some sc)
  then have "reply_scope req t = Some (Inr (fst scope, snd scope))"
    using assms by (simp add: message_scope_def)
  then obtain p where p: "sd_reply_to req = Some (sg_signal_id p)" "p \<in> set t"
      "fst scope = sg_thread_id p" "snd scope = sg_project p"
    using reply_scope_Some by blast
  then have "joins (signal_row now i req scope) p" by (simp add: joins_def signal_row_def)
  then show ?thesis using p(2) by (auto simp: reply_ok_def signal_row_def)
qed

lemma send_ok: "fst (send now i req t) = Inr v \<Longrightarrow>
    \<exists>scope. message_scope req t = Inr scope \<and> v = signal_parseRow (signal_row now i req scope) \<and>
      snd (send now i req t) = t @ [signal_row now i req scope] \<and> i \<notin> sg_signal_id ` set t"
  by (auto simp: send_def insert_signal_cases signal_row_def split: if_splits sum.splits)

lemma send_refused: "fst (send now i req t) = Inl e \<Longrightarrow> snd (send now i req t) = t"
  by (auto simp: send_def insert_signal_cases split: if_splits sum.splits)

lemma send_table: "snd (send now i req t) = t \<or>
    (\<exists>row. snd (send now i req t) = t @ [row] \<and> sg_signal_id row = i \<and>
       i \<notin> sg_signal_id ` set t \<and> reply_ok row t)"
proof (cases "fst (send now i req t)")
  case (Inl e)
  then show ?thesis using send_refused by blast
next
  case (Inr v)
  then obtain scope where "message_scope req t = Inr scope"
      "snd (send now i req t) = t @ [signal_row now i req scope]" "i \<notin> sg_signal_id ` set t"
    using send_ok by blast
  then show ?thesis using scope_reply_ok by (auto simp: signal_row_def)
qed

lemma threaded_append:
  assumes "threaded t" "reply_ok row t"
  shows "threaded (t @ [row])"
proof -
  have "(sg_thread_id ((t @ [row]) ! k) = [] \<longrightarrow> sg_signal_id ((t @ [row]) ! k) = []) \<and>
      (truthy (sg_reply_to ((t @ [row]) ! k)) \<longrightarrow> (\<exists>j < k. joins ((t @ [row]) ! k) ((t @ [row]) ! j)))"
    if "k < length (t @ [row])" for k
  proof (cases "k < length t")
    case True
    then have e: "(t @ [row]) ! j = t ! j" if "j \<le> k" for j using that by (simp add: nth_append)
    have "(sg_thread_id (t ! k) = [] \<longrightarrow> sg_signal_id (t ! k) = []) \<and>
        (truthy (sg_reply_to (t ! k)) \<longrightarrow> (\<exists>j < k. joins (t ! k) (t ! j)))"
      using assms(1) True by (simp add: threaded_def)
    moreover have "joins ((t @ [row]) ! k) ((t @ [row]) ! j) = joins (t ! k) (t ! j)" if "j < k" for j
      using e[of k] e[of j] that by simp
    ultimately show ?thesis using e[of k] by auto
  next
    case False
    then have k: "k = length t" using that by simp
    have "\<exists>j < k. joins row ((t @ [row]) ! j)" if "truthy (sg_reply_to row)"
    proof -
      obtain p where "p \<in> set t" "joins row p" using assms(2) \<open>truthy _\<close> by (auto simp: reply_ok_def)
      then show ?thesis using k by (metis in_set_conv_nth nth_append)
    qed
    then show ?thesis using assms(2) k by (simp add: reply_ok_def)
  qed
  then show ?thesis by (simp add: threaded_def)
qed

lemma threaded_mark: "threaded t \<Longrightarrow> threaded (mark_acked now i agent t)"
proof -
  let ?u = "mark_acked now i agent t"
  have same: "sg_reply_to (?u ! k) = sg_reply_to (t ! k) \<and> sg_signal_id (?u ! k) = sg_signal_id (t ! k) \<and>
      sg_thread_id (?u ! k) = sg_thread_id (t ! k) \<and> sg_project (?u ! k) = sg_project (t ! k)"
    if "k < length t" for k
    using that by (auto simp: mark_acked_def sql_update_def)
  have len: "length ?u = length t" by (simp add: mark_acked_def)
  have j: "joins (?u ! k) (?u ! j) = joins (t ! k) (t ! j)" if "k < length t" "j < k" for j k
    using same[of k] same[of j] that by (simp add: joins_def)
  assume t: "threaded t"
  show "threaded ?u"
    unfolding threaded_def len
  proof (intro allI impI)
    fix k assume k: "k < length t"
    then have "(sg_thread_id (t ! k) = [] \<longrightarrow> sg_signal_id (t ! k) = []) \<and>
        (truthy (sg_reply_to (t ! k)) \<longrightarrow> (\<exists>j < k. joins (t ! k) (t ! j)))"
      using t by (simp add: threaded_def)
    then show "(sg_thread_id (?u ! k) = [] \<longrightarrow> sg_signal_id (?u ! k) = []) \<and>
        (truthy (sg_reply_to (?u ! k)) \<longrightarrow> (\<exists>j < k. joins (?u ! k) (?u ! j)))"
      using same[OF k] j[OF k] by auto
  qed
qed

lemma ids_mark [simp]: "map sg_signal_id (mark_acked now i agent t) = map sg_signal_id t"
  by (simp add: mark_acked_def map_sql_update)

lemma set_ids_mark [simp]: "sg_signal_id ` set (mark_acked now i agent t) = sg_signal_id ` set t"
  by (metis ids_mark set_map)

lemma wf_signals_step: "wf_signals s \<Longrightarrow> wf_signals (signal_step x s)"
proof -
  assume w: "wf_signals s"
  obtain c t where s: "s = (c, t)" by (cases s)
  have "wf_signals (now, snd (send now i req t))" for now i req
    using send_table[of now i req t] w threaded_append by (auto simp: s wf_signals_def)
  moreover have "wf_signals (now, snd (ack now req t))" for now req
    using ack_table[of now req t] w threaded_mark by (auto simp: s wf_signals_def)
  ultimately show ?thesis
    using w by (auto simp: s signal_step_def Let_def wf_signals_def split: signal_op.split)
qed

interpretation signal_machine: invariant_machine signal_step wf_signals
  by unfold_locales (rule wf_signals_step)

text \<open>Conversations hold together: after any sequence of sends, reads and acknowledgements on an empty
  store, a row that replies to another has its parent earlier in the table, in the same project and in the
  same thread.\<close>

theorem replies_join_their_parent:
  assumes "fold signal_step calls (start, []) = (now, t)" "k < length t"
    and "sg_reply_to (t ! k) = Some p" "p \<noteq> []"
  shows "\<exists>j < k. sg_signal_id (t ! j) = p \<and> sg_project (t ! j) = sg_project (t ! k) \<and>
    sg_thread_id (t ! j) = sg_thread_id (t ! k)"
proof -
  have "wf_signals (start, [])" by (simp add: wf_signals_def threaded_def)
  then have w: "threaded t" using assms(1) signal_machine.run_inv[of "(start, [])" calls]
    by (auto simp: wf_signals_def)
  then obtain j where j: "j < k" "joins (t ! k) (t ! j)"
    using assms(2-4) by (auto simp: threaded_def)
  then have "sg_signal_id (t ! j) = p" using assms(3) by (simp add: joins_def)
  moreover have "sg_thread_id (t ! j) \<noteq> []"
    using w j(1) assms(2,4) calculation by (auto simp: threaded_def)
  ultimately show ?thesis using j by (auto simp: joins_def)
qed

subsection \<open>Delivery\<close>

text \<open>A message that is acknowledged stays so; one that is not stays in the table as it was sent.\<close>

definition all_acked :: "string \<Rightarrow> signals \<Rightarrow> bool" where
  "all_acked i t \<longleftrightarrow> i \<in> sg_signal_id ` set t \<and> (\<forall>r \<in> set t. sg_signal_id r = i \<longrightarrow> sg_acked_at r \<noteq> None)"

lemma set_mark: "set (mark_acked now i agent t) =
    (\<lambda>r. if sg_signal_id r = i then r\<lparr>sg_acked_at := Some now, sg_acked_by := Some agent\<rparr> else r) ` set t"
  by (simp add: mark_acked_def sql_update_def)

lemma all_acked_mark: "all_acked i t \<Longrightarrow> all_acked i (mark_acked now k agent t)"
  unfolding all_acked_def set_ids_mark by (auto simp: set_mark)

lemma all_acked_step: "all_acked i (snd s) \<Longrightarrow> all_acked i (snd (signal_step x s))"
proof -
  assume a: "all_acked i (snd s)"
  obtain c t where s: "s = (c, t)" by (cases s)
  have "all_acked i (snd (send now j req t))" for now j req
    using send_table[of now j req t] a by (auto simp: s all_acked_def)
  moreover have "all_acked i (snd (ack now req t))" for now req
    using ack_table[of now req t] a all_acked_mark by (auto simp: s)
  ultimately show ?thesis
    using a by (auto simp: s signal_step_def Let_def split: signal_op.split)
qed

interpretation acked_machine: invariant_machine signal_step "\<lambda>s. all_acked i (snd s)" for i
  by unfold_locales (rule all_acked_step)

lemma ack_ok:
  assumes "fst (ack now req t) = Inr v"
  shows "all_acked (ak_signal_id req) (snd (ack now req t))"
proof -
  obtain row where row: "find_signal (ak_signal_id req) t = Some row"
      "snd (ack now req t) = mark_acked now (ak_signal_id req) (ak_agent_id req) t"
    using assms by (auto simp: ack_cases split: option.splits if_splits)
  then have "ak_signal_id req \<in> sg_signal_id ` set t" using find_signal_Some by (metis imageI)
  then show ?thesis unfolding all_acked_def row(2) set_ids_mark by (auto simp: set_mark)
qed

lemma read_from_table: "v \<in> set (read_signals now req t) \<Longrightarrow>
    \<exists>r \<in> set t. in_inbox now (js_trim (or_else (rd_agent_id req) [])) req r \<and> v = signal_parseRow r"
  by (auto simp: read_signals_def Let_def dest!: in_set_takeD split: if_splits)

text \<open>C21. At most once: when an acknowledgement succeeds, no later read, by any agent with any filter,
  after any further calls, returns that message, and no later acknowledgement of it succeeds.\<close>

theorem acked_signals_never_return:
  assumes "fst (ack now req t) = Inr v" "fold signal_step later (now, snd (ack now req t)) = (now', t')"
  shows "ak_signal_id req \<notin> sv_signal_id ` set (read_signals now' rq t') \<and>
    (ak_signal_id again = ak_signal_id req \<longrightarrow>
      fst (ack now' again t') \<in> {Inl AlreadyAcked, Inl AckNotFound})"
proof -
  have a: "all_acked (ak_signal_id req) t'"
    using acked_machine.run_inv[of "ak_signal_id req" "(now, snd (ack now req t))" later] ack_ok[OF assms(1)]
      assms(2) by simp
  have "r \<notin> set t' \<or> sg_signal_id r \<noteq> ak_signal_id req" if "in_inbox now' g rq r" for g r
    using that a by (auto simp: in_inbox_def all_acked_def)
  then have "ak_signal_id req \<notin> sv_signal_id ` set (read_signals now' rq t')"
    using read_from_table by (fastforce simp: signal_parseRow_def)
  moreover have "fst (ack now' again t') \<in> {Inl AlreadyAcked, Inl AckNotFound}"
    if "ak_signal_id again = ak_signal_id req"
    using that a by (auto simp: ack_cases all_acked_def split: option.split dest!: find_signal_Some)
  ultimately show ?thesis by blast
qed

lemma kept_step:
  assumes "r \<in> set (snd s)" "\<forall>req. snd x = OpAck req \<longrightarrow> ak_signal_id req \<noteq> sg_signal_id r"
  shows "r \<in> set (snd (signal_step x s))"
proof -
  obtain c t where s: "s = (c, t)" by (cases s)
  have "r \<in> set (snd (send now j req t))" for now j req
    using send_table[of now j req t] assms(1) by (auto simp: s)
  moreover have "r \<in> set (snd (ack now req t))" if "ak_signal_id req \<noteq> sg_signal_id r" for now req
    using ack_table[of now req t] assms(1) that by (auto simp: s set_mark image_iff intro!: bexI[of _ r])
  ultimately show ?thesis
    using assms by (auto simp: s signal_step_def Let_def split: signal_op.split)
qed

lemma kept_run:
  "r \<in> set (snd s) \<Longrightarrow> (\<And>x req. x \<in> set xs \<Longrightarrow> snd x = OpAck req \<Longrightarrow> ak_signal_id req \<noteq> sg_signal_id r) \<Longrightarrow>
    r \<in> set (snd (fold signal_step xs s))"
proof (induction xs arbitrary: s)
  case Nil
  then show ?case by simp
next
  case (Cons x xs)
  then have "r \<in> set (snd (signal_step x s))" by (intro kept_step) (meson list.set_intros)+
  then show ?case using Cons.IH[of "signal_step x s"] Cons.prems(2) by (metis fold_simps(2) list.set_intros(2))
qed

lemma read_all:
  assumes "length t \<le> read_limit req" "js_trim (or_else (rd_agent_id req) []) \<noteq> []"
  shows "set (read_signals now req t) =
    signal_parseRow ` {r \<in> set t. in_inbox now (js_trim (or_else (rd_agent_id req) [])) req r}"
proof -
  have "length (sql_where (in_inbox now (js_trim (or_else (rd_agent_id req) [])) req) t) \<le> read_limit req"
    using assms(1) by (metis le_trans length_filter_le sql_where_def)
  then show ?thesis using assms(2) by (simp add: read_signals_def Let_def)
qed

text \<open>Delivery: a message that was sent stays deliverable. Whatever calls follow the send, if none of
  them acknowledges it, then a read by its recipient before its expiry, with the project it was sent under
  (or none when it had none), a matching tenant, no thread filter and a limit that covers the table,
  returns it as it was sent.\<close>

theorem sent_signals_are_delivered:
  assumes "fst (send now i req t) = Inr v"
    and "fold signal_step later (now, snd (send now i req t)) = (now', t')"
    and "\<forall>x \<in> set later. \<forall>a. snd x = OpAck a \<longrightarrow> ak_signal_id a \<noteq> i"
    and "sd_to req = Some (js_trim (or_else (rd_agent_id rq) []))" "sd_to req \<noteq> Some []"
    and "rd_project rq = sv_project v" "rd_thread_id rq = None"
    and "rd_user_id rq = sd_user_id req" "rd_team_id rq = sd_team_id req"
    and "case sv_expires_at v of None \<Rightarrow> True | Some e \<Rightarrow> now' < e"
    and "length t' \<le> read_limit rq"
  shows "v \<in> set (read_signals now' rq t')"
proof -
  obtain scope where sc: "v = signal_parseRow (signal_row now i req scope)"
      "snd (send now i req t) = t @ [signal_row now i req scope]"
    using send_ok[OF assms(1)] by blast
  let ?r = "signal_row now i req scope"
  have "?r \<in> set (snd (fold signal_step later (now, snd (send now i req t))))"
    by (rule kept_run) (use sc(2) assms(3) in \<open>auto simp: signal_row_def\<close>)
  then have "?r \<in> set t'" using assms(2) by simp
  moreover have "in_inbox now' (js_trim (or_else (rd_agent_id rq) [])) rq ?r"
    using assms(4-10) sc(1)
    by (auto simp: in_inbox_def signal_row_def signal_parseRow_def sql_eq_def split: option.splits)
  ultimately show ?thesis using sc(1) assms(4,5,11) by (auto simp: read_all)
qed

lemma read_visible:
  assumes "v \<in> set (read_signals now rq t)"
  shows "(\<not> rd_all_projects rq \<longrightarrow> sv_project v \<in> {None, rd_project rq}) \<and>
      sv_to v \<in> {None, Some (js_trim (or_else (rd_agent_id rq) []))} \<and> sv_acked_at v = None \<and>
      (case sv_expires_at v of None \<Rightarrow> True | Some e \<Rightarrow> now < e)"
proof -
  obtain r where r: "in_inbox now (js_trim (or_else (rd_agent_id rq) [])) rq r" "v = signal_parseRow r"
    using read_from_table[OF assms] by blast
  then have "\<not> rd_all_projects rq \<longrightarrow> sg_project r \<in> {None, rd_project rq}"
    by (cases "rd_project rq") (auto simp: in_inbox_def)
  moreover have "sg_to r \<in> {None, Some (js_trim (or_else (rd_agent_id rq) []))}"
    using r(1) by (cases "rd_include_broadcast rq = Some False") (auto simp: in_inbox_def)
  ultimately show ?thesis using r by (simp add: in_inbox_def signal_parseRow_def)
qed

text \<open>Isolation: a read that does not ask for all projects returns only messages of its project or of
  none, addressed to its agent or to nobody, not expired and not acknowledged, at most as many as its
  limit and in the order they were sent; a reply to a parent of another project or tenant is refused with
  the answer of a parent that does not exist, and nothing is stored.\<close>

theorem signals_are_isolated:
  "(\<forall>v \<in> set (read_signals now rq t).
      (\<not> rd_all_projects rq \<longrightarrow> sv_project v \<in> {None, rd_project rq}) \<and>
      sv_to v \<in> {None, Some (js_trim (or_else (rd_agent_id rq) []))} \<and> sv_acked_at v = None \<and>
      (case sv_expires_at v of None \<Rightarrow> True | Some e \<Rightarrow> now < e)) \<and>
   sorted (map sv_sent_at (read_signals now rq t)) \<and>
   length (read_signals now rq t) \<le> read_limit rq \<and>
   (\<forall>p parent. sd_reply_to req = Some p \<and> p \<noteq> [] \<and> js_trim (or_else (sd_from req) []) \<noteq> [] \<and>
      or_else (sd_content req) [] \<noteq> [] \<and>
      (find_signal p t = None \<or> find_signal p t = Some parent \<and>
         (sd_project req \<noteq> None \<and> sd_project req \<noteq> Some (sg_project parent) \<or>
          \<not> tenant_matches (sd_user_id req) (sd_team_id req) parent))
      \<longrightarrow> send now i req t = (Inl ReplyTargetMissing, t))"
proof -
  have sent: "sv_sent_at \<circ> signal_parseRow = sg_sent_at" by (auto simp: signal_parseRow_def)
  have srt: "sorted (map sg_sent_at (take n (order_asc sg_sent_at u)))" for n u
    using sorted_order_asc[of sg_sent_at u] by (metis sorted_wrt_take take_map)
  have "sorted (map sv_sent_at (read_signals now rq t))"
    by (simp add: read_signals_def Let_def sent srt)
  moreover have "length (read_signals now rq t) \<le> read_limit rq"
    by (simp add: read_signals_def Let_def)
  moreover have "send now i req t = (Inl ReplyTargetMissing, t)"
    if "sd_reply_to req = Some p" "p \<noteq> []" "js_trim (or_else (sd_from req) []) \<noteq> []"
      "or_else (sd_content req) [] \<noteq> []"
      "find_signal p t = None \<or> find_signal p t = Some parent \<and>
         (sd_project req \<noteq> None \<and> sd_project req \<noteq> Some (sg_project parent) \<or>
          \<not> tenant_matches (sd_user_id req) (sd_team_id req) parent)" for p parent
    using that by (auto simp: send_def message_scope_def reply_scope_def)
  moreover have "(\<not> rd_all_projects rq \<longrightarrow> sv_project v \<in> {None, rd_project rq}) \<and>
      sv_to v \<in> {None, Some (js_trim (or_else (rd_agent_id rq) []))} \<and> sv_acked_at v = None \<and>
      (case sv_expires_at v of None \<Rightarrow> True | Some e \<Rightarrow> now < e)"
    if "v \<in> set (read_signals now rq t)" for v
    by (rule read_visible[OF that])
  ultimately show ?thesis by blast
qed

text \<open>A recipient name with spaces around it can never be read: \<open>send\<close> stores it as given while
  \<open>read\<close> trims the name it is asked for.\<close>

theorem padded_recipient_is_unreachable:
  assumes "fst (send now i req t) = Inr v" "sd_to req = Some agent" "js_trim agent \<noteq> agent"
  shows "sv_to v = Some agent \<and> v \<notin> set (read_signals now' rq t')"
proof -
  have "sv_to v = Some agent"
    using send_ok[OF assms(1)] assms(2) by (auto simp: signal_parseRow_def signal_row_def)
  moreover have "v \<notin> set (read_signals now' rq t')"
  proof
    assume "v \<in> set (read_signals now' rq t')"
    then obtain r where "in_inbox now' (js_trim (or_else (rd_agent_id rq) [])) rq r" "v = signal_parseRow r"
      using read_from_table by blast
    then have "sv_to v \<in> {None, Some (js_trim (or_else (rd_agent_id rq) []))}"
      by (auto simp: in_inbox_def signal_parseRow_def split: if_splits)
    then show False using calculation assms(3) js_trim_idem by (metis insertE option.inject option.simps(3) singletonD)
  qed
  ultimately show ?thesis by blast
qed

subsection \<open>A conversation\<close>

definition ask :: "string \<Rightarrow> send_request" where
  "ask to = \<lparr>sd_from = Some ''a'', sd_to = Some to, sd_thread_id = None, sd_reply_to = None,
     sd_content = Some ''hi'', sd_project = Some (Some ''p''), sd_expires_in_ms = Some 500,
     sd_user_id = Some ''u'', sd_team_id = None\<rparr>"

definition answer :: send_request where
  "answer = (ask ''a'')\<lparr>sd_from := Some ''b'', sd_reply_to := Some ''S1'', sd_project := None\<rparr>"

definition inbox_of :: "string \<Rightarrow> read_request" where
  "inbox_of agent = \<lparr>rd_agent_id = Some agent, rd_thread_id = None, rd_include_broadcast = None,
     rd_project = Some ''p'', rd_all_projects = False, rd_user_id = Some ''u'', rd_team_id = None,
     rd_limit = None\<rparr>"

definition receipt :: ack_request where
  "receipt = \<lparr>ak_signal_id = ''S1'', ak_agent_id = ''b'', ak_user_id = Some ''u'', ak_team_id = None\<rparr>"

definition asked :: signal where
  "asked = signal_row 10 ''S1'' (ask ''b'') ([], Some ''p'')"

definition answered :: signal where
  "answered = signal_row 30 ''S2'' answer (''S1'', Some ''p'')"

lemma conversation_steps:
  "send 10 ''S1'' (ask ''b'') [] = (Inr (signal_parseRow asked), [asked])"
  "fold signal_step [(20, OpSend ''S2'' answer)] (10, [asked]) = (30, [asked, answered])"
  "fst (ack 30 receipt [asked, answered]) =
     Inr ((signal_parseRow asked)\<lparr>sv_acked_at := Some 30, sv_acked_by := Some ''b''\<rparr>)"
  "fold signal_step [(10, OpSend ''S1'' (ask ''b'')), (20, OpSend ''S2'' answer)] (0, []) =
     (30, [asked, answered])"
  by code_simp+

theorem replies_join_their_parent_witness:
  "\<exists>j < 1. sg_thread_id ([asked, answered] ! j) = sg_thread_id answered"
proof -
  have "sg_reply_to ([asked, answered] ! 1) = Some ''S1''" by code_simp
  then show ?thesis
    using replies_join_their_parent[OF conversation_steps(4), of 1 "''S1''"] by auto
qed

theorem acked_signals_never_return_witness:
  "''S1'' \<notin> sv_signal_id ` set (read_signals 35 (inbox_of ''b'') (snd (ack 30 receipt [asked, answered])))"
proof -
  have "fold signal_step [(5, OpRead (inbox_of ''b''))] (30, snd (ack 30 receipt [asked, answered])) =
      (35, snd (ack 30 receipt [asked, answered]))"
    by (simp add: signal_step_def Let_def)
  from acked_signals_never_return[OF conversation_steps(3) this, of "inbox_of ''b''" receipt]
  show ?thesis by (simp add: receipt_def)
qed

theorem sent_signals_are_delivered_witness:
  "signal_parseRow asked \<in> set (read_signals 30 (inbox_of ''b'') [asked, answered])"
proof (rule sent_signals_are_delivered)
  show "fst (send 10 ''S1'' (ask ''b'') []) = Inr (signal_parseRow asked)"
    by (simp add: conversation_steps)
  show "fold signal_step [(20, OpSend ''S2'' answer)] (10, snd (send 10 ''S1'' (ask ''b'') [])) =
      (30, [asked, answered])"
    by (simp only: conversation_steps snd_conv)
  show "\<forall>x \<in> set [(20, OpSend ''S2'' answer)]. \<forall>a. snd x = OpAck a \<longrightarrow> ak_signal_id a \<noteq> ''S1''"
    by simp
qed code_simp+

theorem signals_are_isolated_witness:
  "send 40 ''S3'' (answer\<lparr>sd_project := Some (Some ''q'')\<rparr>) [asked, answered] =
     (Inl ReplyTargetMissing, [asked, answered])"
proof -
  have "find_signal ''S1'' [asked, answered] = Some asked" by code_simp
  moreover have "sg_project asked = Some ''p''" by code_simp
  moreover have "js_trim (or_else (sd_from (answer\<lparr>sd_project := Some (Some ''q'')\<rparr>)) []) \<noteq> []" by code_simp
  moreover have "or_else (sd_content (answer\<lparr>sd_project := Some (Some ''q'')\<rparr>)) [] \<noteq> []" by code_simp
  moreover have "sd_reply_to (answer\<lparr>sd_project := Some (Some ''q'')\<rparr>) = Some ''S1''" by code_simp
  ultimately show ?thesis
    using signals_are_isolated[of 40 "inbox_of ''b''" "[asked, answered]" "answer\<lparr>sd_project := Some (Some ''q'')\<rparr>" "''S3''"]
    by simp
qed

theorem padded_recipient_is_unreachable_witness:
  "sv_to (signal_parseRow (signal_row 10 ''S1'' (ask '' b'') ([], Some ''p''))) = Some '' b''"
proof -
  have s: "fst (send 10 ''S1'' (ask '' b'') []) = Inr (signal_parseRow (signal_row 10 ''S1'' (ask '' b'') ([], Some ''p'')))"
    by code_simp
  have to: "sd_to (ask '' b'') = Some '' b''" "js_trim '' b'' \<noteq> '' b''" by code_simp+
  show ?thesis
    using padded_recipient_is_unreachable[OF s to, of 10 "inbox_of '' b''" "[]"] by blast
qed

end
