(* ===== verification/Rate_Limiter.thy ===== *)
theory Rate_Limiter
  imports Prelude Complex_Main
begin

text \<open>
  The token bucket rate limiter of \<open>memory-server/src/middleware/rate-limiter.ts\<close>. The clock is an
  argument. Numbers are exact: token counts are integers, the refill interval is a rational, and the
  rounding of IEEE doubles is not modelled.
\<close>

subsection \<open>State and operations\<close>

record rate_config =
  rc_requestsPerMinute :: int
  rc_burstSize :: int

record bucket =
  bk_tokens :: int
  bk_lastRefill :: ms

type_synonym buckets = "string \<rightharpoonup> bucket"

record consume_result =
  cr_allowed :: bool
  cr_remaining :: int
  cr_resetAt :: ms

definition refillRateMs :: "rate_config \<Rightarrow> rat" where
  "refillRateMs cfg = 60000 / of_int (rc_requestsPerMinute cfg)"

definition refilled_tokens :: "rate_config \<Rightarrow> int \<Rightarrow> int" where
  "refilled_tokens cfg elapsed = \<lfloor>of_int elapsed / refillRateMs cfg\<rfloor>"

definition bucket_of :: "rate_config \<Rightarrow> ms \<Rightarrow> bucket option \<Rightarrow> bucket" where
  "bucket_of cfg now b = (case b of Some bk \<Rightarrow> bk
     | None \<Rightarrow> \<lparr>bk_tokens = rc_burstSize cfg, bk_lastRefill = now\<rparr>)"

definition refill :: "rate_config \<Rightarrow> ms \<Rightarrow> bucket \<Rightarrow> bucket" where
  "refill cfg now b =
     (let refilled = refilled_tokens cfg (now - bk_lastRefill b) in
      if 0 < refilled
      then b\<lparr>bk_tokens := min (rc_burstSize cfg) (bk_tokens b + refilled), bk_lastRefill := now\<rparr>
      else b)"

definition tryConsume :: "rate_config \<Rightarrow> ms \<Rightarrow> string \<Rightarrow> buckets \<Rightarrow> consume_result \<times> buckets" where
  "tryConsume cfg now key bs =
     (let b = refill cfg now (bucket_of cfg now (bs key));
          resetAt = now + \<lceil>of_int (1 - bk_tokens b) * refillRateMs cfg\<rceil>
      in if 1 \<le> bk_tokens b
         then (\<lparr>cr_allowed = True, cr_remaining = bk_tokens b - 1, cr_resetAt = resetAt\<rparr>,
               bs(key \<mapsto> b\<lparr>bk_tokens := bk_tokens b - 1\<rparr>))
         else (\<lparr>cr_allowed = False, cr_remaining = 0, cr_resetAt = resetAt\<rparr>, bs(key \<mapsto> b)))"

definition peek :: "rate_config \<Rightarrow> ms \<Rightarrow> string \<Rightarrow> buckets \<Rightarrow> consume_result" where
  "peek cfg now key bs =
     (case bs key of
        None \<Rightarrow> \<lparr>cr_allowed = True, cr_remaining = rc_burstSize cfg, cr_resetAt = now\<rparr>
      | Some b \<Rightarrow>
          (let currentTokens = min (rc_burstSize cfg)
                 (bk_tokens b + refilled_tokens cfg (now - bk_lastRefill b))
           in \<lparr>cr_allowed = (1 \<le> currentTokens), cr_remaining = currentTokens,
               cr_resetAt = now + \<lceil>of_int (1 - currentTokens) * refillRateMs cfg\<rceil>\<rparr>))"

text \<open>The three headers, as numbers: limit, remaining, reset in seconds.\<close>

definition getHeaders :: "rate_config \<Rightarrow> ms \<Rightarrow> string \<Rightarrow> buckets \<Rightarrow> int \<times> int \<times> int" where
  "getHeaders cfg now key bs =
     (let result = peek cfg now key bs
      in (rc_requestsPerMinute cfg, cr_remaining result, \<lceil>of_int (cr_resetAt result) / (1000 :: rat)\<rceil>))"

definition reset_buckets :: "string option \<Rightarrow> buckets \<Rightarrow> buckets" where
  "reset_buckets key bs = (case key of Some k \<Rightarrow> bs(k := None) | None \<Rightarrow> Map.empty)"

definition cleanup :: "ms \<Rightarrow> int \<Rightarrow> buckets \<Rightarrow> buckets" where
  "cleanup now maxAgeMs bs =
     (\<lambda>k. case bs k of None \<Rightarrow> None
          | Some b \<Rightarrow> if maxAgeMs < now - bk_lastRefill b then None else Some b)"

definition createRateLimiterFromEnv :: "string option \<Rightarrow> rate_config option" where
  "createRateLimiterFromEnv envValue =
     (if envValue = Some ''0'' then None
      else case (if truthy envValue then parse_int (or_else envValue []) else Some 120) of
          None \<Rightarrow> None
        | Some n \<Rightarrow> if n \<le> 0 then None
                    else Some \<lparr>rc_requestsPerMinute = n, rc_burstSize = max n 20\<rparr>)"

subsection \<open>Buckets stay within their bounds\<close>

definition wf_config :: "rate_config \<Rightarrow> bool" where
  "wf_config cfg \<longleftrightarrow> 0 < rc_requestsPerMinute cfg \<and> 1 \<le> rc_burstSize cfg"

definition wf_bucket :: "rate_config \<Rightarrow> bucket \<Rightarrow> bool" where
  "wf_bucket cfg b \<longleftrightarrow> 0 \<le> bk_tokens b \<and> bk_tokens b \<le> rc_burstSize cfg"

definition wf_buckets :: "rate_config \<Rightarrow> buckets \<Rightarrow> bool" where
  "wf_buckets cfg bs \<longleftrightarrow> (\<forall>k b. bs k = Some b \<longrightarrow> wf_bucket cfg b)"

lemma refilled_eq: "wf_config cfg \<Longrightarrow> refilled_tokens cfg e = e * rc_requestsPerMinute cfg div 60000"
proof -
  assume "wf_config cfg"
  then have "of_int e / refillRateMs cfg = (of_int (e * rc_requestsPerMinute cfg) / of_int 60000 :: rat)"
    by (simp add: refillRateMs_def wf_config_def field_simps)
  then show ?thesis by (simp only: refilled_tokens_def floor_divide_of_int_eq)
qed

lemma bucket_of_simps [simp]: "bucket_of cfg now (Some b) = b"
  "bucket_of cfg now None = \<lparr>bk_tokens = rc_burstSize cfg, bk_lastRefill = now\<rparr>"
  by (simp_all add: bucket_of_def)

lemma wf_bucket_of: "wf_config cfg \<Longrightarrow> wf_buckets cfg bs \<Longrightarrow> wf_bucket cfg (bucket_of cfg now (bs k))"
  by (cases "bs k") (auto simp: wf_buckets_def wf_bucket_def wf_config_def)

lemma wf_refill: "wf_bucket cfg b \<Longrightarrow> wf_bucket cfg (refill cfg now b)"
  by (auto simp: refill_def Let_def wf_bucket_def)

lemma wf_tryConsume: "wf_config cfg \<Longrightarrow> wf_buckets cfg bs \<Longrightarrow> wf_buckets cfg (snd (tryConsume cfg now k bs))"
  using wf_refill[OF wf_bucket_of[of cfg bs now k], of now]
  by (auto simp: tryConsume_def Let_def wf_buckets_def wf_bucket_def)

datatype rate_op = Consume nat string | Reset "string option" | Cleanup nat int

text \<open>The clock advances by the first argument of \<open>Consume\<close> and \<open>Cleanup\<close>.\<close>

definition rate_step :: "rate_config \<Rightarrow> rate_op \<Rightarrow> ms \<times> buckets \<Rightarrow> ms \<times> buckets" where
  "rate_step cfg op s =
     (case op of
        Consume dt k \<Rightarrow> (fst s + int dt, snd (tryConsume cfg (fst s + int dt) k (snd s)))
      | Reset k \<Rightarrow> (fst s, reset_buckets k (snd s))
      | Cleanup dt age \<Rightarrow> (fst s + int dt, cleanup (fst s + int dt) age (snd s)))"

interpretation rate_machine:
  invariant_machine "rate_step cfg" "\<lambda>s :: ms \<times> buckets. wf_config cfg \<longrightarrow> wf_buckets cfg (snd s)" for cfg
proof unfold_locales
  fix s :: "ms \<times> buckets" and x
  assume i: "wf_config cfg \<longrightarrow> wf_buckets cfg (snd s)"
  have "wf_buckets cfg bs \<Longrightarrow> wf_buckets cfg (cleanup n a bs)" for n a bs
    by (auto simp: wf_buckets_def cleanup_def split: option.splits if_splits)
  moreover have "wf_buckets cfg bs \<Longrightarrow> wf_buckets cfg (reset_buckets k bs)" for k bs
    by (auto simp: wf_buckets_def reset_buckets_def split: option.splits if_splits)
  ultimately show "wf_config cfg \<longrightarrow> wf_buckets cfg (snd (rate_step cfg x s))"
    using i wf_tryConsume by (cases x) (auto simp: rate_step_def)
qed

lemma reachable_wf: "wf_config cfg \<Longrightarrow> wf_buckets cfg (snd (fold (rate_step cfg) ops (t0, Map.empty)))"
  using rate_machine.run_inv[of cfg "(t0, Map.empty)" ops] by (simp add: wf_buckets_def)

subsection \<open>How many requests pass\<close>

text \<open>The calls of all clients, each with its time and key; how many of one key's calls are allowed.\<close>

fun allowed_count :: "rate_config \<Rightarrow> string \<Rightarrow> (ms \<times> string) list \<Rightarrow> buckets \<Rightarrow> nat" where
  "allowed_count cfg k [] bs = 0"
| "allowed_count cfg k ((t, key) # calls) bs =
     (let (r, bs') = tryConsume cfg t key bs
      in (if key = k \<and> cr_allowed r then 1 else 0) + allowed_count cfg k calls bs')"

lemma tryConsume_other: "key \<noteq> k \<Longrightarrow> snd (tryConsume cfg t key bs) k = bs k"
  by (auto simp: tryConsume_def Let_def)

lemma tryConsume_same:
  "snd (tryConsume cfg t k bs) k =
     (let b = refill cfg t (bucket_of cfg t (bs k)) in
      Some (if 1 \<le> bk_tokens b then b\<lparr>bk_tokens := bk_tokens b - 1\<rparr> else b))"
  "cr_allowed (fst (tryConsume cfg t k bs)) \<longleftrightarrow> 1 \<le> bk_tokens (refill cfg t (bucket_of cfg t (bs k)))"
  by (auto simp: tryConsume_def Let_def)

lemma div_60000: "\<exists>q m. x div 60000 = q \<and> (x :: int) = 60000 * q + m \<and> 0 \<le> m \<and> m < 60000"
  by (rule exI[of _ "x div 60000"], rule exI[of _ "x mod 60000"]) simp

lemma min_paid: "60000 * min a (b + x div 60000) \<le> 60000 * b + (x :: int)"
proof -
  obtain q m where "x div 60000 = q" "x = 60000 * q + m" "0 \<le> m" using div_60000 by blast
  then show ?thesis by (auto simp: min_def)
qed

lemma div_bound:
  assumes "60000 * c < 60000 * b + (x :: int)"
  shows "c \<le> b + x div 60000"
proof -
  obtain q m where "x div 60000 = q" "x = 60000 * q + m" "m < 60000" using div_60000 by blast
  then show ?thesis using assms by simp
qed

text \<open>What a refill adds is paid for by the time that has passed.\<close>

lemma refill_paid:
  assumes "wf_config cfg" "bk_lastRefill b \<le> t"
  shows "60000 * bk_tokens (refill cfg t b) - bk_lastRefill (refill cfg t b) * rc_requestsPerMinute cfg
       \<le> 60000 * bk_tokens b - bk_lastRefill b * rc_requestsPerMinute cfg \<and>
    bk_lastRefill (refill cfg t b) \<le> t \<and> bk_lastRefill b \<le> bk_lastRefill (refill cfg t b)"
proof -
  let ?n = "rc_requestsPerMinute cfg" and ?e = "t - bk_lastRefill b"
  have "60000 * min (rc_burstSize cfg) (bk_tokens b + ?e * ?n div 60000) \<le> 60000 * bk_tokens b + ?e * ?n"
    by (rule min_paid)
  then show ?thesis
    using assms by (simp add: refill_def Let_def refilled_eq left_diff_distrib)
qed

lemma allowed_paid:
  assumes "wf_config cfg" "sorted (map fst calls)" "bs k = Some b"
    and "\<forall>c \<in> set calls. bk_lastRefill b \<le> fst c \<and> fst c \<le> T" "bk_lastRefill b \<le> T" "0 \<le> bk_tokens b"
  shows "60000 * int (allowed_count cfg k calls bs)
    \<le> 60000 * bk_tokens b + (T - bk_lastRefill b) * rc_requestsPerMinute cfg"
  using assms(2-)
proof (induction calls arbitrary: bs b)
  case Nil
  then show ?case using assms(1) by (simp add: wf_config_def)
next
  case (Cons c calls)
  obtain t key where c: "c = (t, key)" by (cases c)
  let ?bs = "snd (tryConsume cfg t key bs)"
  show ?case
  proof (cases "key = k")
    case False
    then have "?bs k = Some b" using Cons.prems(2) by (simp add: tryConsume_other)
    then show ?thesis using Cons.IH[of ?bs b] Cons.prems False c by (auto simp: case_prod_beta)
  next
    case True
    define r where "r = refill cfg t b"
    have paid: "60000 * bk_tokens r - bk_lastRefill r * rc_requestsPerMinute cfg
        \<le> 60000 * bk_tokens b - bk_lastRefill b * rc_requestsPerMinute cfg"
        "bk_lastRefill r \<le> t" "bk_lastRefill b \<le> bk_lastRefill r"
      using refill_paid[OF assms(1), of b t] Cons.prems(3) c by (auto simp: r_def)
    define b' where "b' = (if 1 \<le> bk_tokens r then r\<lparr>bk_tokens := bk_tokens r - 1\<rparr> else r)"
    have b': "?bs k = Some b'"
      using True Cons.prems(2) by (simp add: tryConsume_same Let_def r_def b'_def)
    have "0 \<le> bk_tokens r"
      using Cons.prems(5) assms(1) by (auto simp: r_def refill_def Let_def wf_config_def)
    then have nn: "0 \<le> bk_tokens b'" by (simp add: b'_def)
    have lr: "bk_lastRefill b' = bk_lastRefill r" by (simp add: b'_def)
    have ih: "60000 * int (allowed_count cfg k calls ?bs)
        \<le> 60000 * bk_tokens b' + (T - bk_lastRefill b') * rc_requestsPerMinute cfg"
      by (rule Cons.IH[where bs = ?bs and b = b', OF _ b'])
        (use Cons.prems paid(2) nn c in \<open>auto simp: lr intro: order_trans\<close>)
    have "cr_allowed (fst (tryConsume cfg t key bs)) \<longleftrightarrow> 1 \<le> bk_tokens r"
      using True Cons.prems(2) by (simp add: tryConsume_same r_def)
    then have "int (allowed_count cfg k (c # calls) bs)
        = (if 1 \<le> bk_tokens r then 1 else 0) + int (allowed_count cfg k calls ?bs)"
      using True by (simp add: c case_prod_beta)
    moreover have "60000 * (if 1 \<le> bk_tokens r then 1 else 0) + 60000 * bk_tokens b' = 60000 * bk_tokens r"
      by (simp add: b'_def)
    ultimately show ?thesis using ih paid(1) lr by (simp add: left_diff_distrib)
  qed
qed

lemma allowed_count_skip: "key \<noteq> k \<Longrightarrow>
    allowed_count cfg k ((t, key) # calls) bs = allowed_count cfg k calls (snd (tryConsume cfg t key bs))"
  by (simp add: case_prod_beta)

lemma allowed_window:
  assumes "wf_config cfg" "sorted (map fst calls)" "wf_buckets cfg bs"
    and "\<forall>c \<in> set calls. t0 \<le> fst c \<and> fst c \<le> T" "t0 \<le> T"
    and "\<forall>b. bs k = Some b \<longrightarrow> bk_lastRefill b \<le> t0"
  shows "60000 * int (allowed_count cfg k calls bs)
    < 60000 * (rc_burstSize cfg + 1) + (T - t0) * rc_requestsPerMinute cfg"
  using assms(2-)
proof (induction calls arbitrary: bs)
  case Nil
  then have "0 \<le> (T - t0) * rc_requestsPerMinute cfg" using assms(1) by (simp add: wf_config_def)
  then show ?case using assms(1) by (simp add: wf_config_def)
next
  case (Cons c calls)
  obtain t key where c: "c = (t, key)" by (cases c)
  let ?n = "rc_requestsPerMinute cfg"
  show ?case
  proof (cases "key = k")
    case False
    then show ?thesis
      using Cons.IH[of "snd (tryConsume cfg t key bs)"] Cons.prems wf_tryConsume[OF assms(1)] c
      by (auto simp: case_prod_beta tryConsume_other)
  next
    case True
    define b where "b = bucket_of cfg t (bs k)"
    define r where "r = refill cfg t b"
    have wb: "wf_bucket cfg b" using wf_bucket_of[OF assms(1) Cons.prems(2)] by (simp add: b_def)
    then have wr: "wf_bucket cfg r" by (simp add: r_def wf_refill)
    have t: "t0 \<le> t" "t \<le> T" using Cons.prems(3) c by auto
    have lb: "bk_lastRefill b \<le> t" using Cons.prems(5) t(1) by (cases "bs k") (auto simp: b_def)
    have gap: "(t - bk_lastRefill r) * ?n < 60000"
    proof (cases "0 < refilled_tokens cfg (t - bk_lastRefill b)")
      case True
      then show ?thesis by (simp add: r_def refill_def Let_def)
    next
      case False
      then have "(t - bk_lastRefill b) * ?n div 60000 \<le> 0" by (simp add: refilled_eq[OF assms(1)])
      then show ?thesis using False by (simp add: r_def refill_def Let_def)
    qed
    have same: "tryConsume cfg t k (bs(k \<mapsto> r)) = tryConsume cfg t k bs"
    proof -
      have "refill cfg t r = r"
        using gap by (simp add: r_def refill_def Let_def refilled_eq[OF assms(1)])
      then show ?thesis by (simp add: tryConsume_def Let_def r_def[symmetric] b_def[symmetric])
    qed
    have "60000 * int (allowed_count cfg k (c # calls) (bs(k \<mapsto> r)))
        \<le> 60000 * bk_tokens r + (T - bk_lastRefill r) * ?n"
      using refill_paid[OF assms(1) lb] Cons.prems(1,3) t wr c
      by (intro allowed_paid[OF assms(1)]) (auto simp: r_def[symmetric] wf_bucket_def intro: order_trans)
    moreover have "allowed_count cfg k (c # calls) (bs(k \<mapsto> r)) = allowed_count cfg k (c # calls) bs"
      using True same by (simp add: c)
    moreover have "(T - bk_lastRefill r) * ?n = (T - t) * ?n + (t - bk_lastRefill r) * ?n"
      by (simp add: left_diff_distrib)
    moreover have "(T - t) * ?n \<le> (T - t0) * ?n"
      using t(1) assms(1) by (simp add: wf_config_def mult_right_mono)
    ultimately show ?thesis using gap wr by (simp add: wf_bucket_def)
  qed
qed

text \<open>C30. The rate is bounded, for each client apart: from any state the limiter can reach, in any
  interleaving of requests of all keys with times from \<open>t0\<close> to \<open>T\<close>, the requests of one key that are
  allowed are at most one more than its burst size plus what its rate gives in that window.\<close>

theorem rate_is_bounded:
  assumes "wf_config cfg" "wf_buckets cfg bs" "\<forall>b. bs k = Some b \<longrightarrow> bk_lastRefill b \<le> t0"
    and "sorted (map fst calls)" "\<forall>c \<in> set calls. t0 \<le> fst c \<and> fst c \<le> T" "t0 \<le> T"
  shows "int (allowed_count cfg k calls bs)
    \<le> rc_burstSize cfg + (T - t0) * rc_requestsPerMinute cfg div 60000 + 1"
  using div_bound[OF allowed_window[OF assms(1,4,2,5,6,3)]] by simp

lemma refilled_after_reset:
  assumes "wf_config cfg" "now + \<lceil>refillRateMs cfg\<rceil> \<le> later" "l0 \<le> now"
  shows "1 \<le> refilled_tokens cfg (later - l0)"
proof -
  have pos: "0 < refillRateMs cfg" using assms(1) by (simp add: refillRateMs_def wf_config_def)
  have "\<lceil>refillRateMs cfg\<rceil> \<le> later - l0" using assms(2,3) by linarith
  then have "refillRateMs cfg \<le> of_int (later - l0)" by (simp add: ceiling_le_iff)
  then have "1 \<le> of_int (later - l0) / refillRateMs cfg" using pos by simp
  then show ?thesis by (simp only: refilled_tokens_def one_le_floor)
qed

text \<open>Peeking agrees with consuming: the headers' view of a key says allowed exactly when a request at
  that moment is allowed; and a request that is refused and comes again no sooner than the reset time it
  was given, with nothing else for its key in between, is allowed.\<close>

theorem refused_requests_pass_after_reset:
  assumes "wf_config cfg" "wf_buckets cfg bs" "\<forall>b. bs k = Some b \<longrightarrow> bk_lastRefill b \<le> now"
  shows "cr_allowed (peek cfg now k bs) = cr_allowed (fst (tryConsume cfg now k bs)) \<and>
    (\<not> cr_allowed (fst (tryConsume cfg now k bs)) \<and> cr_resetAt (fst (tryConsume cfg now k bs)) \<le> later
     \<longrightarrow> cr_allowed (fst (tryConsume cfg later k (snd (tryConsume cfg now k bs)))))"
proof (intro conjI impI)
  define b where "b = bucket_of cfg now (bs k)"
  define r where "r = refill cfg now b"
  have wb: "wf_bucket cfg b" using wf_bucket_of[OF assms(1,2)] by (simp add: b_def)
  have wr: "wf_bucket cfg r" using wf_refill[OF wb] by (simp add: r_def)
  have last: "bk_lastRefill b \<le> now" using assms(3) by (cases "bs k") (auto simp: b_def)
  have "0 \<le> refilled_tokens cfg (now - bk_lastRefill b)"
    using last assms(1) by (simp add: refilled_eq wf_config_def pos_imp_zdiv_nonneg_iff)
  then have "bk_tokens r = min (rc_burstSize cfg) (bk_tokens b + refilled_tokens cfg (now - bk_lastRefill b))"
    using wb by (auto simp: r_def refill_def Let_def wf_bucket_def)
  then show "cr_allowed (peek cfg now k bs) = cr_allowed (fst (tryConsume cfg now k bs))"
    using assms(1) by (cases "bs k")
      (simp_all add: peek_def tryConsume_same r_def b_def Let_def wf_config_def refill_def refilled_tokens_def)
  assume later: "\<not> cr_allowed (fst (tryConsume cfg now k bs)) \<and> cr_resetAt (fst (tryConsume cfg now k bs)) \<le> later"
  have r0: "bk_tokens r = 0" using wr later by (simp add: tryConsume_same r_def b_def wf_bucket_def)
  then have at: "now + \<lceil>refillRateMs cfg\<rceil> \<le> later"
    using later by (simp add: tryConsume_def Let_def r_def b_def)
  have "bk_lastRefill r \<le> now" using refill_paid[OF assms(1) last] by (simp add: r_def)
  from refilled_after_reset[OF assms(1) at this]
  have "1 \<le> bk_tokens (refill cfg later r)"
    using r0 assms(1) by (simp add: refill_def Let_def wf_config_def)
  moreover have "snd (tryConsume cfg now k bs) k = Some r"
    using r0 by (simp add: tryConsume_same r_def b_def Let_def)
  ultimately show "cr_allowed (fst (tryConsume cfg later k (snd (tryConsume cfg now k bs))))"
    by (simp add: tryConsume_same)
qed

text \<open>Cleaning up is unobservable: with a configuration that the environment can give, of at least four
  requests a minute, dropping the buckets that were not refilled for five minutes (the default age) leaves
  the answer to every request as it would have been, for the dropped keys too; and it keeps every bucket
  that is younger.\<close>

theorem cleanup_is_unobservable:
  assumes "createRateLimiterFromEnv env = Some cfg" "4 \<le> rc_requestsPerMinute cfg" "wf_buckets cfg bs"
    and "now \<le> t"
  shows "fst (tryConsume cfg t k (cleanup now 300000 bs)) = fst (tryConsume cfg t k bs) \<and>
    snd (tryConsume cfg t k (cleanup now 300000 bs)) k = snd (tryConsume cfg t k bs) k \<and>
    (\<forall>key b. bs key = Some b \<and> now - bk_lastRefill b \<le> 300000 \<longrightarrow> cleanup now 300000 bs key = Some b)"
proof -
  let ?n = "rc_requestsPerMinute cfg"
  have cfg: "rc_burstSize cfg = max ?n 20" "0 < ?n"
    using assms(1) by (auto simp: createRateLimiterFromEnv_def split: if_splits option.splits)
  then have wf: "wf_config cfg" by (simp add: wf_config_def)
  have "refill cfg t (bucket_of cfg t (cleanup now 300000 bs k)) = refill cfg t (bucket_of cfg t (bs k))"
  proof (cases "\<exists>b. bs k = Some b \<and> 300000 < now - bk_lastRefill b")
    case True
    then obtain b where b: "bs k = Some b" "300000 < now - bk_lastRefill b" by blast
    have "300000 * ?n \<le> (t - bk_lastRefill b) * ?n"
      using b(2) assms(4) cfg(2) by (intro mult_right_mono) auto
    then have "300000 * ?n div 60000 \<le> (t - bk_lastRefill b) * ?n div 60000"
      by (rule zdiv_mono1) simp
    then have many: "rc_burstSize cfg \<le> refilled_tokens cfg (t - bk_lastRefill b)"
      using cfg assms(2) by (simp add: refilled_eq[OF wf])
    have "0 \<le> bk_tokens b" using assms(3) b(1) by (auto simp: wf_buckets_def wf_bucket_def)
    then have "refill cfg t b = \<lparr>bk_tokens = rc_burstSize cfg, bk_lastRefill = t\<rparr>"
      using many cfg by (cases b) (auto simp: refill_def Let_def)
    then show ?thesis
      using b by (simp add: cleanup_def refill_def refilled_tokens_def)
  next
    case False
    then show ?thesis by (cases "bs k") (auto simp: cleanup_def)
  qed
  then show ?thesis by (auto simp: tryConsume_def Let_def cleanup_def)
qed

subsection \<open>A run\<close>

definition sample_config :: rate_config where
  "sample_config = \<lparr>rc_requestsPerMinute = 60, rc_burstSize = 1\<rparr>"

lemma wf_sample: "wf_config sample_config" "wf_buckets sample_config Map.empty"
  by (simp_all add: wf_config_def sample_config_def wf_buckets_def)

theorem rate_is_bounded_witness:
  "int (allowed_count sample_config ''a'' [(0, ''a''), (1, ''b''), (2, ''a''), (1500, ''a'')] Map.empty)
     \<le> 1 + 1500 * 60 div 60000 + 1"
  using rate_is_bounded[OF wf_sample, where k = "''a''" and ?t0.0 = 0 and T = 1500
      and calls = "[(0, ''a''), (1, ''b''), (2, ''a''), (1500, ''a'')]"]
  by (simp add: sample_config_def del: allowed_count.simps)

definition emptied :: buckets where
  "emptied = [''a'' \<mapsto> \<lparr>bk_tokens = 0, bk_lastRefill = 0\<rparr>]"

theorem refused_requests_pass_after_reset_witness:
  "cr_allowed (fst (tryConsume sample_config 1010 ''a'' (snd (tryConsume sample_config 10 ''a'' emptied))))"
proof -
  have "wf_buckets sample_config emptied"
    by (simp add: wf_buckets_def emptied_def wf_bucket_def sample_config_def)
  moreover have "\<forall>b. emptied ''a'' = Some b \<longrightarrow> bk_lastRefill b \<le> 10" by (simp add: emptied_def)
  moreover have "\<not> cr_allowed (fst (tryConsume sample_config 10 ''a'' emptied)) \<and>
      cr_resetAt (fst (tryConsume sample_config 10 ''a'' emptied)) \<le> 1010"
    by (simp add: tryConsume_def Let_def emptied_def refill_def refilled_tokens_def refillRateMs_def sample_config_def)
  ultimately show ?thesis
    using refused_requests_pass_after_reset[OF wf_sample(1), of emptied "''a''" 10 1010] by blast
qed

theorem cleanup_is_unobservable_witness:
  "fst (tryConsume \<lparr>rc_requestsPerMinute = 120, rc_burstSize = 120\<rparr> 300002 ''a'' (cleanup 300001 300000 emptied)) =
   fst (tryConsume \<lparr>rc_requestsPerMinute = 120, rc_burstSize = 120\<rparr> 300002 ''a'' emptied)"
proof -
  have "createRateLimiterFromEnv None = Some \<lparr>rc_requestsPerMinute = 120, rc_burstSize = 120\<rparr>"
    by (simp add: createRateLimiterFromEnv_def)
  then show ?thesis
    using cleanup_is_unobservable[of None "\<lparr>rc_requestsPerMinute = 120, rc_burstSize = 120\<rparr>" emptied 300001 300002 "''a''"]
    by (simp add: wf_buckets_def emptied_def wf_bucket_def)
qed

end
