(* ===== verification/Circuit_Breaker.thy ===== *)
theory Circuit_Breaker
  imports Prelude
begin

text \<open>
  The circuit breaker of \<open>memory-server/src/embedding/circuit-breaker.ts\<close> and the embedding provider
  that \<open>withCircuitBreaker\<close> of \<open>embedding/fallback.ts\<close> wraps with it. Every method takes the time it
  reads from the clock. A provider is a parameter: its methods act on a state of their own and return a
  value or throw.
\<close>

subsection \<open>The breaker\<close>

datatype breaker_state = Closed | Open | HalfOpen

record breaker_options =
  bo_failureThreshold :: "int option"
  bo_cooldownMs :: "int option"

record breaker =
  br_state :: breaker_state
  br_consecutiveFailures :: int
  br_lastFailureAt :: "ms option"
  br_openedAt :: "ms option"
  br_probeInFlight :: bool

record breaker_status =
  bs_state :: breaker_state
  bs_consecutiveFailures :: int
  bs_lastFailureAt :: "ms option"
  bs_openedAt :: "ms option"
  bs_nextProbeAt :: "ms option"

definition failureThreshold :: "breaker_options \<Rightarrow> int" where
  "failureThreshold opts = max 1 (or_else (bo_failureThreshold opts) 3)"

definition cooldownMs :: "breaker_options \<Rightarrow> int" where
  "cooldownMs opts = max 0 (or_else (bo_cooldownMs opts) 60000)"

definition createCircuitBreaker :: breaker where
  "createCircuitBreaker = \<lparr>br_state = Closed, br_consecutiveFailures = 0, br_lastFailureAt = None,
     br_openedAt = None, br_probeInFlight = False\<rparr>"

definition nextProbeAt :: "breaker_options \<Rightarrow> breaker \<Rightarrow> ms option" where
  "nextProbeAt opts b =
     (if br_state b \<noteq> Open then None
      else case br_openedAt b of None \<Rightarrow> None | Some t \<Rightarrow> Some (t + cooldownMs opts))"

definition tryTransitionToHalfOpen :: "breaker_options \<Rightarrow> ms \<Rightarrow> breaker \<Rightarrow> breaker" where
  "tryTransitionToHalfOpen opts now b =
     (if br_state b \<noteq> Open then b
      else case br_openedAt b of
          None \<Rightarrow> b
        | Some t \<Rightarrow> if t + cooldownMs opts \<le> now
                    then b\<lparr>br_state := HalfOpen, br_probeInFlight := False\<rparr> else b)"

definition shouldSkip :: "breaker_options \<Rightarrow> ms \<Rightarrow> breaker \<Rightarrow> bool \<times> breaker" where
  "shouldSkip opts now b =
     (let b1 = tryTransitionToHalfOpen opts now b in
      if br_state b1 = Closed then (False, b1)
      else if br_state b1 = HalfOpen \<and> \<not> br_probeInFlight b1 then (False, b1)
      else (True, b1))"

definition allowProbe :: "breaker_options \<Rightarrow> ms \<Rightarrow> breaker \<Rightarrow> bool \<times> breaker" where
  "allowProbe opts now b =
     (let b1 = tryTransitionToHalfOpen opts now b in
      if br_state b1 \<noteq> HalfOpen then (False, b1)
      else if br_probeInFlight b1 then (False, b1)
      else (True, b1\<lparr>br_probeInFlight := True\<rparr>))"

definition recordSuccess :: "breaker \<Rightarrow> breaker" where
  "recordSuccess b = b\<lparr>br_consecutiveFailures := 0, br_state := Closed, br_openedAt := None,
     br_probeInFlight := False\<rparr>"

definition recordFailure :: "breaker_options \<Rightarrow> ms \<Rightarrow> breaker \<Rightarrow> breaker" where
  "recordFailure opts now b =
     (let b1 = b\<lparr>br_lastFailureAt := Some now,
                 br_consecutiveFailures := br_consecutiveFailures b + 1, br_probeInFlight := False\<rparr>
      in if br_state b1 = HalfOpen then b1\<lparr>br_state := Open, br_openedAt := Some now\<rparr>
         else if failureThreshold opts \<le> br_consecutiveFailures b1
         then b1\<lparr>br_state := Open, br_openedAt := Some now\<rparr>
         else b1)"

definition breaker_snapshot :: "breaker_options \<Rightarrow> ms \<Rightarrow> breaker \<Rightarrow> breaker_status \<times> breaker" where
  "breaker_snapshot opts now b =
     (let b1 = tryTransitionToHalfOpen opts now b in
      (\<lparr>bs_state = br_state b1, bs_consecutiveFailures = br_consecutiveFailures b1,
        bs_lastFailureAt = br_lastFailureAt b1, bs_openedAt = br_openedAt b1,
        bs_nextProbeAt = nextProbeAt opts b1\<rparr>, b1))"

definition reset_breaker :: "breaker \<Rightarrow> breaker" where
  "reset_breaker b = b\<lparr>br_state := Closed, br_consecutiveFailures := 0, br_lastFailureAt := None,
     br_openedAt := None, br_probeInFlight := False\<rparr>"

subsection \<open>The provider behind the breaker\<close>

datatype health = Healthy string | Degraded string

record ('v, 'w) provider =
  pv_embed :: "string \<Rightarrow> 'w \<Rightarrow> (string + 'v) \<times> 'w"
  pv_health :: "'w \<Rightarrow> (string + health) \<times> 'w"

text \<open>The state of a guarded provider: the breaker, the wrapped provider's state, the fallback's.\<close>

record ('w, 'f) guarded =
  gd_breaker :: breaker
  gd_wrapped :: 'w
  gd_fallback :: 'f

definition callWrapped ::
  "breaker_options \<Rightarrow> ('v, 'w) provider \<Rightarrow> ms \<Rightarrow> string \<Rightarrow> ('w, 'f) guarded \<Rightarrow> (string + 'v) \<times> ('w, 'f) guarded"
where
  "callWrapped opts p now tx g =
     (let (r, w1) = pv_embed p tx (gd_wrapped g) in
      case r of
        Inl message \<Rightarrow> (Inl message, g\<lparr>gd_breaker := recordFailure opts now (gd_breaker g), gd_wrapped := w1\<rparr>)
      | Inr vector \<Rightarrow>
          (let (h, w2) = pv_health p w1;
               degraded = (case h of Inl _ \<Rightarrow> True | Inr (Degraded _) \<Rightarrow> True | Inr (Healthy _) \<Rightarrow> False)
           in (Inr vector,
               g\<lparr>gd_breaker := (if degraded then recordFailure opts now (gd_breaker g)
                                else recordSuccess (gd_breaker g)),
                 gd_wrapped := w2\<rparr>)))"

text \<open>
  \<open>embed\<close> of the guarded provider: \<open>now\<close> is when it starts, \<open>later\<close> when the wrapped provider has
  answered.
\<close>

definition or_fallback ::
  "('v, 'f) provider option \<Rightarrow> string \<Rightarrow> (string + 'v) \<times> ('w, 'f) guarded \<Rightarrow> (string + 'v) \<times> ('w, 'f) guarded"
where
  "or_fallback fallbackTo tx rg =
     (case fst rg of
        Inr v \<Rightarrow> rg
      | Inl e \<Rightarrow> (case fallbackTo of
            None \<Rightarrow> rg
          | Some f \<Rightarrow> (let (r, f1) = pv_embed f tx (gd_fallback (snd rg))
                       in (r, (snd rg)\<lparr>gd_fallback := f1\<rparr>))))"

definition guarded_embed ::
  "breaker_options \<Rightarrow> ('v, 'w) provider \<Rightarrow> ('v, 'f) provider option \<Rightarrow> ms \<Rightarrow> ms \<Rightarrow> string \<Rightarrow>
    ('w, 'f) guarded \<Rightarrow> (string + 'v) \<times> ('w, 'f) guarded"
where
  "guarded_embed opts p fallbackTo now later tx g =
     (let (probe, b1) = allowProbe opts now (gd_breaker g); g1 = g\<lparr>gd_breaker := b1\<rparr> in
      if probe then or_fallback fallbackTo tx (callWrapped opts p later tx g1)
      else (let (skip, b2) = shouldSkip opts now b1; g2 = g1\<lparr>gd_breaker := b2\<rparr> in
            if skip
            then (case fallbackTo of
                    Some f \<Rightarrow> (let (r, f1) = pv_embed f tx (gd_fallback g2)
                               in (r, g2\<lparr>gd_fallback := f1\<rparr>))
                  | None \<Rightarrow> callWrapped opts p later tx g2)
            else or_fallback fallbackTo tx (callWrapped opts p later tx g2)))"

definition guarded_health ::
  "breaker_options \<Rightarrow> ('v, 'w) provider \<Rightarrow> ms \<Rightarrow> ('w, 'f) guarded \<Rightarrow> health \<times> ('w, 'f) guarded"
where
  "guarded_health opts p now g =
     (let (st, b1) = breaker_snapshot opts now (gd_breaker g); g1 = g\<lparr>gd_breaker := b1\<rparr> in
      if bs_state st = Open then (Degraded ''circuit open'', g1)
      else (let (h, w1) = pv_health p (gd_wrapped g1); g2 = g1\<lparr>gd_wrapped := w1\<rparr> in
            case h of Inr x \<Rightarrow> (x, g2) | Inl _ \<Rightarrow> (Degraded ''health check failed'', g2)))"

subsection \<open>The state of the breaker\<close>

datatype breaker_op = ShouldSkip | AllowProbe | Success | Failure | Snapshot | ResetBreaker

definition breaker_step :: "breaker_options \<Rightarrow> ms \<times> breaker_op \<Rightarrow> breaker \<Rightarrow> breaker" where
  "breaker_step opts x b =
     (case snd x of
        ShouldSkip \<Rightarrow> snd (shouldSkip opts (fst x) b)
      | AllowProbe \<Rightarrow> snd (allowProbe opts (fst x) b)
      | Success \<Rightarrow> recordSuccess b
      | Failure \<Rightarrow> recordFailure opts (fst x) b
      | Snapshot \<Rightarrow> snd (breaker_snapshot opts (fst x) b)
      | ResetBreaker \<Rightarrow> reset_breaker b)"

text \<open>
  Closed is: fewer failures in a row than the threshold, no opening time, no probe. Otherwise the
  threshold was reached and the opening time is that of the last failure; only a half-open breaker has
  a probe in flight.
\<close>

definition wf_breaker :: "breaker_options \<Rightarrow> breaker \<Rightarrow> bool" where
  "wf_breaker opts b \<longleftrightarrow>
     0 \<le> br_consecutiveFailures b \<and>
     (if br_state b = Closed
      then br_consecutiveFailures b < failureThreshold opts \<and> br_openedAt b = None
      else failureThreshold opts \<le> br_consecutiveFailures b \<and>
           (\<exists>t. br_openedAt b = Some t \<and> br_lastFailureAt b = Some t)) \<and>
     (br_probeInFlight b \<longrightarrow> br_state b = HalfOpen)"

lemma threshold_pos: "1 \<le> failureThreshold opts"
  by (simp add: failureThreshold_def)

lemma cooldown_nonneg: "0 \<le> cooldownMs opts"
  by (simp add: cooldownMs_def)

lemma wf_create: "wf_breaker opts createCircuitBreaker"
  using threshold_pos[of opts] by (simp add: wf_breaker_def createCircuitBreaker_def)

lemma wf_half_open: "wf_breaker opts b \<Longrightarrow> wf_breaker opts (tryTransitionToHalfOpen opts now b)"
  by (cases "br_state b"; cases "br_openedAt b") (auto simp: tryTransitionToHalfOpen_def wf_breaker_def)

lemma wf_shouldSkip: "wf_breaker opts b \<Longrightarrow> wf_breaker opts (snd (shouldSkip opts now b))"
  using wf_half_open by (simp add: shouldSkip_def Let_def)

lemma wf_probe: "wf_breaker opts b \<Longrightarrow> br_state b = HalfOpen \<Longrightarrow> wf_breaker opts (b\<lparr>br_probeInFlight := True\<rparr>)"
  by (simp add: wf_breaker_def)

lemma wf_allowProbe: "wf_breaker opts b \<Longrightarrow> wf_breaker opts (snd (allowProbe opts now b))"
  using wf_half_open[of opts b now] wf_probe by (simp add: allowProbe_def Let_def)

lemma wf_recordSuccess: "wf_breaker opts b \<Longrightarrow> wf_breaker opts (recordSuccess b)"
  using threshold_pos[of opts] by (simp add: recordSuccess_def wf_breaker_def)

lemma wf_recordFailure: "wf_breaker opts b \<Longrightarrow> wf_breaker opts (recordFailure opts now b)"
  by (auto simp: recordFailure_def Let_def wf_breaker_def split: if_splits)

lemma wf_reset: "wf_breaker opts (reset_breaker b)"
  using threshold_pos[of opts] by (simp add: reset_breaker_def wf_breaker_def)

lemmas wf_breaker_ops = wf_shouldSkip wf_allowProbe wf_recordSuccess wf_recordFailure wf_reset wf_half_open

interpretation breaker_machine: invariant_machine "breaker_step opts" "wf_breaker opts" for opts
  by unfold_locales
    (auto simp: breaker_step_def breaker_snapshot_def Let_def wf_breaker_ops split: breaker_op.split)

subsection \<open>Probes\<close>

text \<open>The probes granted in a run of calls.\<close>

fun probes_granted :: "breaker_options \<Rightarrow> (ms \<times> breaker_op) list \<Rightarrow> breaker \<Rightarrow> nat" where
  "probes_granted opts [] b = 0"
| "probes_granted opts (x # xs) b =
     (if snd x = AllowProbe \<and> fst (allowProbe opts (fst x) b) then 1 else 0) +
     probes_granted opts xs (breaker_step opts x b)"

lemma no_probe_in_flight:
  "wf_breaker opts b \<Longrightarrow> br_probeInFlight b \<Longrightarrow> set (map snd xs) \<subseteq> {ShouldSkip, AllowProbe, Snapshot} \<Longrightarrow>
    probes_granted opts xs b = 0"
proof (induction xs)
  case (Cons x xs)
  have "br_state b = HalfOpen" using Cons.prems by (simp add: wf_breaker_def)
  then have "breaker_step opts x b = b \<and> \<not> fst (allowProbe opts (fst x) b)"
    using Cons.prems(2,3)
    by (auto simp: breaker_step_def shouldSkip_def allowProbe_def breaker_snapshot_def Let_def
        tryTransitionToHalfOpen_def)
  then show ?case using Cons by simp
qed simp

lemma at_most_one_probe:
  "wf_breaker opts b \<Longrightarrow> set (map snd xs) \<subseteq> {ShouldSkip, AllowProbe, Snapshot} \<Longrightarrow> probes_granted opts xs b \<le> 1"
proof (induction xs arbitrary: b)
  case (Cons x xs)
  show ?case
  proof (cases "snd x = AllowProbe \<and> fst (allowProbe opts (fst x) b)")
    case True
    then have "br_probeInFlight (breaker_step opts x b)"
      by (auto simp: breaker_step_def allowProbe_def Let_def split: if_splits)
    then show ?thesis
      using True Cons.prems no_probe_in_flight[of opts "breaker_step opts x b" xs]
        breaker_machine.step_inv[OF Cons.prems(1)] by simp
  next
    case False
    then show ?thesis using Cons breaker_machine.step_inv[OF Cons.prems(1)] by auto
  qed
qed simp

lemma open_before_cooldown:
  assumes "br_state b = Open" "br_openedAt b = Some o0" "now < o0 + cooldownMs opts"
  shows "shouldSkip opts now b = (True, b) \<and> allowProbe opts now b = (False, b)"
  using assms by (simp add: shouldSkip_def allowProbe_def tryTransitionToHalfOpen_def Let_def)

lemma skipped_before_cooldown:
  "br_state b = Open \<Longrightarrow> br_openedAt b = Some o0 \<Longrightarrow> \<forall>x \<in> set xs. fst x < o0 + cooldownMs opts \<Longrightarrow>
    set (map snd xs) \<subseteq> {ShouldSkip, AllowProbe, Snapshot} \<Longrightarrow>
    fold (breaker_step opts) xs b = b \<and> probes_granted opts xs b = 0"
proof (induction xs)
  case (Cons x xs)
  then have "breaker_step opts x b = b \<and> \<not> fst (allowProbe opts (fst x) b)"
    using open_before_cooldown[OF Cons.prems(1,2), of "fst x" opts]
    by (auto simp: breaker_step_def breaker_snapshot_def tryTransitionToHalfOpen_def Let_def)
  then show ?case using Cons by simp
qed simp

text \<open>After any run of the breaker's methods its state is the one its counters say: closed exactly while
  the failures in a row are fewer than the threshold, and otherwise opened at the time of the last
  failure; until the cooldown from that time has passed every call is skipped and no probe is granted,
  and afterwards, as long as no outcome is reported, one probe at most.\<close>

theorem breaker_grants_one_probe:
  assumes "fold (breaker_step opts) history createCircuitBreaker = b"
    and "set (map snd calls) \<subseteq> {ShouldSkip, AllowProbe, Snapshot}"
  shows "(br_state b = Closed \<longleftrightarrow> br_consecutiveFailures b < failureThreshold opts) \<and>
    (br_state b \<noteq> Closed \<longrightarrow> br_openedAt b \<noteq> None \<and> br_openedAt b = br_lastFailureAt b) \<and>
    (\<forall>o0. br_state b = Open \<and> br_openedAt b = Some o0 \<and> (\<forall>x \<in> set calls. fst x < o0 + cooldownMs opts) \<longrightarrow>
       fold (breaker_step opts) calls b = b \<and> probes_granted opts calls b = 0 \<and>
       (\<forall>now < o0 + cooldownMs opts. fst (shouldSkip opts now b))) \<and>
    probes_granted opts calls b \<le> 1"
proof -
  have w: "wf_breaker opts b" using breaker_machine.run_inv[OF wf_create] assms(1) by blast
  then have "(br_state b = Closed \<longleftrightarrow> br_consecutiveFailures b < failureThreshold opts) \<and>
    (br_state b \<noteq> Closed \<longrightarrow> br_openedAt b \<noteq> None \<and> br_openedAt b = br_lastFailureAt b)"
    by (auto simp: wf_breaker_def split: if_splits)
  moreover have "fold (breaker_step opts) calls b = b \<and> probes_granted opts calls b = 0 \<and>
      (\<forall>now < o0 + cooldownMs opts. fst (shouldSkip opts now b))"
    if "br_state b = Open" "br_openedAt b = Some o0" "\<forall>x \<in> set calls. fst x < o0 + cooldownMs opts" for o0
    using skipped_before_cooldown[OF that assms(2)] open_before_cooldown[OF that(1,2)] by simp
  ultimately show ?thesis using at_most_one_probe[OF w assms(2)] by blast
qed

subsection \<open>How often a failing provider is called\<close>

definition failing :: "('v, 'w) provider \<Rightarrow> bool" where
  "failing p \<longleftrightarrow> (\<forall>tx w. (\<exists>e. fst (pv_embed p tx w) = Inl e) \<or>
     (\<forall>h. fst (pv_health p (snd (pv_embed p tx w))) \<noteq> Inr (Healthy h)))"

text \<open>\<open>n\<close> counts the calls of \<open>embed\<close> in the provider's state.\<close>

definition counts_calls :: "('w \<Rightarrow> nat) \<Rightarrow> ('v, 'w) provider \<Rightarrow> bool" where
  "counts_calls n p \<longleftrightarrow> (\<forall>tx w. n (snd (pv_embed p tx w)) = n w + 1 \<and> n (snd (pv_health p w)) = n w)"

lemma callWrapped_failing:
  assumes "failing p" "counts_calls n p"
  shows "gd_breaker (snd (callWrapped opts p t tx g)) = recordFailure opts t (gd_breaker g)"
    "n (gd_wrapped (snd (callWrapped opts p t tx g))) = n (gd_wrapped g) + 1"
proof -
  obtain r w1 where e: "pv_embed p tx (gd_wrapped g) = (r, w1)" by (cases "pv_embed p tx (gd_wrapped g)")
  obtain h w2 where h: "pv_health p w1 = (h, w2)" by (cases "pv_health p w1")
  have n: "n w1 = n (gd_wrapped g) + 1" "n w2 = n w1"
    using assms(2) e h by (metis counts_calls_def snd_conv)+
  have f: "(\<exists>m. r = Inl m) \<or> (\<forall>x. h \<noteq> Inr (Healthy x))"
    using assms(1) e h by (metis failing_def fst_conv snd_conv)
  show "gd_breaker (snd (callWrapped opts p t tx g)) = recordFailure opts t (gd_breaker g)"
    "n (gd_wrapped (snd (callWrapped opts p t tx g))) = n (gd_wrapped g) + 1"
    using e h n f by (auto simp: callWrapped_def Let_def split: sum.split health.split)
qed

lemma or_fallback_keeps [simp]: "gd_breaker (snd (or_fallback fb tx rg)) = gd_breaker (snd rg)"
  "gd_wrapped (snd (or_fallback fb tx rg)) = gd_wrapped (snd rg)"
  by (auto simp: or_fallback_def case_prod_beta Let_def split: sum.split option.split)

text \<open>Whether a guarded \<open>embed\<close> reaches the wrapped provider, and the breaker it calls it with.\<close>

definition admits :: "breaker_options \<Rightarrow> ms \<Rightarrow> breaker \<Rightarrow> breaker option" where
  "admits opts now b =
     (let (probe, b1) = allowProbe opts now b; (skip, b2) = shouldSkip opts now b1
      in if probe then Some b1 else if skip then None else Some b2)"

lemma embed_failing:
  assumes "failing p" "counts_calls n p"
  shows "(case admits opts now (gd_breaker g) of
      Some b1 \<Rightarrow>
        gd_breaker (snd (guarded_embed opts p (Some f) now t tx g)) = recordFailure opts t b1 \<and>
        n (gd_wrapped (snd (guarded_embed opts p (Some f) now t tx g))) = n (gd_wrapped g) + 1
    | None \<Rightarrow>
        gd_breaker (snd (guarded_embed opts p (Some f) now t tx g)) =
          snd (shouldSkip opts now (snd (allowProbe opts now (gd_breaker g)))) \<and>
        n (gd_wrapped (snd (guarded_embed opts p (Some f) now t tx g))) = n (gd_wrapped g))"
  by (auto simp: guarded_embed_def admits_def case_prod_beta Let_def callWrapped_failing[OF assms])

text \<open>
  How many calls may still come up to time \<open>T\<close>, times the cooldown: the failures missing to the
  threshold, and one call for each cooldown.
\<close>

definition budget :: "breaker_options \<Rightarrow> ms \<Rightarrow> ms \<Rightarrow> breaker \<Rightarrow> int" where
  "budget opts T t b =
     (case br_state b of
        Closed \<Rightarrow> cooldownMs opts * (failureThreshold opts - br_consecutiveFailures b) + (T - t)
      | Open \<Rightarrow> T - the (br_openedAt b)
      | HalfOpen \<Rightarrow> (if br_probeInFlight b then 0 else cooldownMs opts) + (T - t))"

definition timely :: "breaker \<Rightarrow> ms \<Rightarrow> bool" where
  "timely b t \<longleftrightarrow> (br_state b = Open \<longrightarrow> (\<exists>o0. br_openedAt b = Some o0 \<and> o0 \<le> t))"

lemma budget_admitted:
  assumes "wf_breaker opts b" "admits opts now b = Some b1" "t0 \<le> now" "now \<le> t" "timely b t0"
  shows "cooldownMs opts + budget opts T t (recordFailure opts t b1) \<le> budget opts T t0 b"
proof (cases "br_state b")
  case Closed
  then have "b1 = b" using assms(2)
    by (simp add: admits_def allowProbe_def shouldSkip_def tryTransitionToHalfOpen_def Let_def)
  moreover have f: "br_consecutiveFailures b < failureThreshold opts"
    using assms(1) Closed by (simp add: wf_breaker_def)
  moreover have "budget opts T t0 b = cooldownMs opts +
      (cooldownMs opts * (failureThreshold opts - (br_consecutiveFailures b + 1)) + (T - t0))"
    using Closed by (simp add: budget_def algebra_simps)
  moreover have "budget opts T t (recordFailure opts t b) =
      cooldownMs opts * (failureThreshold opts - (br_consecutiveFailures b + 1)) + (T - t)"
    using Closed f
    by (cases "failureThreshold opts = br_consecutiveFailures b + 1")
      (simp_all add: budget_def recordFailure_def Let_def)
  ultimately show ?thesis using assms(3,4) by simp
next
  case Open
  then obtain o0 where o0: "br_openedAt b = Some o0" "o0 \<le> t0" using assms(5) by (auto simp: timely_def)
  then have "o0 + cooldownMs opts \<le> now \<and> br_state b1 = HalfOpen" using assms(2) Open
    by (auto simp: admits_def allowProbe_def shouldSkip_def tryTransitionToHalfOpen_def Let_def split: if_splits)
  then show ?thesis using Open o0 assms(4) by (simp add: budget_def recordFailure_def Let_def)
next
  case HalfOpen
  then have "br_state b1 = HalfOpen \<and> \<not> br_probeInFlight b" using assms(2)
    by (auto simp: admits_def allowProbe_def shouldSkip_def tryTransitionToHalfOpen_def Let_def split: if_splits)
  then show ?thesis using HalfOpen assms(3,4) by (simp add: budget_def recordFailure_def Let_def)
qed

lemma budget_skipped:
  assumes "admits opts now b = None" "t0 \<le> now" "now \<le> t" "timely b t0"
  shows "budget opts T t (snd (shouldSkip opts now (snd (allowProbe opts now b)))) \<le> budget opts T t0 b \<and>
    timely (snd (shouldSkip opts now (snd (allowProbe opts now b)))) t"
  using assms
  by (cases "br_state b")
    (auto simp: admits_def allowProbe_def shouldSkip_def tryTransitionToHalfOpen_def Let_def budget_def
      timely_def split: if_splits option.splits)

text \<open>The calls of a guarded provider in order, each with its start, its end and its text.\<close>

fun guarded_run ::
  "breaker_options \<Rightarrow> ('v, 'w) provider \<Rightarrow> ('v, 'f) provider option \<Rightarrow> (ms \<times> ms \<times> string) list \<Rightarrow>
    ('w, 'f) guarded \<Rightarrow> ('w, 'f) guarded"
where
  "guarded_run opts p fb [] g = g"
| "guarded_run opts p fb ((now, t, tx) # calls) g =
     guarded_run opts p fb calls (snd (guarded_embed opts p fb now t tx g))"

text \<open>Calls one after the other, from \<open>t0\<close> to \<open>T\<close>.\<close>

fun in_sequence :: "ms \<Rightarrow> ms \<Rightarrow> (ms \<times> ms \<times> string) list \<Rightarrow> bool" where
  "in_sequence t0 T [] = (t0 \<le> T)"
| "in_sequence t0 T ((now, t, tx) # calls) = (t0 \<le> now \<and> now \<le> t \<and> in_sequence t T calls)"

lemma wf_admits: "wf_breaker opts b \<Longrightarrow> admits opts now b = Some b1 \<Longrightarrow> wf_breaker opts b1"
  using wf_allowProbe[of opts b now] wf_shouldSkip[of opts "snd (allowProbe opts now b)" now]
  by (auto simp: admits_def case_prod_beta Let_def split: if_splits)

lemma timely_failure: "timely b1 t \<Longrightarrow> timely (recordFailure opts t b1) t"
  by (auto simp: timely_def recordFailure_def Let_def split: if_splits)

lemma timely_admits:
  "wf_breaker opts b \<Longrightarrow> admits opts now b = Some b1 \<Longrightarrow> timely b1 t"
  by (cases "br_state b")
    (auto simp: admits_def allowProbe_def shouldSkip_def tryTransitionToHalfOpen_def Let_def timely_def
      split: if_splits option.splits)

lemma in_sequence_le: "in_sequence t0 T calls \<Longrightarrow> t0 \<le> T"
  by (induction calls arbitrary: t0) fastforce+

lemma budget_nonneg: "wf_breaker opts b \<Longrightarrow> timely b t \<Longrightarrow> t \<le> T \<Longrightarrow> 0 \<le> budget opts T t b"
  using cooldown_nonneg[of opts]
  by (auto simp: budget_def wf_breaker_def timely_def split: breaker_state.split if_splits)

lemma failing_budget:
  assumes "failing p" "counts_calls n p"
  shows "wf_breaker opts (gd_breaker g) \<Longrightarrow> timely (gd_breaker g) t0 \<Longrightarrow> in_sequence t0 T calls \<Longrightarrow>
    cooldownMs opts * int (n (gd_wrapped (guarded_run opts p (Some f) calls g)))
      \<le> cooldownMs opts * int (n (gd_wrapped g)) + budget opts T t0 (gd_breaker g)"
proof (induction calls arbitrary: g t0)
  case Nil
  then show ?case using budget_nonneg by simp
next
  case (Cons c calls)
  obtain now t x where c: "c = (now, t, x)" by (cases c)
  define g' where "g' = snd (guarded_embed opts p (Some f) now t x g)"
  note step = embed_failing[OF assms, where opts = opts and now = now and g = g and f = f and t = t and tx = x]
  have seq: "t0 \<le> now" "now \<le> t" "in_sequence t T calls" using Cons.prems(3) c by simp_all
  have "wf_breaker opts (gd_breaker g') \<and> timely (gd_breaker g') t \<and>
      cooldownMs opts * int (n (gd_wrapped g')) + budget opts T t (gd_breaker g')
        \<le> cooldownMs opts * int (n (gd_wrapped g)) + budget opts T t0 (gd_breaker g)"
  proof (cases "admits opts now (gd_breaker g)")
    case None
    then show ?thesis
      using step budget_skipped[OF None seq(1,2) Cons.prems(2)]
        wf_shouldSkip[OF wf_allowProbe[OF Cons.prems(1)]] by (simp add: g'_def)
  next
    case (Some b1)
    then show ?thesis
      using step budget_admitted[OF Cons.prems(1) Some seq(1,2) Cons.prems(2), of T]
        wf_recordFailure[OF wf_admits[OF Cons.prems(1) Some]]
        timely_failure[OF timely_admits[OF Cons.prems(1) Some]]
      by (simp add: g'_def distrib_left)
  qed
  then show ?case using Cons.IH[of g' t] seq(3) by (simp add: c g'_def)
qed

text \<open>C31. A failing endpoint is not hammered: when every answer of the wrapped provider is an exception or
  a degraded health report and there is a fallback, then from a fresh breaker, in any sequence of \<open>embed\<close>
  calls between \<open>t0\<close> and \<open>T\<close>, the wrapped provider is called at most as many times as the threshold plus
  once for each full cooldown in that time.\<close>

theorem failing_provider_is_not_hammered:
  assumes "failing p" "counts_calls n p" "0 < cooldownMs opts" "in_sequence t0 T calls"
  shows "int (n (gd_wrapped (guarded_run opts p (Some f) calls
           \<lparr>gd_breaker = createCircuitBreaker, gd_wrapped = w, gd_fallback = v\<rparr>)))
    \<le> int (n w) + failureThreshold opts + (T - t0) div cooldownMs opts"
proof -
  let ?g = "\<lparr>gd_breaker = createCircuitBreaker, gd_wrapped = w, gd_fallback = v\<rparr>"
  let ?m = "int (n (gd_wrapped (guarded_run opts p (Some f) calls ?g)))"
  have "cooldownMs opts * ?m \<le> cooldownMs opts * (int (n w) + failureThreshold opts) + (T - t0)"
    using failing_budget[OF assms(1,2), of opts ?g t0 T calls f] wf_create assms(4)
    by (simp add: timely_def createCircuitBreaker_def budget_def distrib_left)
  then have "(?m - (int (n w) + failureThreshold opts)) * cooldownMs opts \<le> T - t0"
    by (simp add: algebra_simps)
  then have "?m - (int (n w) + failureThreshold opts) \<le> (T - t0) div cooldownMs opts"
    using assms(3) by (metis less_le_not_le nonzero_mult_div_cancel_right zdiv_mono1)
  then show ?thesis by simp
qed

text \<open>C37. While the breaker is open nothing of the wrapped provider is used: an \<open>embed\<close> before the cooldown
  has passed answers what the fallback answers and leaves the breaker and the wrapped provider as they
  are. The first one after it calls the wrapped provider once, and closes the breaker with no failures
  counted when that call is healthy.\<close>

theorem open_breaker_uses_fallback:
  assumes "br_state (gd_breaker g) = Open" "br_openedAt (gd_breaker g) = Some o0"
  shows "(now < o0 + cooldownMs opts \<longrightarrow>
      guarded_embed opts p (Some f) now t tx g =
        (fst (pv_embed f tx (gd_fallback g)), g\<lparr>gd_fallback := snd (pv_embed f tx (gd_fallback g))\<rparr>)) \<and>
    (o0 + cooldownMs opts \<le> now \<and> pv_embed p tx (gd_wrapped g) = (Inr v, w1) \<and>
       pv_health p w1 = (Inr (Healthy d), w2) \<longrightarrow>
      guarded_embed opts p (Some f) now t tx g =
        (Inr v, g\<lparr>gd_breaker := (gd_breaker g)\<lparr>br_consecutiveFailures := 0, br_state := Closed,
                    br_openedAt := None, br_probeInFlight := False\<rparr>, gd_wrapped := w2\<rparr>)) \<and>
    (o0 + cooldownMs opts \<le> now \<and> pv_embed p tx (gd_wrapped g) = (Inl e, w1) \<longrightarrow>
      br_state (gd_breaker (snd (guarded_embed opts p (Some f) now t tx g))) = Open \<and>
      br_openedAt (gd_breaker (snd (guarded_embed opts p (Some f) now t tx g))) = Some t \<and>
      fst (guarded_embed opts p (Some f) now t tx g) = fst (pv_embed f tx (gd_fallback g)))"
  using assms
  by (auto simp: guarded_embed_def allowProbe_def shouldSkip_def tryTransitionToHalfOpen_def
      callWrapped_def or_fallback_def recordSuccess_def recordFailure_def Let_def case_prod_beta)

subsection \<open>A provider that is down\<close>

definition down :: "(nat list, nat) provider" where
  "down = \<lparr>pv_embed = \<lambda>_ w. (Inl ''refused'', w + 1), pv_health = \<lambda>w. (Inr (Degraded ''down''), w)\<rparr>"

definition local_hash :: "(nat list, unit) provider" where
  "local_hash = \<lparr>pv_embed = \<lambda>tx w. (Inr [size tx], w), pv_health = \<lambda>w. (Inr (Healthy ''local''), w)\<rparr>"

definition default_options :: breaker_options where
  "default_options = \<lparr>bo_failureThreshold = None, bo_cooldownMs = None\<rparr>"

theorem failing_provider_is_not_hammered_witness:
  "int (gd_wrapped (guarded_run default_options down (Some local_hash)
     [(0, 1, ''a''), (2, 3, ''b''), (4, 5, ''c''), (6, 7, ''d''), (60100, 60101, ''e'')]
     \<lparr>gd_breaker = createCircuitBreaker, gd_wrapped = 0, gd_fallback = ()\<rparr>)) \<le> 0 + 3 + 60101 div 60000"
  using failing_provider_is_not_hammered[of down "\<lambda>w. w" default_options 0 60101
      "[(0, 1, ''a''), (2, 3, ''b''), (4, 5, ''c''), (6, 7, ''d''), (60100, 60101, ''e'')]" local_hash 0 "()"]
  by (simp add: failing_def counts_calls_def down_def default_options_def cooldownMs_def failureThreshold_def
      del: guarded_run.simps)

definition opened :: "(nat, unit) guarded" where
  "opened = guarded_run default_options down (Some local_hash) [(0, 1, ''a''), (2, 3, ''b''), (4, 5, ''c'')]
     \<lparr>gd_breaker = createCircuitBreaker, gd_wrapped = 0, gd_fallback = ()\<rparr>"

lemma opened_breaker: "br_state (gd_breaker opened) = Open" "br_openedAt (gd_breaker opened) = Some 5"
  by code_simp+

theorem open_breaker_uses_fallback_witness:
  "guarded_embed default_options down (Some local_hash) 10 11 ''x'' opened =
     (Inr [1], opened\<lparr>gd_fallback := ()\<rparr>)"
  using open_breaker_uses_fallback[OF opened_breaker, of 10 default_options down local_hash 11 "''x''"]
  by (simp add: default_options_def cooldownMs_def local_hash_def)

theorem breaker_grants_one_probe_witness:
  "probes_granted default_options [(70000, AllowProbe), (70001, AllowProbe), (70002, ShouldSkip)]
     (fold (breaker_step default_options) [(1, Failure), (2, Failure), (3, Failure)] createCircuitBreaker) \<le> 1"
  using breaker_grants_one_probe[OF refl, of "[(70000, AllowProbe), (70001, AllowProbe), (70002, ShouldSkip)]"
      default_options "[(1, Failure), (2, Failure), (3, Failure)]"] by simp

end
