(* ===== verification/Bounded_Queue.thy ===== *)
theory Bounded_Queue
  imports Prelude
begin

text \<open>
  The interface of the three bounded buffers of the program: the retry queue of the MCP server,
  the replication queue of the managed backend and the ring of stream events. A push adds at the
  end and, when the buffer is full, drops from the front. The laws say what one push does to the
  contents; the lemmas say what a run of pushes leaves: the newest elements, in order.
\<close>

definition keep_last :: "nat \<Rightarrow> 'a list \<Rightarrow> 'a list" where
  "keep_last n xs = drop (length xs - n) xs"

lemma length_keep_last [simp]: "length (keep_last n xs) = min n (length xs)"
  by (simp add: keep_last_def min_def)

lemma keep_last_short: "length xs \<le> n \<Longrightarrow> keep_last n xs = xs"
  by (simp add: keep_last_def)

lemma keep_last_set: "set (keep_last n xs) \<subseteq> set xs"
  by (simp add: keep_last_def set_drop_subset)

lemma keep_last_keep_last: "keep_last n (keep_last n xs @ ys) = keep_last n (xs @ ys)"
proof (cases "length xs \<le> n")
  case True
  then show ?thesis by (simp add: keep_last_short)
next
  case False
  then have "length xs - (length xs - n) = n" by simp
  then show ?thesis using False by (simp add: keep_last_def add.commute)
qed

lemma keep_last_suffix: "\<exists>dropped. xs = dropped @ keep_last n xs"
  by (metis append_take_drop_id keep_last_def)

locale bounded_queue =
  fixes cap :: nat and push :: "'e \<Rightarrow> 'q \<Rightarrow> 'q" and items :: "'q \<Rightarrow> 'i list" and stored :: "'e \<Rightarrow> 'i"
    and ok :: "'q \<Rightarrow> bool"
  assumes ok_push: "ok q \<Longrightarrow> ok (push e q)"
    and items_push: "ok q \<Longrightarrow> items (push e q) = keep_last cap (items q @ [stored e])"
begin

lemma ok_pushes: "ok q \<Longrightarrow> ok (fold push es q)"
  by (induction es arbitrary: q) (auto simp: ok_push)

lemma items_pushes:
  "ok q \<Longrightarrow> length (items q) \<le> cap \<Longrightarrow>
     items (fold push es q) = keep_last cap (items q @ map stored es)"
proof (induction es arbitrary: q)
  case Nil
  then show ?case by (simp add: keep_last_short)
next
  case (Cons e es)
  have "items (fold push (e # es) q) = keep_last cap (items (push e q) @ map stored es)"
    using Cons by (simp add: ok_push items_push)
  also have "\<dots> = keep_last cap (items q @ map stored (e # es))"
    using Cons.prems by (simp add: items_push keep_last_keep_last)
  finally show ?case .
qed

lemma length_pushes: "ok q \<Longrightarrow> length (items q) \<le> cap \<Longrightarrow> length (items (fold push es q)) \<le> cap"
  by (simp add: items_pushes)

end

end
