(* ===== verification/Retry_Queue.thy ===== *)
theory Retry_Queue
  imports Prelude Bounded_Queue
begin

text \<open>
  The retry queue of the MCP server's hybrid mode, \<open>mcp-server/src/hybrid/local-retry-queue.ts\<close>: events
  that could not be sent wait in memory and are flushed when the remote server answers again. The send
  function is a parameter; while one send is awaited other calls may enqueue events, which the parameter
  returns beside its answer. Enqueueing time is the ISO text of the clock.
\<close>

subsection \<open>Queue and operations\<close>

record queued_event =
  qe_event_json :: string
  qe_reason :: string
  qe_queued_at :: "string option"
  qe_retry_count :: "int option"

type_synonym retry_queue = "queued_event list"

datatype failure_type = Retryable | NonRetryable

definition classifyHttpFailure :: "int \<Rightarrow> failure_type" where
  "classifyHttpFailure statusCode = (if 500 \<le> statusCode then Retryable else NonRetryable)"

definition MAX_QUEUE_SIZE :: nat where
  "MAX_QUEUE_SIZE = 10000"

definition MAX_RETRY_COUNT :: int where
  "MAX_RETRY_COUNT = 3"

definition stamped :: "string \<Rightarrow> queued_event \<Rightarrow> queued_event" where
  "stamped now ev = ev\<lparr>qe_queued_at := Some (or_else (qe_queued_at ev) now)\<rparr>"

definition enqueue_event :: "string \<Rightarrow> queued_event \<Rightarrow> retry_queue \<Rightarrow> retry_queue" where
  "enqueue_event now ev q =
     (let q1 = (if MAX_QUEUE_SIZE \<le> length q then tl q else q) in q1 @ [stamped now ev])"

definition flush_queue :: "retry_queue \<Rightarrow> queued_event list \<times> retry_queue" where
  "flush_queue q = (q, [])"

definition queue_size :: "retry_queue \<Rightarrow> nat" where
  "queue_size q = length q"

definition queue_isEmpty :: "retry_queue \<Rightarrow> bool" where
  "queue_isEmpty q = (length q = 0)"

definition after_failure :: "queued_event \<Rightarrow> queued_event option" where
  "after_failure item =
     (let retryCount = or_else (qe_retry_count item) 0 + 1 in
      if retryCount \<le> MAX_RETRY_COUNT
      then Some (item\<lparr>qe_reason := ''retry_flush_failed'', qe_retry_count := Some retryCount\<rparr>)
      else None)"

text \<open>The loop over the flushed items: \<open>send\<close> answers for an event's JSON, with the events enqueued
  meanwhile, and changes the state of the remote side.\<close>

fun flush_items ::
  "string \<Rightarrow> (string \<Rightarrow> 'w \<Rightarrow> (bool \<times> queued_event list) \<times> 'w) \<Rightarrow> queued_event list \<Rightarrow>
    nat \<times> retry_queue \<times> 'w \<Rightarrow> nat \<times> retry_queue \<times> 'w"
where
  "flush_items now send_fn [] s = s"
| "flush_items now send_fn (item # items) (successCount, q, w) =
     (let ((ok, arrived), w1) = send_fn (qe_event_json item) w;
          q1 = fold (enqueue_event now) arrived q
      in if ok then flush_items now send_fn items (successCount + 1, q1, w1)
         else flush_items now send_fn items
                (successCount,
                 (case after_failure item of None \<Rightarrow> q1 | Some again \<Rightarrow> enqueue_event now again q1), w1))"

definition flushRetryQueue ::
  "string \<Rightarrow> (string \<Rightarrow> 'w \<Rightarrow> (bool \<times> queued_event list) \<times> 'w) \<Rightarrow> retry_queue \<Rightarrow> 'w \<Rightarrow>
    nat \<times> retry_queue \<times> 'w"
where
  "flushRetryQueue now send_fn q w =
     (let (items, q1) = flush_queue q in
      if items = [] then (0, q1, w) else flush_items now send_fn items (0, q1, w))"

subsection \<open>The queue as a bounded queue\<close>

lemma enqueue_items: "length q \<le> MAX_QUEUE_SIZE \<Longrightarrow>
    enqueue_event now ev q = keep_last MAX_QUEUE_SIZE (q @ [stamped now ev])"
  by (auto simp: enqueue_event_def keep_last_def MAX_QUEUE_SIZE_def drop_Suc)

interpretation retry: bounded_queue MAX_QUEUE_SIZE "enqueue_event now" "\<lambda>q. q" "stamped now"
    "\<lambda>q. length q \<le> MAX_QUEUE_SIZE" for now
  by unfold_locales (simp_all add: enqueue_items)

text \<open>The queue keeps the newest events: after any enqueues on an empty queue it holds at most 10000
  events, the last ones enqueued, in their order, each stamped.\<close>

theorem retry_queue_keeps_newest:
  "fold (enqueue_event now) evs [] = keep_last MAX_QUEUE_SIZE (map (stamped now) evs) \<and>
   queue_size (fold (enqueue_event now) evs []) = min 10000 (length evs)"
  using retry.items_pushes[of "[]" now evs] by (simp add: queue_size_def MAX_QUEUE_SIZE_def)

subsection \<open>Flushing\<close>

definition retry_bounded :: "queued_event \<Rightarrow> bool" where
  "retry_bounded ev \<longleftrightarrow> or_else (qe_retry_count ev) 0 \<le> MAX_RETRY_COUNT"

text \<open>The remote side that nobody enqueues to while it is awaited.\<close>

definition quiet :: "(string \<Rightarrow> 'w \<Rightarrow> (bool \<times> queued_event list) \<times> 'w) \<Rightarrow> bool" where
  "quiet send_fn \<longleftrightarrow> (\<forall>j w. snd (fst (send_fn j w)) = [])"

text \<open>The answers the items get, in order.\<close>

fun answers :: "(string \<Rightarrow> 'w \<Rightarrow> (bool \<times> queued_event list) \<times> 'w) \<Rightarrow> queued_event list \<Rightarrow> 'w \<Rightarrow> bool list" where
  "answers send_fn [] w = []"
| "answers send_fn (item # items) w =
     fst (fst (send_fn (qe_event_json item) w)) # answers send_fn items (snd (send_fn (qe_event_json item) w))"

definition requeued :: "string \<Rightarrow> queued_event \<times> bool \<Rightarrow> queued_event list" where
  "requeued now x = (if snd x then [] else case after_failure (fst x) of None \<Rightarrow> [] | Some ev \<Rightarrow> [stamped now ev])"

lemma length_answers [simp]: "length (answers send_fn items w) = length items"
  by (induction items arbitrary: w) auto

lemma enqueue_short: "length q < MAX_QUEUE_SIZE \<Longrightarrow> enqueue_event now ev q = q @ [stamped now ev]"
  by (simp add: enqueue_event_def)

lemma flush_items_quiet:
  "quiet send_fn \<Longrightarrow> length q + length items \<le> MAX_QUEUE_SIZE \<Longrightarrow>
   fst (flush_items now send_fn items (n, q, w)) = n + length (filter id (answers send_fn items w)) \<and>
   fst (snd (flush_items now send_fn items (n, q, w))) =
     q @ concat (map (requeued now) (zip items (answers send_fn items w)))"
proof (induction items arbitrary: n q w)
  case (Cons item items)
  obtain ok arrived w1 where s: "send_fn (qe_event_json item) w = ((ok, arrived), w1)"
    by (metis prod.exhaust_sel)
  then have a: "arrived = []" using Cons.prems(1) by (metis fst_conv quiet_def snd_conv)
  have e: "enqueue_event now ev q = q @ [stamped now ev]" for ev
    using Cons.prems(2) by (intro enqueue_short) simp
  show ?case
  proof (cases ok)
    case True
    then show ?thesis using s a Cons.IH[of q "n + 1" w1] Cons.prems by (simp add: requeued_def)
  next
    case False
    show ?thesis
    proof (cases "after_failure item")
      case None
      then show ?thesis using s a False Cons.IH[of q n w1] Cons.prems by (simp add: requeued_def)
    next
      case (Some ev)
      then show ?thesis
        using s a False Cons.IH[of "q @ [stamped now ev]" n w1] Cons.prems by (simp add: requeued_def e)
    qed
  qed
qed simp

lemma flush_result:
  assumes "length q \<le> MAX_QUEUE_SIZE" "quiet send_fn"
  shows "fst (flushRetryQueue now send_fn q w) = length (filter id (answers send_fn q w)) \<and>
    fst (snd (flushRetryQueue now send_fn q w)) =
      concat (map (requeued now) (zip q (answers send_fn q w)))"
  using flush_items_quiet[OF assms(2), of "[]" q now 0 w] assms(1)
  by (simp add: flushRetryQueue_def flush_queue_def)

text \<open>A flush loses nothing it should keep: on a queue within its bound, with nothing enqueued meanwhile,
  every event is tried once, in order; the events that were accepted are counted and gone, and the new
  queue is exactly the refused ones that had been retried fewer than three nows, in their order, with
  their retry count one higher and their enqueueing time as it was.\<close>

theorem flush_keeps_refused_events:
  assumes "length q \<le> MAX_QUEUE_SIZE" "quiet send_fn"
  shows "fst (flushRetryQueue now send_fn q w) = length (filter id (answers send_fn q w)) \<and>
    fst (snd (flushRetryQueue now send_fn q w)) =
      concat (map (requeued now) (zip q (answers send_fn q w)))"
  by (rule flush_result[OF assms])

text \<open>What is kept when everything is refused.\<close>

definition retry_left :: "queued_event \<Rightarrow> nat" where
  "retry_left ev = nat (MAX_RETRY_COUNT + 1 - or_else (qe_retry_count ev) 0)"

lemma answers_refused:
  "(\<forall>j w. \<not> fst (fst (send_fn j w))) \<Longrightarrow> answers send_fn items w = replicate (length items) False"
  by (induction items arbitrary: w) auto

lemma requeued_left: "ev' \<in> set (requeued now (ev, False)) \<Longrightarrow> retry_left ev' < retry_left ev \<and> 0 < retry_left ev'"
  by (auto simp: requeued_def after_failure_def Let_def stamped_def retry_left_def MAX_RETRY_COUNT_def
      split: if_splits)

fun flushes :: "(string \<Rightarrow> 'w \<Rightarrow> (bool \<times> queued_event list) \<times> 'w) \<Rightarrow> string list \<Rightarrow> retry_queue \<times> 'w \<Rightarrow> retry_queue \<times> 'w" where
  "flushes send_fn [] s = s"
| "flushes send_fn (now # nows) s =
     flushes send_fn nows (snd (flushRetryQueue now send_fn (fst s) (snd s)))"

lemma requeued_short: "length (requeued now x) \<le> 1"
  by (auto simp: requeued_def split: option.split)

lemma length_concat_short: "(\<forall>x \<in> set xs. length (f x) \<le> 1) \<Longrightarrow> length (concat (map f xs)) \<le> length xs"
  by (induction xs) fastforce+

lemma refused_flush:
  assumes "length q \<le> MAX_QUEUE_SIZE" "quiet send_fn" "\<forall>j w. \<not> fst (fst (send_fn j w))"
  shows "length (fst (snd (flushRetryQueue now send_fn q w))) \<le> length q \<and>
    (\<forall>ev \<in> set (fst (snd (flushRetryQueue now send_fn q w))).
       0 < retry_left ev \<and> (\<exists>o0 \<in> set q. retry_left ev < retry_left o0))"
proof -
  let ?z = "zip q (replicate (length q) False)"
  have q': "fst (snd (flushRetryQueue now send_fn q w)) = concat (map (requeued now) ?z)"
    using flush_result[OF assms(1,2)] answers_refused[OF assms(3)] by simp
  have "length (concat (map (requeued now) ?z)) \<le> length ?z"
    by (rule length_concat_short) (use requeued_short in blast)
  moreover have "0 < retry_left ev \<and> (\<exists>o0 \<in> set q. retry_left ev < retry_left o0)"
    if "ev \<in> set (concat (map (requeued now) ?z))" for ev
  proof -
    obtain o0 b where z: "(o0, b) \<in> set ?z" "ev \<in> set (requeued now (o0, b))"
      using \<open>ev \<in> _\<close> by fastforce
    then have "o0 \<in> set q" "\<not> b"
      using set_zip_leftD[OF z(1)] set_zip_rightD[OF z(1)] by auto
    then show ?thesis using z(2) requeued_left by auto
  qed
  ultimately show ?thesis by (simp add: q')
qed

lemma refused_flushes:
  assumes "quiet send_fn" "\<forall>j w. \<not> fst (fst (send_fn j w))"
  shows "length q \<le> MAX_QUEUE_SIZE \<Longrightarrow> \<forall>ev \<in> set q. 0 < retry_left ev \<and> retry_left ev \<le> length nows \<Longrightarrow>
    fst (flushes send_fn nows (q, w)) = []"
proof (induction nows arbitrary: q w)
  case Nil
  then show ?case by (cases q) auto
next
  case (Cons now nows)
  obtain n q' w' where f: "flushRetryQueue now send_fn q w = (n, q', w')" by (metis prod.exhaust_sel)
  have "length q' \<le> length q \<and> (\<forall>ev \<in> set q'. 0 < retry_left ev \<and> (\<exists>o0 \<in> set q. retry_left ev < retry_left o0))"
    using refused_flush[OF Cons.prems(1) assms, of now w] f by simp
  then have "length q' \<le> MAX_QUEUE_SIZE \<and> (\<forall>ev \<in> set q'. 0 < retry_left ev \<and> retry_left ev \<le> length nows)"
    using Cons.prems by fastforce
  then show ?case using Cons.IH[of q' w'] f by simp
qed

text \<open>Nothing is retried for ever: events enqueued without a retry count, all refused by the remote
  server, are gone after four flushes, whatever the length of the queue.\<close>

theorem refused_events_are_dropped_after_four:
  assumes "quiet send_fn" "\<forall>j w. \<not> fst (fst (send_fn j w))"
    and "\<forall>ev \<in> set evs. qe_retry_count ev = None" "length nows = 4"
  shows "fst (flushes send_fn nows (fold (enqueue_event now) evs [], w)) = []"
proof (rule refused_flushes[OF assms(1,2)])
  let ?q = "fold (enqueue_event now) evs []"
  have q: "?q = keep_last MAX_QUEUE_SIZE (map (stamped now) evs)"
    using retry.items_pushes[of "[]" now evs] by simp
  then show "length ?q \<le> MAX_QUEUE_SIZE" by simp
  have "qe_retry_count ev = None" if "ev \<in> set ?q" for ev
    using that assms(3) keep_last_set[of MAX_QUEUE_SIZE "map (stamped now) evs"] q
    by (auto simp: stamped_def)
  then show "\<forall>ev \<in> set ?q. 0 < retry_left ev \<and> retry_left ev \<le> length nows"
    by (simp add: retry_left_def MAX_RETRY_COUNT_def assms(4))
qed

subsection \<open>A flush\<close>

definition sample_event :: "string \<Rightarrow> queued_event" where
  "sample_event j = \<lparr>qe_event_json = j, qe_reason = ''timeout'', qe_queued_at = None, qe_retry_count = None\<rparr>"

definition picky :: "string \<Rightarrow> nat \<Rightarrow> (bool \<times> queued_event list) \<times> nat" where
  "picky j w = ((j = ''ok'', []), w + 1)"

definition refusing :: "string \<Rightarrow> nat \<Rightarrow> (bool \<times> queued_event list) \<times> nat" where
  "refusing j w = ((False, []), w + 1)"

theorem flush_keeps_refused_events_witness:
  "fst (snd (flushRetryQueue ''T'' picky [sample_event ''no'', sample_event ''ok''] 0)) =
     [(sample_event ''no'')\<lparr>qe_reason := ''retry_flush_failed'', qe_queued_at := Some ''T'', qe_retry_count := Some 1\<rparr>]"
  using flush_keeps_refused_events[of "[sample_event ''no'', sample_event ''ok'']" picky "''T''" 0]
  by (simp add: MAX_QUEUE_SIZE_def quiet_def picky_def requeued_def after_failure_def Let_def
      sample_event_def stamped_def MAX_RETRY_COUNT_def)

theorem refused_events_are_dropped_after_four_witness:
  "fst (flushes refusing [''1'', ''2'', ''3'', ''4''] (fold (enqueue_event ''0'') [sample_event ''x''] [], 0)) = []"
  by (rule refused_events_are_dropped_after_four)
    (simp_all add: quiet_def refusing_def sample_event_def)

end
