(* ===== verification/Json.thy ===== *)
theory Json
  imports Prelude
begin

text \<open>
  JSON values as JavaScript sees them after \<open>JSON.parse\<close>, with the property access and the type tests
  the handlers use, and the printing of integers in messages. The type of the numbers is a parameter:
  integers everywhere but in the replies of language models, where they are fractions. Of an object's
  repeated key the first entry of the list is the one that counts.
\<close>

datatype 'n json_value =
    JNull
  | JBool bool
  | JNum 'n
  | JStr string
  | JArr "'n json_value list"
  | JObj "(string \<times> 'n json_value) list"

type_synonym json = "int json_value"

text \<open>\<open>typeof v === "object" && v !== null\<close>: objects and arrays.\<close>

definition is_object :: "'n json_value option \<Rightarrow> bool" where
  "is_object v = (case v of Some (JObj _) \<Rightarrow> True | Some (JArr _) \<Rightarrow> True | _ \<Rightarrow> False)"

text \<open>A property of a value; undefined is \<open>None\<close>.\<close>

definition jget :: "'n json_value option \<Rightarrow> string \<Rightarrow> 'n json_value option" where
  "jget v k = (case v of Some (JObj kvs) \<Rightarrow> map_of kvs k | _ \<Rightarrow> None)"

definition as_string :: "'n json_value option \<Rightarrow> string option" where
  "as_string v = (case v of Some (JStr s) \<Rightarrow> Some s | _ \<Rightarrow> None)"

definition as_number :: "'n json_value option \<Rightarrow> 'n option" where
  "as_number v = (case v of Some (JNum n) \<Rightarrow> Some n | _ \<Rightarrow> None)"

definition as_boolean :: "'n json_value option \<Rightarrow> bool option" where
  "as_boolean v = (case v of Some (JBool b) \<Rightarrow> Some b | _ \<Rightarrow> None)"

definition as_array :: "'n json_value option \<Rightarrow> 'n json_value list option" where
  "as_array v = (case v of Some (JArr xs) \<Rightarrow> Some xs | _ \<Rightarrow> None)"

text \<open>JavaScript's truth of a value.\<close>

definition js_true :: "json option \<Rightarrow> bool" where
  "js_true v = (case v of None \<Rightarrow> False | Some JNull \<Rightarrow> False | Some (JBool b) \<Rightarrow> b
     | Some (JNum n) \<Rightarrow> n \<noteq> 0 | Some (JStr s) \<Rightarrow> s \<noteq> [] | Some _ \<Rightarrow> True)"

text \<open>Decimal digits of an integer, as a template literal prints it.\<close>

fun show_nat :: "nat \<Rightarrow> string" where
  "show_nat n = (if n < 10 then [char_of (48 + n)] else show_nat (n div 10) @ [char_of (48 + n mod 10)])"

declare show_nat.simps [simp del]

definition show_int :: "int \<Rightarrow> string" where
  "show_int i = (if i < 0 then ''-'' @ show_nat (nat (- i)) else show_nat (nat i))"

subsection \<open>JSON.stringify\<close>

definition hex_digit :: "nat \<Rightarrow> char" where
  "hex_digit n = (if n < 10 then char_of (48 + n) else char_of (87 + n))"

definition json_escape :: "char \<Rightarrow> string" where
  "json_escape c =
     (let n = (of_char c :: nat) in
      if n = 34 \<or> n = 92 then [CHR 0x5C, c]
      else if n = 8 then [CHR 0x5C, CHR ''b'']
      else if n = 12 then [CHR 0x5C, CHR ''f'']
      else if n = 10 then [CHR 0x5C, CHR ''n'']
      else if n = 13 then [CHR 0x5C, CHR ''r'']
      else if n = 9 then [CHR 0x5C, CHR ''t'']
      else if n < 32 then CHR 0x5C # ''u00'' @ [hex_digit (n div 16), hex_digit (n mod 16)]
      else [c])"

definition json_quote :: "string \<Rightarrow> string" where
  "json_quote s = [CHR 0x22] @ concat (map json_escape s) @ [CHR 0x22]"

fun comma_join :: "string list \<Rightarrow> string" where
  "comma_join [] = []"
| "comma_join [x] = x"
| "comma_join (x # xs) = x @ '','' @ comma_join xs"

primrec stringify :: "json \<Rightarrow> string" and stringify_list :: "json list \<Rightarrow> string list"
  and stringify_fields :: "(string \<times> json) list \<Rightarrow> string list"
  and stringify_field :: "string \<times> json \<Rightarrow> string" where
  "stringify JNull = ''null''"
| "stringify (JBool b) = (if b then ''true'' else ''false'')"
| "stringify (JNum n) = show_int n"
| "stringify (JStr s) = json_quote s"
| "stringify (JArr xs) = ''['' @ comma_join (stringify_list xs) @ '']''"
| "stringify (JObj kvs) = ''{'' @ comma_join (stringify_fields kvs) @ ''}''"
| "stringify_list [] = []"
| "stringify_list (x # xs) = stringify x # stringify_list xs"
| "stringify_fields [] = []"
| "stringify_fields (kv # kvs) = stringify_field kv # stringify_fields kvs"
| "stringify_field (k, v) = json_quote k @ '':'' @ stringify v"

lemma jget_simps [simp]:
  "jget None k = None" "jget (Some (JObj kvs)) k = map_of kvs k" "jget (Some JNull) k = None"
  "jget (Some (JArr xs)) k = None" "jget (Some (JStr s)) k = None" "jget (Some (JNum n)) k = None"
  "jget (Some (JBool b)) k = None"
  by (simp_all add: jget_def)

lemma as_string_Some: "as_string v = Some s \<longleftrightarrow> v = Some (JStr s)"
  by (auto simp: as_string_def split: option.splits json_value.splits)

lemma as_array_Some: "as_array v = Some xs \<longleftrightarrow> v = Some (JArr xs)"
  by (auto simp: as_array_def split: option.splits json_value.splits)

end
