(* ===== verification/Validator.thy ===== *)
theory Validator
  imports Json
begin

text \<open>
  The request validator of \<open>memory-server/src/middleware/validator.ts\<close>. A result is the list of error
  messages; it is valid when the list is empty, as in the code. String lengths are counted in UTF-16
  code units, one per character here.
\<close>

subsection \<open>Configuration and results\<close>

record validation_config =
  vc_maxContentLength :: int
  vc_maxTitleLength :: int
  vc_maxTags :: int
  vc_maxTagLength :: int
  vc_maxProjectLength :: int

definition DEFAULT_CONFIG :: validation_config where
  "DEFAULT_CONFIG = \<lparr>vc_maxContentLength = 100000, vc_maxTitleLength = 500, vc_maxTags = 50,
     vc_maxTagLength = 100, vc_maxProjectLength = 200\<rparr>"

record validation_result =
  vr_valid :: bool
  vr_errors :: "string list"

definition ALLOWED_TABLE_ALIASES :: "string list" where
  "ALLOWED_TABLE_ALIASES = [''mem_observations'', ''mem_sessions'', ''mem_events'', ''mem_facts'',
     ''mem_entities'', ''mem_links'']"

text \<open>The check of one string property, and of a tag list with its per-tag bound (the loop stops at the
  first tag that is too long).\<close>

definition too_long :: "json option \<Rightarrow> int \<Rightarrow> bool" where
  "too_long v limit = (case as_string v of Some s \<Rightarrow> limit < int (length s) | None \<Rightarrow> False)"

fun first_long_tag :: "int \<Rightarrow> json list \<Rightarrow> bool" where
  "first_long_tag limit [] = False"
| "first_long_tag limit (tag # tags) =
     (if too_long (Some tag) limit then True else first_long_tag limit tags)"

definition tag_errors :: "validation_config \<Rightarrow> string \<Rightarrow> json option \<Rightarrow> string list" where
  "tag_errors cfg name v =
     (case as_array v of
        None \<Rightarrow> []
      | Some tags \<Rightarrow>
          (if vc_maxTags cfg < int (length tags)
           then [name @ '' exceeds max count of '' @ show_int (vc_maxTags cfg)] else []) @
          (if first_long_tag (vc_maxTagLength cfg) tags
           then [name @ '' contains a tag exceeding max length of '' @ show_int (vc_maxTagLength cfg)] else []))"

definition length_errors :: "int \<Rightarrow> string \<Rightarrow> json option \<Rightarrow> string list" where
  "length_errors limit name v =
     (if too_long v limit then [name @ '' exceeds max length of '' @ show_int limit] else [])"

definition verdict :: "string list \<Rightarrow> validation_result" where
  "verdict errors = \<lparr>vr_valid = (errors = []), vr_errors = errors\<rparr>"

subsection \<open>The three validators\<close>

definition validateRecordEvent :: "validation_config \<Rightarrow> json option \<Rightarrow> validation_result" where
  "validateRecordEvent cfg body =
     (if \<not> is_object body then \<lparr>vr_valid = False, vr_errors = [''body must be a JSON object'']\<rparr>
      else (let evt = jget body ''event'' in
        if \<not> is_object evt
        then \<lparr>vr_valid = False, vr_errors = [''event is required and must be an object'']\<rparr>
        else verdict
          ((if is_object (jget evt ''payload'')
            then length_errors (vc_maxContentLength cfg) ''payload.content'' (jget (jget evt ''payload'') ''content'')
            else []) @
           length_errors (vc_maxProjectLength cfg) ''event.project'' (jget evt ''project'') @
           tag_errors cfg ''event.tags'' (jget evt ''tags'') @
           (case as_array (jget evt ''privacy_tags'') of
              None \<Rightarrow> []
            | Some tags \<Rightarrow> if vc_maxTags cfg < int (length tags)
                then [''event.privacy_tags exceeds max count of '' @ show_int (vc_maxTags cfg)] else []))))"

definition validateSearch :: "validation_config \<Rightarrow> json option \<Rightarrow> validation_result" where
  "validateSearch cfg body =
     (if \<not> is_object body then \<lparr>vr_valid = False, vr_errors = [''body must be a JSON object'']\<rparr>
      else verdict
        ((case as_string (jget body ''query'') of
            None \<Rightarrow> [''query is required and must be a non-empty string'']
          | Some q \<Rightarrow>
              if js_trim q = [] then [''query is required and must be a non-empty string'']
              else length_errors (vc_maxContentLength cfg) ''query'' (jget body ''query'')) @
         length_errors (vc_maxProjectLength cfg) ''project'' (jget body ''project'')))"

definition validateCheckpoint :: "validation_config \<Rightarrow> json option \<Rightarrow> validation_result" where
  "validateCheckpoint cfg body =
     (if \<not> is_object body then \<lparr>vr_valid = False, vr_errors = [''body must be a JSON object'']\<rparr>
      else verdict
        (length_errors (vc_maxTitleLength cfg) ''title'' (jget body ''title'') @
         length_errors (vc_maxContentLength cfg) ''content'' (jget body ''content'') @
         length_errors (vc_maxProjectLength cfg) ''project'' (jget body ''project'') @
         tag_errors cfg ''tags'' (jget body ''tags'')))"

definition validateTableAlias :: "string \<Rightarrow> bool" where
  "validateTableAlias alias = (alias \<in> set ALLOWED_TABLE_ALIASES)"

definition createDefaultValidator :: validation_config where
  "createDefaultValidator = DEFAULT_CONFIG"

subsection \<open>What a valid request satisfies\<close>

definition string_within :: "int \<Rightarrow> json option \<Rightarrow> bool" where
  "string_within limit v \<longleftrightarrow> (\<forall>s. v = Some (JStr s) \<longrightarrow> int (length s) \<le> limit)"

definition tags_within :: "int \<Rightarrow> int \<Rightarrow> json option \<Rightarrow> bool" where
  "tags_within count limit v \<longleftrightarrow>
     (\<forall>tags. v = Some (JArr tags) \<longrightarrow>
        int (length tags) \<le> count \<and> (\<forall>s. JStr s \<in> set tags \<longrightarrow> int (length s) \<le> limit))"

lemma too_long_iff: "too_long v limit \<longleftrightarrow> \<not> string_within limit v"
  by (auto simp: too_long_def string_within_def as_string_def split: option.split json_value.split)

lemma first_long_tag_iff: "first_long_tag limit tags \<longleftrightarrow> (\<exists>s. JStr s \<in> set tags \<and> limit < int (length s))"
  by (induction tags) (auto simp: too_long_iff string_within_def)

lemma length_errors_iff [simp]: "length_errors limit name v = [] \<longleftrightarrow> string_within limit v"
  by (simp add: length_errors_def too_long_iff)

lemma tag_errors_iff [simp]: "tag_errors cfg name v = [] \<longleftrightarrow> tags_within (vc_maxTags cfg) (vc_maxTagLength cfg) v"
  by (auto simp: tag_errors_def tags_within_def first_long_tag_iff as_array_def not_less
      split: option.split json_value.split)

lemma verdict_simps [simp]: "vr_valid (verdict es) \<longleftrightarrow> es = []" "vr_errors (verdict es) = es"
  by (simp_all add: verdict_def)

lemma privacy_count: "(case as_array v of None \<Rightarrow> [] | Some tags \<Rightarrow>
      if n < int (length tags) then [m] else []) = [] \<longleftrightarrow> (\<forall>tags. v = Some (JArr tags) \<longrightarrow> int (length tags) \<le> n)"
  by (auto simp: as_array_def split: option.split json_value.split)

lemma payload_ok: "(if is_object p then length_errors n name (jget p k) else []) = [] \<longleftrightarrow> string_within n (jget p k)"
  by (auto simp: is_object_def string_within_def jget_def split: option.splits json_value.splits)

text \<open>The validators accept exactly the requests within their bounds: an event record needs an event
  object whose content, project and tags are within the limits (a value of another type is not checked);
  a search needs a query that is not blank; a checkpoint needs its title, content, project and tags within
  the limits. A request is valid exactly when no error is reported.\<close>

theorem validators_enforce_bounds:
  "(vr_valid (validateRecordEvent cfg body) \<longleftrightarrow>
      is_object body \<and> is_object (jget body ''event'') \<and>
      string_within (vc_maxContentLength cfg) (jget (jget (jget body ''event'') ''payload'') ''content'') \<and>
      string_within (vc_maxProjectLength cfg) (jget (jget body ''event'') ''project'') \<and>
      tags_within (vc_maxTags cfg) (vc_maxTagLength cfg) (jget (jget body ''event'') ''tags'') \<and>
      (\<nexists>tags. jget (jget body ''event'') ''privacy_tags'' = Some (JArr tags) \<and>
               vc_maxTags cfg < int (length tags))) \<and>
   (vr_valid (validateSearch cfg body) \<longleftrightarrow>
      is_object body \<and>
      (\<exists>q. jget body ''query'' = Some (JStr q) \<and> js_trim q \<noteq> [] \<and> int (length q) \<le> vc_maxContentLength cfg) \<and>
      string_within (vc_maxProjectLength cfg) (jget body ''project'')) \<and>
   (vr_valid (validateCheckpoint cfg body) \<longleftrightarrow>
      is_object body \<and>
      string_within (vc_maxTitleLength cfg) (jget body ''title'') \<and>
      string_within (vc_maxContentLength cfg) (jget body ''content'') \<and>
      string_within (vc_maxProjectLength cfg) (jget body ''project'') \<and>
      tags_within (vc_maxTags cfg) (vc_maxTagLength cfg) (jget body ''tags'')) \<and>
   vr_valid (validateRecordEvent cfg body) = (vr_errors (validateRecordEvent cfg body) = []) \<and>
   vr_valid (validateSearch cfg body) = (vr_errors (validateSearch cfg body) = []) \<and>
   vr_valid (validateCheckpoint cfg body) = (vr_errors (validateCheckpoint cfg body) = [])"
proof (intro conjI)
  show "vr_valid (validateRecordEvent cfg body) \<longleftrightarrow>
      is_object body \<and> is_object (jget body ''event'') \<and>
      string_within (vc_maxContentLength cfg) (jget (jget (jget body ''event'') ''payload'') ''content'') \<and>
      string_within (vc_maxProjectLength cfg) (jget (jget body ''event'') ''project'') \<and>
      tags_within (vc_maxTags cfg) (vc_maxTagLength cfg) (jget (jget body ''event'') ''tags'') \<and>
      (\<nexists>tags. jget (jget body ''event'') ''privacy_tags'' = Some (JArr tags) \<and>
               vc_maxTags cfg < int (length tags))"
    by (simp add: validateRecordEvent_def Let_def payload_ok privacy_count not_less)
  show "vr_valid (validateSearch cfg body) \<longleftrightarrow>
      is_object body \<and>
      (\<exists>q. jget body ''query'' = Some (JStr q) \<and> js_trim q \<noteq> [] \<and> int (length q) \<le> vc_maxContentLength cfg) \<and>
      string_within (vc_maxProjectLength cfg) (jget body ''project'')"
    by (cases "as_string (jget body ''query'')")
      (auto simp: validateSearch_def as_string_Some string_within_def as_string_def split: json_value.splits option.splits)
  show "vr_valid (validateCheckpoint cfg body) \<longleftrightarrow>
      is_object body \<and>
      string_within (vc_maxTitleLength cfg) (jget body ''title'') \<and>
      string_within (vc_maxContentLength cfg) (jget body ''content'') \<and>
      string_within (vc_maxProjectLength cfg) (jget body ''project'') \<and>
      tags_within (vc_maxTags cfg) (vc_maxTagLength cfg) (jget body ''tags'')"
    by (simp add: validateCheckpoint_def)
  show "vr_valid (validateRecordEvent cfg body) = (vr_errors (validateRecordEvent cfg body) = [])"
    by (simp add: validateRecordEvent_def Let_def)
  show "vr_valid (validateSearch cfg body) = (vr_errors (validateSearch cfg body) = [])"
    by (simp add: validateSearch_def)
  show "vr_valid (validateCheckpoint cfg body) = (vr_errors (validateCheckpoint cfg body) = [])"
    by (simp add: validateCheckpoint_def)
qed

end
