(* ===== verification/Auth.thy ===== *)
theory Auth
  imports Json
begin

text \<open>
  Authentication and tenancy: the token resolver (\<open>auth/token-resolver.ts\<close>), the access filter
  (\<open>auth/access-control.ts\<close>) and the helpers of \<open>server.ts\<close> that apply them to a request. A request
  is its method, path, peer address and the two headers that carry a token; header characters are
  Latin-1, so a \<open>char\<close> is one. The environment is the admin token variable and the cached AuthConfig.
\<close>

subsection \<open>Token resolution\<close>

datatype token_role = Admin | Member

record token_entry =
  te_user_id :: string
  te_team_id :: "string option"
  te_role :: token_role

record identity =
  id_user_id :: string
  id_team_id :: "string option"
  id_role :: token_role

record auth_config =
  au_admin_token :: string
  au_tokens :: "(string \<times> token_entry) list"

text \<open>\<open>timingSafeEqual\<close> on the UTF-8 bytes raises a RangeError when their numbers differ.\<close>

datatype auth_error = RangeError

definition utf8_bytes :: "string \<Rightarrow> nat list" where
  "utf8_bytes s = concat (map (\<lambda>c. let n = of_char c in
     if n < 128 then [n] else [192 + n div 64, 128 + n mod 64]) s)"

definition timingSafeEqual :: "string \<Rightarrow> string \<Rightarrow> auth_error + bool" where
  "timingSafeEqual a b =
     (if length (utf8_bytes a) \<noteq> length (utf8_bytes b) then Inl RangeError
      else Inr (utf8_bytes a = utf8_bytes b))"

fun search_tokens :: "string \<Rightarrow> (string \<times> token_entry) list \<Rightarrow> auth_error + identity option" where
  "search_tokens token [] = Inr None"
| "search_tokens token ((mapToken, e) # entries) =
     (if mapToken = [] \<or> length token \<noteq> length mapToken then search_tokens token entries
      else case timingSafeEqual token mapToken of
          Inl err \<Rightarrow> Inl err
        | Inr True \<Rightarrow> Inr (Some \<lparr>id_user_id = te_user_id e, id_team_id = te_team_id e, id_role = te_role e\<rparr>)
        | Inr False \<Rightarrow> search_tokens token entries)"

definition admin_identity :: identity where
  "admin_identity = \<lparr>id_user_id = ''admin'', id_team_id = None, id_role = Admin\<rparr>"

definition resolveTokenIdentity :: "string \<Rightarrow> auth_config \<Rightarrow> auth_error + identity option" where
  "resolveTokenIdentity token cfg =
     (if token = [] then Inr None
      else let adminToken = js_trim (au_admin_token cfg) in
        if adminToken \<noteq> [] \<and> length token = length adminToken
        then (case timingSafeEqual token adminToken of
                Inl err \<Rightarrow> Inl err
              | Inr True \<Rightarrow> Inr (Some admin_identity)
              | Inr False \<Rightarrow> search_tokens token (au_tokens cfg))
        else search_tokens token (au_tokens cfg))"

subsection \<open>Requests\<close>

record request =
  rq_method :: string
  rq_path :: string
  rq_remoteAddress :: "string option"
  rq_authorization :: "string option"
  rq_token :: "string option"

record server_env =
  en_admin_token :: "string option"
  en_auth_config :: "auth_config option"

definition starts_with :: "string \<Rightarrow> string \<Rightarrow> bool" where
  "starts_with s p = (take (length p) s = p)"

definition ends_with :: "string \<Rightarrow> string \<Rightarrow> bool" where
  "ends_with s p = (length p \<le> length s \<and> drop (length s - length p) s = p)"

definition extractBearerToken :: "request \<Rightarrow> string" where
  "extractBearerToken rq =
     (let bearer = (case rq_authorization rq of
            Some a \<Rightarrow> if starts_with a ''Bearer '' then js_trim (drop 7 a) else []
          | None \<Rightarrow> [])
      in if truthy (rq_token rq) then or_else (rq_token rq) [] else bearer)"

definition configured_token :: "server_env \<Rightarrow> string" where
  "configured_token env = js_trim (or_else (en_admin_token env) [])"

definition resolveRequestIdentity :: "server_env \<Rightarrow> request \<Rightarrow> auth_error + identity option" where
  "resolveRequestIdentity env rq =
     (let token = extractBearerToken rq in
      case en_auth_config env of
        Some cfg \<Rightarrow> resolveTokenIdentity token cfg
      | None \<Rightarrow>
          (let configured = configured_token env in
           if configured = [] then Inr (Some admin_identity)
           else if token = [] \<or> length token \<noteq> length configured then Inr None
           else case timingSafeEqual token configured of
               Inl err \<Rightarrow> Inl err
             | Inr same \<Rightarrow> Inr (if same then Some admin_identity else None)))"

subsection \<open>The access filter\<close>

record access_filter =
  af_sql :: string
  af_params :: "string list"
  af_user_id :: "string option"
  af_team_id :: "string option"

text \<open>The conditions of a member: a column and the value it must have.\<close>

definition access_conditions :: "identity \<Rightarrow> (string \<times> string) list" where
  "access_conditions ctx =
     (''user_id'', id_user_id ctx) #
     (if truthy (id_team_id ctx) then [(''team_id'', or_else (id_team_id ctx) [])] else [])"

definition buildAccessFilter :: "string \<Rightarrow> identity \<Rightarrow> bool \<Rightarrow> access_filter" where
  "buildAccessFilter tableAlias ctx factsMode =
     (if id_role ctx = Admin then \<lparr>af_sql = [], af_params = [], af_user_id = None, af_team_id = None\<rparr>
      else if factsMode then \<lparr>af_sql = [], af_params = [], af_user_id = None, af_team_id = None\<rparr>
      else (let conditions = access_conditions ctx in
        \<lparr>af_sql = ''AND ('' @ join_with '' OR '' (map (\<lambda>c. tableAlias @ ''.'' @ fst c @ '' = ?'') conditions) @ '')'',
         af_params = map snd conditions,
         af_user_id = Some (id_user_id ctx), af_team_id = id_team_id ctx\<rparr>))"

text \<open>The rows a filter lets through, by their tenant columns.\<close>

definition filter_admits :: "identity \<Rightarrow> string option \<Rightarrow> string option \<Rightarrow> bool" where
  "filter_admits ctx user team \<longleftrightarrow>
     id_role ctx = Admin \<or>
     (\<exists>c \<in> set (access_conditions ctx).
        (fst c = ''user_id'' \<and> user = Some (snd c)) \<or> (fst c = ''team_id'' \<and> team = Some (snd c)))"

datatype access = Unauthorized | Access "string option" "string option"

definition resolveAccess :: "server_env \<Rightarrow> request \<Rightarrow> auth_error + access" where
  "resolveAccess env rq =
     (case resolveRequestIdentity env rq of
        Inl err \<Rightarrow> Inl err
      | Inr who \<Rightarrow>
          if en_auth_config env \<noteq> None \<and> who = None then Inr Unauthorized
          else (case who of
                  None \<Rightarrow> Inr (Access None None)
                | Some ctx \<Rightarrow> (let f = buildAccessFilter ''o'' ctx False
                              in Inr (Access (af_user_id f) (af_team_id f)))))"

subsection \<open>The admin gate\<close>

definition isLocalhostRequest :: "string option \<Rightarrow> bool" where
  "isLocalhostRequest remoteAddress =
     (if \<not> truthy remoteAddress then False
      else remoteAddress \<in> {Some ''127.0.0.1'', Some ''::1'', Some ''localhost''})"

definition requiresAdminToken :: "string \<Rightarrow> string \<Rightarrow> bool" where
  "requiresAdminToken meth path =
     (if starts_with path ''/v1/admin/'' then True
      else if meth = ''GET'' then
        path \<in> {''/v1/export'', ''/v1/graph/neighbors'', ''/v1/graph/entities''} \<or>
        (starts_with path ''/v1/facts/'' \<and> ends_with path ''/history'')
      else if meth \<noteq> ''POST'' then False
      else path \<in> {''/v1/events/record'', ''/v1/checkpoints/record'', ''/v1/sessions/finalize'',
        ''/v1/ingest/codex-history'', ''/v1/ingest/codex-sessions'', ''/v1/ingest/opencode-history'',
        ''/v1/ingest/opencode-sessions'', ''/v1/ingest/cursor-history'', ''/v1/ingest/cursor-events'',
        ''/v1/ingest/antigravity-history'', ''/v1/ingest/antigravity-files'', ''/v1/ingest/github-issues'',
        ''/v1/ingest/knowledge-file'', ''/v1/ingest/gemini-history'', ''/v1/ingest/gemini-events'',
        ''/v1/ingest/claude-code-history'', ''/v1/ingest/claude-code-sessions'', ''/v1/links/create'',
        ''/v1/observations/bulk-delete'', ''/v1/observations/share'', ''/v1/ingest/document'',
        ''/v1/ingest/audio''})"

definition hasValidAdminToken :: "server_env \<Rightarrow> request \<Rightarrow> auth_error + bool" where
  "hasValidAdminToken env rq =
     (let configured = configured_token env in
      if configured = [] then Inr (isLocalhostRequest (rq_remoteAddress rq))
      else case en_auth_config env of
          Some cfg \<Rightarrow>
            (case resolveTokenIdentity (extractBearerToken rq) cfg of
               Inl err \<Rightarrow> Inl err
             | Inr who \<Rightarrow> Inr (case who of None \<Rightarrow> False | Some ctx \<Rightarrow> id_role ctx = Admin))
        | None \<Rightarrow>
            (let provided = extractBearerToken rq in
             if length provided \<noteq> length configured then Inr False
             else timingSafeEqual provided configured))"

text \<open>\<open>True\<close>: the server may bind to this host.\<close>

definition checkRemoteBindSafety :: "server_env \<Rightarrow> string \<Rightarrow> bool" where
  "checkRemoteBindSafety env host =
     (if host \<in> {''127.0.0.1'', ''localhost'', ''::1''} then True
      else \<not> (configured_token env = [] \<and> en_auth_config env = None))"

subsection \<open>Lemmas\<close>

lemma utf8_bytes_Cons: "utf8_bytes (c # s) =
    (if of_char c < (128 :: nat) then [of_char c] else [192 + of_char c div 64, 128 + of_char c mod 64]) @ utf8_bytes s"
  by (simp add: utf8_bytes_def Let_def)

lemma utf8_bytes_Nil [simp]: "utf8_bytes [] = []"
  by (simp add: utf8_bytes_def)

lemma char_eq_iff: "(of_char c :: nat) = of_char d \<Longrightarrow> c = d"
  by (metis char_of_char)

lemma utf8_inj: "utf8_bytes a = utf8_bytes b \<Longrightarrow> a = b"
proof (induction a arbitrary: b)
  case Nil
  then show ?case by (cases b) (auto simp: utf8_bytes_Cons split: if_splits)
next
  case (Cons c a)
  then obtain d b' where b: "b = d # b'" by (cases b) (auto simp: utf8_bytes_Cons split: if_splits)
  let ?c = "of_char c :: nat" and ?d = "of_char d :: nat"
  have "?c = ?d \<and> utf8_bytes a = utf8_bytes b'"
  proof (cases "?c < 128"; cases "?d < 128")
    assume "\<not> ?c < 128" "\<not> ?d < 128"
    then have "?c div 64 = ?d div 64" "?c mod 64 = ?d mod 64" "utf8_bytes a = utf8_bytes b'"
      using Cons.prems by (simp_all add: b utf8_bytes_Cons)
    then show ?thesis by (metis div_mult_mod_eq)
  qed (use Cons.prems in \<open>auto simp: b utf8_bytes_Cons\<close>)
  then show ?case using Cons.IH char_eq_iff b by blast
qed

lemma timingSafeEqual_True: "timingSafeEqual a b = Inr True \<longleftrightarrow> a = b"
  by (auto simp: timingSafeEqual_def dest: utf8_inj)

lemma timingSafeEqual_refl [simp]: "timingSafeEqual a a = Inr True"
  by (simp add: timingSafeEqual_True)

text \<open>A token made of ASCII characters takes one byte for each.\<close>

definition ascii :: "string \<Rightarrow> bool" where
  "ascii s \<longleftrightarrow> (\<forall>c \<in> set s. of_char c < (128 :: nat))"

lemma length_utf8_ascii: "ascii s \<Longrightarrow> length (utf8_bytes s) = length s"
  by (induction s) (auto simp: ascii_def utf8_bytes_Cons)

lemma length_utf8_mono: "length s \<le> length (utf8_bytes s)"
  by (induction s) (auto simp: utf8_bytes_Cons)

lemma length_utf8_not_ascii: "\<not> ascii s \<Longrightarrow> length s < length (utf8_bytes s)"
proof (induction s)
  case (Cons c s)
  then show ?case using length_utf8_mono[of s] by (auto simp: utf8_bytes_Cons ascii_def not_less intro: le_imp_less_Suc)
qed (simp add: ascii_def)

lemma search_tokens_Some:
  "search_tokens token entries = Inr (Some who) \<Longrightarrow>
    \<exists>e. (token, e) \<in> set entries \<and> who = \<lparr>id_user_id = te_user_id e, id_team_id = te_team_id e, id_role = te_role e\<rparr>"
proof (induction entries)
  case (Cons x entries)
  obtain mt e where x: "x = (mt, e)" by (cases x)
  show ?case
  proof (cases "timingSafeEqual token mt = Inr True")
    case True
    then show ?thesis using Cons x by (auto simp: timingSafeEqual_True split: if_splits)
  next
    case False
    then show ?thesis using Cons x by (auto split: if_splits sum.splits bool.splits)
  qed
qed simp

lemma resolve_Some:
  assumes "resolveTokenIdentity token cfg = Inr (Some who)"
  shows "token \<noteq> [] \<and> (token = js_trim (au_admin_token cfg) \<and> who = admin_identity \<or>
    (\<exists>e. (token, e) \<in> set (au_tokens cfg) \<and>
       who = \<lparr>id_user_id = te_user_id e, id_team_id = te_team_id e, id_role = te_role e\<rparr>))"
proof (cases "timingSafeEqual token (js_trim (au_admin_token cfg)) = Inr True")
  case True
  then show ?thesis
    using assms search_tokens_Some[of token "au_tokens cfg" who]
    by (auto simp: resolveTokenIdentity_def Let_def timingSafeEqual_True split: if_splits)
next
  case False
  then show ?thesis
    using assms search_tokens_Some[of token "au_tokens cfg" who]
    by (auto simp: resolveTokenIdentity_def Let_def split: if_splits sum.splits bool.splits)
qed

lemma search_tokens_ascii:
  assumes "ascii token" "\<forall>x \<in> set entries. ascii (fst x)"
  shows "search_tokens token entries =
    Inr (if token = [] then None else map_option (\<lambda>e. \<lparr>id_user_id = te_user_id e, id_team_id = te_team_id e,
      id_role = te_role e\<rparr>) (map_of entries token))"
  using assms(2)
proof (induction entries)
  case (Cons x entries)
  obtain mt e where x: "x = (mt, e)" by (cases x)
  have "length token = length mt \<Longrightarrow> timingSafeEqual token mt = Inr (token = mt)"
    using assms(1) Cons.prems x utf8_inj by (auto simp: timingSafeEqual_def length_utf8_ascii)
  then show ?case using Cons x by (cases "token = mt") (auto split: bool.splits)
qed simp

lemma resolve_ascii:
  assumes "ascii token" "ascii (js_trim (au_admin_token cfg))" "\<forall>x \<in> set (au_tokens cfg). ascii (fst x)"
  shows "resolveTokenIdentity token cfg =
    Inr (if token = [] then None
         else if token = js_trim (au_admin_token cfg) then Some admin_identity
         else map_option (\<lambda>e. \<lparr>id_user_id = te_user_id e, id_team_id = te_team_id e, id_role = te_role e\<rparr>)
                (map_of (au_tokens cfg) token))"
proof -
  have "length token = length (js_trim (au_admin_token cfg)) \<Longrightarrow>
      timingSafeEqual token (js_trim (au_admin_token cfg)) = Inr (token = js_trim (au_admin_token cfg))"
    using assms(1,2) utf8_inj by (auto simp: timingSafeEqual_def length_utf8_ascii)
  then show ?thesis
    by (cases "token = js_trim (au_admin_token cfg)")
      (auto simp: resolveTokenIdentity_def Let_def search_tokens_ascii[OF assms(1,3)] split: bool.split)
qed

subsection \<open>Properties\<close>

text \<open>Token resolution is a lookup: with ASCII tokens it never raises, the trimmed admin token resolves
  to the admin, any other token to its first entry, and the empty token and unknown tokens to nobody.\<close>

theorem tokens_resolve_by_lookup:
  assumes "ascii token" "ascii (js_trim (au_admin_token cfg))" "\<forall>x \<in> set (au_tokens cfg). ascii (fst x)"
  shows "resolveTokenIdentity token cfg =
    Inr (if token = [] then None
         else if token = js_trim (au_admin_token cfg) then Some admin_identity
         else map_option (\<lambda>e. \<lparr>id_user_id = te_user_id e, id_team_id = te_team_id e, id_role = te_role e\<rparr>)
                (map_of (au_tokens cfg) token))"
  by (rule resolve_ascii[OF assms])

text \<open>A token that has as many characters as the ASCII admin token but is not ASCII itself makes the
  resolver raise a RangeError instead of answering nobody: the lengths compared are those of the strings,
  the buffers compared are UTF-8.\<close>

theorem non_ascii_token_raises:
  assumes "\<not> ascii token" "ascii (js_trim (au_admin_token cfg))"
    and "length token = length (js_trim (au_admin_token cfg))"
  shows "resolveTokenIdentity token cfg = Inl RangeError"
proof -
  have "token \<noteq> []" using assms(1) by (auto simp: ascii_def)
  moreover have "timingSafeEqual token (js_trim (au_admin_token cfg)) = Inl RangeError"
    using length_utf8_not_ascii[OF assms(1)] length_utf8_ascii[OF assms(2)] assms(3)
    by (simp add: timingSafeEqual_def)
  ultimately show ?thesis using assms(3) by (auto simp: resolveTokenIdentity_def Let_def)
qed

lemma resolveAccess_cases:
  "resolveAccess env rq =
     (case resolveRequestIdentity env rq of
        Inl err \<Rightarrow> Inl err
      | Inr None \<Rightarrow> Inr (if en_auth_config env = None then Access None None else Unauthorized)
      | Inr (Some ctx) \<Rightarrow> Inr (if id_role ctx = Admin then Access None None
                              else Access (Some (id_user_id ctx)) (id_team_id ctx)))"
  by (simp add: resolveAccess_def buildAccessFilter_def Let_def split: sum.split option.split)

text \<open>C25. Tenants are confined: when an AuthConfig is set, a request is refused, or it carries the token of an
  entry and acts as that entry's user and team, or it is unrestricted because it carries the admin token or
  the token of an entry whose role is admin. Without an AuthConfig no request is restricted.\<close>

theorem access_follows_token:
  assumes "resolveAccess env rq = Inr acc"
  shows "case en_auth_config env of
      None \<Rightarrow> acc = Access None None
    | Some cfg \<Rightarrow>
        acc = Unauthorized \<or>
        (acc = Access None None \<and>
           (extractBearerToken rq = js_trim (au_admin_token cfg) \<or>
            (\<exists>e. (extractBearerToken rq, e) \<in> set (au_tokens cfg) \<and> te_role e = Admin))) \<or>
        (\<exists>e. (extractBearerToken rq, e) \<in> set (au_tokens cfg) \<and> te_role e = Member \<and>
             acc = Access (Some (te_user_id e)) (te_team_id e))"
proof (cases "en_auth_config env")
  case None
  then show ?thesis
    using assms
    by (auto simp: resolveAccess_cases resolveRequestIdentity_def Let_def admin_identity_def
        split: sum.splits if_splits)
next
  case (Some cfg)
  obtain who where who: "resolveTokenIdentity (extractBearerToken rq) cfg = Inr who"
    using assms Some by (auto simp: resolveAccess_cases resolveRequestIdentity_def Let_def split: sum.splits)
  show ?thesis
  proof (cases who)
    case None
    then show ?thesis using assms Some who by (simp add: resolveAccess_cases resolveRequestIdentity_def Let_def)
  next
    case (Some ctx)
    then have "acc = (if id_role ctx = Admin then Access None None else Access (Some (id_user_id ctx)) (id_team_id ctx))"
      using assms \<open>en_auth_config env = Some cfg\<close> who
      by (simp add: resolveAccess_cases resolveRequestIdentity_def Let_def)
    moreover have "te_role e = Member" if "te_role e \<noteq> Admin" for e :: token_entry
      using that by (cases "te_role e") auto
    ultimately show ?thesis
      using resolve_Some[of "extractBearerToken rq" cfg ctx] who Some \<open>en_auth_config env = Some cfg\<close>
      by (auto simp: admin_identity_def)
  qed
qed

text \<open>Placeholders of a filter.\<close>

lemma count_join: "count_list (join_with '' OR '' (map (\<lambda>c. a @ ''.'' @ fst c @ '' = ?'') cs)) CHR ''?'' =
    (\<Sum>c \<leftarrow> cs. count_list a CHR ''?'' + count_list (fst c) CHR ''?'' + 1)"
  by (induction cs rule: induct_list012) auto

text \<open>The access filter: an admin is not filtered; a member's SQL clause has one placeholder for each
  parameter, and lets through exactly the rows of the member's user or of the member's team when the
  member has one that is not empty; rows without a tenant are not among them.\<close>

theorem access_filter_is_tenancy:
  "(filter_admits ctx user team \<longleftrightarrow>
      id_role ctx = Admin \<or> user = Some (id_user_id ctx) \<or> (truthy (id_team_id ctx) \<and> team = id_team_id ctx)) \<and>
   (af_sql (buildAccessFilter a ctx facts) = [] \<longleftrightarrow> id_role ctx = Admin \<or> facts) \<and>
   (CHR ''?'' \<in> set a \<or>
    count_list (af_sql (buildAccessFilter a ctx facts)) CHR ''?'' = length (af_params (buildAccessFilter a ctx facts)))"
proof (intro conjI)
  show "filter_admits ctx user team \<longleftrightarrow>
      id_role ctx = Admin \<or> user = Some (id_user_id ctx) \<or> (truthy (id_team_id ctx) \<and> team = id_team_id ctx)"
    by (cases "id_team_id ctx") (auto simp: filter_admits_def access_conditions_def)
  show "af_sql (buildAccessFilter a ctx facts) = [] \<longleftrightarrow> id_role ctx = Admin \<or> facts"
    by (simp add: buildAccessFilter_def Let_def)
  have "CHR ''?'' \<notin> set a \<Longrightarrow> count_list a CHR ''?'' = 0" by (simp add: count_notin)
  then show "CHR ''?'' \<in> set a \<or>
    count_list (af_sql (buildAccessFilter a ctx facts)) CHR ''?'' = length (af_params (buildAccessFilter a ctx facts))"
    by (cases "CHR ''?'' \<in> set a") (auto simp: buildAccessFilter_def Let_def count_join access_conditions_def)
qed

text \<open>What the admin gate trusts: with no admin token in the environment the gate only looks at the peer
  address, even when an AuthConfig with an admin token is loaded, so a local request (for instance through
  a reverse proxy on the same host) passes without any token and a remote one is refused with the right
  one; with the variable set, and ASCII tokens, it passes exactly the requests whose token is the
  AuthConfig's admin token or an admin entry's, or the variable itself when there is no AuthConfig.\<close>

theorem admin_gate_depends_on_environment:
  "(configured_token env = [] \<longrightarrow>
      hasValidAdminToken env rq = Inr (isLocalhostRequest (rq_remoteAddress rq))) \<and>
   (configured_token env \<noteq> [] \<and> en_auth_config env = None \<and> ascii (configured_token env) \<and>
      ascii (extractBearerToken rq) \<longrightarrow>
      hasValidAdminToken env rq = Inr (extractBearerToken rq = configured_token env)) \<and>
   (configured_token env \<noteq> [] \<and> en_auth_config env = Some cfg \<and>
      hasValidAdminToken env rq = Inr True \<longrightarrow>
      extractBearerToken rq = js_trim (au_admin_token cfg) \<or>
      (\<exists>e. (extractBearerToken rq, e) \<in> set (au_tokens cfg) \<and> te_role e = Admin))"
proof (intro conjI impI)
  assume "configured_token env = []"
  then show "hasValidAdminToken env rq = Inr (isLocalhostRequest (rq_remoteAddress rq))"
    by (simp add: hasValidAdminToken_def)
next
  assume a: "configured_token env \<noteq> [] \<and> en_auth_config env = None \<and> ascii (configured_token env) \<and>
      ascii (extractBearerToken rq)"
  then have "length (extractBearerToken rq) = length (configured_token env) \<Longrightarrow>
      timingSafeEqual (extractBearerToken rq) (configured_token env) =
        Inr (extractBearerToken rq = configured_token env)"
    using utf8_inj by (auto simp: timingSafeEqual_def length_utf8_ascii)
  then show "hasValidAdminToken env rq = Inr (extractBearerToken rq = configured_token env)"
    using a by (auto simp: hasValidAdminToken_def Let_def)
next
  assume a: "configured_token env \<noteq> [] \<and> en_auth_config env = Some cfg \<and> hasValidAdminToken env rq = Inr True"
  then obtain ctx where "resolveTokenIdentity (extractBearerToken rq) cfg = Inr (Some ctx)" "id_role ctx = Admin"
    by (auto simp: hasValidAdminToken_def Let_def split: sum.splits option.splits)
  then show "extractBearerToken rq = js_trim (au_admin_token cfg) \<or>
      (\<exists>e. (extractBearerToken rq, e) \<in> set (au_tokens cfg) \<and> te_role e = Admin)"
    using resolve_Some by fastforce
qed

subsection \<open>Instances\<close>

definition sample_auth :: auth_config where
  "sample_auth = \<lparr>au_admin_token = '' root '',
     au_tokens = [(''tok1'', \<lparr>te_user_id = ''u1'', te_team_id = Some ''t1'', te_role = Member\<rparr>)]\<rparr>"

definition member_request :: request where
  "member_request = \<lparr>rq_method = ''POST'', rq_path = ''/v1/lease/acquire'', rq_remoteAddress = Some ''10.0.0.1'',
     rq_authorization = Some ''Bearer tok1'', rq_token = None\<rparr>"

definition auth_env :: server_env where
  "auth_env = \<lparr>en_admin_token = None, en_auth_config = Some sample_auth\<rparr>"

theorem tokens_resolve_by_lookup_witness:
  "resolveTokenIdentity ''tok1'' sample_auth =
     Inr (Some \<lparr>id_user_id = ''u1'', id_team_id = Some ''t1'', id_role = Member\<rparr>)"
proof -
  have "ascii ''tok1''" "ascii (js_trim (au_admin_token sample_auth))"
    "\<forall>x \<in> set (au_tokens sample_auth). ascii (fst x)" "''tok1'' \<noteq> js_trim (au_admin_token sample_auth)"
    by code_simp+
  then show ?thesis
    using tokens_resolve_by_lookup[of "''tok1''" sample_auth] by (simp add: sample_auth_def)
qed

theorem non_ascii_token_raises_witness: "resolveTokenIdentity [CHR 0xE9, CHR ''o'', CHR ''o'', CHR ''t''] sample_auth = Inl RangeError"
  by (rule non_ascii_token_raises) code_simp+

lemma member_access: "resolveAccess auth_env member_request = Inr (Access (Some ''u1'') (Some ''t1''))"
  by code_simp

theorem access_follows_token_witness:
  "\<exists>e. (extractBearerToken member_request, e) \<in> set (au_tokens sample_auth) \<and> te_role e = Member"
  using access_follows_token[OF member_access] by (auto simp: auth_env_def)

theorem admin_gate_depends_on_environment_witness:
  "hasValidAdminToken auth_env (member_request\<lparr>rq_remoteAddress := Some ''127.0.0.1'', rq_authorization := None\<rparr>) = Inr True"
proof -
  have "configured_token auth_env = []" by code_simp
  moreover have "isLocalhostRequest (Some ''127.0.0.1'')" by code_simp
  ultimately show ?thesis
    using admin_gate_depends_on_environment[of auth_env "member_request\<lparr>rq_remoteAddress := Some ''127.0.0.1'', rq_authorization := None\<rparr>"]
    by simp
qed

end
