(* ===== verification/Coordination_Api.thy ===== *)
theory Coordination_Api
  imports Auth Lease_Store Signal_Store
begin

text \<open>
  The HTTP endpoints of \<open>server.ts\<close> for leases and signals: each resolves the caller's tenant, reads its
  fields from the JSON body and calls the store. A reply is the value that is sent; an exception of the
  token comparison is \<open>Raised\<close>. Metadata is the text of the object, by the parameter \<open>print_json\<close>.
\<close>

datatype reply =
    Raised
  | Unauthorized401
  | BadRequest string
  | AdminOnly403
  | LeaseAcquired acquire_response
  | LeaseChanged lease_response
  | SignalSent "send_error + signal_view"
  | Signals "signal_view list"
  | SignalAcked "ack_error + signal_view"

text \<open>\<open>parseRequestJson\<close>: a body that is not an object, or does not parse, is the empty object.\<close>

definition parseRequestJson :: "json option \<Rightarrow> json option" where
  "parseRequestJson body = (if is_object body then body else Some (JObj []))"

definition string_or_empty :: "json option \<Rightarrow> string" where
  "string_or_empty v = or_else (as_string v) []"

definition lease_acquire_endpoint ::
  "server_env \<Rightarrow> (json \<Rightarrow> string) \<Rightarrow> request \<Rightarrow> json option \<Rightarrow> ms \<Rightarrow> string \<Rightarrow> leases \<Rightarrow> reply \<times> leases" where
  "lease_acquire_endpoint env print_json rq raw now new_id t =
     (case resolveAccess env rq of
        Inl _ \<Rightarrow> (Raised, t)
      | Inr Unauthorized \<Rightarrow> (Unauthorized401, t)
      | Inr (Access user team) \<Rightarrow>
          (let body = parseRequestJson raw;
               (res, t1) = acquire now new_id
                 \<lparr>aq_target = Some (string_or_empty (jget body ''target'')),
                  aq_agent_id = Some (string_or_empty (jget body ''agent_id'')),
                  aq_project = as_string (jget body ''project''),
                  aq_ttl_ms = as_number (jget body ''ttl_ms''),
                  aq_metadata = (if is_object (jget body ''metadata'')
                                 then map_option print_json (jget body ''metadata'') else None),
                  aq_user_id = user, aq_team_id = team\<rparr> t
           in (LeaseAcquired res, t1)))"

definition lease_release_endpoint ::
  "server_env \<Rightarrow> request \<Rightarrow> json option \<Rightarrow> ms \<Rightarrow> leases \<Rightarrow> reply \<times> leases" where
  "lease_release_endpoint env rq raw now t =
     (case resolveAccess env rq of
        Inl _ \<Rightarrow> (Raised, t)
      | Inr Unauthorized \<Rightarrow> (Unauthorized401, t)
      | Inr (Access user team) \<Rightarrow>
          (let body = parseRequestJson raw;
               leaseId = string_or_empty (jget body ''lease_id'');
               agentId = string_or_empty (jget body ''agent_id'')
           in if leaseId = [] \<or> agentId = [] then (BadRequest ''lease_id and agent_id are required'', t)
              else (let (res, t1) = release now leaseId agentId (Some \<lparr>tn_user_id = user, tn_team_id = team\<rparr>) t
                    in (LeaseChanged res, t1))))"

definition lease_renew_endpoint ::
  "server_env \<Rightarrow> request \<Rightarrow> json option \<Rightarrow> ms \<Rightarrow> leases \<Rightarrow> reply \<times> leases" where
  "lease_renew_endpoint env rq raw now t =
     (case resolveAccess env rq of
        Inl _ \<Rightarrow> (Raised, t)
      | Inr Unauthorized \<Rightarrow> (Unauthorized401, t)
      | Inr (Access user team) \<Rightarrow>
          (let body = parseRequestJson raw;
               leaseId = string_or_empty (jget body ''lease_id'');
               agentId = string_or_empty (jget body ''agent_id'')
           in if leaseId = [] \<or> agentId = [] then (BadRequest ''lease_id and agent_id are required'', t)
              else (let (res, t1) = renew now leaseId agentId (as_number (jget body ''ttl_ms''))
                          (Some \<lparr>tn_user_id = user, tn_team_id = team\<rparr>) t
                    in (LeaseChanged res, t1))))"

definition signal_send_endpoint ::
  "server_env \<Rightarrow> request \<Rightarrow> json option \<Rightarrow> ms \<Rightarrow> string \<Rightarrow> signals \<Rightarrow> reply \<times> signals" where
  "signal_send_endpoint env rq raw now new_id t =
     (case resolveAccess env rq of
        Inl _ \<Rightarrow> (Raised, t)
      | Inr Unauthorized \<Rightarrow> (Unauthorized401, t)
      | Inr (Access user team) \<Rightarrow>
          (let body = parseRequestJson raw;
               (res, t1) = send now new_id
                 \<lparr>sd_from = Some (string_or_empty (jget body ''from'')),
                  sd_to = as_string (jget body ''to''),
                  sd_thread_id = as_string (jget body ''thread_id''),
                  sd_reply_to = as_string (jget body ''reply_to''),
                  sd_content = Some (string_or_empty (jget body ''content'')),
                  sd_project = map_option Some (as_string (jget body ''project'')),
                  sd_expires_in_ms = as_number (jget body ''expires_in_ms''),
                  sd_user_id = user, sd_team_id = team\<rparr> t
           in (SignalSent res, t1)))"

definition signal_read_endpoint ::
  "server_env \<Rightarrow> request \<Rightarrow> json option \<Rightarrow> ms \<Rightarrow> signals \<Rightarrow> reply" where
  "signal_read_endpoint env rq raw now t =
     (case resolveAccess env rq of
        Inl _ \<Rightarrow> Raised
      | Inr Unauthorized \<Rightarrow> Unauthorized401
      | Inr (Access user team) \<Rightarrow>
          (let body = parseRequestJson raw;
               agentId = string_or_empty (jget body ''agent_id'');
               allProjects = (jget body ''all_projects'' = Some (JBool True));
               rd = \<lparr>rd_agent_id = Some agentId, rd_thread_id = as_string (jget body ''thread_id''),
                     rd_include_broadcast = Some (jget body ''include_broadcast'' \<noteq> Some (JBool False)),
                     rd_project = as_string (jget body ''project''), rd_all_projects = allProjects,
                     rd_user_id = user, rd_team_id = team, rd_limit = as_number (jget body ''limit'')\<rparr>
           in if agentId = [] then BadRequest ''agent_id is required''
              else if allProjects \<and> en_auth_config env \<noteq> None
              then (case resolveRequestIdentity env rq of
                      Inl _ \<Rightarrow> Raised
                    | Inr None \<Rightarrow> AdminOnly403
                    | Inr (Some who) \<Rightarrow> if id_role who \<noteq> Admin then AdminOnly403
                                       else Signals (read_signals now rd t))
              else Signals (read_signals now rd t)))"

definition signal_ack_endpoint ::
  "server_env \<Rightarrow> request \<Rightarrow> json option \<Rightarrow> ms \<Rightarrow> signals \<Rightarrow> reply \<times> signals" where
  "signal_ack_endpoint env rq raw now t =
     (case resolveAccess env rq of
        Inl _ \<Rightarrow> (Raised, t)
      | Inr Unauthorized \<Rightarrow> (Unauthorized401, t)
      | Inr (Access user team) \<Rightarrow>
          (let body = parseRequestJson raw;
               signalId = string_or_empty (jget body ''signal_id'');
               agentId = string_or_empty (jget body ''agent_id'')
           in if signalId = [] \<or> agentId = [] then (BadRequest ''signal_id and agent_id are required'', t)
              else (let (res, t1) = ack now \<lparr>ak_signal_id = signalId, ak_agent_id = agentId,
                                            ak_user_id = user, ak_team_id = team\<rparr> t
                    in (SignalAcked res, t1))))"

subsection \<open>Tenants over HTTP\<close>

text \<open>A row that belongs to a tenant and that the entry's tenant does not overlap.\<close>

definition foreign :: "token_entry \<Rightarrow> string option \<Rightarrow> string option \<Rightarrow> bool" where
  "foreign e user team \<longleftrightarrow> (user \<noteq> None \<or> team \<noteq> None) \<and> user \<noteq> Some (te_user_id e) \<and>
     (te_team_id e = None \<or> team \<noteq> te_team_id e)"

lemma foreign_not_matching:
  "foreign e (le_user_id r) (le_team_id r) \<Longrightarrow>
     \<not> matchesTenant r (Some \<lparr>tn_user_id = Some (te_user_id e), tn_team_id = te_team_id e\<rparr>)"
  "foreign e (sg_user_id s) (sg_team_id s) \<Longrightarrow> \<not> tenant_matches (Some (te_user_id e)) (te_team_id e) s"
  by (auto simp: foreign_def matchesTenant_def tenant_matches_def split: if_splits)

lemma not_in_foreign_inbox:
  "foreign e (sg_user_id s) (sg_team_id s) \<Longrightarrow> rd_user_id rd = Some (te_user_id e) \<Longrightarrow>
     rd_team_id rd = te_team_id e \<Longrightarrow> \<not> in_inbox now a rd s"
  by (auto simp: foreign_def in_inbox_def sql_eq_def split: option.splits)

lemma read_rows: "v \<in> set (read_signals now rd t) \<Longrightarrow>
    \<exists>s \<in> set t. in_inbox now (js_trim (or_else (rd_agent_id rd) [])) rd s \<and> v = signal_parseRow s"
  by (rule read_from_table)

definition tenant_access :: "server_env \<Rightarrow> request \<Rightarrow> token_entry \<Rightarrow> bool" where
  "tenant_access env rq e \<longleftrightarrow> resolveAccess env rq = Inr (Access (Some (te_user_id e)) (te_team_id e))"

text \<open>C33. Over HTTP a tenant cannot touch what another tenant holds: for a request that acts as a token
  entry's user and team, releasing or renewing a lease of another tenant and acknowledging a message of
  another tenant is answered as for an id that does not exist and changes nothing, and a read returns only
  messages that have no tenant or overlap the caller's.\<close>

theorem tenants_are_separate_over_http:
  assumes "tenant_access env rq e"
  shows "(\<forall>r. find_lease (string_or_empty (jget (parseRequestJson raw) ''lease_id'')) t = Some r \<and>
        foreign e (le_user_id r) (le_team_id r) \<longrightarrow>
        snd (lease_release_endpoint env rq raw now t) = t \<and> snd (lease_renew_endpoint env rq raw now t) = t \<and>
        fst (lease_release_endpoint env rq raw now t) \<in> {LeaseChanged (Inl NotFound), BadRequest ''lease_id and agent_id are required''} \<and>
        fst (lease_renew_endpoint env rq raw now t) \<in> {LeaseChanged (Inl NotFound), BadRequest ''lease_id and agent_id are required''}) \<and>
    (\<forall>s. find_signal (string_or_empty (jget (parseRequestJson raw) ''signal_id'')) u = Some s \<and>
        foreign e (sg_user_id s) (sg_team_id s) \<longrightarrow>
        snd (signal_ack_endpoint env rq raw now u) = u \<and>
        fst (signal_ack_endpoint env rq raw now u) \<in> {SignalAcked (Inl AckNotFound), BadRequest ''signal_id and agent_id are required''}) \<and>
    (\<forall>vs. signal_read_endpoint env rq raw now u = Signals vs \<longrightarrow>
        set vs \<subseteq> signal_parseRow ` {s \<in> set u. \<not> foreign e (sg_user_id s) (sg_team_id s)})"
proof -
  note acc = assms[unfolded tenant_access_def]
  have "set vs \<subseteq> signal_parseRow ` {s \<in> set u. \<not> foreign e (sg_user_id s) (sg_team_id s)}"
    if vs: "signal_read_endpoint env rq raw now u = Signals vs" for vs
  proof -
    obtain rd where rd: "vs = read_signals now rd u" "rd_user_id rd = Some (te_user_id e)" "rd_team_id rd = te_team_id e"
      using vs by (auto simp: signal_read_endpoint_def acc Let_def split: if_splits sum.splits option.splits)
    show ?thesis
    proof
      fix v assume "v \<in> set vs"
      then obtain s where "s \<in> set u" "in_inbox now (js_trim (or_else (rd_agent_id rd) [])) rd s" "v = signal_parseRow s"
        using read_rows rd(1) by blast
      then show "v \<in> signal_parseRow ` {s \<in> set u. \<not> foreign e (sg_user_id s) (sg_team_id s)}"
        using not_in_foreign_inbox rd(2,3) by blast
    qed
  qed
  moreover have "snd (signal_ack_endpoint env rq raw now u) = u \<and>
      fst (signal_ack_endpoint env rq raw now u) \<in> {SignalAcked (Inl AckNotFound), BadRequest ''signal_id and agent_id are required''}"
    if "find_signal (string_or_empty (jget (parseRequestJson raw) ''signal_id'')) u = Some s"
      "foreign e (sg_user_id s) (sg_team_id s)" for s
    using that foreign_not_matching(2)[OF that(2)]
    by (simp add: signal_ack_endpoint_def acc Let_def ack_def)
  moreover have "snd (lease_release_endpoint env rq raw now t) = t \<and> snd (lease_renew_endpoint env rq raw now t) = t \<and>
      fst (lease_release_endpoint env rq raw now t) \<in> {LeaseChanged (Inl NotFound), BadRequest ''lease_id and agent_id are required''} \<and>
      fst (lease_renew_endpoint env rq raw now t) \<in> {LeaseChanged (Inl NotFound), BadRequest ''lease_id and agent_id are required''}"
    if "find_lease (string_or_empty (jget (parseRequestJson raw) ''lease_id'')) t = Some r"
      "foreign e (le_user_id r) (le_team_id r)" for r
    using that foreign_not_matching(1)[OF that(2)]
    by (simp add: lease_release_endpoint_def lease_renew_endpoint_def acc Let_def release_def renew_def)
  ultimately show ?thesis by blast
qed

text \<open>Without a valid token nothing happens when an AuthConfig is set: every endpoint answers 401 and
  leaves the tables as they are; and the cross-project view of the inbox is answered only to an admin.\<close>

theorem coordination_needs_a_token:
  assumes "en_auth_config env = Some cfg"
  shows "(resolveTokenIdentity (extractBearerToken rq) cfg = Inr None \<longrightarrow>
      lease_acquire_endpoint env print_json rq raw now i t = (Unauthorized401, t) \<and>
      lease_release_endpoint env rq raw now t = (Unauthorized401, t) \<and>
      lease_renew_endpoint env rq raw now t = (Unauthorized401, t) \<and>
      signal_send_endpoint env rq raw now i u = (Unauthorized401, u) \<and>
      signal_read_endpoint env rq raw now u = Unauthorized401 \<and>
      signal_ack_endpoint env rq raw now u = (Unauthorized401, u)) \<and>
    (jget (parseRequestJson raw) ''all_projects'' = Some (JBool True) \<and>
       signal_read_endpoint env rq raw now u = Signals vs \<longrightarrow>
       (\<exists>who. resolveTokenIdentity (extractBearerToken rq) cfg = Inr (Some who) \<and> id_role who = Admin))"
proof (intro conjI impI)
  have r: "resolveRequestIdentity env rq = resolveTokenIdentity (extractBearerToken rq) cfg"
    using assms by (simp add: resolveRequestIdentity_def)
  {
    assume "resolveTokenIdentity (extractBearerToken rq) cfg = Inr None"
    then have "resolveAccess env rq = Inr Unauthorized" using r assms by (simp add: resolveAccess_cases)
    then show "lease_acquire_endpoint env print_json rq raw now i t = (Unauthorized401, t)"
      "lease_release_endpoint env rq raw now t = (Unauthorized401, t)"
      "lease_renew_endpoint env rq raw now t = (Unauthorized401, t)"
      "signal_send_endpoint env rq raw now i u = (Unauthorized401, u)"
      "signal_read_endpoint env rq raw now u = Unauthorized401"
      "signal_ack_endpoint env rq raw now u = (Unauthorized401, u)"
      by (simp_all add: lease_acquire_endpoint_def lease_release_endpoint_def lease_renew_endpoint_def
          signal_send_endpoint_def signal_read_endpoint_def signal_ack_endpoint_def)
  }
  assume "jget (parseRequestJson raw) ''all_projects'' = Some (JBool True) \<and>
    signal_read_endpoint env rq raw now u = Signals vs"
  then show "\<exists>who. resolveTokenIdentity (extractBearerToken rq) cfg = Inr (Some who) \<and> id_role who = Admin"
    by (auto simp: signal_read_endpoint_def Let_def assms r split: sum.splits access.splits if_splits option.splits)
qed

subsection \<open>Instances\<close>

definition tok1_entry :: token_entry where
  "tok1_entry = \<lparr>te_user_id = ''u1'', te_team_id = Some ''t1'', te_role = Member\<rparr>"

definition other_lease :: lease where
  "other_lease = (tenant_lease ''L9'' ''u2'')\<lparr>le_team_id := Some ''t2''\<rparr>"

definition release_body :: "json option" where
  "release_body = Some (JObj [(''lease_id'', JStr ''L9''), (''agent_id'', JStr ''u2'')])"

theorem tenants_are_separate_over_http_witness:
  "fst (lease_release_endpoint auth_env member_request release_body 6 [other_lease])
     \<in> {LeaseChanged (Inl NotFound), BadRequest ''lease_id and agent_id are required''}"
proof -
  have "tenant_access auth_env member_request tok1_entry"
    using member_access by (simp add: tenant_access_def tok1_entry_def)
  moreover have "find_lease (string_or_empty (jget (parseRequestJson release_body) ''lease_id'')) [other_lease] = Some other_lease"
    "foreign tok1_entry (le_user_id other_lease) (le_team_id other_lease)"
    by code_simp+
  ultimately show ?thesis
    using tenants_are_separate_over_http[of auth_env member_request tok1_entry release_body "[other_lease]" 6 "[]"]
    by blast
qed

theorem coordination_needs_a_token_witness:
  "lease_release_endpoint auth_env (member_request\<lparr>rq_authorization := None\<rparr>) release_body 6 [other_lease]
     = (Unauthorized401, [other_lease])"
proof -
  have "en_auth_config auth_env = Some sample_auth" by (simp add: auth_env_def)
  moreover have "resolveTokenIdentity (extractBearerToken (member_request\<lparr>rq_authorization := None\<rparr>)) sample_auth = Inr None"
    by code_simp
  ultimately show ?thesis
    using coordination_needs_a_token[of auth_env sample_auth "member_request\<lparr>rq_authorization := None\<rparr>"] by blast
qed

end
