(* ===== verification/Sync_Engine.thy ===== *)
theory Sync_Engine
  imports Prelude "HOL-Library.Char_ord" "HOL-Library.List_Lexorder"
begin

text \<open>
  Synchronisation: the merge engine (\<open>sync/engine.ts\<close>), its in-memory store (\<open>sync/sync-store.ts\<close>) and
  the connector registry (\<open>sync/connector-registry.ts\<close>). A JavaScript \<open>Map\<close> is the list of its entries in
  insertion order. Time stamps are the ISO strings the code compares. A connector is a parameter: its
  methods act on a state of their own and answer or reject.
\<close>

subsection \<open>JavaScript maps\<close>

fun map_set :: "'k \<Rightarrow> 'v \<Rightarrow> ('k \<times> 'v) list \<Rightarrow> ('k \<times> 'v) list" where
  "map_set k v [] = [(k, v)]"
| "map_set k v (e # m) = (if fst e = k then (k, v) # m else e # map_set k v m)"

definition map_del :: "'k \<Rightarrow> ('k \<times> 'v) list \<Rightarrow> ('k \<times> 'v) list" where
  "map_del k m = filter (\<lambda>e. fst e \<noteq> k) m"

lemma map_of_set [simp]: "map_of (map_set k v m) = (map_of m)(k \<mapsto> v)"
  by (induction m) auto

lemma keys_map_set: "fst ` set (map_set k v m) = insert k (fst ` set m)"
  by (induction m) auto

lemma distinct_map_set: "distinct (map fst m) \<Longrightarrow> distinct (map fst (map_set k v m))"
  by (induction m) (auto simp: image_iff[symmetric] keys_map_set)

lemma map_set_new: "k \<notin> fst ` set m \<Longrightarrow> map_set k v m = m @ [(k, v)]"
  by (induction m) auto

lemma map_of_del: "map_of (map_del k m) = (map_of m)(k := None)"
  by (induction m) (auto simp: map_del_def)

subsection \<open>The engine\<close>

record sync_record =
  sr_id :: string
  sr_content :: string
  sr_updated_at :: string
  sr_device_id :: string

record changeset =
  cg_device_id :: string
  cg_since :: "string option"
  cg_records :: "sync_record list"

record conflict_info =
  ci_id :: string
  ci_local :: sync_record
  ci_remote :: sync_record
  ci_winner :: sync_record

record merge_result =
  mr_merged :: "sync_record list"
  mr_conflicts :: "conflict_info list"

datatype conflict_policy = LastWriteWins | LocalWins | RemoteWins

definition buildChangeset :: "sync_record list \<Rightarrow> string \<Rightarrow> string option \<Rightarrow> changeset" where
  "buildChangeset records deviceId since =
     \<lparr>cg_device_id = deviceId, cg_since = since,
      cg_records = (if truthy since then filter (\<lambda>r. or_else since [] < sr_updated_at r) records else records)\<rparr>"

definition resolveConflict :: "sync_record \<Rightarrow> sync_record \<Rightarrow> conflict_policy \<Rightarrow> sync_record" where
  "resolveConflict local remote policy =
     (case policy of
        LocalWins \<Rightarrow> local
      | RemoteWins \<Rightarrow> remote
      | LastWriteWins \<Rightarrow> if sr_updated_at local < sr_updated_at remote then remote else local)"

type_synonym record_map = "(string \<times> sync_record) list"

definition index_records :: "sync_record list \<Rightarrow> record_map \<Rightarrow> record_map" where
  "index_records rs m = fold (\<lambda>r. map_set (sr_id r) r) rs m"

fun merge_loop ::
  "conflict_policy \<Rightarrow> sync_record list \<Rightarrow> record_map \<times> conflict_info list \<Rightarrow> record_map \<times> conflict_info list" where
  "merge_loop policy [] s = s"
| "merge_loop policy (remoteRec # rs) (localMap, conflicts) =
     (case map_of localMap (sr_id remoteRec) of
        None \<Rightarrow> merge_loop policy rs (map_set (sr_id remoteRec) remoteRec localMap, conflicts)
      | Some localRec \<Rightarrow>
          if sr_updated_at localRec \<noteq> sr_updated_at remoteRec
          then (let winner = resolveConflict localRec remoteRec policy in
                merge_loop policy rs (map_set (sr_id remoteRec) winner localMap,
                  conflicts @ [\<lparr>ci_id = sr_id remoteRec, ci_local = localRec, ci_remote = remoteRec,
                                ci_winner = winner\<rparr>]))
          else merge_loop policy rs (localMap, conflicts))"

definition mergeChangeset :: "sync_record list \<Rightarrow> changeset \<Rightarrow> conflict_policy \<Rightarrow> merge_result" where
  "mergeChangeset localRecords remote policy =
     (let (localMap, conflicts) = merge_loop policy (cg_records remote) (index_records localRecords [], [])
      in \<lparr>mr_merged = map snd localMap, mr_conflicts = conflicts\<rparr>)"

subsection \<open>The store\<close>

type_synonym sync_store = record_map

definition createSyncStore :: sync_store where
  "createSyncStore = []"

definition handleSyncPush :: "changeset \<Rightarrow> conflict_policy \<Rightarrow> sync_store \<Rightarrow> merge_result \<times> sync_store" where
  "handleSyncPush remote policy store =
     (let result = mergeChangeset (map snd store) remote policy
      in (result, index_records (mr_merged result) []))"

definition handleSyncPull :: "sync_store \<Rightarrow> string \<Rightarrow> string option \<Rightarrow> changeset" where
  "handleSyncPull store deviceId since = buildChangeset (map snd store) deviceId since"

subsection \<open>The abstract merge: one record for each id\<close>

text \<open>Merging one record into what is known of its id.\<close>

definition merge_one :: "conflict_policy \<Rightarrow> sync_record option \<Rightarrow> sync_record \<Rightarrow> sync_record" where
  "merge_one policy known r =
     (case known of
        None \<Rightarrow> r
      | Some l \<Rightarrow> if sr_updated_at l = sr_updated_at r then l else resolveConflict l r policy)"

definition absorb :: "conflict_policy \<Rightarrow> sync_record list \<Rightarrow> (string \<rightharpoonup> sync_record) \<Rightarrow> (string \<rightharpoonup> sync_record)" where
  "absorb policy rs m = fold (\<lambda>r m. m(sr_id r \<mapsto> merge_one policy (m (sr_id r)) r)) rs m"

text \<open>A well-formed map: keys are unique and are the ids of their records.\<close>

definition wf_records :: "record_map \<Rightarrow> bool" where
  "wf_records m \<longleftrightarrow> distinct (map fst m) \<and> (\<forall>e \<in> set m. fst e = sr_id (snd e))"

lemma set_map_set: "distinct (map fst m) \<Longrightarrow>
    e \<in> set (map_set k v m) \<longleftrightarrow> e = (k, v) \<or> (e \<in> set m \<and> fst e \<noteq> k)"
  by (induction m) (auto simp: image_iff)

lemma wf_map_set: "wf_records m \<Longrightarrow> wf_records (map_set (sr_id r) r m)"
  by (auto simp: wf_records_def distinct_map_set set_map_set)

lemma wf_Nil [simp]: "wf_records []"
  by (simp add: wf_records_def)

lemma wf_index: "wf_records m \<Longrightarrow> wf_records (index_records rs m)"
  by (induction rs arbitrary: m) (auto simp: index_records_def wf_map_set)

lemma wf_lookup: "wf_records m \<Longrightarrow> map_of m i = Some r \<Longrightarrow> sr_id r = i"
  by (fastforce simp: wf_records_def dest: map_of_SomeD)

lemma index_wf: "wf_records (acc @ m) \<Longrightarrow> index_records (map snd m) acc = acc @ m"
proof (induction m arbitrary: acc)
  case (Cons e m)
  have "distinct (map fst (acc @ e # m))" using Cons.prems by (simp only: wf_records_def)
  then have "fst e \<notin> fst ` set acc" by auto
  moreover have "fst e = sr_id (snd e)" using Cons.prems by (simp add: wf_records_def)
  ultimately have "map_set (sr_id (snd e)) (snd e) acc = acc @ [e]"
    by (metis map_set_new prod.collapse)
  then show ?case using Cons by (simp add: index_records_def)
qed (simp add: index_records_def)

lemma index_values: "wf_records m \<Longrightarrow> index_records (map snd m) [] = m"
  using index_wf[of "[]" m] by simp

lemma sr_id_winner: "sr_id l = sr_id r \<Longrightarrow> sr_id (resolveConflict l r policy) = sr_id r"
  by (simp add: resolveConflict_def split: conflict_policy.split)

lemma merge_loop_wf: "wf_records m \<Longrightarrow> wf_records (fst (merge_loop policy rs (m, cs)))"
proof (induction rs arbitrary: m cs)
  case (Cons r rs)
  show ?case
  proof (cases "map_of m (sr_id r)")
    case None
    then show ?thesis using Cons wf_map_set by simp
  next
    case (Some l)
    then have "wf_records (map_set (sr_id r) (resolveConflict l r policy) m)"
      using wf_map_set[OF Cons.prems, of "resolveConflict l r policy"] wf_lookup[OF Cons.prems Some]
      by (simp add: sr_id_winner)
    then show ?thesis using Cons Some by (simp add: Let_def)
  qed
qed simp

lemma merge_loop_map: "map_of (fst (merge_loop policy rs (m, cs))) = absorb policy rs (map_of m)"
proof (induction rs arbitrary: m cs)
  case (Cons r rs)
  show ?case
    using Cons by (cases "map_of m (sr_id r)") (auto simp: absorb_def merge_one_def Let_def fun_upd_idem)
qed (simp add: absorb_def)

lemma push_wf: "wf_records store \<Longrightarrow> wf_records (snd (handleSyncPush remote policy store))"
  by (simp add: handleSyncPush_def Let_def wf_index)

lemma push_map: "wf_records store \<Longrightarrow>
    map_of (snd (handleSyncPush remote policy store)) = absorb policy (cg_records remote) (map_of store)"
  using merge_loop_wf[of store policy "cg_records remote" "[]"] merge_loop_map[of policy "cg_records remote" store "[]"]
  by (simp add: handleSyncPush_def mergeChangeset_def Let_def case_prod_beta index_values)

subsection \<open>Last write wins\<close>

text \<open>The records that are candidates for an id, and the newest of a set.\<close>

definition candidates :: "(string \<rightharpoonup> sync_record) \<Rightarrow> sync_record list \<Rightarrow> string \<Rightarrow> sync_record set" where
  "candidates m rs i = {r. m i = Some r} \<union> {r \<in> set rs. sr_id r = i}"

definition newest :: "sync_record set \<Rightarrow> sync_record \<Rightarrow> bool" where
  "newest S r \<longleftrightarrow> r \<in> S \<and> (\<forall>s \<in> S. sr_updated_at s \<le> sr_updated_at r)"

lemma merge_one_newest:
  "newest (insert r {l. known = Some l}) (merge_one LastWriteWins known r)"
  by (auto simp: merge_one_def newest_def resolveConflict_def split: option.split)

lemma newest_Un: "newest S a \<Longrightarrow> newest (insert a T) b \<Longrightarrow> newest (S \<union> T) b"
  by (auto simp: newest_def intro: order_trans)

lemma absorb_lww:
  "(absorb LastWriteWins rs m i = None \<longleftrightarrow> candidates m rs i = {}) \<and>
   (\<forall>r. absorb LastWriteWins rs m i = Some r \<longrightarrow> newest (candidates m rs i) r)"
proof (induction rs arbitrary: m)
  case Nil
  then show ?case by (auto simp: absorb_def candidates_def newest_def)
next
  case (Cons r rs)
  define m' where "m' = m(sr_id r \<mapsto> merge_one LastWriteWins (m (sr_id r)) r)"
  have a: "absorb LastWriteWins (r # rs) m = absorb LastWriteWins rs m'"
    by (simp add: absorb_def m'_def)
  show ?case
  proof (cases "i = sr_id r")
    case False
    then have "candidates m (r # rs) i = candidates m' rs i" by (auto simp: candidates_def m'_def)
    then show ?thesis using Cons.IH[of m'] a by simp
  next
    case True
    let ?w = "merge_one LastWriteWins (m i) r"
    have c': "candidates m' rs i = insert ?w {x \<in> set rs. sr_id x = i}"
      using True by (auto simp: candidates_def m'_def)
    have c: "candidates m (r # rs) i = insert r {l. m i = Some l} \<union> {x \<in> set rs. sr_id x = i}"
      using True by (auto simp: candidates_def)
    have "newest (candidates m (r # rs) i) x" if "newest (candidates m' rs i) x" for x
      using newest_Un[OF merge_one_newest, of "m i" r "{x \<in> set rs. sr_id x = i}" x] that
      by (simp only: c c')
    moreover have "candidates m' rs i \<noteq> {} \<and> candidates m (r # rs) i \<noteq> {}" by (simp add: c c')
    ultimately show ?thesis using Cons.IH[of m'] a by metis
  qed
qed

text \<open>Stamps identify versions: records of one id with one time stamp are the same record.\<close>

definition stamps_identify :: "sync_record set \<Rightarrow> bool" where
  "stamps_identify S \<longleftrightarrow> (\<forall>r \<in> S. \<forall>s \<in> S. sr_id r = sr_id s \<and> sr_updated_at r = sr_updated_at s \<longrightarrow> r = s)"

lemma newest_unique:
  assumes "newest S a" "newest S b" "stamps_identify S" "\<forall>r \<in> S. sr_id r = i"
  shows "a = b"
proof -
  have "sr_updated_at a = sr_updated_at b" using assms(1,2) by (auto simp: newest_def intro: order_antisym)
  then show ?thesis using assms by (auto simp: newest_def stamps_identify_def)
qed

lemma stamps_identify_subset: "stamps_identify S \<Longrightarrow> T \<subseteq> S \<Longrightarrow> stamps_identify T"
  by (auto simp: stamps_identify_def)

text \<open>The outcome depends on the set of candidates only.\<close>

lemma absorb_lww_eq:
  assumes "candidates m rs i = candidates m' rs' i" "stamps_identify (candidates m rs i)"
    "\<forall>r \<in> candidates m rs i. sr_id r = i"
  shows "absorb LastWriteWins rs m i = absorb LastWriteWins rs' m' i"
proof (cases "absorb LastWriteWins rs m i")
  case None
  then show ?thesis using absorb_lww assms(1) by metis
next
  case (Some a)
  then obtain b where b: "absorb LastWriteWins rs' m' i = Some b"
    using absorb_lww assms(1) by (metis not_Some_eq)
  have "newest (candidates m rs i) a" "newest (candidates m rs i) b"
    using absorb_lww Some b assms(1) by metis+
  then show ?thesis using newest_unique[OF _ _ assms(2,3)] Some b by metis
qed

lemma candidates_store: "wf_records m \<Longrightarrow> wf_records m' \<Longrightarrow>
    candidates (map_of m) (map snd m') i = {r. map_of m i = Some r} \<union> {r. map_of m' i = Some r}"
proof -
  assume w: "wf_records m'"
  have "map_of m' i = Some r \<longleftrightarrow> r \<in> snd ` set m' \<and> sr_id r = i" for r
  proof
    assume "map_of m' i = Some r"
    then show "r \<in> snd ` set m' \<and> sr_id r = i" using wf_lookup[OF w] map_of_SomeD by force
  next
    assume "r \<in> snd ` set m' \<and> sr_id r = i"
    then have "(i, r) \<in> set m'" using w by (force simp: wf_records_def)
    then show "map_of m' i = Some r" using w by (simp add: wf_records_def)
  qed
  then show ?thesis by (auto simp: candidates_def)
qed

lemma candidates_ids: "wf_records m \<Longrightarrow> \<forall>r \<in> candidates (map_of m) rs i. sr_id r = i"
  by (auto simp: candidates_def dest: wf_lookup)

lemma candidates_within: "candidates (map_of m) rs i \<subseteq> snd ` set m \<union> set rs"
  by (force simp: candidates_def dest: map_of_SomeD)

subsection \<open>Properties\<close>

text \<open>C34. Two devices converge: when each pushes its whole store to the other under last-write-wins, and
  stamps identify versions, both end with the same records, namely for every id that one of them had, and
  no other, the newest record of that id; the merge is idempotent (merging the same changeset again
  changes nothing).\<close>

theorem last_write_wins_converges:
  assumes "wf_records a" "wf_records b" "stamps_identify (snd ` set a \<union> snd ` set b)"
  shows "map_of (snd (handleSyncPush (handleSyncPull b devB None) LastWriteWins a)) =
      map_of (snd (handleSyncPush (handleSyncPull a devA None) LastWriteWins b)) \<and>
    map_of (snd (handleSyncPush (handleSyncPull b devB None) LastWriteWins
        (snd (handleSyncPush (handleSyncPull b devB None) LastWriteWins a)))) =
      map_of (snd (handleSyncPush (handleSyncPull b devB None) LastWriteWins a)) \<and>
    (\<forall>i. case map_of (snd (handleSyncPush (handleSyncPull b devB None) LastWriteWins a)) i of
       None \<Rightarrow> map_of a i = None \<and> map_of b i = None
     | Some r \<Rightarrow> newest ({x. map_of a i = Some x} \<union> {x. map_of b i = Some x}) r)"
proof -
  let ?A = "snd (handleSyncPush (handleSyncPull b devB None) LastWriteWins a)"
  have pull: "cg_records (handleSyncPull s d None) = map snd s" for s d
    by (simp add: handleSyncPull_def buildChangeset_def)
  have mA: "map_of ?A = absorb LastWriteWins (map snd b) (map_of a)"
    using push_map[OF assms(1)] by (simp add: pull)
  have wA: "wf_records ?A" by (rule push_wf[OF assms(1)])
  have ident: "stamps_identify (candidates (map_of a) (map snd b) i)" for i
    using candidates_within[of a "map snd b" i] by (intro stamps_identify_subset[OF assms(3)]) auto
  have "absorb LastWriteWins (map snd b) (map_of a) i = absorb LastWriteWins (map snd a) (map_of b) i" for i
    using absorb_lww_eq[OF _ ident candidates_ids[OF assms(1)], of i "map_of b" "map snd a"]
      candidates_store[OF assms(1,2), of i] candidates_store[OF assms(2,1), of i]
    by (simp only: Un_commute)
  moreover have "case map_of ?A i of None \<Rightarrow> map_of a i = None \<and> map_of b i = None
      | Some r \<Rightarrow> newest ({x. map_of a i = Some x} \<union> {x. map_of b i = Some x}) r" for i
    using absorb_lww[of "map snd b" "map_of a" i] candidates_store[OF assms(1,2), of i]
    by (auto simp: mA split: option.split)
  moreover have "absorb LastWriteWins (map snd b) (map_of ?A) i = map_of ?A i" for i
  proof (cases "map_of ?A i")
    case None
    then have "candidates (map_of ?A) (map snd b) i = {}"
      using absorb_lww[of "map snd b" "map_of a" i] candidates_store[OF assms(1,2)] candidates_store[OF wA assms(2)]
      by (simp add: mA)
    then show ?thesis using None absorb_lww[of "map snd b" "map_of ?A" i] by simp
  next
    case (Some r)
    have n: "newest (candidates (map_of a) (map snd b) i) r"
      using absorb_lww[of "map snd b" "map_of a" i] Some by (simp add: mA)
    have sub: "candidates (map_of ?A) (map snd b) i \<subseteq> candidates (map_of a) (map snd b) i"
      using n Some by (auto simp: candidates_def newest_def)
    then have n': "newest (candidates (map_of ?A) (map snd b) i) r"
      using n Some by (auto simp: newest_def candidates_def)
    then obtain r' where r': "absorb LastWriteWins (map snd b) (map_of ?A) i = Some r'"
      using absorb_lww[of "map snd b" "map_of ?A" i] by (fastforce simp: newest_def)
    then have "newest (candidates (map_of ?A) (map snd b) i) r'"
      using absorb_lww[of "map snd b" "map_of ?A" i] by blast
    then show ?thesis
      using newest_unique[OF _ n' stamps_identify_subset[OF ident sub] candidates_ids[OF wA]] r' Some by metis
  qed
  ultimately show ?thesis
    using push_map[OF assms(2)] push_map[OF wA] mA by (simp add: pull fun_eq_iff)
qed

text \<open>A pull since a time stamp is enough: when the puller already has, for every record of the server
  not newer than the stamp, a record of that id at least as new, then merging only what the pull since that
  stamp returns gives the same result as merging the whole store.\<close>

theorem incremental_pull_is_enough:
  assumes "wf_records a" "wf_records b" "stamps_identify (snd ` set a \<union> snd ` set b)" "since \<noteq> []"
    and "\<forall>r \<in> snd ` set b. sr_updated_at r \<le> since \<longrightarrow>
           (\<exists>l. map_of a (sr_id r) = Some l \<and> sr_updated_at r \<le> sr_updated_at l)"
  shows "map_of (snd (handleSyncPush (handleSyncPull b dev (Some since)) LastWriteWins a)) =
    map_of (snd (handleSyncPush (handleSyncPull b dev None) LastWriteWins a))"
proof -
  let ?new = "filter (\<lambda>r. since < sr_updated_at r) (map snd b)"
  have "absorb LastWriteWins ?new (map_of a) i = absorb LastWriteWins (map snd b) (map_of a) i" for i
  proof -
    have sub: "candidates (map_of a) ?new i \<subseteq> candidates (map_of a) (map snd b) i"
      by (auto simp: candidates_def)
    have cover: "\<exists>l \<in> candidates (map_of a) ?new i. sr_updated_at r \<le> sr_updated_at l"
      if r: "r \<in> candidates (map_of a) (map snd b) i" for r
    proof (cases "r \<in> candidates (map_of a) ?new i")
      case False
      then have "r \<in> snd ` set b" "sr_id r = i" "sr_updated_at r \<le> since"
        using r by (auto simp: candidates_def not_less)
      then obtain l where "map_of a i = Some l" "sr_updated_at r \<le> sr_updated_at l" using assms(5) by blast
      then show ?thesis by (auto simp: candidates_def)
    qed blast
    have ident: "stamps_identify (candidates (map_of a) (map snd b) i)"
      using candidates_within[of a "map snd b" i] by (intro stamps_identify_subset[OF assms(3)]) auto
    show ?thesis
    proof (cases "absorb LastWriteWins ?new (map_of a) i")
      case None
      then have "candidates (map_of a) (map snd b) i = {}"
        using absorb_lww[of ?new "map_of a" i] cover by blast
      then show ?thesis using None absorb_lww[of "map snd b" "map_of a" i] by simp
    next
      case (Some r)
      then have n: "newest (candidates (map_of a) ?new i) r" using absorb_lww[of ?new "map_of a" i] by blast
      have n': "newest (candidates (map_of a) (map snd b) i) r"
        unfolding newest_def
      proof (intro conjI ballI)
        show "r \<in> candidates (map_of a) (map snd b) i" using n sub by (auto simp: newest_def)
        fix x assume "x \<in> candidates (map_of a) (map snd b) i"
        then obtain l where "l \<in> candidates (map_of a) ?new i" "sr_updated_at x \<le> sr_updated_at l"
          using cover by blast
        then show "sr_updated_at x \<le> sr_updated_at r" using n order_trans unfolding newest_def by blast
      qed
      then obtain r' where r': "absorb LastWriteWins (map snd b) (map_of a) i = Some r'"
        using absorb_lww[of "map snd b" "map_of a" i] by (fastforce simp: newest_def)
      then have "newest (candidates (map_of a) (map snd b) i) r'"
        using absorb_lww[of "map snd b" "map_of a" i] by blast
      then show ?thesis using newest_unique[OF _ n' ident candidates_ids[OF assms(1)]] r' Some by metis
    qed
  qed
  then show ?thesis
    using push_map[OF assms(1)] assms(4)
    by (simp add: handleSyncPull_def buildChangeset_def fun_eq_iff)
qed

text \<open>Equal stamps never reconcile: when two devices changed one record at the same instant to different
  contents, each keeps its own under every policy, with no conflict reported, however often they exchange.\<close>

theorem equal_stamps_never_reconcile:
  assumes "sr_id x = sr_id y" "sr_updated_at x = sr_updated_at y"
  shows "handleSyncPush (handleSyncPull [(sr_id y, y)] dev None) policy [(sr_id x, x)] =
    (\<lparr>mr_merged = [x], mr_conflicts = []\<rparr>, [(sr_id x, x)])"
  using assms
  by (simp add: handleSyncPush_def handleSyncPull_def buildChangeset_def mergeChangeset_def index_records_def Let_def)

subsection \<open>The connector registry\<close>

record sync_changeset =
  sc_id :: string
  sc_content :: string
  sc_timestamp :: string

record push_result =
  pr_synced :: int
  pr_errors :: "string list"

record sync_result =
  sy_connector :: string
  sy_pulled :: int
  sy_pushed :: int
  sy_errors :: "string list"

text \<open>A connector: \<open>pull\<close> and \<open>push\<close> answer or reject with a message.\<close>

record 'w connector =
  cn_name :: string
  cn_pull :: "'w \<Rightarrow> (string + sync_changeset list) \<times> 'w"
  cn_push :: "sync_changeset list \<Rightarrow> 'w \<Rightarrow> (string + push_result) \<times> 'w"

type_synonym 'w registry = "(string \<times> 'w connector) list"

definition register :: "'w connector \<Rightarrow> 'w registry \<Rightarrow> 'w registry" where
  "register c reg = map_set (cn_name c) c reg"

definition unregister :: "string \<Rightarrow> 'w registry \<Rightarrow> bool \<times> 'w registry" where
  "unregister name reg = (map_of reg name \<noteq> None, map_del name reg)"

definition get_connector :: "string \<Rightarrow> 'w registry \<Rightarrow> 'w connector option" where
  "get_connector name reg = map_of reg name"

definition list_connectors :: "'w registry \<Rightarrow> 'w connector list" where
  "list_connectors reg = map snd reg"

fun pullAll :: "'w registry \<Rightarrow> 'w \<Rightarrow> (string \<times> sync_changeset list) list \<times> 'w" where
  "pullAll [] w = ([], w)"
| "pullAll ((_, c) # reg) w =
     (let (r, w1) = cn_pull c w; (rest, w2) = pullAll reg w1
      in ((cn_name c, case r of Inr changesets \<Rightarrow> changesets | Inl _ \<Rightarrow> []) # rest, w2))"

fun syncAll :: "'w registry \<Rightarrow> 'w \<Rightarrow> sync_result list \<times> 'w" where
  "syncAll [] w = ([], w)"
| "syncAll ((_, c) # reg) w =
     (let (r, w1) = cn_pull c w; (rest, w2) = syncAll reg w1
      in (\<lparr>sy_connector = cn_name c,
           sy_pulled = (case r of Inr changesets \<Rightarrow> int (length changesets) | Inl _ \<Rightarrow> 0), sy_pushed = 0,
           sy_errors = (case r of Inr _ \<Rightarrow> [] | Inl err \<Rightarrow> [''pull failed: '' @ err])\<rparr> # rest, w2))"

definition syncConnector :: "string \<Rightarrow> sync_changeset list \<Rightarrow> 'w registry \<Rightarrow> 'w \<Rightarrow> sync_result \<times> 'w" where
  "syncConnector name changes reg w =
     (case get_connector name reg of
        None \<Rightarrow> (\<lparr>sy_connector = name, sy_pulled = 0, sy_pushed = 0,
                 sy_errors = [''Connector '' @ [CHR 0x27] @ name @ [CHR 0x27] @ '' not found'']\<rparr>, w)
      | Some c \<Rightarrow>
          (let (r, w1) = cn_pull c w;
               pulled = (case r of Inr cs \<Rightarrow> int (length cs) | Inl _ \<Rightarrow> 0);
               errs = (case r of Inr _ \<Rightarrow> [] | Inl err \<Rightarrow> [''pull failed: '' @ err])
           in if changes = []
              then (\<lparr>sy_connector = name, sy_pulled = pulled, sy_pushed = 0, sy_errors = errs\<rparr>, w1)
              else (let (p, w2) = cn_push c changes w1 in
                    case p of
                      Inr pr \<Rightarrow> (\<lparr>sy_connector = name, sy_pulled = pulled, sy_pushed = pr_synced pr,
                                sy_errors = errs @ pr_errors pr\<rparr>, w2)
                    | Inl err \<Rightarrow> (\<lparr>sy_connector = name, sy_pulled = pulled, sy_pushed = 0,
                                sy_errors = errs @ [''push failed: '' @ err]\<rparr>, w2))))"

text \<open>The state each connector's pull sees.\<close>

fun worlds :: "'w registry \<Rightarrow> 'w \<Rightarrow> 'w list" where
  "worlds [] w = []"
| "worlds ((_, c) # reg) w = w # worlds reg (snd (cn_pull c w))"

lemma worlds_length [simp]: "length (worlds reg w) = length reg"
  by (induction reg arbitrary: w) auto

lemma pullAll_entries:
  "fst (pullAll reg w) = map (\<lambda>(c, w). (cn_name c, case fst (cn_pull c w) of Inr cs \<Rightarrow> cs | Inl _ \<Rightarrow> []))
     (zip (list_connectors reg) (worlds reg w))"
  by (induction reg arbitrary: w) (auto simp: list_connectors_def case_prod_beta Let_def)

lemma syncAll_entries:
  "fst (syncAll reg w) = map (\<lambda>(c, w). case fst (cn_pull c w) of
       Inr cs \<Rightarrow> \<lparr>sy_connector = cn_name c, sy_pulled = int (length cs), sy_pushed = 0, sy_errors = []\<rparr>
     | Inl err \<Rightarrow> \<lparr>sy_connector = cn_name c, sy_pulled = 0, sy_pushed = 0, sy_errors = [''pull failed: '' @ err]\<rparr>)
     (zip (list_connectors reg) (worlds reg w))"
  by (induction reg arbitrary: w) (auto simp: list_connectors_def case_prod_beta Let_def split: sum.split)

text \<open>A failing connector does not stop the others: pulling from and syncing all connectors give one entry
  for each, in the order they were registered, under its name; the entry of a connector that answers has
  what it answered and no error, the entry of one that rejects is empty, with one error in a sync. Looking
  up after registering finds the connector, after unregistering does not, and other names are unaffected.\<close>

theorem failing_connector_is_isolated:
  "length (fst (pullAll reg w)) = length reg \<and> length (fst (syncAll reg w)) = length reg \<and>
   (\<forall>i < length reg. case fst (cn_pull (snd (reg ! i)) (worlds reg w ! i)) of
       Inr cs \<Rightarrow> fst (pullAll reg w) ! i = (cn_name (snd (reg ! i)), cs) \<and>
         fst (syncAll reg w) ! i = \<lparr>sy_connector = cn_name (snd (reg ! i)), sy_pulled = int (length cs),
                                    sy_pushed = 0, sy_errors = []\<rparr>
     | Inl err \<Rightarrow> fst (pullAll reg w) ! i = (cn_name (snd (reg ! i)), []) \<and>
         fst (syncAll reg w) ! i = \<lparr>sy_connector = cn_name (snd (reg ! i)), sy_pulled = 0, sy_pushed = 0,
                                    sy_errors = [''pull failed: '' @ err]\<rparr>) \<and>
   get_connector n (register c reg) = (if n = cn_name c then Some c else get_connector n reg) \<and>
   get_connector n (snd (unregister k reg)) = (if n = k then None else get_connector n reg)"
proof (intro conjI allI impI)
  show "length (fst (pullAll reg w)) = length reg" "length (fst (syncAll reg w)) = length reg"
    by (simp_all add: pullAll_entries syncAll_entries list_connectors_def)
  show "get_connector n (register c reg) = (if n = cn_name c then Some c else get_connector n reg)"
    "get_connector n (snd (unregister k reg)) = (if n = k then None else get_connector n reg)"
    by (simp_all add: get_connector_def register_def unregister_def map_of_del)
next
  fix i assume "i < length reg"
  then show "case fst (cn_pull (snd (reg ! i)) (worlds reg w ! i)) of
       Inr cs \<Rightarrow> fst (pullAll reg w) ! i = (cn_name (snd (reg ! i)), cs) \<and>
         fst (syncAll reg w) ! i = \<lparr>sy_connector = cn_name (snd (reg ! i)), sy_pulled = int (length cs),
                                    sy_pushed = 0, sy_errors = []\<rparr>
     | Inl err \<Rightarrow> fst (pullAll reg w) ! i = (cn_name (snd (reg ! i)), []) \<and>
         fst (syncAll reg w) ! i = \<lparr>sy_connector = cn_name (snd (reg ! i)), sy_pulled = 0, sy_pushed = 0,
                                    sy_errors = [''pull failed: '' @ err]\<rparr>"
    by (simp add: pullAll_entries syncAll_entries list_connectors_def split: sum.split)
qed

subsection \<open>Two devices\<close>

definition note1 :: "string \<Rightarrow> string \<Rightarrow> sync_record" where
  "note1 c at = \<lparr>sr_id = ''r1'', sr_content = c, sr_updated_at = at, sr_device_id = ''d''\<rparr>"

definition dev_a :: sync_store where
  "dev_a = [(''r1'', note1 ''old'' ''2025-01-01'')]"

definition dev_b :: sync_store where
  "dev_b = [(''r1'', note1 ''new'' ''2025-02-01'')]"

lemma devices_ok: "wf_records dev_a" "wf_records dev_b" "stamps_identify (snd ` set dev_a \<union> snd ` set dev_b)"
  by (simp_all add: wf_records_def dev_a_def dev_b_def stamps_identify_def note1_def)

theorem last_write_wins_converges_witness:
  "map_of (snd (handleSyncPush (handleSyncPull dev_b ''b'' None) LastWriteWins dev_a)) =
   map_of (snd (handleSyncPush (handleSyncPull dev_a ''a'' None) LastWriteWins dev_b)) \<and>
   map_option sr_content (map_of (snd (handleSyncPush (handleSyncPull dev_b ''b'' None) LastWriteWins dev_a)) ''r1'') =
     Some ''new''"
proof -
  let ?w = "map_of (snd (handleSyncPush (handleSyncPull dev_b ''b'' None) LastWriteWins dev_a)) ''r1''"
  note both = last_write_wins_converges[OF devices_ok, of "''b''" "''a''"]
  then have n: "case ?w of None \<Rightarrow> map_of dev_a ''r1'' = None \<and> map_of dev_b ''r1'' = None
      | Some r \<Rightarrow> newest ({x. map_of dev_a ''r1'' = Some x} \<union> {x. map_of dev_b ''r1'' = Some x}) r" by blast
  have "''2025-01-01'' < ''2025-02-01''" by code_simp
  then have "?w = Some (note1 ''new'' ''2025-02-01'')"
    using n by (auto simp: dev_a_def dev_b_def newest_def note1_def split: option.splits)
  then show ?thesis using both by (simp add: note1_def)
qed

theorem incremental_pull_is_enough_witness:
  "map_of (snd (handleSyncPush (handleSyncPull dev_b ''b'' (Some ''2025-01-15'')) LastWriteWins dev_a)) =
   map_of (snd (handleSyncPush (handleSyncPull dev_b ''b'' None) LastWriteWins dev_a))"
  by (rule incremental_pull_is_enough[OF devices_ok]) (simp, simp add: dev_b_def dev_a_def note1_def, code_simp?)

theorem equal_stamps_never_reconcile_witness:
  "snd (handleSyncPush (handleSyncPull [(''r1'', note1 ''y'' ''t'')] ''d'' None) RemoteWins [(''r1'', note1 ''x'' ''t'')])
     = [(''r1'', note1 ''x'' ''t'')]"
  using equal_stamps_never_reconcile[of "note1 ''x'' ''t''" "note1 ''y'' ''t''" "''d''" RemoteWins]
  by (simp add: note1_def)

definition ok_connector :: "nat connector" where
  "ok_connector = \<lparr>cn_name = ''gh'', cn_pull = \<lambda>w. (Inr [], w + 1),
     cn_push = \<lambda>cs w. (Inr \<lparr>pr_synced = int (length cs), pr_errors = []\<rparr>, w)\<rparr>"

theorem failing_connector_is_isolated_witness:
  "fst (pullAll [(''gh'', ok_connector)] 0) ! 0 = (''gh'', [])"
  using failing_connector_is_isolated[of "[(''gh'', ok_connector)]" 0] by (simp add: ok_connector_def)

end
