(* ===== verification/Json_Parse.thy ===== *)
theory Json_Parse
  imports Json Complex_Main "HOL-Library.Sublist"
begin

text \<open>
  \<open>JSON.parse\<close> on texts, as JavaScript defines it: blanks, literals, strings with their escapes,
  arrays and objects, where a repeated key keeps its place and takes the last value. \<open>None\<close> is the
  SyntaxError. The reader of numbers is a parameter: \<open>parse_text\<close> takes integers, and refuses a number
  with a fraction or an exponent, \<open>parse_decimals\<close> takes them all, as exact fractions. A code unit above
  255 stands as a question mark. Parsing what \<open>JSON.stringify\<close> printed gives the value back, and the
  fuel is enough for every text.
\<close>

subsection \<open>Strings\<close>

definition is_json_space :: "char \<Rightarrow> bool" where
  "is_json_space c \<longleftrightarrow> c = CHR 0x20 \<or> c = CHR 0x09 \<or> c = CHR 0x0A \<or> c = CHR 0x0D"

definition skip_space :: "string \<Rightarrow> string" where
  "skip_space s = dropWhile is_json_space s"

definition hex_value :: "char \<Rightarrow> nat option" where
  "hex_value c =
     (let n = (of_char c :: nat) in
      if 48 \<le> n \<and> n \<le> 57 then Some (n - 48)
      else if 97 \<le> n \<and> n \<le> 102 then Some (n - 87)
      else if 65 \<le> n \<and> n \<le> 70 then Some (n - 55)
      else None)"

definition code_unit :: "nat \<Rightarrow> char" where
  "code_unit n = (if n < 256 then char_of n else CHR ''?'')"

definition hex4 :: "string \<Rightarrow> char option" where
  "hex4 s =
     (case map hex_value (take 4 s) of
        [Some a, Some b, Some c, Some d] \<Rightarrow> Some (code_unit (((a * 16 + b) * 16 + c) * 16 + d))
      | _ \<Rightarrow> None)"

text \<open>What follows a backslash: the character it stands for and how many it takes.\<close>

definition unescape :: "string \<Rightarrow> (char \<times> nat) option" where
  "unescape s =
     (case s of
        [] \<Rightarrow> None
      | d # r \<Rightarrow>
          if d = CHR 0x22 \<or> d = CHR 0x5C \<or> d = CHR ''/'' then Some (d, 1)
          else if d = CHR ''b'' then Some (CHR 0x08, 1)
          else if d = CHR ''f'' then Some (CHR 0x0C, 1)
          else if d = CHR ''n'' then Some (CHR 0x0A, 1)
          else if d = CHR ''r'' then Some (CHR 0x0D, 1)
          else if d = CHR ''t'' then Some (CHR 0x09, 1)
          else if d = CHR ''u'' then (case hex4 r of None \<Rightarrow> None | Some c \<Rightarrow> Some (c, 5))
          else None)"

text \<open>The characters of a string up to its closing quote, and what follows it.\<close>

function parse_chars :: "string \<Rightarrow> (string \<times> string) option" where
  "parse_chars [] = None"
| "parse_chars (c # s) =
     (if c = CHR 0x22 then Some ([], s)
      else if (of_char c :: nat) < 32 then None
      else if c = CHR 0x5C
      then (case unescape s of None \<Rightarrow> None | Some (d, n) \<Rightarrow> map_option (apfst (Cons d)) (parse_chars (drop n s)))
      else map_option (apfst (Cons c)) (parse_chars s))"
  by pat_completeness auto
termination by (relation "measure length") auto

subsection \<open>Numbers\<close>

text \<open>The digits of the whole part; a leading zero stands alone.\<close>

definition whole_digits :: "string \<Rightarrow> (string \<times> string) option" where
  "whole_digits t =
     (let ds = takeWhile is_digit t
      in if ds = [] \<or> (1 < length ds \<and> hd ds = CHR ''0'') then None else Some (ds, dropWhile is_digit t))"

definition whole_number :: "string \<Rightarrow> (int \<times> string) option" where
  "whole_number s =
     (let neg = (s \<noteq> [] \<and> hd s = CHR ''-'') in
      case whole_digits (if neg then tl s else s) of
        None \<Rightarrow> None
      | Some (ds, r) \<Rightarrow>
          if r \<noteq> [] \<and> hd r \<in> set ''.eE'' then None
          else Some (if neg then - digits_value ds else digits_value ds, r))"

text \<open>The digits after a point, and the exponent, if there are any.\<close>

definition fraction_digits :: "string \<Rightarrow> (string \<times> string) option" where
  "fraction_digits s =
     (if s = [] \<or> hd s \<noteq> CHR ''.'' then Some ([], s)
      else if takeWhile is_digit (tl s) = [] then None
      else Some (takeWhile is_digit (tl s), dropWhile is_digit (tl s)))"

definition exponent :: "string \<Rightarrow> (int \<times> string) option" where
  "exponent s =
     (if s = [] \<or> hd s \<notin> set ''eE'' then Some (0, s)
      else (let t = tl s; signed = (t \<noteq> [] \<and> hd t \<in> set ''+-''); u = (if signed then tl t else t);
                ds = takeWhile is_digit u
            in if ds = [] then None
               else Some (if signed \<and> hd t = CHR ''-'' then - digits_value ds else digits_value ds, dropWhile is_digit u)))"

definition decimal :: "string \<Rightarrow> string \<Rightarrow> int \<Rightarrow> rat" where
  "decimal ds fs e =
     (let v = of_int (digits_value ds) + of_int (digits_value fs) / 10 ^ length fs
      in if 0 \<le> e then v * 10 ^ nat e else v / 10 ^ nat (- e))"

definition decimal_number :: "string \<Rightarrow> (rat \<times> string) option" where
  "decimal_number s =
     (let neg = (s \<noteq> [] \<and> hd s = CHR ''-'') in
      case whole_digits (if neg then tl s else s) of
        None \<Rightarrow> None
      | Some (ds, r) \<Rightarrow>
          (case fraction_digits r of
             None \<Rightarrow> None
           | Some (fs, r1) \<Rightarrow>
               (case exponent r1 of
                  None \<Rightarrow> None
                | Some (e, r2) \<Rightarrow> Some (if neg then - decimal ds fs e else decimal ds fs e, r2))))"

subsection \<open>Values\<close>

definition set_field :: "string \<Rightarrow> 'n json_value \<Rightarrow> (string \<times> 'n json_value) list \<Rightarrow> (string \<times> 'n json_value) list" where
  "set_field k v kvs =
     (if k \<in> fst ` set kvs then map (\<lambda>kv. if fst kv = k then (k, v) else kv) kvs else kvs @ [(k, v)])"

fun parse_value :: "(string \<Rightarrow> ('n \<times> string) option) \<Rightarrow> nat \<Rightarrow> string \<Rightarrow> ('n json_value \<times> string) option"
  and parse_elements :: "(string \<Rightarrow> ('n \<times> string) option) \<Rightarrow> nat \<Rightarrow> string \<Rightarrow> ('n json_value list \<times> string) option"
  and parse_members :: "(string \<Rightarrow> ('n \<times> string) option) \<Rightarrow> nat \<Rightarrow> (string \<times> 'n json_value) list \<Rightarrow> string \<Rightarrow>
     ((string \<times> 'n json_value) list \<times> string) option"
where
  "parse_value num 0 s = None"
| "parse_value num (Suc f) s =
     (case skip_space s of
        [] \<Rightarrow> None
      | c # r \<Rightarrow>
          if c = CHR 0x22 then map_option (apfst JStr) (parse_chars r)
          else if c = CHR ''['' then
            (if prefix '']'' (skip_space r) then Some (JArr [], tl (skip_space r))
             else map_option (apfst JArr) (parse_elements num f r))
          else if c = CHR ''{'' then
            (if prefix ''}'' (skip_space r) then Some (JObj [], tl (skip_space r))
             else map_option (apfst JObj) (parse_members num f [] r))
          else if prefix ''null'' (c # r) then Some (JNull, drop 4 (c # r))
          else if prefix ''true'' (c # r) then Some (JBool True, drop 4 (c # r))
          else if prefix ''false'' (c # r) then Some (JBool False, drop 5 (c # r))
          else map_option (apfst JNum) (num (c # r)))"
| "parse_elements num 0 s = None"
| "parse_elements num (Suc f) s =
     (case parse_value num f s of
        None \<Rightarrow> None
      | Some (v, r) \<Rightarrow>
          (case skip_space r of
             [] \<Rightarrow> None
           | c # r1 \<Rightarrow>
               if c = CHR '','' then map_option (apfst (Cons v)) (parse_elements num f r1)
               else if c = CHR '']'' then Some ([v], r1) else None))"
| "parse_members num 0 kvs s = None"
| "parse_members num (Suc f) kvs s =
     (case skip_space s of
        [] \<Rightarrow> None
      | q # r \<Rightarrow>
          if q \<noteq> CHR 0x22 then None
          else (case parse_chars r of
              None \<Rightarrow> None
            | Some (k, r1) \<Rightarrow>
                (case skip_space r1 of
                   [] \<Rightarrow> None
                 | d # r2 \<Rightarrow>
                     if d \<noteq> CHR '':'' then None
                     else (case parse_value num f r2 of
                         None \<Rightarrow> None
                       | Some (v, r3) \<Rightarrow>
                           (case skip_space r3 of
                              [] \<Rightarrow> None
                            | e # r4 \<Rightarrow>
                                if e = CHR '','' then parse_members num f (set_field k v kvs) r4
                                else if e = CHR ''}'' then Some (set_field k v kvs, r4) else None)))))"

definition parse_with :: "(string \<Rightarrow> ('n \<times> string) option) \<Rightarrow> string \<Rightarrow> 'n json_value option" where
  "parse_with num s =
     (case parse_value num (2 * length s + 1) s of
        None \<Rightarrow> None
      | Some (v, r) \<Rightarrow> (if skip_space r = [] then Some v else None))"

definition parse_text :: "string \<Rightarrow> json option" where
  "parse_text = parse_with whole_number"

definition parse_decimals :: "string \<Rightarrow> rat json_value option" where
  "parse_decimals = parse_with decimal_number"

declare parse_value.simps [simp del] parse_elements.simps [simp del] parse_members.simps [simp del]

subsection \<open>The fuel is enough\<close>

lemma skip_space_length: "length (skip_space s) \<le> length s"
  by (simp add: skip_space_def length_dropWhile_le)

lemma skip_space_Cons: "skip_space s = c # r \<Longrightarrow> length r < length s"
  using skip_space_length [of s] by simp

lemma parse_chars_shorter: "parse_chars s = Some (t, r) \<Longrightarrow> length r < length s"
proof (induction s arbitrary: t r rule: parse_chars.induct)
  case (2 c s)
  then show ?case
    by (fastforce split: if_splits option.splits prod.splits simp: less_Suc_eq_le)
qed simp

lemma map_option_apfst: "map_option (apfst g) x = Some (v, r) \<longleftrightarrow> (\<exists>u. x = Some (u, r) \<and> v = g u)"
  by (cases x) auto

text \<open>The interface of a reader of numbers: it takes some of the text.\<close>

locale number_reader =
  fixes num :: "string \<Rightarrow> ('n \<times> string) option"
  assumes num_shorter: "num s = Some (n, r) \<Longrightarrow> length r < length s"
begin

lemma parse_valueE:
  assumes "parse_value num (Suc f) s = Some (v, r)"
  obtains (chars) c s1 t where "skip_space s = c # s1" "parse_chars s1 = Some (t, r)"
  | (closed) c d s1 where "skip_space s = c # s1" "skip_space s1 = d # r"
  | (elements) c s1 xs where "skip_space s = c # s1" "parse_elements num f s1 = Some (xs, r)"
  | (members) c s1 ys where "skip_space s = c # s1" "parse_members num f [] s1 = Some (ys, r)"
  | (literal) c s1 n where "skip_space s = c # s1" "r = drop n s1"
  | (number) c s1 n where "skip_space s = c # s1" "num (c # s1) = Some (n, r)"
proof -
  obtain c s1 where c: "skip_space s = c # s1"
    using assms by (cases "skip_space s") (auto simp: parse_value.simps)
  have closed': "prefix [d] (skip_space s1) \<Longrightarrow> tl (skip_space s1) = r \<Longrightarrow> thesis" for d
    using closed [OF c] by (cases "skip_space s1") auto
  have lit: "drop (Suc n) (c # s1) = r \<Longrightarrow> thesis" for n
    using literal [OF c, of n] by simp
  consider "c = CHR 0x22" | "c = CHR ''[''" | "c = CHR ''{''"
    | "c \<noteq> CHR 0x22" "c \<noteq> CHR ''[''" "c \<noteq> CHR ''{''" by blast
  then show thesis
  proof cases
    case 1
    then show ?thesis using assms c chars [OF c] by (auto simp: parse_value.simps map_option_apfst)
  next
    case 2
    then show ?thesis
      using assms c closed' elements [OF c]
      by (auto simp: parse_value.simps map_option_apfst split: if_splits)
  next
    case 3
    then show ?thesis
      using assms c closed' members [OF c]
      by (auto simp: parse_value.simps map_option_apfst split: if_splits)
  next
    case 4
    then show ?thesis
      using assms c lit [of 3] lit [of 4] number [OF c]
      by (auto simp: parse_value.simps simp del: drop_Suc_Cons split: if_splits)
  qed
qed

lemma parse_elementsE:
  assumes "parse_elements num (Suc f) s = Some (xs, r)"
  obtains (last) c v r0 where "parse_value num f s = Some (v, r0)" "skip_space r0 = c # r" "xs = [v]"
  | (more) c v r0 r1 ys where "parse_value num f s = Some (v, r0)" "skip_space r0 = c # r1"
      "parse_elements num f r1 = Some (ys, r)" "xs = v # ys"
  using assms
  by (auto simp: parse_elements.simps map_option_apfst split: option.splits list.splits if_splits)

lemma parse_membersE:
  assumes "parse_members num (Suc f) kvs s = Some (ys, r)"
  obtains (last) q k c v d r0 r1 r2 r3 where "skip_space s = q # r0" "parse_chars r0 = Some (k, r1)"
      "skip_space r1 = c # r2" "parse_value num f r2 = Some (v, r3)" "skip_space r3 = d # r"
  | (more) q k c v d r0 r1 r2 r3 r4 where "skip_space s = q # r0" "parse_chars r0 = Some (k, r1)"
      "skip_space r1 = c # r2" "parse_value num f r2 = Some (v, r3)" "skip_space r3 = d # r4"
      "parse_members num f (set_field k v kvs) r4 = Some (ys, r)"
  using assms
  by (auto simp: parse_members.simps split: option.splits list.splits if_splits)

lemma parse_shorter:
  "parse_value num f s = Some (v, r) \<Longrightarrow> length r < length s"
  "parse_elements num f s = Some (xs, r) \<Longrightarrow> length r < length s"
  "parse_members num f kvs s = Some (ys, r) \<Longrightarrow> length r < length s"
proof (induction f arbitrary: s v r xs kvs ys)
  case (Suc f)
  note short = skip_space_Cons parse_chars_shorter num_shorter
  { case 1
    then show ?case
    proof (cases rule: parse_valueE)
      case (literal c s1 n)
      then show ?thesis using skip_space_Cons [of s] by fastforce
    next
      case (number c s1 n)
      then show ?thesis
        using skip_space_length [of s] num_shorter [of "c # s1"] by simp
    qed (use Suc.IH in \<open>fastforce dest: short\<close>)+
  next
    case 2
    then show ?case
      by (cases rule: parse_elementsE) (use Suc.IH in \<open>fastforce dest: short\<close>)+
  next
    case 3
    then show ?case
      by (cases rule: parse_membersE) (use Suc.IH in \<open>fastforce dest: short\<close>)+
  }
qed (simp_all add: parse_value.simps parse_elements.simps parse_members.simps)

lemma map_option_cong2: "x = y \<Longrightarrow> map_option g x = map_option g y"
  by simp

lemma more_fuel:
  "2 * length s + 1 \<le> f \<Longrightarrow> parse_value num (Suc f) s = parse_value num f s"
  "2 * length s + 2 \<le> f \<Longrightarrow> parse_elements num (Suc f) s = parse_elements num f s"
  "2 * length s + 2 \<le> f \<Longrightarrow> parse_members num (Suc f) kvs s = parse_members num f kvs s"
proof (induction f arbitrary: s kvs)
  case (Suc f)
  { case 1
    then have "parse_elements num (Suc f) r = parse_elements num f r"
        "parse_members num (Suc f) [] r = parse_members num f [] r" if "skip_space s = c # r" for c r
      using Suc.IH(2) [of r] Suc.IH(3) [of r "[]"] skip_space_Cons [OF that] by auto
    then show ?case
      by (simp add: parse_value.simps(2) split: list.split)
  next
    case 2
    have "parse_value num (Suc f) s = parse_value num f s" using 2 Suc.IH(1) [of s] by simp
    moreover have "parse_elements num (Suc f) r1 = parse_elements num f r1"
      if "parse_value num f s = Some (v, r)" "skip_space r = c # r1" for v r c r1
      using Suc.IH(2) [of r1] parse_shorter(1) [OF that(1)] skip_space_Cons [OF that(2)] 2 by simp
    ultimately show ?case
      by (auto simp: parse_elements.simps(2) split: option.split list.split)
  next
    case 3
    show ?case
    proof (cases "skip_space s")
      case (Cons q r)
      show ?thesis
      proof (cases "parse_chars r")
        case (Some p1)
        obtain k r1 where p1: "p1 = (k, r1)" by (cases p1)
        show ?thesis
        proof (cases "skip_space r1")
          case (Cons d r2)
          have l: "length r2 < length s" "2 * length r2 + 1 \<le> f"
            using skip_space_Cons [OF \<open>skip_space s = q # r\<close>] parse_chars_shorter [of r k r1] Some p1
              skip_space_Cons [OF Cons] 3 by simp_all
          show ?thesis
          proof (cases "parse_value num f r2")
            case None
            then show ?thesis
              using \<open>skip_space s = q # r\<close> Some p1 Cons Suc.IH(1) [OF l(2)] by (simp add: parse_members.simps(2))
          next
            case (Some p3)
            obtain v r3 where p3: "p3 = (v, r3)" by (cases p3)
            have "parse_members num (Suc f) kvs' r4 = parse_members num f kvs' r4" if "skip_space r3 = e # r4" for e r4 kvs'
              using Suc.IH(3) [of r4 kvs'] parse_shorter(1) [of f r2 v r3] skip_space_Cons [OF that] l 3 Some p3
              by simp
            then show ?thesis
              using \<open>skip_space s = q # r\<close> \<open>parse_chars r = Some p1\<close> p1 Cons Some p3 Suc.IH(1) [OF l(2)]
              by (simp add: parse_members.simps(2) split: list.split)
          qed
        qed (use Cons Some p1 in \<open>simp add: parse_members.simps(2)\<close>)
      qed (use Cons in \<open>simp add: parse_members.simps(2)\<close>)
    qed (simp add: parse_members.simps(2))
  }
qed simp_all

lemma enough_fuel:
  "2 * length s + 1 \<le> f \<Longrightarrow> parse_value num f s = parse_value num (2 * length s + 1) s"
proof (induction f)
  case (Suc f)
  then show ?case
    using more_fuel(1) [of s f] by (cases "2 * length s + 1 \<le> f") (auto simp: le_Suc_eq)
qed simp

end

lemma whole_digits_shorter: "whole_digits s = Some (ds, r) \<Longrightarrow> length r < length s"
proof -
  assume "whole_digits s = Some (ds, r)"
  then have "takeWhile is_digit s \<noteq> []" "r = dropWhile is_digit s" by (auto simp: whole_digits_def Let_def split: if_splits)
  then show ?thesis
    by (metis append_Nil length_append length_greater_0_conv less_add_same_cancel2 takeWhile_dropWhile_id)
qed

lemma fraction_digits_le: "fraction_digits s = Some (fs, r) \<Longrightarrow> length r \<le> length s"
  using length_dropWhile_le [of is_digit "tl s"] by (auto simp: fraction_digits_def split: if_splits)

lemma exponent_le: "exponent s = Some (e, r) \<Longrightarrow> length r \<le> length s"
  using length_dropWhile_le [of is_digit "tl s"] length_dropWhile_le [of is_digit "tl (tl s)"]
  by (auto simp: exponent_def Let_def split: if_splits)

interpretation whole_numbers: number_reader whole_number
proof unfold_locales
  fix s n r
  assume "whole_number s = Some (n, r)"
  then obtain ds where "whole_digits (if s \<noteq> [] \<and> hd s = CHR ''-'' then tl s else s) = Some (ds, r)"
    by (auto simp: whole_number_def Let_def split: option.splits if_splits)
  then show "length r < length s" using whole_digits_shorter by (fastforce split: if_splits)
qed

interpretation decimals: number_reader decimal_number
proof unfold_locales
  fix s n r
  assume "decimal_number s = Some (n, r)"
  then obtain ds r0 fs r1 e where "whole_digits (if s \<noteq> [] \<and> hd s = CHR ''-'' then tl s else s) = Some (ds, r0)"
      "fraction_digits r0 = Some (fs, r1)" "exponent r1 = Some (e, r)"
    by (auto simp: decimal_number_def Let_def split: option.splits if_splits)
  then show "length r < length s"
    using whole_digits_shorter fraction_digits_le exponent_le by (fastforce split: if_splits)
qed

subsection \<open>Strings and numbers come back\<close>

lemma hex_value_digit: "k < 16 \<Longrightarrow> hex_value (hex_digit k) = Some k"
  by (auto simp: hex_value_def hex_digit_def Let_def of_char_of)

lemma unescape_control:
  assumes "(of_char c :: nat) < 32"
  shows "unescape (''u00'' @ [hex_digit (of_char c div 16), hex_digit (of_char c mod 16)] @ s) = Some (c, 5)"
proof -
  let ?n = "of_char c :: nat"
  have 0: "hex_value (CHR ''0'') = Some 0" by (simp add: hex_value_def)
  have "hex4 (''00'' @ [hex_digit (?n div 16), hex_digit (?n mod 16)] @ s) = Some (code_unit (?n div 16 * 16 + ?n mod 16))"
    using assms by (simp add: hex4_def 0 hex_value_digit)
  also have "?n div 16 * 16 + ?n mod 16 = ?n" by simp
  also have "code_unit ?n = c" using assms by (simp add: code_unit_def)
  finally show ?thesis by (simp add: unescape_def)
qed

lemma parse_chars_escape:
  "parse_chars (json_escape c @ s) = map_option (apfst (Cons c)) (parse_chars s)"
proof -
  let ?n = "of_char c :: nat"
  have eq: "c = d \<longleftrightarrow> ?n = of_char d" for d by simp
  consider "?n = 34 \<or> ?n = 92" | "?n \<in> {8, 12, 10, 13, 9}" | "?n < 32" "?n \<notin> {8, 12, 10, 13, 9}"
    | "32 \<le> ?n" "?n \<noteq> 34" "?n \<noteq> 92"
    by linarith
  then show ?thesis
  proof cases
    case 1
    then have "c = CHR 0x22 \<or> c = CHR 0x5C" by (simp add: eq)
    then show ?thesis by (auto simp: json_escape_def unescape_def Let_def)
  next
    case 2
    then have "c \<in> {CHR 0x08, CHR 0x0C, CHR 0x0A, CHR 0x0D, CHR 0x09}" by (simp add: eq)
    then show ?thesis
      by (elim insertE emptyE) (simp_all add: json_escape_def unescape_def)
  next
    case 3
    have "json_escape c = CHR 0x5C # ''u00'' @ [hex_digit (?n div 16), hex_digit (?n mod 16)]"
      using 3 by (simp add: json_escape_def Let_def)
    then show ?thesis
      using unescape_control [OF 3(1), of s] by simp
  next
    case 4
    then show ?thesis by (simp add: json_escape_def Let_def eq)
  qed
qed

lemma parse_chars_quoted:
  "parse_chars (concat (map json_escape t) @ CHR 0x22 # s) = Some (t, s)"
  by (induction t) (simp_all add: parse_chars_escape)

lemma is_digit_char: "k < 10 \<Longrightarrow> is_digit (char_of (48 + k :: nat))"
  by (simp add: is_digit_def of_char_of)

lemma show_nat_digits: "show_nat n \<noteq> [] \<and> (\<forall>c \<in> set (show_nat n). is_digit c)"
proof (induction n rule: show_nat.induct)
  case (1 n)
  then show ?case
    using is_digit_char [of n] is_digit_char [of "n mod 10"] by (subst (1 2) show_nat.simps) auto
qed

lemma digits_value_snoc: "digits_value (ds @ [c]) = 10 * digits_value ds + (of_char c - 48)"
  by (simp add: digits_value_def)

lemma of_char_digit: "k < 10 \<Longrightarrow> (of_char (char_of (48 + k :: nat)) :: int) = 48 + int k"
  using of_nat_of_char [of "char_of (48 + k)", where 'a = int] by (simp add: of_char_of)

lemma digits_value_show: "digits_value (show_nat n) = int n"
proof (induction n rule: show_nat.induct)
  case (1 n)
  show ?case
  proof (cases "n < 10")
    case True
    then show ?thesis
      by (subst show_nat.simps) (simp add: digits_value_def of_char_digit)
  next
    case False
    have "digits_value (show_nat n) = 10 * int (n div 10) + int (n mod 10)"
      using 1 False by (subst show_nat.simps) (simp add: digits_value_snoc of_char_digit)
    also have "\<dots> = int n" by (metis mult_div_mod_eq of_nat_add of_nat_mult of_nat_numeral)
    finally show ?thesis .
  qed
qed

lemma digit_not_zero: "0 < k \<Longrightarrow> k < 10 \<Longrightarrow> char_of (48 + k :: nat) \<noteq> CHR ''0''"
proof
  assume "0 < k" "k < 10" "char_of (48 + k :: nat) = CHR ''0''"
  then have "(of_char (char_of (48 + k :: nat)) :: nat) = of_char CHR ''0''" by (simp only:)
  then show False using \<open>0 < k\<close> \<open>k < 10\<close> by (simp add: of_char_of)
qed

lemma show_nat_head: "0 < n \<Longrightarrow> hd (show_nat n) \<noteq> CHR ''0''"
proof (induction n rule: show_nat.induct)
  case (1 n)
  then show ?case
    using show_nat_digits [of "n div 10"]
    by (subst show_nat.simps) (auto simp: digit_not_zero)
qed

definition number_end :: "string \<Rightarrow> bool" where
  "number_end s \<longleftrightarrow> s = [] \<or> (\<not> is_digit (hd s) \<and> hd s \<notin> set ''.eE'')"

lemma takeWhile_show_nat:
  "number_end s \<Longrightarrow> takeWhile is_digit (show_nat n @ s) = show_nat n \<and> dropWhile is_digit (show_nat n @ s) = s"
  using show_nat_digits [of n]
  by (cases s) (auto simp: number_end_def takeWhile_append2 dropWhile_append2)

lemma show_nat_zero: "1 < length (show_nat n) \<Longrightarrow> 0 < n"
  by (cases n) (auto simp: show_nat.simps)

lemma hd_show_nat: "hd (show_nat n @ s) \<noteq> CHR ''-''" "is_digit (hd (show_nat n @ s))"
  using show_nat_digits [of n] by (cases "show_nat n"; force simp: is_digit_def)+

lemma parse_show_int: "number_end s \<Longrightarrow> whole_number (show_int i @ s) = Some (i, s)"
proof -
  assume e: "number_end s"
  have h: "s \<noteq> [] \<Longrightarrow> hd s \<notin> set ''.eE''" using e by (simp add: number_end_def)
  note m = takeWhile_show_nat [OF e] show_nat_head show_nat_zero digits_value_show show_nat_digits hd_show_nat
  show ?thesis
  proof (cases "i < 0")
    case True
    then show ?thesis
      using h m(1) [of "nat (- i)"] m(2,3) [of "nat (- i)"] m(5) [of "nat (- i)"]
      by (auto simp: whole_number_def whole_digits_def show_int_def Let_def digits_value_show)
  next
    case False
    then show ?thesis
      using h m(1) [of "nat i"] m(2,3) [of "nat i"] m(5) [of "nat i"] m(6) [of "nat i" s]
      by (auto simp: whole_number_def whole_digits_def show_int_def Let_def digits_value_show)
  qed
qed

subsection \<open>Values come back\<close>

primrec distinct_keys :: "json \<Rightarrow> bool" where
  "distinct_keys JNull = True"
| "distinct_keys (JBool b) = True"
| "distinct_keys (JNum n) = True"
| "distinct_keys (JStr s) = True"
| "distinct_keys (JArr xs) = list_all id (map distinct_keys xs)"
| "distinct_keys (JObj kvs) =
     (distinct (map fst kvs) \<and> list_all snd (map (map_prod id distinct_keys) kvs))"

lemma stringify_list_map: "stringify_list xs = map stringify xs"
  by (induction xs) auto

lemma stringify_fields_map: "stringify_fields kvs = map (\<lambda>kv. json_quote (fst kv) @ '':'' @ stringify (snd kv)) kvs"
  by (induction kvs) auto

lemma set_field_new: "k \<notin> fst ` set kvs \<Longrightarrow> set_field k v kvs = kvs @ [(k, v)]"
  by (simp add: set_field_def)

lemma skip_space_keeps: "s \<noteq> [] \<Longrightarrow> \<not> is_json_space (hd s) \<Longrightarrow> skip_space s = s"
  by (cases s) (auto simp: skip_space_def)

lemma digit_starts: "is_digit c \<Longrightarrow> \<not> is_json_space c \<and> c \<notin> set ''[]{}ntf'' \<and> c \<noteq> CHR 0x22"
  by (auto simp: is_digit_def is_json_space_def)

lemma show_int_starts:
  "\<exists>c r. show_int i = c # r \<and> \<not> is_json_space c \<and> c \<notin> set ''[]{}ntf'' \<and> c \<noteq> CHR 0x22"
proof (cases "i < 0")
  case True
  then show ?thesis by (simp add: show_int_def is_json_space_def)
next
  case False
  obtain c r where "show_nat (nat i) = c # r" "is_digit c"
    using show_nat_digits [of "nat i"] by (cases "show_nat (nat i)") auto
  then show ?thesis using False digit_starts [of c] by (simp add: show_int_def)
qed

lemma stringify_starts: "\<exists>c r. stringify j = c # r \<and> \<not> is_json_space c \<and> c \<noteq> CHR '']''"
proof (cases j)
  case (JNum i)
  then show ?thesis using show_int_starts [of i] by auto
qed (auto simp: json_quote_def is_json_space_def)

lemma stringify_pos: "0 < length (stringify j)"
  using stringify_starts [of j] by auto

lemma skip_stringify: "skip_space (stringify j @ s) = stringify j @ s"
proof -
  obtain c r where "stringify j = c # r" "\<not> is_json_space c" using stringify_starts by blast
  then show ?thesis by (simp add: skip_space_def)
qed

lemma number_end_simps [simp]:
  "number_end []" "number_end (CHR '']'' # s)" "number_end (CHR ''}'' # s)" "number_end (CHR '','' # s)"
  by (simp_all add: number_end_def is_digit_def)

lemma skip_space_punct [simp]:
  "skip_space (CHR '']'' # s) = CHR '']'' # s" "skip_space (CHR ''}'' # s) = CHR ''}'' # s"
  "skip_space (CHR '','' # s) = CHR '','' # s" "skip_space (CHR '':'' # s) = CHR '':'' # s"
  "skip_space (CHR 0x22 # s) = CHR 0x22 # s" "skip_space (CHR ''['' # s) = CHR ''['' # s"
  "skip_space (CHR ''{'' # s) = CHR ''{'' # s"
  by (simp_all add: skip_space_def is_json_space_def)

definition comes_back :: "json \<Rightarrow> bool" where
  "comes_back j \<longleftrightarrow> (\<forall>f s. number_end s \<longrightarrow> length (stringify j) \<le> f \<longrightarrow>
     parse_value whole_number f (stringify j @ s) = Some (j, s))"

lemma elements_come_back:
  assumes "\<forall>x \<in> set xs. comes_back x" "xs \<noteq> []" "length (comma_join (map stringify xs)) < f"
  shows "parse_elements whole_number f (comma_join (map stringify xs) @ CHR '']'' # s) = Some (xs, s)"
  using assms
proof (induction xs arbitrary: f)
  case (Cons x xs)
  obtain g where f: "f = Suc g" using Cons.prems(3) by (cases f) auto
  have x: "comes_back x" using Cons.prems(1) by simp
  show ?case
  proof (cases xs)
    case Nil
    then show ?thesis
      using x Cons.prems(3) f by (simp add: parse_elements.simps(2) comes_back_def)
  next
    case (Cons y ys)
    have "parse_elements whole_number g (comma_join (map stringify xs) @ CHR '']'' # s) = Some (xs, s)"
      using Cons.IH [of g] Cons.prems Cons f by simp
    then show ?thesis
      using x Cons.prems(3) f Cons by (simp add: parse_elements.simps(2) comes_back_def)
  qed
qed simp

lemma members_come_back:
  assumes "\<forall>kv \<in> set kvs. comes_back (snd kv)" "kvs \<noteq> []" "distinct (map fst (acc @ kvs))"
    "length (comma_join (stringify_fields kvs)) < f"
  shows "parse_members whole_number f acc (comma_join (stringify_fields kvs) @ CHR ''}'' # s) = Some (acc @ kvs, s)"
  using assms
proof (induction kvs arbitrary: f acc)
  case (Cons kv kvs)
  obtain g where f: "f = Suc g" using Cons.prems(4) by (cases f) auto
  obtain k v where kv: "kv = (k, v)" by (cases kv)
  have v: "comes_back v" using Cons.prems(1) kv by simp
  have new: "set_field k v acc = acc @ [(k, v)]"
    using Cons.prems(3) kv by (intro set_field_new) auto
  show ?case
  proof (cases kvs)
    case Nil
    then show ?thesis
      using v new Cons.prems(4) f kv
      by (simp add: parse_members.simps(2) json_quote_def parse_chars_quoted comes_back_def)
  next
    case (Cons y ys)
    have "parse_members whole_number g (acc @ [(k, v)]) (comma_join (stringify_fields kvs) @ CHR ''}'' # s) = Some (acc @ kv # kvs, s)"
      using Cons.IH [of "acc @ [(k, v)]" g] Cons.prems Cons f kv by (cases y) simp
    then show ?thesis
      using v new Cons.prems(4) f kv Cons
      by (cases y) (simp add: parse_members.simps(2) json_quote_def parse_chars_quoted comes_back_def)
  qed
qed simp

lemma comes_backI:
  assumes "\<And>g s. number_end s \<Longrightarrow> length (stringify j) \<le> Suc g \<Longrightarrow>
     parse_value whole_number (Suc g) (stringify j @ s) = Some (j, s)"
  shows "comes_back j"
  unfolding comes_back_def
proof (intro allI impI)
  fix f s assume "number_end s" and l: "length (stringify j) \<le> f"
  moreover obtain g where "f = Suc g" using l stringify_pos [of j] by (cases f) auto
  ultimately show "parse_value whole_number f (stringify j @ s) = Some (j, s)" using assms by simp
qed

lemma not_closed_at_start: "\<not> prefix '']'' (comma_join (stringify x # ys) @ s)"
proof -
  obtain c r where "stringify x = c # r" "c \<noteq> CHR '']''" using stringify_starts by blast
  then show ?thesis by (cases ys) auto
qed

lemma skip_elements: "skip_space (comma_join (stringify x # ys) @ s) = comma_join (stringify x # ys) @ s"
proof -
  obtain c r where "stringify x = c # r" "\<not> is_json_space c" using stringify_starts by blast
  then show ?thesis by (cases ys) (simp_all add: skip_space_def)
qed

lemma fields_start: "\<exists>r. comma_join (stringify_fields (kv # kvs)) @ s = CHR 0x22 # r"
  by (cases kv; cases kvs) (simp_all add: json_quote_def)

lemma stringify_comes_back: "distinct_keys j \<Longrightarrow> comes_back j"
proof (induction j)
  case (JNum i)
  show ?case
  proof (rule comes_backI)
    fix g s assume e: "number_end s"
    obtain c r where c: "show_int i = c # r" "\<not> is_json_space c" "c \<notin> set ''[]{}ntf''" "c \<noteq> CHR 0x22"
      using show_int_starts by blast
    have "whole_number (c # r @ s) = Some (i, s)" using parse_show_int [OF e, of i] c(1) by simp
    then show "parse_value whole_number (Suc g) (stringify (JNum i) @ s) = Some (JNum i, s)"
      using c by (auto simp: parse_value.simps(2) skip_space_def)
  qed
next
  case (JStr t)
  show ?case
    by (rule comes_backI) (simp add: parse_value.simps(2) json_quote_def parse_chars_quoted)
next
  case (JArr xs)
  have parts: "\<forall>x \<in> set xs. comes_back x"
    using JArr by (simp add: list_all_iff)
  show ?case
  proof (rule comes_backI)
    fix g s assume l: "length (stringify (JArr xs)) \<le> Suc g"
    show "parse_value whole_number (Suc g) (stringify (JArr xs) @ s) = Some (JArr xs, s)"
    proof (cases xs)
      case (Cons y ys)
      have "parse_elements whole_number g (comma_join (map stringify xs) @ CHR '']'' # s) = Some (xs, s)"
        using elements_come_back [OF parts] l Cons by (simp add: stringify_list_map)
      then show ?thesis
        using not_closed_at_start [of y "map stringify ys" "CHR '']'' # s"]
          skip_elements [of y "map stringify ys" "CHR '']'' # s"] Cons
        by (simp add: parse_value.simps(2) stringify_list_map)
    qed (simp add: parse_value.simps(2))
  qed
next
  case (JObj kvs)
  have parts: "\<forall>kv \<in> set kvs. comes_back (snd kv)"
    using JObj by (force simp: list_all_iff)
  show ?case
  proof (rule comes_backI)
    fix g s assume l: "length (stringify (JObj kvs)) \<le> Suc g"
    show "parse_value whole_number (Suc g) (stringify (JObj kvs) @ s) = Some (JObj kvs, s)"
    proof (cases kvs)
      case (Cons kv rest)
      have "parse_members whole_number g [] (comma_join (stringify_fields kvs) @ CHR ''}'' # s) = Some (kvs, s)"
        using members_come_back [OF parts, of "[]" g s] JObj.prems l Cons by simp
      moreover obtain r where "comma_join (stringify_fields kvs) @ CHR ''}'' # s = CHR 0x22 # r"
        using fields_start [of kv rest] Cons by blast
      ultimately show ?thesis by (simp add: parse_value.simps(2))
    qed (simp add: parse_value.simps(2))
  qed
qed (rule comes_backI, auto simp: parse_value.simps(2) skip_space_def is_json_space_def)+

lemma comes_backD:
  "comes_back j \<Longrightarrow> number_end s \<Longrightarrow> length (stringify j) \<le> f \<Longrightarrow>
     parse_value whole_number f (stringify j @ s) = Some (j, s)"
  by (simp add: comes_back_def)

lemma parse_stringify:
  assumes "distinct_keys j"
  shows "parse_text (stringify j) = Some j"
proof -
  have "parse_value whole_number (2 * length (stringify j) + 1) (stringify j @ []) = Some (j, [])"
    by (rule comes_backD [OF stringify_comes_back [OF assms]]) simp_all
  then show ?thesis by (simp add: parse_text_def parse_with_def skip_space_def)
qed

end
