(* ===== verification/Pg_Server.thy ===== *)
theory Pg_Server
  imports Json_Parse "HOL-Library.AList"
begin

text \<open>
  The PostgreSQL server of the managed backend: the tables of \<open>db/postgres-schema.ts\<close> as lists of rows,
  the two INSERT statements of \<open>projector/event-store.ts\<close> with the keys and the JSONB columns they meet,
  the connections they go over, each with the transaction open on it, and \<open>transactionAsync\<close> of
  \<open>db/postgres-adapter.ts\<close>. Which connection a statement of the client goes over is an argument: a
  \<open>pg.Pool\<close>, which \<open>managed-backend.ts\<close> opens, picks one for every \<open>query\<close> call; a client has only one.
  The isolation is READ COMMITTED. \<open>NOW()\<close> is an argument. A JSONB value is the parsed text (the server
  refuses NUL characters and reorders the keys of objects, which is left out).
\<close>

subsection \<open>Events and tables\<close>

text \<open>
  The value of a JSON field of an event: a text, given by what it parses to, or, in an event read back from
  the database, the value that the driver parsed from the JSONB column already.
\<close>

datatype json_text = Parsed json | EmptyText | Malformed | FromDriver json

record stored_event =
  se_event_id :: string
  se_platform :: string
  se_project :: string
  se_workspace_uid :: string
  se_session_id :: string
  se_event_type :: string
  se_ts :: ms
  se_payload_json :: json_text
  se_tags_json :: json_text
  se_privacy_tags_json :: json_text
  se_dedupe_hash :: string
  se_observation_id :: "string option"
  se_correlation_id :: "string option"
  se_event_time :: "string option"
  se_observed_at :: "string option"
  se_valid_from :: "string option"
  se_valid_to :: "string option"
  se_supersedes :: "string option"
  se_invalidated_at :: "string option"
  se_created_at :: ms

record pg_session =
  ps_session_id :: string
  ps_platform :: string
  ps_project :: string
  ps_workspace_uid :: string
  ps_started_at :: ms
  ps_updated_at :: ms

text \<open>The event table has no columns for the temporal anchors.\<close>

record pg_event =
  pe_event_id :: string
  pe_platform :: string
  pe_project :: string
  pe_workspace_uid :: string
  pe_session_id :: string
  pe_event_type :: string
  pe_ts :: ms
  pe_payload_json :: json
  pe_tags_json :: json
  pe_privacy_tags_json :: json
  pe_dedupe_hash :: string
  pe_observation_id :: "string option"
  pe_correlation_id :: "string option"
  pe_created_at :: ms

record pg_observation =
  po_id :: string
  po_event_id :: string
  po_platform :: string
  po_project :: string
  po_workspace_uid :: string
  po_session_id :: string
  po_title :: "string option"
  po_content :: string
  po_content_redacted :: string
  po_observation_type :: string
  po_event_time :: "string option"
  po_observed_at :: "string + ms"
  po_valid_from :: "string option"
  po_valid_to :: "string option"
  po_supersedes :: "string option"
  po_invalidated_at :: "string option"
  po_tags_json :: json
  po_privacy_tags_json :: json
  po_created_at :: ms
  po_updated_at :: ms

record pg_db =
  pg_sessions :: "pg_session list"
  pg_events :: "pg_event list"
  pg_observations :: "pg_observation list"
  pg_tags :: "(string \<times> string) list"

text \<open>
  The errors of the server, and those that JavaScript throws around its statements. \<open>LockWait\<close> stands for
  a statement that waits for a transaction which nobody will end: its promise never settles.
\<close>

datatype pg_error =
    UniqueViolation
  | ForeignKeyViolation
  | NotNullViolation
  | InvalidJson
  | InFailedTransaction
  | LockWait
  | SyntaxError
  | TypeError

subsection \<open>JSON fields\<close>

definition text_of :: "string \<Rightarrow> json_text" where
  "text_of s = (if s = [] then EmptyText else case parse_text s of Some v \<Rightarrow> Parsed v | None \<Rightarrow> Malformed)"

text \<open>\<open>String(v)\<close>, which \<open>JSON.parse\<close> makes of its argument.\<close>

fun js_text :: "json \<Rightarrow> string" where
  "js_text JNull = ''null''"
| "js_text (JBool b) = (if b then ''true'' else ''false'')"
| "js_text (JNum n) = show_int n"
| "js_text (JStr s) = s"
| "js_text (JArr xs) = comma_join (map (\<lambda>x. case x of JNull \<Rightarrow> [] | _ \<Rightarrow> js_text x) xs)"
| "js_text (JObj kvs) = ''[object Object]''"

text \<open>\<open>JSON.parse(v || dflt)\<close>\<close>

definition parse_json :: "json_text \<Rightarrow> json \<Rightarrow> pg_error + json" where
  "parse_json t dflt =
     (case t of
        Parsed v \<Rightarrow> Inr v
      | EmptyText \<Rightarrow> Inr dflt
      | Malformed \<Rightarrow> Inl SyntaxError
      | FromDriver v \<Rightarrow>
          if js_true (Some v) then (case text_of (js_text v) of Parsed w \<Rightarrow> Inr w | _ \<Rightarrow> Inl SyntaxError)
          else Inr dflt)"

text \<open>
  How the driver sends a parameter, as its documentation says: an array as an array literal of PostgreSQL,
  an object as JSON, any other value as its text.
\<close>

definition pg_quote :: "string \<Rightarrow> string" where
  "pg_quote s = [CHR 0x22] @ concat (map (\<lambda>c. if c \<in> {CHR 0x22, CHR 0x5C} then [CHR 0x5C, c] else [c]) s) @ [CHR 0x22]"

fun param_text :: "json \<Rightarrow> string" where
  "param_text JNull = ''NULL''"
| "param_text (JBool b) = (if b then ''true'' else ''false'')"
| "param_text (JNum n) = show_int n"
| "param_text (JStr s) = s"
| "param_text (JArr xs) = ''{'' @ comma_join (map (\<lambda>x. case x of JNull \<Rightarrow> ''NULL'' | JArr _ \<Rightarrow> param_text x
     | _ \<Rightarrow> pg_quote (param_text x)) xs) @ ''}''"
| "param_text (JObj kvs) = stringify (JObj kvs)"

text \<open>The value of a JSONB column: a text that is not JSON is refused.\<close>

definition column_json :: "json_text \<Rightarrow> pg_error + json" where
  "column_json t =
     (case t of
        Parsed v \<Rightarrow> Inr v
      | FromDriver v \<Rightarrow>
          (case v of
             JNull \<Rightarrow> Inl NotNullViolation
           | JObj _ \<Rightarrow> Inr v
           | _ \<Rightarrow> (case text_of (param_text v) of Parsed w \<Rightarrow> Inr w | _ \<Rightarrow> Inl InvalidJson))
      | _ \<Rightarrow> Inl InvalidJson)"

definition row_json :: "json_text \<Rightarrow> json" where
  "row_json t = (case column_json t of Inr v \<Rightarrow> v | Inl _ \<Rightarrow> JNull)"

definition json_error :: "stored_event \<Rightarrow> pg_error option" where
  "json_error e =
     (case column_json (se_payload_json e) of
        Inl err \<Rightarrow> Some err
      | Inr _ \<Rightarrow>
          (case column_json (se_tags_json e) of
             Inl err \<Rightarrow> Some err
           | Inr _ \<Rightarrow> (case column_json (se_privacy_tags_json e) of Inl err \<Rightarrow> Some err | Inr _ \<Rightarrow> None)))"

subsection \<open>The statements\<close>

definition falsy_null :: "string option \<Rightarrow> string option" where
  "falsy_null s = (if truthy s then s else None)"

definition pg_event_of :: "stored_event \<Rightarrow> pg_event" where
  "pg_event_of e =
     \<lparr>pe_event_id = se_event_id e, pe_platform = se_platform e, pe_project = se_project e,
      pe_workspace_uid = se_workspace_uid e, pe_session_id = se_session_id e,
      pe_event_type = se_event_type e, pe_ts = se_ts e, pe_payload_json = row_json (se_payload_json e),
      pe_tags_json = row_json (se_tags_json e),
      pe_privacy_tags_json = row_json (se_privacy_tags_json e),
      pe_dedupe_hash = se_dedupe_hash e, pe_observation_id = falsy_null (se_observation_id e),
      pe_correlation_id = falsy_null (se_correlation_id e), pe_created_at = se_created_at e\<rparr>"

definition has_session :: "string \<Rightarrow> pg_db \<Rightarrow> bool" where
  "has_session sid db = (\<exists>s \<in> set (pg_sessions db). ps_session_id s = sid)"

definition new_session :: "ms \<Rightarrow> stored_event \<Rightarrow> pg_session" where
  "new_session now e = \<lparr>ps_session_id = se_session_id e, ps_platform = se_platform e,
     ps_project = se_project e, ps_workspace_uid = se_workspace_uid e, ps_started_at = se_ts e,
     ps_updated_at = now\<rparr>"

definition insert_session :: "ms \<Rightarrow> stored_event \<Rightarrow> pg_db \<Rightarrow> pg_db" where
  "insert_session now e db =
     (if has_session (se_session_id e) db then db
      else db\<lparr>pg_sessions := pg_sessions db @ [new_session now e]\<rparr>)"

text \<open>The casts come before the conflict with the dedupe hash, the foreign key is checked after the insert.\<close>

definition insert_event :: "stored_event \<Rightarrow> pg_db \<Rightarrow> pg_error + bool \<times> pg_db" where
  "insert_event e db =
     (case json_error e of
        Some err \<Rightarrow> Inl err
      | None \<Rightarrow>
          if \<exists>r \<in> set (pg_events db). pe_dedupe_hash r = se_dedupe_hash e then Inr (False, db)
          else if \<exists>r \<in> set (pg_events db). pe_event_id r = se_event_id e then Inl UniqueViolation
          else if \<not> has_session (se_session_id e) db then Inl ForeignKeyViolation
          else Inr (True, db\<lparr>pg_events := pg_events db @ [pg_event_of e]\<rparr>))"

datatype pg_statement = PutSession stored_event | PutEvent stored_event

text \<open>What a statement does to the rows it sees; the flag says whether it inserted a row.\<close>

fun statement_effect :: "ms \<Rightarrow> pg_statement \<Rightarrow> pg_db \<Rightarrow> pg_error + bool \<times> pg_db" where
  "statement_effect now (PutSession e) db = Inr (\<not> has_session (se_session_id e) db, insert_session now e db)"
| "statement_effect now (PutEvent e) db = insert_event e db"

subsection \<open>Connections\<close>

record conn_tx =
  tx_sessions :: "pg_session list"
  tx_events :: "pg_event list"
  tx_failed :: bool

text \<open>The committed tables, and the rows of the transaction open on a connection.\<close>

record pg_server =
  sv_db :: pg_db
  sv_open :: "(nat \<times> conn_tx) list"

definition idle :: "pg_db \<Rightarrow> pg_server" where
  "idle db = \<lparr>sv_db = db, sv_open = []\<rparr>"

definition with_rows :: "pg_session list \<Rightarrow> pg_event list \<Rightarrow> pg_db \<Rightarrow> pg_db" where
  "with_rows ss es db = db\<lparr>pg_sessions := pg_sessions db @ ss, pg_events := pg_events db @ es\<rparr>"

definition rows_seen :: "nat \<Rightarrow> pg_server \<Rightarrow> pg_db" where
  "rows_seen c sv =
     (case map_of (sv_open sv) c of
        None \<Rightarrow> sv_db sv
      | Some t \<Rightarrow> with_rows (tx_sessions t) (tx_events t) (sv_db sv))"

text \<open>The rows of a statement are its transaction's; without one they are committed at once.\<close>

definition write_on :: "nat \<Rightarrow> pg_db \<Rightarrow> pg_server \<Rightarrow> pg_server" where
  "write_on c db sv =
     (case map_of (sv_open sv) c of
        None \<Rightarrow> sv\<lparr>sv_db := db\<rparr>
      | Some t \<Rightarrow>
          sv\<lparr>sv_open := AList.update c
                (t\<lparr>tx_sessions := drop (length (pg_sessions (sv_db sv))) (pg_sessions db),
                   tx_events := drop (length (pg_events (sv_db sv))) (pg_events db)\<rparr>) (sv_open sv)\<rparr>)"

definition in_failed :: "nat \<Rightarrow> pg_server \<Rightarrow> bool" where
  "in_failed c sv = (case map_of (sv_open sv) c of None \<Rightarrow> False | Some t \<Rightarrow> tx_failed t)"

text \<open>An error undoes the rows of the transaction, which then only takes its end.\<close>

definition fail_on :: "nat \<Rightarrow> pg_server \<Rightarrow> pg_server" where
  "fail_on c sv =
     (case map_of (sv_open sv) c of
        None \<Rightarrow> sv
      | Some t \<Rightarrow> sv\<lparr>sv_open := AList.update c \<lparr>tx_sessions = [], tx_events = [], tx_failed = True\<rparr> (sv_open sv)\<rparr>)"

text \<open>A row that another transaction has inserted, and not committed, holds its keys.\<close>

definition held_sessions :: "nat \<Rightarrow> pg_server \<Rightarrow> string list" where
  "held_sessions c sv = map ps_session_id (concat (map (tx_sessions \<circ> snd) (filter (\<lambda>t. fst t \<noteq> c) (sv_open sv))))"

definition held_events :: "nat \<Rightarrow> pg_server \<Rightarrow> pg_event list" where
  "held_events c sv = concat (map (tx_events \<circ> snd) (filter (\<lambda>t. fst t \<noteq> c) (sv_open sv)))"

fun must_wait :: "pg_statement \<Rightarrow> nat \<Rightarrow> pg_server \<Rightarrow> bool" where
  "must_wait (PutSession e) c sv =
     (\<not> has_session (se_session_id e) (rows_seen c sv) \<and> se_session_id e \<in> set (held_sessions c sv))"
| "must_wait (PutEvent e) c sv =
     (json_error e = None \<and> (\<forall>r \<in> set (pg_events (rows_seen c sv)). pe_dedupe_hash r \<noteq> se_dedupe_hash e) \<and>
      (se_dedupe_hash e \<in> pe_dedupe_hash ` set (held_events c sv) \<or>
       (\<forall>r \<in> set (pg_events (rows_seen c sv)). pe_event_id r \<noteq> se_event_id e) \<and>
       se_event_id e \<in> pe_event_id ` set (held_events c sv)))"

definition run_statement :: "ms \<Rightarrow> pg_statement \<Rightarrow> nat \<Rightarrow> pg_server \<Rightarrow> (pg_error + bool) \<times> pg_server" where
  "run_statement now st c sv =
     (if in_failed c sv then (Inl InFailedTransaction, sv)
      else if must_wait st c sv then (Inl LockWait, sv)
      else case statement_effect now st (rows_seen c sv) of
             Inl err \<Rightarrow> (Inl err, fail_on c sv)
           | Inr (n, db) \<Rightarrow> (Inr n, write_on c db sv))"

definition begin_on :: "nat \<Rightarrow> pg_server \<Rightarrow> pg_server" where
  "begin_on c sv =
     (case map_of (sv_open sv) c of
        None \<Rightarrow> sv\<lparr>sv_open := (c, \<lparr>tx_sessions = [], tx_events = [], tx_failed = False\<rparr>) # sv_open sv\<rparr>
      | Some _ \<Rightarrow> sv)"

definition rollback_on :: "nat \<Rightarrow> pg_server \<Rightarrow> pg_server" where
  "rollback_on c sv = sv\<lparr>sv_open := filter (\<lambda>t. fst t \<noteq> c) (sv_open sv)\<rparr>"

definition commit_on :: "nat \<Rightarrow> pg_server \<Rightarrow> pg_server" where
  "commit_on c sv = (rollback_on c sv)\<lparr>sv_db := (if in_failed c sv then sv_db sv else rows_seen c sv)\<rparr>"

subsection \<open>The adapter\<close>

text \<open>The n-th statement from here on goes over the connection \<open>fst s n\<close>.\<close>

type_synonym pg_client = "(nat \<Rightarrow> nat) \<times> pg_server"

definition runAsync :: "ms \<Rightarrow> pg_statement \<Rightarrow> pg_client \<Rightarrow> (pg_error + bool) \<times> pg_client" where
  "runAsync now st s =
     (case run_statement now st (fst s 0) (snd s) of (r, sv) \<Rightarrow> (r, fst s \<circ> Suc, sv))"

definition transactionAsync :: "(pg_client \<Rightarrow> (pg_error + 'a) \<times> pg_client) \<Rightarrow> pg_client \<Rightarrow> (pg_error + 'a) \<times> pg_client" where
  "transactionAsync fn s =
     (case fn (fst s \<circ> Suc, begin_on (fst s 0) (snd s)) of
        (Inr result, route, sv) \<Rightarrow> (Inr result, route \<circ> Suc, commit_on (route 0) sv)
      | (Inl err, route, sv) \<Rightarrow>
          if err = LockWait then (Inl err, route, sv)
          else (Inl err, route \<circ> Suc, rollback_on (route 0) sv))"

subsection \<open>One connection\<close>

text \<open>On an idle server whose only client has one connection, a statement in the transaction sees the
  committed rows and those of the transaction.\<close>

definition in_tx :: "nat \<Rightarrow> pg_db \<Rightarrow> pg_session list \<Rightarrow> pg_event list \<Rightarrow> pg_server" where
  "in_tx c db ss es = \<lparr>sv_db = db, sv_open = [(c, \<lparr>tx_sessions = ss, tx_events = es, tx_failed = False\<rparr>)]\<rparr>"

definition failed_tx :: "nat \<Rightarrow> pg_db \<Rightarrow> pg_server" where
  "failed_tx c db = \<lparr>sv_db = db, sv_open = [(c, \<lparr>tx_sessions = [], tx_events = [], tx_failed = True\<rparr>)]\<rparr>"

lemma const_route [simp]: "(\<lambda>n. c) \<circ> Suc = (\<lambda>n. c)"
  by (simp add: comp_def)

lemma idle_simps [simp]: "sv_db (idle db) = db" "sv_open (idle db) = []"
  by (simp_all add: idle_def)

lemma begin_idle [simp]: "begin_on c (idle db) = in_tx c db [] []"
  by (simp add: begin_on_def idle_def in_tx_def)

lemma seen_in_tx [simp]: "rows_seen c (in_tx c db ss es) = with_rows ss es db"
  by (simp add: rows_seen_def in_tx_def)

lemma ends_in_tx [simp]: "commit_on c (in_tx c db ss es) = idle (with_rows ss es db)"
  "rollback_on c (in_tx c db ss es) = idle db" "rollback_on c (failed_tx c db) = idle db"
  by (simp_all add: commit_on_def rollback_on_def rows_seen_def in_failed_def in_tx_def failed_tx_def idle_def)

lemma not_waiting [simp]: "\<not> must_wait st c (in_tx c db ss es)"
  by (cases st) (simp_all add: held_sessions_def held_events_def in_tx_def)

lemma with_rows_nil [simp]: "with_rows [] [] db = db"
  by (simp add: with_rows_def)

lemma write_in_tx [simp]: "write_on c (with_rows ss' es' db) (in_tx c db ss es) = in_tx c db ss' es'"
  by (simp add: write_on_def in_tx_def with_rows_def)

lemma fail_in_tx [simp]: "fail_on c (in_tx c db ss es) = failed_tx c db"
  by (simp add: fail_on_def in_tx_def failed_tx_def)

lemma not_failed [simp]: "\<not> in_failed c (in_tx c db ss es)"
  by (simp add: in_failed_def in_tx_def)

lemma insert_session_rows: "\<exists>ss'. insert_session now e (with_rows ss es db) = with_rows ss' es db"
proof (cases "has_session (se_session_id e) (with_rows ss es db)")
  case True
  then show ?thesis by (intro exI [of _ ss]) (simp add: insert_session_def)
next
  case False
  then show ?thesis by (intro exI [of _ "ss @ [new_session now e]"]) (simp add: insert_session_def with_rows_def)
qed

lemma insert_event_rows:
  assumes "insert_event e (with_rows ss es db) = Inr (n, db')"
  shows "\<exists>es'. db' = with_rows ss es' db"
proof (cases n)
  case True
  with assms have "db' = with_rows ss (es @ [pg_event_of e]) db"
    by (auto simp: insert_event_def with_rows_def split: option.splits if_splits)
  then show ?thesis by blast
next
  case False
  with assms have "db' = with_rows ss es db" by (auto simp: insert_event_def split: option.splits if_splits)
  then show ?thesis by blast
qed

lemma column_json_errors: "column_json t = Inl err \<Longrightarrow> err \<noteq> LockWait"
  unfolding column_json_def by (cases t) (auto split: json_value.splits json_text.splits)

lemma json_error_errors: "json_error e = Some err \<Longrightarrow> err \<noteq> LockWait"
  unfolding json_error_def by (auto split: sum.splits dest: column_json_errors)

lemma insert_event_errors: "insert_event e db = Inl err \<Longrightarrow> err \<noteq> LockWait"
  unfolding insert_event_def by (auto split: option.splits if_splits dest: json_error_errors)

end
