(* ===== verification/Projection.thy ===== *)
theory Projection
  imports Pg_Server
begin

text \<open>
  The managed backend's event store (\<open>projector/event-store.ts\<close>) and observation projector
  (\<open>projector/observation-projector.ts\<close>) over the tables and the connections of \<open>Pg_Server\<close>. The
  projector's statements stand alone, each committed at once. \<open>JSON.stringify\<close> of a payload is a parameter.
\<close>

subsection \<open>The event store\<close>

text \<open>The first event of each session of the batch, in order.\<close>

fun session_representatives :: "string set \<Rightarrow> stored_event list \<Rightarrow> stored_event list" where
  "session_representatives seen [] = []"
| "session_representatives seen (e # es) =
     (if se_session_id e \<in> seen then session_representatives seen es
      else e # session_representatives (insert (se_session_id e) seen) es)"

fun put_sessions :: "ms \<Rightarrow> stored_event list \<Rightarrow> pg_client \<Rightarrow> pg_error option \<times> pg_client" where
  "put_sessions now [] s = (None, s)"
| "put_sessions now (e # es) s =
     (case runAsync now (PutSession e) s of
        (Inl err, s1) \<Rightarrow> (Some err, s1)
      | (Inr _, s1) \<Rightarrow> put_sessions now es s1)"

fun put_events :: "ms \<Rightarrow> stored_event list \<Rightarrow> nat \<times> nat \<Rightarrow> pg_client \<Rightarrow> (pg_error + nat \<times> nat) \<times> pg_client" where
  "put_events now [] n s = (Inr n, s)"
| "put_events now (e # es) (inserted, deduplicated) s =
     (case runAsync now (PutEvent e) s of
        (Inl err, s1) \<Rightarrow> (Inl err, s1)
      | (Inr True, s1) \<Rightarrow> put_events now es (inserted + 1, deduplicated) s1
      | (Inr False, s1) \<Rightarrow> put_events now es (inserted, deduplicated + 1) s1)"

definition append_body :: "ms \<Rightarrow> stored_event list \<Rightarrow> pg_client \<Rightarrow> (pg_error + nat \<times> nat) \<times> pg_client" where
  "append_body now events s =
     (case put_sessions now (session_representatives {} events) s of
        (Some err, s1) \<Rightarrow> (Inl err, s1)
      | (None, s1) \<Rightarrow> put_events now events (0, 0) s1)"

definition append_over ::
  "(nat \<Rightarrow> nat) \<Rightarrow> ms \<Rightarrow> stored_event list \<Rightarrow> pg_server \<Rightarrow> (pg_error + nat \<times> nat) \<times> pg_server" where
  "append_over route now events sv =
     (if events = [] then (Inr (0, 0), sv)
      else case transactionAsync (append_body now events) (route, sv) of (r, _, sv1) \<Rightarrow> (r, sv1))"

text \<open>An append whose statements all go over one connection, to a server that nobody else writes to.\<close>

definition append_events :: "ms \<Rightarrow> stored_event list \<Rightarrow> pg_db \<Rightarrow> (pg_error + nat \<times> nat) \<times> pg_db" where
  "append_events now events db = (case append_over (\<lambda>n. 0) now events (idle db) of (r, sv) \<Rightarrow> (r, sv_db sv))"

record event_filter =
  ef_project :: "string option"
  ef_workspace_uid :: "string option"
  ef_platform :: "string option"
  ef_session_id :: "string option"
  ef_since :: "ms option"
  ef_until :: "ms option"
  ef_limit :: "int option"
  ef_offset :: "int option"

definition text_matches :: "string option \<Rightarrow> string \<Rightarrow> bool" where
  "text_matches want have_it = (truthy want \<longrightarrow> want = Some have_it)"

definition filter_matches :: "event_filter \<Rightarrow> pg_event \<Rightarrow> bool" where
  "filter_matches f r \<longleftrightarrow>
     text_matches (ef_project f) (pe_project r) \<and> text_matches (ef_workspace_uid f) (pe_workspace_uid r) \<and>
     text_matches (ef_platform f) (pe_platform r) \<and> text_matches (ef_session_id f) (pe_session_id r) \<and>
     (case ef_since f of None \<Rightarrow> True | Some t \<Rightarrow> t \<le> pe_ts r) \<and>
     (case ef_until f of None \<Rightarrow> True | Some t \<Rightarrow> pe_ts r \<le> t)"

definition read_events :: "event_filter \<Rightarrow> pg_db \<Rightarrow> pg_event list" where
  "read_events f db =
     (let rows = order_desc pe_ts (sql_where (filter_matches f) (pg_events db));
          skipped = (case ef_offset f of None \<Rightarrow> rows
             | Some n \<Rightarrow> if n = 0 then rows else drop (nat (max 0 n)) rows)
      in case ef_limit f of None \<Rightarrow> skipped
         | Some n \<Rightarrow> if n = 0 then skipped else take (nat (max 1 n)) skipped)"

definition getLatestTimestamp :: "string \<Rightarrow> string \<Rightarrow> pg_db \<Rightarrow> ms option" where
  "getLatestTimestamp project platform db =
     map_option pe_ts (sql_get (order_desc pe_ts
       (sql_where (\<lambda>r. pe_project r = project \<and> pe_platform r = platform) (pg_events db))))"

subsection \<open>The observation projector\<close>

definition upsert_session :: "ms \<Rightarrow> stored_event \<Rightarrow> pg_db \<Rightarrow> pg_db" where
  "upsert_session now e db =
     (if has_session (se_session_id e) db
      then db\<lparr>pg_sessions := sql_update (\<lambda>s. ps_session_id s = se_session_id e)
                (\<lambda>s. s\<lparr>ps_updated_at := now\<rparr>) (pg_sessions db)\<rparr>
      else db\<lparr>pg_sessions := pg_sessions db @ [new_session now e]\<rparr>)"

definition observation_of :: "(json \<Rightarrow> string) \<Rightarrow> ms \<Rightarrow> stored_event \<Rightarrow> string \<Rightarrow> json \<Rightarrow> pg_observation" where
  "observation_of print_json now e oid payload =
     (let content = or_else (as_string (jget (Some payload) ''content'')) (print_json payload) in
      \<lparr>po_id = oid, po_event_id = se_event_id e, po_platform = se_platform e, po_project = se_project e,
       po_workspace_uid = se_workspace_uid e, po_session_id = se_session_id e,
       po_title = as_string (jget (Some payload) ''title''), po_content = content,
       po_content_redacted = or_else (as_string (jget (Some payload) ''content_redacted'')) content,
       po_observation_type = (if se_event_type e = ''checkpoint'' then ''checkpoint'' else ''context''),
       po_event_time = se_event_time e,
       po_observed_at = (case se_observed_at e of Some t \<Rightarrow> Inl t | None \<Rightarrow> Inr (se_ts e)),
       po_valid_from = se_valid_from e, po_valid_to = se_valid_to e, po_supersedes = se_supersedes e,
       po_invalidated_at = se_invalidated_at e, po_tags_json = row_json (se_tags_json e),
       po_privacy_tags_json = row_json (se_privacy_tags_json e), po_created_at = now, po_updated_at = now\<rparr>)"

definition has_event :: "string \<Rightarrow> pg_db \<Rightarrow> bool" where
  "has_event i db = (\<exists>r \<in> set (pg_events db). pe_event_id r = i)"

definition has_observation :: "string \<Rightarrow> pg_db \<Rightarrow> bool" where
  "has_observation i db = (\<exists>r \<in> set (pg_observations db). po_id r = i)"

text \<open>ON CONFLICT (id) DO UPDATE: the columns that a later event for the observation overwrites.\<close>

definition overwrite :: "pg_observation \<Rightarrow> pg_observation \<Rightarrow> pg_observation" where
  "overwrite n r = r\<lparr>po_content := po_content n, po_content_redacted := po_content_redacted n,
     po_event_time := po_event_time n, po_observed_at := po_observed_at n, po_valid_from := po_valid_from n,
     po_valid_to := po_valid_to n, po_supersedes := po_supersedes n,
     po_invalidated_at := po_invalidated_at n, po_updated_at := po_updated_at n\<rparr>"

definition upsert_observation :: "pg_observation \<Rightarrow> pg_db \<Rightarrow> pg_error + pg_db" where
  "upsert_observation n db =
     (if has_observation (po_id n) db
      then Inr (db\<lparr>pg_observations := sql_update (\<lambda>r. po_id r = po_id n) (overwrite n) (pg_observations db)\<rparr>)
      else if \<not> has_event (po_event_id n) db then Inl ForeignKeyViolation
      else Inr (db\<lparr>pg_observations := pg_observations db @ [n]\<rparr>))"

text \<open>The statement casts the tags of the event to JSONB, also when the observation exists.\<close>

definition tags_error :: "stored_event \<Rightarrow> pg_error option" where
  "tags_error e =
     (case column_json (se_tags_json e) of
        Inl err \<Rightarrow> Some err
      | Inr _ \<Rightarrow> (case column_json (se_privacy_tags_json e) of Inl err \<Rightarrow> Some err | Inr _ \<Rightarrow> None))"

text \<open>What \<open>for (const tag of tags)\<close> runs over: the elements of an array or the characters of a text; other
  values are not iterable.\<close>

definition tags_of :: "json \<Rightarrow> pg_error + json list" where
  "tags_of v =
     (case v of
        JArr xs \<Rightarrow> Inr xs
      | JStr s \<Rightarrow> Inr (map (\<lambda>c. JStr [c]) s)
      | _ \<Rightarrow> Inl TypeError)"

definition insert_tag :: "string \<Rightarrow> string \<Rightarrow> pg_db \<Rightarrow> pg_db" where
  "insert_tag oid tag db =
     (if (oid, tag) \<in> set (pg_tags db) then db else db\<lparr>pg_tags := pg_tags db @ [(oid, tag)]\<rparr>)"

fun insert_tags :: "string \<Rightarrow> json list \<Rightarrow> pg_db \<Rightarrow> pg_error option \<times> pg_db" where
  "insert_tags oid [] db = (None, db)"
| "insert_tags oid (JNull # ts) db = (Some NotNullViolation, db)"
| "insert_tags oid (t # ts) db = insert_tags oid ts (insert_tag oid (param_text t) db)"

text \<open>What an exception leaves behind: the statements before it have run.\<close>

definition project_event :: "(json \<Rightarrow> string) \<Rightarrow> ms \<Rightarrow> stored_event \<Rightarrow> pg_db \<Rightarrow> pg_error option \<times> pg_db" where
  "project_event print_json now e db =
     (let db1 = upsert_session now e db in
      if \<not> truthy (se_observation_id e) then (None, db1)
      else let oid = or_else (se_observation_id e) [] in
        case parse_json (se_payload_json e) (JObj []) of
          Inl err \<Rightarrow> (Some err, db1)
        | Inr payload \<Rightarrow>
            if payload = JNull then (Some TypeError, db1)
            else if tags_error e \<noteq> None then (tags_error e, db1)
            else (case upsert_observation (observation_of print_json now e oid payload) db1 of
                    Inl err \<Rightarrow> (Some err, db1)
                  | Inr db2 \<Rightarrow>
                      (case parse_json (se_tags_json e) (JArr []) of
                         Inl err \<Rightarrow> (Some err, db2)
                       | Inr tv \<Rightarrow>
                           (case tags_of tv of
                              Inl err \<Rightarrow> (Some err, db2)
                            | Inr tags \<Rightarrow> insert_tags oid tags db2))))"

record projection_result =
  pj_events_projected :: nat
  pj_errors :: "(string \<times> pg_error) list"

fun project_events :: "(json \<Rightarrow> string) \<Rightarrow> ms \<Rightarrow> stored_event list \<Rightarrow> projection_result \<times> pg_db \<Rightarrow> projection_result \<times> pg_db" where
  "project_events print_json now [] s = s"
| "project_events print_json now (e # es) (res, db) =
     (case project_event print_json now e db of
        (None, db1) \<Rightarrow>
          project_events print_json now es (res\<lparr>pj_events_projected := pj_events_projected res + 1\<rparr>, db1)
      | (Some err, db1) \<Rightarrow>
          project_events print_json now es (res\<lparr>pj_errors := pj_errors res @ [(se_event_id e, err)]\<rparr>, db1))"

definition project_batch :: "(json \<Rightarrow> string) \<Rightarrow> ms \<Rightarrow> stored_event list \<Rightarrow> pg_db \<Rightarrow> projection_result \<times> pg_db" where
  "project_batch print_json now events db =
     project_events print_json now events (\<lparr>pj_events_projected = 0, pj_errors = []\<rparr>, db)"

text \<open>An event as it is read back from the event table.\<close>

definition event_of_row :: "pg_event \<Rightarrow> stored_event" where
  "event_of_row r =
     \<lparr>se_event_id = pe_event_id r, se_platform = pe_platform r, se_project = pe_project r,
      se_workspace_uid = pe_workspace_uid r, se_session_id = pe_session_id r,
      se_event_type = pe_event_type r, se_ts = pe_ts r, se_payload_json = FromDriver (pe_payload_json r),
      se_tags_json = FromDriver (pe_tags_json r),
      se_privacy_tags_json = FromDriver (pe_privacy_tags_json r),
      se_dedupe_hash = pe_dedupe_hash r, se_observation_id = pe_observation_id r,
      se_correlation_id = pe_correlation_id r, se_event_time = None, se_observed_at = None,
      se_valid_from = None, se_valid_to = None, se_supersedes = None, se_invalidated_at = None,
      se_created_at = pe_created_at r\<rparr>"

definition rebuild :: "(json \<Rightarrow> string) \<Rightarrow> ms \<Rightarrow> pg_db \<Rightarrow> projection_result \<times> pg_db" where
  "rebuild print_json now db =
     (let db1 = db\<lparr>pg_observations := [], pg_tags := []\<rparr>
      in project_batch print_json now (map event_of_row (order_asc pe_ts (pg_events db1))) db1)"

subsection \<open>Appending\<close>

text \<open>The events of a batch that are new: the first of each dedupe hash that is not known.\<close>

fun fresh_events :: "string set \<Rightarrow> stored_event list \<Rightarrow> stored_event list" where
  "fresh_events known [] = []"
| "fresh_events known (e # es) =
     (if se_dedupe_hash e \<in> known then fresh_events known es
      else e # fresh_events (insert (se_dedupe_hash e) known) es)"

definition hashes :: "pg_db \<Rightarrow> string set" where
  "hashes db = pe_dedupe_hash ` set (pg_events db)"

lemma pg_event_of_simps [simp]: "pe_dedupe_hash (pg_event_of e) = se_dedupe_hash e"
  "pe_event_id (pg_event_of e) = se_event_id e" "pe_session_id (pg_event_of e) = se_session_id e"
  by (simp_all add: pg_event_of_def)

lemma pg_event_of_comp [simp]: "pe_event_id \<circ> pg_event_of = se_event_id" "pe_dedupe_hash \<circ> pg_event_of = se_dedupe_hash"
  by (simp_all add: fun_eq_iff)

lemma insert_event_cases:
  "insert_event e db =
     (case json_error e of
        Some err \<Rightarrow> Inl err
      | None \<Rightarrow>
          if se_dedupe_hash e \<in> hashes db then Inr (False, db)
          else if se_event_id e \<in> pe_event_id ` set (pg_events db) then Inl UniqueViolation
          else if \<not> has_session (se_session_id e) db then Inl ForeignKeyViolation
          else Inr (True, db\<lparr>pg_events := pg_events db @ [pg_event_of e]\<rparr>))"
proof -
  have "(\<exists>r \<in> set (pg_events db). pe_dedupe_hash r = se_dedupe_hash e) = (se_dedupe_hash e \<in> hashes db)"
    "(\<exists>r \<in> set (pg_events db). pe_event_id r = se_event_id e) = (se_event_id e \<in> pe_event_id ` set (pg_events db))"
    by (auto simp: hashes_def image_iff) metis+
  then show ?thesis by (simp add: insert_event_def split: option.split)
qed

text \<open>The events of a batch in one transaction, as a function of the rows it sees.\<close>

fun insert_events :: "stored_event list \<Rightarrow> nat \<times> nat \<times> pg_db \<Rightarrow> pg_error + nat \<times> nat \<times> pg_db" where
  "insert_events [] s = Inr s"
| "insert_events (e # es) (inserted, deduplicated, db) =
     (case insert_event e db of
        Inl err \<Rightarrow> Inl err
      | Inr (True, db1) \<Rightarrow> insert_events es (inserted + 1, deduplicated, db1)
      | Inr (False, db1) \<Rightarrow> insert_events es (inserted, deduplicated + 1, db1))"

lemma run_in_tx:
  "run_statement now st c (in_tx c db ss es) =
     (case statement_effect now st (with_rows ss es db) of
        Inl err \<Rightarrow> (Inl err, failed_tx c db)
      | Inr (n, db') \<Rightarrow> (Inr n, write_on c db' (in_tx c db ss es)))"
  by (simp add: run_statement_def split: sum.split)

lemma put_sessions_in_tx:
  "\<exists>ss'. fold (insert_session now) reps (with_rows ss es db) = with_rows ss' es db \<and>
     put_sessions now reps (\<lambda>n. c, in_tx c db ss es) = (None, \<lambda>n. c, in_tx c db ss' es)"
proof (induction reps arbitrary: ss)
  case Nil
  then show ?case by (intro exI [of _ ss]) simp
next
  case (Cons e reps)
  obtain ss1 where s1: "insert_session now e (with_rows ss es db) = with_rows ss1 es db"
    using insert_session_rows by blast
  obtain ss' where "fold (insert_session now) reps (with_rows ss1 es db) = with_rows ss' es db"
    "put_sessions now reps (\<lambda>n. c, in_tx c db ss1 es) = (None, \<lambda>n. c, in_tx c db ss' es)"
    using Cons.IH by blast
  with s1 show ?case by (intro exI [of _ ss']) (simp add: runAsync_def run_in_tx)
qed

lemma put_events_in_tx:
  "case insert_events xs (i, d, with_rows ss es db) of
     Inl err \<Rightarrow> err \<noteq> LockWait \<and>
       put_events now xs (i, d) (\<lambda>n. c, in_tx c db ss es) = (Inl err, \<lambda>n. c, failed_tx c db)
   | Inr (i', d', db') \<Rightarrow> (\<exists>es'. db' = with_rows ss es' db \<and>
       put_events now xs (i, d) (\<lambda>n. c, in_tx c db ss es) = (Inr (i', d'), \<lambda>n. c, in_tx c db ss es'))"
proof (induction xs arbitrary: i d es)
  case Nil
  then show ?case by auto
next
  case (Cons e xs)
  show ?case
  proof (cases "insert_event e (with_rows ss es db)")
    case (Inl err)
    then show ?thesis using insert_event_errors [OF Inl] by (simp add: runAsync_def run_in_tx)
  next
    case (Inr r)
    obtain n es1 where r: "r = (n, with_rows ss es1 db)"
      using insert_event_rows [of e ss es db "fst r" "snd r"] Inr by (metis prod.collapse)
    show ?thesis
      using Cons.IH [of "i + 1" d es1] Cons.IH [of i "d + 1" es1] Inr r
      by (cases n) (auto simp: runAsync_def run_in_tx split: sum.splits)
  qed
qed

lemma append_over_one:
  assumes "es \<noteq> []"
  shows "append_over (\<lambda>n. c) now es (idle db) =
    (case insert_events es (0, 0, fold (insert_session now) (session_representatives {} es) db) of
       Inl err \<Rightarrow> (Inl err, idle db)
     | Inr (i, d, db') \<Rightarrow> (Inr (i, d), idle db'))"
proof -
  obtain ss where ss: "fold (insert_session now) (session_representatives {} es) db = with_rows ss [] db"
    "put_sessions now (session_representatives {} es) (\<lambda>n. c, in_tx c db [] []) = (None, \<lambda>n. c, in_tx c db ss [])"
    using put_sessions_in_tx [of now "session_representatives {} es" "[]" "[]" db c] by auto
  show ?thesis
    using put_events_in_tx [where xs = es and i = 0 and d = 0 and ss = ss and es = "[]" and db = db and now = now and c = c] assms
    by (auto simp: append_over_def transactionAsync_def append_body_def ss split: sum.splits)
qed

lemma append_events_eq:
  "append_events now events db =
     (if events = [] then (Inr (0, 0), db)
      else (let db1 = fold (insert_session now) (session_representatives {} events) db in
            case insert_events events (0, 0, db1) of
              Inl err \<Rightarrow> (Inl err, db)
            | Inr (inserted, deduplicated, db2) \<Rightarrow> (Inr (inserted, deduplicated), db2)))"
proof (cases "events = []")
  case True
  then show ?thesis by (simp add: append_events_def append_over_def idle_def)
next
  case False
  then show ?thesis
    by (simp add: append_events_def append_over_one [OF False] Let_def split: sum.split)
qed

lemma insert_event_fresh:
  assumes "insert_event e db = Inr (n, db')"
  shows "json_error e = None \<and>
    (if se_dedupe_hash e \<in> hashes db then \<not> n \<and> db' = db
     else n \<and> se_event_id e \<notin> pe_event_id ` set (pg_events db) \<and>
       db' = db\<lparr>pg_events := pg_events db @ [pg_event_of e]\<rparr>)"
  using assms by (auto simp: insert_event_cases split: option.splits if_splits)

lemma insert_events_ok:
  "insert_events es (i, d, db) = Inr (i', d', db') \<Longrightarrow>
     i' = i + length (fresh_events (hashes db) es) \<and> i' + d' = i + d + length es \<and>
     db' = db\<lparr>pg_events := pg_events db @ map pg_event_of (fresh_events (hashes db) es)\<rparr> \<and>
     (\<forall>e \<in> set es. json_error e = None) \<and>
     (distinct (map pe_event_id (pg_events db)) \<longrightarrow>
       distinct (map pe_event_id (pg_events db @ map pg_event_of (fresh_events (hashes db) es))))"
proof (induction es arbitrary: i d db)
  case (Cons e es)
  obtain n db1 where n: "insert_event e db = Inr (n, db1)"
    using Cons.prems by (cases "insert_event e db") auto
  note e = insert_event_fresh [OF n]
  show ?case
  proof (cases "se_dedupe_hash e \<in> hashes db")
    case True
    then show ?thesis using Cons.IH [of i "d + 1" db] Cons.prems n e by simp
  next
    case False
    let ?db1 = "db\<lparr>pg_events := pg_events db @ [pg_event_of e]\<rparr>"
    have "hashes ?db1 = insert (se_dedupe_hash e) (hashes db)" by (auto simp: hashes_def)
    then show ?thesis using Cons.IH [of "i + 1" d ?db1] Cons.prems n e False by auto
  qed
qed simp

lemma insert_events_known:
  "\<forall>e \<in> set es. se_dedupe_hash e \<in> hashes db \<and> json_error e = None \<Longrightarrow>
     insert_events es (i, d, db) = Inr (i, d + length es, db)"
  by (induction es arbitrary: d) (simp_all add: insert_event_cases)

lemma insert_events_fail:
  "insert_events es (i, d, db) = Inl err \<Longrightarrow> \<forall>e \<in> set es. has_session (se_session_id e) db \<Longrightarrow>
     (\<exists>e \<in> set es. json_error e = Some err) \<or>
     err = UniqueViolation \<and>
       \<not> distinct (map pe_event_id (pg_events db) @ map se_event_id (fresh_events (hashes db) es))"
proof (induction es arbitrary: i d db)
  case (Cons e es)
  show ?case
  proof (cases "insert_event e db")
    case (Inl err1)
    then show ?thesis using Cons.prems
      by (auto simp: insert_event_cases split: option.splits if_splits)
  next
    case (Inr r)
    obtain n db1 where n: "insert_event e db = Inr (n, db1)" using Inr by (cases r) simp
    note e = insert_event_fresh [OF n]
    show ?thesis
    proof (cases "se_dedupe_hash e \<in> hashes db")
      case True
      then show ?thesis using Cons.IH [of i "d + 1" db] Cons.prems n e by auto
    next
      case False
      let ?db1 = "db\<lparr>pg_events := pg_events db @ [pg_event_of e]\<rparr>"
      have h: "hashes ?db1 = insert (se_dedupe_hash e) (hashes db)" by (auto simp: hashes_def)
      have "\<forall>x \<in> set es. has_session (se_session_id x) ?db1" using Cons.prems(2) by (simp add: has_session_def)
      then show ?thesis using Cons.IH [of "i + 1" d ?db1] Cons.prems n e False h by auto
    qed
  qed
qed simp

lemma fresh_covers: "e \<in> set es \<Longrightarrow> se_dedupe_hash e \<in> K \<union> se_dedupe_hash ` set (fresh_events K es)"
  by (induction es arbitrary: K) auto

lemma fresh_subset: "set (fresh_events K es) \<subseteq> set es"
  by (induction es arbitrary: K) auto

lemma fresh_not_known: "e \<in> set (fresh_events K es) \<Longrightarrow> se_dedupe_hash e \<notin> K"
  by (induction es arbitrary: K) (auto split: if_splits)

lemma fresh_distinct: "distinct (map se_dedupe_hash (fresh_events K es))"
proof (induction es arbitrary: K)
  case (Cons e es)
  have "se_dedupe_hash e \<notin> se_dedupe_hash ` set (fresh_events (insert (se_dedupe_hash e) K) es)"
    using fresh_not_known by fastforce
  then show ?case using Cons by simp
qed simp

lemma insert_session_keeps [simp]: "pg_events (insert_session now e db) = pg_events db"
  "pg_observations (insert_session now e db) = pg_observations db" "pg_tags (insert_session now e db) = pg_tags db"
  by (simp_all add: insert_session_def)

lemma insert_sessions_keep [simp]: "pg_events (fold (insert_session now) es db) = pg_events db"
  "pg_observations (fold (insert_session now) es db) = pg_observations db"
  "pg_tags (fold (insert_session now) es db) = pg_tags db"
  by (induction es arbitrary: db) auto

lemma hashes_sessions [simp]: "hashes (fold (insert_session now) es db) = hashes db"
  by (simp add: hashes_def)

definition session_ids :: "pg_db \<Rightarrow> string set" where
  "session_ids db = ps_session_id ` set (pg_sessions db)"

lemma has_session_iff: "has_session i db \<longleftrightarrow> i \<in> session_ids db"
  by (auto simp: has_session_def session_ids_def)

lemma session_ids_insert: "session_ids (insert_session now e db) = insert (se_session_id e) (session_ids db)"
  by (auto simp: insert_session_def has_session_iff session_ids_def new_session_def)

lemma session_ids_inserts: "session_ids (fold (insert_session now) es db) = se_session_id ` set es \<union> session_ids db"
  by (induction es arbitrary: db) (auto simp: session_ids_insert)

lemma representatives_cover: "se_session_id ` set (session_representatives seen es) \<union> seen = se_session_id ` set es \<union> seen"
proof (induction es arbitrary: seen)
  case (Cons e es)
  show ?case
  proof (cases "se_session_id e \<in> seen")
    case True
    then show ?thesis using Cons.IH[of seen] by auto
  next
    case False
    then show ?thesis using Cons.IH[of "insert (se_session_id e) seen"] by simp
  qed
qed simp

lemma known_sessions: "\<forall>e \<in> set es. se_session_id e \<in> session_ids db \<Longrightarrow> fold (insert_session now) es db = db"
  by (induction es) (auto simp: insert_session_def has_session_iff)

lemma representatives_subset: "set (session_representatives seen es) \<subseteq> set es"
  by (induction es arbitrary: seen) auto

lemma sessions_ensured:
  "session_ids (fold (insert_session now) (session_representatives {} es) db) = se_session_id ` set es \<union> session_ids db"
  using representatives_cover [of "{}" es] by (simp add: session_ids_inserts)

lemma append_ok:
  assumes "append_events now es db = (Inr (i, d), db')" "es \<noteq> []"
  shows "i + d = length es \<and> i = length (fresh_events (hashes db) es) \<and>
    pg_events db' = pg_events db @ map pg_event_of (fresh_events (hashes db) es) \<and>
    pg_observations db' = pg_observations db \<and> pg_tags db' = pg_tags db \<and>
    session_ids db' = se_session_id ` set es \<union> session_ids db \<and>
    pg_sessions db' = pg_sessions (fold (insert_session now) (session_representatives {} es) db) \<and>
    (\<forall>e \<in> set es. json_error e = None) \<and>
    (distinct (map pe_event_id (pg_events db)) \<longrightarrow> distinct (map pe_event_id (pg_events db')))"
proof -
  let ?db1 = "fold (insert_session now) (session_representatives {} es) db"
  have ok: "insert_events es (0, 0, ?db1) = Inr (i, d, db')"
    using assms by (auto simp: append_events_eq Let_def split: sum.splits)
  show ?thesis using insert_events_ok [OF ok] sessions_ensured [of now es db] by (simp add: session_ids_def)
qed

lemma append_again:
  assumes "append_events now es db = (Inr (i, d), db')" "es \<noteq> []"
  shows "append_events later es db' = (Inr (0, length es), db')"
proof -
  note ok = append_ok [OF assms]
  have "se_dedupe_hash e \<in> hashes db'" if "e \<in> set es" for e
  proof -
    have "hashes db' = hashes db \<union> se_dedupe_hash ` set (fresh_events (hashes db) es)"
      using ok by (simp add: hashes_def image_Un image_image)
    then show ?thesis using fresh_covers [OF that] by simp
  qed
  then have known: "\<forall>e \<in> set es. se_dedupe_hash e \<in> hashes db' \<and> json_error e = None" using ok by simp
  have "fold (insert_session later) (session_representatives {} es) db' = db'"
    by (rule known_sessions) (use ok representatives_subset [of "{}" es] in auto)
  then show ?thesis using assms(2) insert_events_known [OF known, of 0 0] by (simp add: append_events_eq)
qed

lemma append_fails:
  assumes "append_events now es db = (Inl err, db')"
  shows "(\<exists>e \<in> set es. json_error e = Some err) \<or>
    err = UniqueViolation \<and> \<not> distinct (map pe_event_id (pg_events db) @ map se_event_id (fresh_events (hashes db) es))"
proof -
  let ?db1 = "fold (insert_session now) (session_representatives {} es) db"
  have "insert_events es (0, 0, ?db1) = Inl err"
    using assms by (auto simp: append_events_eq Let_def split: sum.splits if_splits)
  moreover have "\<forall>e \<in> set es. has_session (se_session_id e) ?db1"
    by (simp add: has_session_iff sessions_ensured)
  ultimately show ?thesis using insert_events_fail [of es 0 0 ?db1 err] by simp
qed

lemma append_over_shared:
  "append_over (\<lambda>n. c) now es (idle db) =
     (case append_events now es db of (r, db') \<Rightarrow> (r, idle db'))"
proof (cases "es = []")
  case True
  then show ?thesis by (simp add: append_over_def append_events_eq)
next
  case False
  then show ?thesis by (simp add: append_over_one append_events_eq Let_def split: sum.split)
qed

text \<open>C23. Appending is exactly-once under retries, when the statements of an append go over one connection
  to a server with no other transaction open. An append that succeeds leaves no transaction open, accounts
  for every event, keeps the log as it was and adds exactly the first event of each dedupe hash the log did
  not have, in order; sending the same batch again, as a retry does, inserts nothing and leaves every table
  as it is. An append that fails leaves the server as it was: no transaction is open and nothing is
  committed. It fails only when a JSON field of an event is no JSON or when the id of a new event is taken.\<close>

theorem append_is_exactly_once:
  assumes "append_over (\<lambda>n. c) now es (idle db) = (result, sv)"
  shows "case result of
      Inl err \<Rightarrow> sv = idle db \<and>
        ((\<exists>e \<in> set es. json_error e = Some err) \<or>
         err = UniqueViolation \<and>
           \<not> distinct (map pe_event_id (pg_events db) @ map se_event_id (fresh_events (hashes db) es)))
    | Inr (i, d) \<Rightarrow> sv_open sv = [] \<and> i + d = length es \<and> i = length (fresh_events (hashes db) es) \<and>
        pg_events (sv_db sv) = pg_events db @ map pg_event_of (fresh_events (hashes db) es) \<and>
        append_over (\<lambda>n. c) later es sv = (Inr (0, length es), sv)"
proof -
  obtain db' where a: "append_events now es db = (result, db')" "sv = idle db'"
    using assms by (auto simp: append_over_shared split: prod.splits)
  show ?thesis
  proof (cases result)
    case (Inl err)
    then have f: "append_events now es db = (Inl err, db')" using a by simp
    have "db' = db" using f by (auto simp: append_events_eq Let_def split: sum.splits if_splits)
    then show ?thesis using append_fails [OF f] Inl a(2) by simp
  next
    case (Inr id)
    obtain i d where id: "id = (i, d)" by (cases id)
    show ?thesis
    proof (cases "es = []")
      case True
      then show ?thesis using a Inr id by (auto simp: append_events_eq append_over_def)
    next
      case False
      have "append_events now es db = (Inr (i, d), db')" using a Inr id by simp
      from append_ok [OF this False] append_again [OF this False, of later] show ?thesis
        by (simp add: Inr id a(2) append_over_shared)
    qed
  qed
qed

subsection \<open>Two connections\<close>

text \<open>
  A pool may pick another connection for a later statement. When BEGIN runs on the connection 1 and the rest
  on the connection 0, an append that fails leaves the session and the events before the failure committed,
  and the transaction of the connection 1 open. When the events go over the connection of BEGIN but COMMIT
  does not, the append reports an event as inserted that is not committed.
\<close>

definition pool_event :: "string \<Rightarrow> json_text \<Rightarrow> stored_event" where
  "pool_event i payload = \<lparr>se_event_id = i, se_platform = ''codex'', se_project = ''p'', se_workspace_uid = [],
     se_session_id = ''s1'', se_event_type = ''user_prompt'', se_ts = 5, se_payload_json = payload,
     se_tags_json = Parsed (JArr []), se_privacy_tags_json = Parsed (JArr []), se_dedupe_hash = i,
     se_observation_id = None, se_correlation_id = None, se_event_time = None, se_observed_at = None,
     se_valid_from = None, se_valid_to = None, se_supersedes = None, se_invalidated_at = None, se_created_at = 5\<rparr>"

definition two_routes :: "nat list \<Rightarrow> nat \<Rightarrow> nat" where
  "two_routes cs n = (if n < length cs then cs ! n else 0)"

lemma pool_append_leaves_rows:
  "case append_over (two_routes [1]) 9 [pool_event ''e1'' (Parsed (JObj [])), pool_event ''e2'' EmptyText]
       (idle \<lparr>pg_sessions = [], pg_events = [], pg_observations = [], pg_tags = []\<rparr>) of
     (result, sv) \<Rightarrow> result = Inl InvalidJson \<and> map pe_event_id (pg_events (sv_db sv)) = [''e1''] \<and>
       map fst (sv_open sv) = [1]"
  by code_simp

lemma pool_append_loses_rows:
  "case append_over (two_routes [1, 0, 1]) 9 [pool_event ''e1'' (Parsed (JObj []))]
       (idle \<lparr>pg_sessions = [], pg_events = [], pg_observations = [], pg_tags = []\<rparr>) of
     (result, sv) \<Rightarrow> result = Inr (1, 0) \<and> pg_events (sv_db sv) = [] \<and> map fst (sv_open sv) = [1]"
  by code_simp

subsection \<open>The tables hold together\<close>

text \<open>Unique keys, and every foreign key of the model.\<close>

definition wf_pg :: "pg_db \<Rightarrow> bool" where
  "wf_pg db \<longleftrightarrow>
     distinct (map pe_event_id (pg_events db)) \<and> distinct (map pe_dedupe_hash (pg_events db)) \<and>
     pe_session_id ` set (pg_events db) \<subseteq> session_ids db \<and>
     distinct (map po_id (pg_observations db)) \<and>
     po_event_id ` set (pg_observations db) \<subseteq> pe_event_id ` set (pg_events db) \<and>
     po_session_id ` set (pg_observations db) \<subseteq> session_ids db \<and>
     distinct (pg_tags db) \<and> fst ` set (pg_tags db) \<subseteq> po_id ` set (pg_observations db)"

definition empty_pg :: pg_db where
  "empty_pg = \<lparr>pg_sessions = [], pg_events = [], pg_observations = [], pg_tags = []\<rparr>"

lemma has_event_iff: "has_event i db \<longleftrightarrow> i \<in> pe_event_id ` set (pg_events db)"
  by (auto simp: has_event_def)

lemma has_observation_iff: "has_observation i db \<longleftrightarrow> i \<in> po_id ` set (pg_observations db)"
  by (auto simp: has_observation_def)

lemma append_refused: "fst (append_events now es db) = Inl err \<Longrightarrow> snd (append_events now es db) = db"
  by (auto simp: append_events_eq Let_def split: sum.splits if_splits)

lemma wf_append:
  assumes w: "wf_pg db"
  shows "wf_pg (snd (append_events now es db))"
proof (cases "es = []")
  case True
  then show ?thesis using w by (simp add: append_events_eq)
next
  case False
  show ?thesis
  proof (cases "fst (append_events now es db)")
    case (Inl err)
    then show ?thesis using w append_refused by metis
  next
    case (Inr id)
    obtain i d where id: "id = (i, d)" by (cases id)
    define db' where "db' = snd (append_events now es db)"
    have a: "append_events now es db = (Inr (i, d), db')" using Inr id by (simp add: db'_def prod_eq_iff)
    note ok = append_ok[OF a False]
    let ?f = "fresh_events (hashes db) es"
    have "map pe_dedupe_hash (pg_events db') = map pe_dedupe_hash (pg_events db) @ map se_dedupe_hash ?f"
      using ok by (simp add: comp_def)
    moreover have "se_dedupe_hash ` set ?f \<inter> hashes db = {}" using fresh_not_known by blast
    ultimately have "distinct (map pe_dedupe_hash (pg_events db'))"
      using w fresh_distinct[of "hashes db" es] by (auto simp: wf_pg_def hashes_def)
    moreover have "pe_session_id ` set (pg_events db') \<subseteq> session_ids db'"
      using ok w fresh_subset[of "hashes db" es] by (auto simp: wf_pg_def)
    moreover have "distinct (map pe_event_id (pg_events db'))" using ok w unfolding wf_pg_def by blast
    moreover have "pe_event_id ` set (pg_events db) \<subseteq> pe_event_id ` set (pg_events db')"
      "session_ids db \<subseteq> session_ids db'" using ok by auto
    moreover have "pg_observations db' = pg_observations db" "pg_tags db' = pg_tags db" using ok by auto
    ultimately have "wf_pg db'" using w unfolding wf_pg_def by (metis subset_trans)
    then show ?thesis by (simp add: db'_def)
  qed
qed

lemma session_ids_upsert: "session_ids (upsert_session now e db) = insert (se_session_id e) (session_ids db)"
proof (cases "has_session (se_session_id e) db")
  case True
  have "map ps_session_id (sql_update (\<lambda>s. ps_session_id s = se_session_id e) (\<lambda>s. s\<lparr>ps_updated_at := now\<rparr>)
      (pg_sessions db)) = map ps_session_id (pg_sessions db)"
    by (rule map_sql_update) simp
  from arg_cong[OF this, of set] have "session_ids (upsert_session now e db) = session_ids db"
    using True by (simp add: upsert_session_def session_ids_def)
  then show ?thesis using True by (simp add: has_session_iff insert_absorb)
next
  case False
  then show ?thesis by (simp add: upsert_session_def session_ids_def new_session_def)
qed

lemma upsert_session_keeps [simp]: "pg_events (upsert_session now e db) = pg_events db"
  "pg_observations (upsert_session now e db) = pg_observations db" "pg_tags (upsert_session now e db) = pg_tags db"
  by (simp_all add: upsert_session_def)

lemma wf_upsert_session: "wf_pg db \<Longrightarrow> wf_pg (upsert_session now e db)"
  by (auto simp: wf_pg_def session_ids_upsert)

lemma overwrite_simps [simp]: "po_id (overwrite n r) = po_id r" "po_event_id (overwrite n r) = po_event_id r"
  "po_session_id (overwrite n r) = po_session_id r" "po_title (overwrite n r) = po_title r"
  by (simp_all add: overwrite_def)

lemma session_ids_obs [simp]: "session_ids (db\<lparr>pg_observations := x\<rparr>) = session_ids db"
  "session_ids (db\<lparr>pg_tags := y\<rparr>) = session_ids db"
  by (simp_all add: session_ids_def)

lemma map_update_obs: "(\<And>r. g (overwrite n r) = g r) \<Longrightarrow> map g (sql_update p (overwrite n) t) = map g t"
  by (rule map_sql_update)

lemma set_map_eq: "map g t = map g u \<Longrightarrow> g ` set t = g ` set u"
  by (metis list.set_map)

lemma wf_upsert_observation:
  assumes "wf_pg db" "upsert_observation n db = Inr db'" "po_session_id n \<in> session_ids db"
  shows "wf_pg db' \<and> po_id n \<in> po_id ` set (pg_observations db')"
proof (cases "has_observation (po_id n) db")
  case True
  then have db': "db' = db\<lparr>pg_observations := sql_update (\<lambda>r. po_id r = po_id n) (overwrite n) (pg_observations db)\<rparr>"
    using assms(2) by (simp add: upsert_observation_def)
  let ?u = "sql_update (\<lambda>r. po_id r = po_id n) (overwrite n) (pg_observations db)"
  have m: "map po_id ?u = map po_id (pg_observations db)" "map po_event_id ?u = map po_event_id (pg_observations db)"
    "map po_session_id ?u = map po_session_id (pg_observations db)"
    by (simp_all add: map_update_obs)
  show ?thesis
    using assms(1) True set_map_eq[OF m(1)] set_map_eq[OF m(2)] set_map_eq[OF m(3)] m(1)
    by (simp add: db' wf_pg_def has_observation_iff)
next
  case False
  then have "has_event (po_event_id n) db" "db' = db\<lparr>pg_observations := pg_observations db @ [n]\<rparr>"
    using assms(2) by (auto simp: upsert_observation_def split: if_splits)
  then show ?thesis
    using assms(1,3) False by (auto simp: wf_pg_def has_observation_iff has_event_iff)
qed

lemma insert_tags_keep [simp]: "pg_events (snd (insert_tags oid ts db)) = pg_events db"
  "pg_observations (snd (insert_tags oid ts db)) = pg_observations db"
  by (induction oid ts db rule: insert_tags.induct) (simp_all add: insert_tag_def)

lemma wf_insert_tag:
  "wf_pg db \<Longrightarrow> oid \<in> po_id ` set (pg_observations db) \<Longrightarrow> wf_pg (insert_tag oid t db)"
  "pg_observations (insert_tag oid t db) = pg_observations db"
  by (auto simp: insert_tag_def wf_pg_def)

lemma wf_insert_tags: "wf_pg db \<Longrightarrow> oid \<in> po_id ` set (pg_observations db) \<Longrightarrow> wf_pg (snd (insert_tags oid ts db))"
  by (induction oid ts db rule: insert_tags.induct) (simp_all add: wf_insert_tag)

lemma observation_of_simps [simp]: "po_session_id (observation_of f now e i p) = se_session_id e"
  "po_id (observation_of f now e i p) = i" "po_event_id (observation_of f now e i p) = se_event_id e"
  by (simp_all add: observation_of_def Let_def)

lemma wf_project_event: "wf_pg db \<Longrightarrow> wf_pg (snd (project_event f now e db))"
proof -
  assume w: "wf_pg db"
  let ?db1 = "upsert_session now e db" and ?i = "or_else (se_observation_id e) []"
  have w1: "wf_pg ?db1" by (rule wf_upsert_session[OF w])
  have "wf_pg db2 \<and> ?i \<in> po_id ` set (pg_observations db2)"
    if "upsert_observation (observation_of f now e ?i p) ?db1 = Inr db2" for p db2
    using wf_upsert_observation[OF w1 that] by (simp add: session_ids_upsert)
  then show ?thesis
    using w1 wf_insert_tags by (auto simp: project_event_def Let_def split: sum.split)
qed

lemma wf_project_events: "wf_pg db \<Longrightarrow> wf_pg (snd (project_events f now es (res, db)))"
proof (induction es arbitrary: res db)
  case (Cons e es)
  then show ?case using wf_project_event[of db f now e] by (auto split: prod.split option.split)
qed simp

lemma wf_rebuild: "wf_pg db \<Longrightarrow> wf_pg (snd (rebuild f now db))"
  unfolding rebuild_def project_batch_def Let_def
  by (rule wf_project_events) (simp add: wf_pg_def session_ids_def)

datatype pg_op = Append ms "stored_event list" | Project ms "stored_event list" | Rebuild ms

definition pg_step :: "(json \<Rightarrow> string) \<Rightarrow> pg_op \<Rightarrow> pg_db \<Rightarrow> pg_db" where
  "pg_step f op db =
     (case op of
        Append now es \<Rightarrow> snd (append_events now es db)
      | Project now es \<Rightarrow> snd (project_batch f now es db)
      | Rebuild now \<Rightarrow> snd (rebuild f now db))"

interpretation pg_machine: invariant_machine "pg_step f" wf_pg for f
  by unfold_locales
    (simp add: pg_step_def wf_append wf_rebuild project_batch_def wf_project_events split: pg_op.split)

text \<open>The managed tables hold together: after any appends, projections (of any events, in any order, also
  of events that were never appended) and rebuilds, event ids, dedupe hashes, observation ids and tags are
  unique, every event's session exists, every observation's event and session exist, and every tag's
  observation exists.\<close>

theorem managed_tables_hold_together:
  "wf_pg (fold (pg_step f) ops empty_pg)"
  by (rule pg_machine.run_inv) (simp add: wf_pg_def empty_pg_def)

subsection \<open>What a rebuild leaves\<close>

lemma object_is_no_json: "parse_json (FromDriver (JObj kvs)) dflt = Inl SyntaxError"
proof -
  have "text_of ''[object Object]'' = Malformed" by code_simp
  then show ?thesis by (simp add: parse_json_def js_true_def)
qed

lemma event_of_row_simps [simp]: "se_event_id (event_of_row r) = pe_event_id r"
  "se_observation_id (event_of_row r) = pe_observation_id r"
  "se_payload_json (event_of_row r) = FromDriver (pe_payload_json r)"
  by (simp_all add: event_of_row_def)

lemma project_object:
  assumes "se_payload_json e = FromDriver (JObj kvs)"
  shows "pg_observations (snd (project_event f now e db)) = pg_observations db \<and>
    pg_tags (snd (project_event f now e db)) = pg_tags db \<and>
    fst (project_event f now e db) = (if truthy (se_observation_id e) then Some SyntaxError else None)"
  by (simp add: project_event_def Let_def assms object_is_no_json)

lemma project_objects:
  assumes "\<forall>e \<in> set es. \<exists>kvs. se_payload_json e = FromDriver (JObj kvs)"
  shows "pg_observations (snd (project_events f now es (res, db))) = pg_observations db \<and>
    pg_tags (snd (project_events f now es (res, db))) = pg_tags db \<and>
    map fst (pj_errors (fst (project_events f now es (res, db)))) =
      map fst (pj_errors res) @ map se_event_id (filter (\<lambda>e. truthy (se_observation_id e)) es)"
  using assms
proof (induction es arbitrary: res db)
  case (Cons e es)
  obtain kvs where "se_payload_json e = FromDriver (JObj kvs)" using Cons.prems by auto
  note e = project_object [OF this, of f now db]
  obtain err db1 where p: "project_event f now e db = (err, db1)" by fastforce
  show ?case using Cons.IH Cons.prems e p by (cases "truthy (se_observation_id e)") simp_all
qed simp

text \<open>
  The payload column of an event whose payload is an object, as it is meant to be, comes back from
  the driver as an object, which \<open>JSON.parse\<close> refuses: a rebuild, which empties the tables of observations
  and tags first, leaves them empty, and reports each event that has an observation as an error.
\<close>

theorem rebuild_leaves_nothing:
  assumes "\<forall>r \<in> set (pg_events db). \<exists>kvs. pe_payload_json r = JObj kvs"
  shows "pg_observations (snd (rebuild f now db)) = [] \<and> pg_tags (snd (rebuild f now db)) = [] \<and>
    set (map fst (pj_errors (fst (rebuild f now db)))) =
      {pe_event_id r |r. r \<in> set (pg_events db) \<and> truthy (pe_observation_id r)}"
proof -
  let ?es = "map event_of_row (order_asc pe_ts (pg_events db))"
  have "\<forall>e \<in> set ?es. \<exists>kvs. se_payload_json e = FromDriver (JObj kvs)"
    using assms by auto
  note p = project_objects [OF this]
  have "se_event_id ` {x \<in> set ?es. truthy (se_observation_id x)} =
      {pe_event_id r |r. r \<in> set (pg_events db) \<and> truthy (pe_observation_id r)}"
    by force
  then show ?thesis using p by (simp add: rebuild_def project_batch_def)
qed

lemma rebuild_leaves_nothing_example:
  "let db = snd (append_events 9 [pool_event ''e1'' (Parsed (JObj []))] empty_pg) in
     length (pg_events db) = 1 \<and> (\<forall>r \<in> set (pg_events db). pe_payload_json r = JObj [])"
  by code_simp

subsection \<open>Reading\<close>

lemma sorted_order_desc: "sorted_wrt (\<lambda>a b. k b \<le> k a) (order_desc k t)"
proof -
  have "sorted_wrt (\<lambda>a b. k a \<le> k b) (sort_key k (rev t))"
    using sorted_sort_key[of k "rev t"] by (simp add: sorted_wrt_map)
  then show ?thesis by (simp add: order_desc_def sorted_wrt_rev)
qed

lemma sorted_drop_take: "sorted_wrt P xs \<Longrightarrow> sorted_wrt P (take n (drop m xs))"
  by (simp add: sorted_wrt_take sorted_wrt_drop)

lemma read_events_sublist: "\<exists>n m. read_events f db = take n (drop m (order_desc pe_ts (sql_where (filter_matches f) (pg_events db))))"
proof -
  let ?r = "order_desc pe_ts (sql_where (filter_matches f) (pg_events db))"
  have o0: "\<exists>m. (case ef_offset f of None \<Rightarrow> ?r | Some n \<Rightarrow> if n = 0 then ?r else drop (nat (max 0 n)) ?r) = drop m ?r"
    by (cases "ef_offset f") (auto intro: exI[of _ 0] exI[of _ "nat (max 0 _)"])
  have l0: "\<exists>n. (case ef_limit f of None \<Rightarrow> xs | Some n \<Rightarrow> if n = 0 then xs else take (nat (max 1 n)) xs) = take n xs"
    for xs :: "pg_event list"
    by (cases "ef_limit f") (auto intro: exI[of _ "length xs"] exI[of _ "nat (max 1 _)"])
  show ?thesis
    unfolding read_events_def Let_def using o0 l0 by metis
qed

text \<open>Reading: the events returned are stored events that match the filter, newest first, no more than a
  positive limit, and all of them when neither limit nor offset is set; the latest time stamp of a source
  is that of an event of it, no other being newer, and there is none exactly when it has no event.\<close>

theorem event_reads_are_complete:
  "sorted_wrt (\<lambda>a b. pe_ts b \<le> pe_ts a) (read_events f db) \<and>
   set (read_events f db) \<subseteq> {r \<in> set (pg_events db). filter_matches f r} \<and>
   (case ef_limit f of None \<Rightarrow> True | Some n \<Rightarrow> n \<le> 0 \<or> length (read_events f db) \<le> nat n) \<and>
   (case (ef_limit f, ef_offset f) of
      (None, None) \<Rightarrow> set (read_events f db) = {r \<in> set (pg_events db). filter_matches f r}
    | _ \<Rightarrow> True) \<and>
   (case getLatestTimestamp project platform db of
      None \<Rightarrow> (\<nexists>r. r \<in> set (pg_events db) \<and> pe_project r = project \<and> pe_platform r = platform)
    | Some t \<Rightarrow> (\<exists>r \<in> set (pg_events db). pe_project r = project \<and> pe_platform r = platform \<and> pe_ts r = t) \<and>
        (\<nexists>r. r \<in> set (pg_events db) \<and> pe_project r = project \<and> pe_platform r = platform \<and> t < pe_ts r))"
proof (intro conjI)
  obtain n m where nm: "read_events f db = take n (drop m (order_desc pe_ts (sql_where (filter_matches f) (pg_events db))))"
    using read_events_sublist by blast
  show "sorted_wrt (\<lambda>a b. pe_ts b \<le> pe_ts a) (read_events f db)"
    unfolding nm by (rule sorted_drop_take[OF sorted_order_desc])
  have "set (read_events f db) \<subseteq> set (order_desc pe_ts (sql_where (filter_matches f) (pg_events db)))"
    unfolding nm by (metis order_trans set_drop_subset set_take_subset)
  then show "set (read_events f db) \<subseteq> {r \<in> set (pg_events db). filter_matches f r}" by simp
  show "case ef_limit f of None \<Rightarrow> True | Some n \<Rightarrow> n \<le> 0 \<or> length (read_events f db) \<le> nat n"
    by (auto simp: read_events_def Let_def split: option.split)
  show "case (ef_limit f, ef_offset f) of
      (None, None) \<Rightarrow> set (read_events f db) = {r \<in> set (pg_events db). filter_matches f r}
    | _ \<Rightarrow> True"
    by (cases "ef_limit f"; cases "ef_offset f") (simp_all add: read_events_def Let_def)
  let ?rows = "order_desc pe_ts (sql_where (\<lambda>r. pe_project r = project \<and> pe_platform r = platform) (pg_events db))"
  show "case getLatestTimestamp project platform db of
      None \<Rightarrow> (\<nexists>r. r \<in> set (pg_events db) \<and> pe_project r = project \<and> pe_platform r = platform)
    | Some t \<Rightarrow> (\<exists>r \<in> set (pg_events db). pe_project r = project \<and> pe_platform r = platform \<and> pe_ts r = t) \<and>
        (\<nexists>r. r \<in> set (pg_events db) \<and> pe_project r = project \<and> pe_platform r = platform \<and> t < pe_ts r)"
  proof (cases ?rows)
    case Nil
    then have "getLatestTimestamp project platform db = None" by (simp add: getLatestTimestamp_def)
    moreover have "\<nexists>r. r \<in> set (pg_events db) \<and> pe_project r = project \<and> pe_platform r = platform"
      using Nil by (auto simp: sql_where_def filter_empty_conv)
    ultimately show ?thesis by simp
  next
    case (Cons r rs)
    have set_rows: "set ?rows = {r \<in> set (pg_events db). pe_project r = project \<and> pe_platform r = platform}"
      by simp
    have "\<forall>x \<in> set rs. pe_ts x \<le> pe_ts r"
      using sorted_order_desc[of pe_ts "sql_where (\<lambda>r. pe_project r = project \<and> pe_platform r = platform) (pg_events db)"] Cons
      by simp
    then have "\<forall>x \<in> set ?rows. pe_ts x \<le> pe_ts r" using Cons by simp
    moreover have "getLatestTimestamp project platform db = Some (pe_ts r)" using Cons by (simp add: getLatestTimestamp_def)
    moreover have "r \<in> set ?rows" using Cons by simp
    ultimately show ?thesis unfolding set_rows by (auto simp: not_less)
  qed
qed

subsection \<open>A batch\<close>

definition sample_stored :: "string \<Rightarrow> string \<Rightarrow> stored_event" where
  "sample_stored i h = \<lparr>se_event_id = i, se_platform = ''codex'', se_project = ''p'', se_workspace_uid = [],
     se_session_id = ''s1'', se_event_type = ''user_prompt'', se_ts = 5,
     se_payload_json = Parsed (JObj [(''content'', JStr ''hello'')]), se_tags_json = Parsed (JArr []),
     se_privacy_tags_json = Parsed (JArr []), se_dedupe_hash = h, se_observation_id = Some (''obs_'' @ i),
     se_correlation_id = None, se_event_time = None, se_observed_at = None,
     se_valid_from = Some ''2025-01-01'', se_valid_to = None, se_supersedes = None,
     se_invalidated_at = None, se_created_at = 5\<rparr>"

definition appended :: pg_server where
  "appended = snd (append_over (\<lambda>n. 0) 9 [sample_stored ''e1'' ''h1'', sample_stored ''e2'' ''h1''] (idle empty_pg))"

lemma append_run:
  "append_over (\<lambda>n. 0) 9 [sample_stored ''e1'' ''h1'', sample_stored ''e2'' ''h1''] (idle empty_pg) = (Inr (1, 1), appended)"
proof -
  have "fst (append_over (\<lambda>n. 0) 9 [sample_stored ''e1'' ''h1'', sample_stored ''e2'' ''h1''] (idle empty_pg)) = Inr (1, 1)"
    by code_simp
  then show ?thesis by (simp add: appended_def prod_eq_iff)
qed

theorem append_is_exactly_once_witness:
  "append_over (\<lambda>n. 0) 20 [sample_stored ''e1'' ''h1'', sample_stored ''e2'' ''h1''] appended = (Inr (0, 2), appended)"
  using append_is_exactly_once[OF append_run, of 20] by simp

end
