(* ===== verification/Managed_Backend.thy ===== *)
theory Managed_Backend
  imports Projection Bounded_Queue Complex_Main
begin

text \<open>
  The shadow synchronisation manager (\<open>projector/shadow-sync.ts\<close>) and the managed backend
  (\<open>projector/managed-backend.ts\<close>): phases, metrics and promotion, the replication queue and its
  flushes. A flush is two steps, as \<open>await\<close> splits it: the batch is taken out of the queue, and later the
  append answers; other calls come in between, but not during the last flush of \<open>shutdown\<close>. The
  statements of an append are taken to go over one connection (\<open>append_events\<close>). Whether the connection works at that moment is an
  argument. Rates are exact rationals.
\<close>

subsection \<open>Phases and metrics\<close>

datatype shadow_phase = Off | Shadow | Verified | Promoted

instantiation shadow_phase :: linorder
begin

definition phase_rank :: "shadow_phase \<Rightarrow> nat" where
  "phase_rank p = (case p of Off \<Rightarrow> 0 | Shadow \<Rightarrow> 1 | Verified \<Rightarrow> 2 | Promoted \<Rightarrow> 3)"

definition less_eq_shadow_phase :: "shadow_phase \<Rightarrow> shadow_phase \<Rightarrow> bool" where
  "less_eq_shadow_phase p q = (phase_rank p \<le> phase_rank q)"

definition less_shadow_phase :: "shadow_phase \<Rightarrow> shadow_phase \<Rightarrow> bool" where
  "less_shadow_phase p q = (phase_rank p < phase_rank q)"

instance
  by intro_classes
    (auto simp: less_eq_shadow_phase_def less_shadow_phase_def phase_rank_def split: shadow_phase.splits)

end

record shadow_config =
  sw_phase :: shadow_phase
  sw_dualWriteEnabled :: bool
  sw_shadowReadEnabled :: bool

record shadow_metrics =
  sm_primary_writes :: nat
  sm_managed_replications :: nat
  sm_replication_failures :: nat
  sm_shadow_reads :: nat
  sm_shadow_matches :: nat
  sm_shadow_divergences :: nat
  sm_shadow_match_rate :: rat

record shadow =
  sh_metrics :: shadow_metrics
  sh_config :: shadow_config

definition zero_metrics :: shadow_metrics where
  "zero_metrics = \<lparr>sm_primary_writes = 0, sm_managed_replications = 0, sm_replication_failures = 0,
     sm_shadow_reads = 0, sm_shadow_matches = 0, sm_shadow_divergences = 0, sm_shadow_match_rate = 0\<rparr>"

definition new_shadow :: "shadow_phase \<Rightarrow> bool \<Rightarrow> bool \<Rightarrow> shadow" where
  "new_shadow phase dual reads = \<lparr>sh_metrics = zero_metrics,
     sh_config = \<lparr>sw_phase = phase, sw_dualWriteEnabled = dual, sw_shadowReadEnabled = reads\<rparr>\<rparr>"

definition getPhase :: "shadow \<Rightarrow> shadow_phase" where
  "getPhase s = sw_phase (sh_config s)"

definition recordPrimaryWrite :: "shadow \<Rightarrow> shadow" where
  "recordPrimaryWrite s = s\<lparr>sh_metrics := (sh_metrics s)\<lparr>sm_primary_writes := sm_primary_writes (sh_metrics s) + 1\<rparr>\<rparr>"

definition recordReplication :: "bool \<Rightarrow> shadow \<Rightarrow> shadow" where
  "recordReplication success s =
     s\<lparr>sh_metrics := (if success
        then (sh_metrics s)\<lparr>sm_managed_replications := sm_managed_replications (sh_metrics s) + 1\<rparr>
        else (sh_metrics s)\<lparr>sm_replication_failures := sm_replication_failures (sh_metrics s) + 1\<rparr>)\<rparr>"

definition recordShadowRead :: "bool \<Rightarrow> shadow \<Rightarrow> shadow" where
  "recordShadowRead matched s =
     (let m1 = (sh_metrics s)\<lparr>sm_shadow_reads := sm_shadow_reads (sh_metrics s) + 1\<rparr>;
          m2 = (if matched then m1\<lparr>sm_shadow_matches := sm_shadow_matches m1 + 1\<rparr>
                else m1\<lparr>sm_shadow_divergences := sm_shadow_divergences m1 + 1\<rparr>)
      in s\<lparr>sh_metrics := m2\<lparr>sm_shadow_match_rate :=
             (if 0 < sm_shadow_reads m2 then of_nat (sm_shadow_matches m2) / of_nat (sm_shadow_reads m2) else 0)\<rparr>\<rparr>)"

datatype promotion_reason = InsufficientReads nat | MatchRateTooLow rat | FailureRateTooHigh rat

definition failure_rate :: "shadow_metrics \<Rightarrow> rat" where
  "failure_rate m =
     (let total = sm_managed_replications m + sm_replication_failures m in
      if 0 < total then of_nat (sm_replication_failures m) / of_nat total else 0)"

definition isReadyForPromotion :: "shadow \<Rightarrow> bool \<times> promotion_reason list" where
  "isReadyForPromotion s =
     (let m = sh_metrics s;
          reasons =
            (if sm_shadow_reads m < 100 then [InsufficientReads (sm_shadow_reads m)] else []) @
            (if sm_shadow_match_rate m < 95 / 100 then [MatchRateTooLow (sm_shadow_match_rate m)] else []) @
            (if 1 / 100 < failure_rate m then [FailureRateTooHigh (failure_rate m)] else [])
      in (reasons = [], reasons))"

definition advancePhase :: "shadow \<Rightarrow> shadow" where
  "advancePhase s =
     (case getPhase s of
        Off \<Rightarrow> s\<lparr>sh_config := \<lparr>sw_phase = Shadow, sw_dualWriteEnabled = True, sw_shadowReadEnabled = True\<rparr>\<rparr>
      | Shadow \<Rightarrow> if fst (isReadyForPromotion s) then s\<lparr>sh_config := (sh_config s)\<lparr>sw_phase := Verified\<rparr>\<rparr> else s
      | Verified \<Rightarrow> s\<lparr>sh_config := (sh_config s)\<lparr>sw_phase := Promoted\<rparr>\<rparr>
      | Promoted \<Rightarrow> s)"

definition rollback :: "shadow \<Rightarrow> shadow" where
  "rollback s = s\<lparr>sh_config := \<lparr>sw_phase = Off, sw_dualWriteEnabled = False, sw_shadowReadEnabled = False\<rparr>\<rparr>"

subsection \<open>The backend\<close>

datatype connection_state = Connecting | Connected | DegradedConnection | Disconnected

datatype backend_mode = Hybrid | Managed

record managed =
  mb_mode :: backend_mode
  mb_adapter :: bool
  mb_eventStore :: bool
  mb_shadow :: shadow
  mb_connectionState :: connection_state
  mb_lastReplicationAt :: "ms option"
  mb_lastError :: "string option"
  mb_replicationQueue :: "stored_event list"
  mb_replicationInProgress :: bool
  mb_batch :: "stored_event list"
  mb_flushTimer :: bool

definition maxQueueSize :: nat where
  "maxQueueSize = 1000"

definition new_backend :: "backend_mode \<Rightarrow> managed" where
  "new_backend mode =
     \<lparr>mb_mode = mode, mb_adapter = False, mb_eventStore = False,
      mb_shadow = new_shadow (if mode = Managed then Promoted else Off) True (mode = Hybrid),
      mb_connectionState = Disconnected, mb_lastReplicationAt = None, mb_lastError = None,
      mb_replicationQueue = [], mb_replicationInProgress = False, mb_batch = [], mb_flushTimer = False\<rparr>"

definition isConnected :: "managed \<Rightarrow> bool" where
  "isConnected b = (mb_connectionState b = Connected \<and> mb_adapter b)"

text \<open>How \<open>initialize\<close> goes: no driver installed, an error while the schema is created, or success.\<close>

datatype init_outcome = NoDriver | SchemaError string | SchemaOk

definition initialize :: "init_outcome \<Rightarrow> managed \<Rightarrow> managed" where
  "initialize outcome b0 =
     (let b = b0\<lparr>mb_connectionState := Connecting\<rparr> in
      case outcome of
        NoDriver \<Rightarrow> b\<lparr>mb_connectionState := DegradedConnection,
                     mb_lastError := Some ''pg module not installed. Run: bun add pg''\<rparr>
      | SchemaError message \<Rightarrow> b\<lparr>mb_adapter := True, mb_connectionState := DegradedConnection,
                                 mb_lastError := Some message\<rparr>
      | SchemaOk \<Rightarrow>
          b\<lparr>mb_adapter := True, mb_eventStore := True, mb_connectionState := Connected, mb_lastError := None,
            mb_shadow := (if mb_mode b = Hybrid \<and> getPhase (mb_shadow b) = Off
                          then advancePhase (mb_shadow b) else mb_shadow b),
            mb_flushTimer := True\<rparr>)"

definition enqueueForRetry :: "stored_event \<Rightarrow> managed \<Rightarrow> managed" where
  "enqueueForRetry e b =
     (let q = mb_replicationQueue b; q1 = (if maxQueueSize \<le> length q then tl q else q)
      in b\<lparr>mb_replicationQueue := q1 @ [e]\<rparr>)"

text \<open>\<open>flushReplicationQueue\<close> up to the append.\<close>

definition flush_start :: "managed \<Rightarrow> managed" where
  "flush_start b =
     (if mb_replicationInProgress b \<or> mb_replicationQueue b = [] then b
      else if \<not> mb_eventStore b then b
      else b\<lparr>mb_replicationInProgress := True, mb_batch := take 100 (mb_replicationQueue b),
             mb_replicationQueue := drop 100 (mb_replicationQueue b)\<rparr>)"

definition append_answer ::
  "bool \<Rightarrow> ms \<Rightarrow> stored_event list \<Rightarrow> pg_db \<Rightarrow> (pg_error + nat \<times> nat) \<times> pg_db" where
  "append_answer up now batch db = (if up then append_events now batch db else (Inl UniqueViolation, db))"

text \<open>
  The rest of it: the append answers, or rejects when the connection is down or the transaction fails;
  then the projection runs, whose per-event errors are only reported.
\<close>

definition flush_finish ::
  "(json \<Rightarrow> string) \<Rightarrow> bool \<Rightarrow> ms \<Rightarrow> managed \<times> pg_db \<Rightarrow> managed \<times> pg_db" where
  "flush_finish print_json up now s =
     (let b = fst s; batch = mb_batch b in
      if \<not> mb_replicationInProgress b then s
      else case append_answer up now batch (snd s) of
          (Inr (inserted, deduplicated), db1) \<Rightarrow>
            (b\<lparr>mb_shadow := (recordReplication True ^^ (inserted + deduplicated)) (mb_shadow b),
               mb_lastReplicationAt := Some now, mb_lastError := None,
               mb_replicationInProgress := False, mb_batch := []\<rparr>,
             if 0 < inserted then snd (project_batch print_json now batch db1) else db1)
        | (Inl err, db1) \<Rightarrow>
            (b\<lparr>mb_replicationQueue := batch @ mb_replicationQueue b,
               mb_shadow := (recordReplication False ^^ length batch) (mb_shadow b),
               mb_lastError := Some ''append failed'', mb_connectionState := DegradedConnection,
               mb_replicationInProgress := False, mb_batch := []\<rparr>, db1))"

definition replicateEvent :: "stored_event \<Rightarrow> managed \<Rightarrow> managed" where
  "replicateEvent e b0 =
     (let b = b0\<lparr>mb_shadow := recordPrimaryWrite (mb_shadow b0)\<rparr> in
      if \<not> isConnected b
      then enqueueForRetry e (b\<lparr>mb_shadow := recordReplication False (mb_shadow b)\<rparr>)
      else flush_start (enqueueForRetry e b))"

text \<open>A shadow read: the ids found remotely, or an error.\<close>

definition SHADOW_MATCH_THRESHOLD :: rat where
  "SHADOW_MATCH_THRESHOLD = 95 / 100"

definition match_rate :: "string list \<Rightarrow> string set \<Rightarrow> rat" where
  "match_rate localResultIds pgIds =
     (if localResultIds = [] then 1
      else of_nat (length (filter (\<lambda>i. i \<in> pgIds) localResultIds)) / of_nat (length localResultIds))"

definition shadowRead :: "string list \<Rightarrow> string + string list \<Rightarrow> managed \<Rightarrow> managed" where
  "shadowRead localResultIds found b =
     (if \<not> isConnected b \<or> getPhase (mb_shadow b) = Off then b
      else case found of
          Inr ids \<Rightarrow> b\<lparr>mb_shadow :=
            recordShadowRead (SHADOW_MATCH_THRESHOLD \<le> match_rate localResultIds (set ids)) (mb_shadow b)\<rparr>
        | Inl err \<Rightarrow> b\<lparr>mb_shadow := recordShadowRead False (mb_shadow b), mb_lastError := Some err\<rparr>)"

definition attemptPromotion :: "managed \<Rightarrow> (bool \<times> shadow_phase \<times> promotion_reason list) \<times> managed" where
  "attemptPromotion b =
     (let (ready, reasons) = isReadyForPromotion (mb_shadow b);
          b1 = (if ready then b\<lparr>mb_shadow := advancePhase (mb_shadow b)\<rparr> else b)
      in ((ready, getPhase (mb_shadow b1), reasons), b1))"

text \<open>
  \<open>shutdown\<close>: one last flush, then the connection is closed. While another flush is under way the last one
  returns at once, and the connection is closed under the other, whose append may still succeed or not.
\<close>

definition shutdown :: "(json \<Rightarrow> string) \<Rightarrow> bool \<Rightarrow> ms \<Rightarrow> managed \<times> pg_db \<Rightarrow> managed \<times> pg_db" where
  "shutdown print_json up now s =
     (let b = (fst s)\<lparr>mb_flushTimer := False\<rparr>;
          s1 = (if mb_replicationQueue b \<noteq> [] \<and> isConnected b \<and> \<not> mb_replicationInProgress b
                then flush_finish print_json up now (flush_start b, snd s) else (b, snd s))
      in ((fst s1)\<lparr>mb_adapter := False, mb_connectionState := Disconnected\<rparr>, snd s1))"

record managed_status =
  ms_connection_state :: connection_state
  ms_backend_mode :: backend_mode
  ms_shadow_phase :: shadow_phase
  ms_shadow_metrics :: shadow_metrics
  ms_last_replication_at :: "ms option"
  ms_last_error :: "string option"
  ms_replication_queue_size :: nat

definition getStatus :: "managed \<Rightarrow> managed_status" where
  "getStatus b = \<lparr>ms_connection_state = mb_connectionState b, ms_backend_mode = mb_mode b,
     ms_shadow_phase = getPhase (mb_shadow b), ms_shadow_metrics = sh_metrics (mb_shadow b),
     ms_last_replication_at = mb_lastReplicationAt b, ms_last_error = mb_lastError b,
     ms_replication_queue_size = length (mb_replicationQueue b)\<rparr>"

subsection \<open>Runs\<close>

datatype managed_op =
    Initialize init_outcome
  | Replicate stored_event
  | FlushTimer
  | FlushDone bool ms
  | ShadowRead "string list" "string + string list"
  | Promote
  | Shutdown bool ms

definition managed_step :: "(json \<Rightarrow> string) \<Rightarrow> managed_op \<Rightarrow> managed \<times> pg_db \<Rightarrow> managed \<times> pg_db" where
  "managed_step f op s =
     (case op of
        Initialize oc \<Rightarrow> (initialize oc (fst s), snd s)
      | Replicate e \<Rightarrow> (replicateEvent e (fst s), snd s)
      | FlushTimer \<Rightarrow> (if mb_flushTimer (fst s) then flush_start (fst s) else fst s, snd s)
      | FlushDone up now \<Rightarrow> flush_finish f up now s
      | ShadowRead ids found \<Rightarrow> (shadowRead ids found (fst s), snd s)
      | Promote \<Rightarrow> (snd (attemptPromotion (fst s)), snd s)
      | Shutdown up now \<Rightarrow> shutdown f up now s)"

subsection \<open>The replication queue\<close>

interpretation repl_queue: bounded_queue maxQueueSize enqueueForRetry mb_replicationQueue "\<lambda>e. e"
    "\<lambda>b. length (mb_replicationQueue b) \<le> maxQueueSize"
  by unfold_locales
    (auto simp: enqueueForRetry_def Let_def maxQueueSize_def keep_last_def drop_Suc)

text \<open>A flush takes out at most 100 events, and puts them back in front when it fails.\<close>

definition queue_bounds :: "managed \<times> pg_db \<Rightarrow> bool" where
  "queue_bounds s \<longleftrightarrow>
     (\<not> mb_replicationInProgress (fst s) \<longrightarrow> mb_batch (fst s) = []) \<and>
     (mb_replicationInProgress (fst s) \<longrightarrow> length (mb_replicationQueue (fst s)) \<le> 1000) \<and>
     length (mb_batch (fst s)) \<le> 100 \<and>
     length (mb_replicationQueue (fst s)) + length (mb_batch (fst s)) \<le> 1100"

lemma shadow_update_queue [simp]: "mb_replicationQueue (b\<lparr>mb_shadow := x\<rparr>) = mb_replicationQueue b"
  by simp

lemma length_enqueue: "length (mb_replicationQueue (enqueueForRetry e b)) =
    (if maxQueueSize \<le> length (mb_replicationQueue b) then length (mb_replicationQueue b)
     else length (mb_replicationQueue b) + 1)"
  by (auto simp: enqueueForRetry_def Let_def maxQueueSize_def)

lemma enqueue_keeps [simp]: "mb_batch (enqueueForRetry e b) = mb_batch b"
  "mb_replicationInProgress (enqueueForRetry e b) = mb_replicationInProgress b"
  "mb_connectionState (enqueueForRetry e b) = mb_connectionState b"
  "mb_adapter (enqueueForRetry e b) = mb_adapter b" "mb_shadow (enqueueForRetry e b) = mb_shadow b"
  "mb_eventStore (enqueueForRetry e b) = mb_eventStore b"
  by (simp_all add: enqueueForRetry_def Let_def)

lemma bounds_flush_start: "queue_bounds (b, db) \<Longrightarrow> queue_bounds (flush_start b, db)"
  by (auto simp: queue_bounds_def flush_start_def)

lemma bounds_enqueue: "queue_bounds (b, db) \<Longrightarrow> queue_bounds (enqueueForRetry e b, db)"
  by (auto simp: queue_bounds_def length_enqueue maxQueueSize_def)

lemma finish_queue:
  assumes "mb_replicationInProgress (fst s)"
  shows "mb_replicationQueue (fst (flush_finish f up now s)) \<in>
      {mb_replicationQueue (fst s), mb_batch (fst s) @ mb_replicationQueue (fst s)} \<and>
    mb_batch (fst (flush_finish f up now s)) = [] \<and> \<not> mb_replicationInProgress (fst (flush_finish f up now s))"
  using assms by (simp add: flush_finish_def Let_def split: sum.split prod.split)

lemma bounds_finish: "queue_bounds s \<Longrightarrow> queue_bounds (flush_finish f up now s)"
proof (cases "mb_replicationInProgress (fst s)")
  case True
  then show "queue_bounds s \<Longrightarrow> queue_bounds (flush_finish f up now s)"
    using finish_queue[OF True, of f up now] by (auto simp: queue_bounds_def)
next
  case False
  then show "queue_bounds s \<Longrightarrow> queue_bounds (flush_finish f up now s)"
    by (simp add: flush_finish_def Let_def)
qed

lemma bounds_step: "queue_bounds s \<Longrightarrow> queue_bounds (managed_step f op s)"
proof -
  assume q: "queue_bounds s"
  obtain b db where s: "s = (b, db)" by (cases s)
  have "queue_bounds (initialize oc b, db)" for oc
    using q by (auto simp: s queue_bounds_def initialize_def Let_def split: init_outcome.split)
  moreover have "queue_bounds (replicateEvent e b, db)" for e
  proof -
    have "queue_bounds (b\<lparr>mb_shadow := x\<rparr>, db)" for x using q by (simp add: s queue_bounds_def)
    then show ?thesis by (simp add: replicateEvent_def Let_def bounds_flush_start bounds_enqueue)
  qed
  moreover have "queue_bounds (shadowRead ids fd b, db)" for ids fd
    using q by (auto simp: s queue_bounds_def shadowRead_def split: sum.split)
  moreover have "queue_bounds (snd (attemptPromotion b), db)"
    using q by (auto simp: s queue_bounds_def attemptPromotion_def Let_def split: prod.split)
  moreover have "queue_bounds (shutdown f up now s)" for up now
  proof -
    let ?b = "b\<lparr>mb_flushTimer := False\<rparr>"
    have "queue_bounds (?b, db)" using q by (simp add: s queue_bounds_def)
    then have "queue_bounds (flush_finish f up now (flush_start ?b, db))"
      by (intro bounds_finish bounds_flush_start)
    then show ?thesis using \<open>queue_bounds (?b, db)\<close> by (auto simp: s shutdown_def Let_def queue_bounds_def)
  qed
  ultimately show ?thesis
    using q bounds_finish[OF q] bounds_flush_start
    by (auto simp: managed_step_def s split: managed_op.split)
qed

interpretation managed_queue: invariant_machine "managed_step f" queue_bounds for f
  by unfold_locales (rule bounds_step)

text \<open>The replication queue is bounded: in every run of the backend, with flushes that fail and events
  that arrive while one is under way, at most 1100 events wait, in the queue or in the batch being sent:
  the maximum queue size and one batch. The size of 1000 itself is not an upper bound of the queue: a
  batch of 100 that fails while the queue is full is put back in front of it.\<close>

theorem replication_queue_is_bounded:
  assumes "fold (managed_step f) ops (new_backend mode, empty_pg) = (b, db)"
  shows "length (mb_replicationQueue b) + length (mb_batch b) \<le> 1100 \<and>
    (mb_replicationInProgress b \<and> length (mb_batch b) = 100 \<and> length (mb_replicationQueue b) = 1000 \<longrightarrow>
      length (mb_replicationQueue (fst (flush_finish f False now (b, db)))) = 1100)"
proof -
  have "queue_bounds (new_backend mode, empty_pg)" by (simp add: queue_bounds_def new_backend_def)
  then have "queue_bounds (b, db)" using assms managed_queue.run_inv by metis
  then show ?thesis by (auto simp: queue_bounds_def flush_finish_def append_answer_def Let_def)
qed

subsection \<open>No event is lost\<close>

text \<open>The events handed to \<open>replicateEvent\<close> in a run.\<close>

fun replicated :: "managed_op list \<Rightarrow> stored_event list" where
  "replicated [] = []"
| "replicated (op # ops) = (case op of Replicate e \<Rightarrow> e # replicated ops | _ \<Rightarrow> replicated ops)"

definition accounted :: "stored_event list \<Rightarrow> managed \<times> pg_db \<Rightarrow> bool" where
  "accounted es s \<longleftrightarrow>
     (\<forall>e \<in> set es. e \<in> set (mb_replicationQueue (fst s)) \<union> set (mb_batch (fst s)) \<or>
        se_dedupe_hash e \<in> hashes (snd s)) \<and>
     length (mb_replicationQueue (fst s)) + length (mb_batch (fst s)) \<le> length es \<and>
     (\<not> mb_replicationInProgress (fst s) \<longrightarrow> mb_batch (fst s) = [])"

lemma project_keeps_events: "pg_events (snd (project_event f now e db)) = pg_events db"
proof -
  have u: "upsert_observation n db1 = Inr db2 \<Longrightarrow> pg_events db2 = pg_events db1" for n db1 db2
    by (auto simp: upsert_observation_def split: if_splits)
  show ?thesis by (auto simp: project_event_def Let_def dest!: u split: sum.split)
qed

lemma project_batch_keeps_events: "pg_events (snd (project_batch f now es db)) = pg_events db"
proof -
  have "pg_events (snd (project_events f now es (res, db))) = pg_events db" for res
  proof (induction es arbitrary: res db)
    case (Cons e es)
    obtain err db1 where e: "project_event f now e db = (err, db1)" by (cases "project_event f now e db")
    then have "pg_events db1 = pg_events db" using project_keeps_events[of f now e db] by simp
    then show ?case using Cons.IH e by (cases err) simp_all
  qed simp
  then show ?thesis by (simp add: project_batch_def)
qed

lemma append_hashes:
  assumes "append_events now es db = (Inr (i, d), db')"
  shows "hashes db \<union> se_dedupe_hash ` set es \<subseteq> hashes db'"
proof (cases "es = []")
  case True
  then show ?thesis using assms by (simp add: append_events_eq)
next
  case False
  note ok = append_ok[OF assms False]
  then have "hashes db' = hashes db \<union> se_dedupe_hash ` set (fresh_events (hashes db) es)"
    by (simp add: hashes_def image_Un image_image)
  then show ?thesis using fresh_covers by blast
qed

lemma accounted_mono: "accounted es (b, db) \<Longrightarrow> mb_replicationQueue b' = mb_replicationQueue b \<Longrightarrow>
    mb_batch b' = mb_batch b \<Longrightarrow> mb_replicationInProgress b' = mb_replicationInProgress b \<Longrightarrow> accounted es (b', db)"
  by (simp add: accounted_def)

lemma accounted_start: "accounted es (b, db) \<Longrightarrow> accounted es (flush_start b, db)"
proof -
  assume a: "accounted es (b, db)"
  have "set (mb_replicationQueue b) = set (take 100 (mb_replicationQueue b)) \<union> set (drop 100 (mb_replicationQueue b))"
    by (metis append_take_drop_id set_append)
  then show ?thesis using a by (auto simp: accounted_def flush_start_def)
qed

lemma accounted_enqueue:
  "accounted es (b, db) \<Longrightarrow> length es < 1000 \<Longrightarrow> accounted (e # es) (enqueueForRetry e b, db)"
  by (auto simp: accounted_def enqueueForRetry_def Let_def maxQueueSize_def)

lemma accounted_finish: "accounted es s \<Longrightarrow> accounted es (flush_finish f up now s)"
proof -
  assume a: "accounted es s"
  obtain b db where s: "s = (b, db)" by (cases s)
  show ?thesis
  proof (cases "mb_replicationInProgress b")
    case False
    then show ?thesis using a by (simp add: s flush_finish_def Let_def)
  next
    case True
    obtain res db1 where r: "append_answer up now (mb_batch b) db = (res, db1)"
      by (cases "append_answer up now (mb_batch b) db")
    show ?thesis
    proof (cases res)
      case (Inl err)
      have "db1 = db" using r Inl append_refused[of now "mb_batch b" db err]
        by (auto simp: append_answer_def split: if_splits)
      then show ?thesis
        using a True r Inl by (auto simp: s flush_finish_def Let_def accounted_def)
    next
      case (Inr id)
      obtain i d where id: "id = (i, d)" by (cases id)
      have "append_events now (mb_batch b) db = (Inr (i, d), db1)"
        using r Inr id by (auto simp: append_answer_def split: if_splits)
      from append_hashes[OF this] have h: "hashes db \<union> se_dedupe_hash ` set (mb_batch b) \<subseteq> hashes db1" .
      have "hashes (snd (project_batch f now (mb_batch b) db1)) = hashes db1"
        by (simp add: hashes_def project_batch_keeps_events)
      moreover have "\<forall>e \<in> set es. e \<in> set (mb_replicationQueue b) \<or> se_dedupe_hash e \<in> hashes db1"
        using a h unfolding s accounted_def fst_conv snd_conv by blast
      moreover have "length (mb_replicationQueue b) \<le> length es" using a by (simp add: s accounted_def)
      ultimately show ?thesis
        using True r Inr id by (auto simp: s flush_finish_def Let_def accounted_def)
    qed
  qed
qed

lemma accounted_step:
  assumes "accounted es s" "length (replicated [op] @ es) \<le> 1000"
  shows "accounted (replicated [op] @ es) (managed_step f op s)"
proof -
  obtain b db where s: "s = (b, db)" by (cases s)
  note mono = accounted_mono[OF assms(1)[unfolded s]]
  have "accounted es (initialize oc b, db)" for oc
    by (rule mono) (auto simp: initialize_def Let_def split: init_outcome.split)
  moreover have "accounted (e # es) (replicateEvent e b, db)" if "op = Replicate e" for e
  proof -
    have "length es < 1000" using assms(2) that by simp
    moreover have "accounted es (b\<lparr>mb_shadow := x\<rparr>, db)" for x by (rule mono) simp_all
    ultimately show ?thesis by (simp add: replicateEvent_def Let_def accounted_enqueue accounted_start)
  qed
  moreover have "accounted es (shadowRead ids fd b, db)" for ids fd
    by (rule mono) (auto simp: shadowRead_def split: sum.split)
  moreover have "accounted es (snd (attemptPromotion b), db)"
    by (rule mono) (auto simp: attemptPromotion_def Let_def split: prod.split)
  moreover have "accounted es (shutdown f up now s)" for up now
  proof -
    let ?b = "b\<lparr>mb_flushTimer := False\<rparr>"
    have a: "accounted es (?b, db)" by (rule mono) simp_all
    then have "accounted es (flush_finish f up now (flush_start ?b, db))"
      by (intro accounted_finish accounted_start)
    then show ?thesis using a by (auto simp: s shutdown_def Let_def accounted_def)
  qed
  ultimately show ?thesis
    using assms(1) accounted_finish[OF assms(1)] accounted_start
    by (auto simp: managed_step_def s split: managed_op.split)
qed

lemma accounted_run:
  "accounted es s \<Longrightarrow> length (replicated ops) + length es \<le> 1000 \<Longrightarrow>
     accounted (rev (replicated ops) @ es) (fold (managed_step f) ops s)"
proof (induction ops arbitrary: es s)
  case (Cons op ops)
  have r: "replicated (op # ops) = replicated [op] @ replicated ops" by (cases op) simp_all
  then have "length (replicated [op] @ es) \<le> 1000" using Cons.prems(2) by simp
  then have "accounted (replicated [op] @ es) (managed_step f op s)" by (rule accounted_step[OF Cons.prems(1)])
  then have "accounted (rev (replicated ops) @ replicated [op] @ es) (fold (managed_step f) ops (managed_step f op s))"
    by (rule Cons.IH) (use Cons.prems(2) r in simp)
  then show ?case by (cases op) simp_all
qed simp


subsection \<open>Degradation\<close>

lemma finish_connection: "mb_connectionState (fst (flush_finish f up now s)) \<in>
    {mb_connectionState (fst s), DegradedConnection}"
  by (auto simp: flush_finish_def Let_def split: sum.split prod.split)

lemma replications_keep [simp]:
  "sm_shadow_reads (sh_metrics ((recordReplication ok ^^ n) x)) = sm_shadow_reads (sh_metrics x)"
  "sh_config ((recordReplication ok ^^ n) x) = sh_config x"
  by (induction n) (auto simp: recordReplication_def)

lemma finish_shadow: "sm_shadow_reads (sh_metrics (mb_shadow (fst (flush_finish f up now s)))) =
      sm_shadow_reads (sh_metrics (mb_shadow (fst s))) \<and>
    sh_config (mb_shadow (fst (flush_finish f up now s))) = sh_config (mb_shadow (fst s))"
  by (simp add: flush_finish_def Let_def split: sum.split prod.split)

lemma flush_start_keeps [simp]: "mb_connectionState (flush_start b) = mb_connectionState b"
  "mb_shadow (flush_start b) = mb_shadow b" "mb_adapter (flush_start b) = mb_adapter b"
  "mb_mode (flush_start b) = mb_mode b"
  by (simp_all add: flush_start_def)

lemma advance_keeps [simp]: "sh_metrics (advancePhase x) = sh_metrics x"
  by (simp add: advancePhase_def split: shadow_phase.split)

definition restarts :: "managed_op \<Rightarrow> bool" where
  "restarts op = (case op of Initialize _ \<Rightarrow> True | Shutdown _ _ \<Rightarrow> True | _ \<Rightarrow> False)"

lemma degraded_step:
  assumes "mb_connectionState (fst s) = DegradedConnection" "\<not> restarts op"
  shows "mb_connectionState (fst (managed_step f op s)) = DegradedConnection \<and>
    sm_shadow_reads (sh_metrics (mb_shadow (fst (managed_step f op s)))) =
      sm_shadow_reads (sh_metrics (mb_shadow (fst s)))"
proof -
  have "\<not> isConnected b" if "mb_connectionState b = DegradedConnection" for b
    using that by (simp add: isConnected_def)
  then show ?thesis
    using assms finish_connection[of f _ _ s] finish_shadow[of f _ _ s]
    by (cases op) (auto simp: managed_step_def restarts_def replicateEvent_def Let_def shadowRead_def
        isConnected_def attemptPromotion_def recordPrimaryWrite_def recordReplication_def split: prod.split)
qed

text \<open>Degradation is permanent: once a flush has failed the backend never reports itself connected again
  unless it is initialised anew, whatever succeeds afterwards: flushes may go through, but no shadow read
  is made, so the promotion metrics do not move any more.\<close>

theorem degraded_backend_stays_degraded:
  assumes "mb_connectionState (fst s) = DegradedConnection" "\<forall>op \<in> set ops. \<not> restarts op"
  shows "mb_connectionState (fst (fold (managed_step f) ops s)) = DegradedConnection \<and>
    \<not> isConnected (fst (fold (managed_step f) ops s)) \<and>
    sm_shadow_reads (sh_metrics (mb_shadow (fst (fold (managed_step f) ops s)))) =
      sm_shadow_reads (sh_metrics (mb_shadow (fst s)))"
  using assms
proof (induction ops arbitrary: s)
  case Nil
  then show ?case by (simp add: isConnected_def)
next
  case (Cons op ops)
  then show ?case using degraded_step[of s op f] by simp
qed

subsection \<open>Promotion\<close>

text \<open>The metrics: every shadow read is a match or a divergence, and the rate is their quotient.\<close>

definition wf_metrics :: "shadow_metrics \<Rightarrow> bool" where
  "wf_metrics m \<longleftrightarrow> sm_shadow_reads m = sm_shadow_matches m + sm_shadow_divergences m \<and>
     sm_shadow_match_rate m =
       (if 0 < sm_shadow_reads m then of_nat (sm_shadow_matches m) / of_nat (sm_shadow_reads m) else 0)"

abbreviation metrics_of :: "managed \<times> pg_db \<Rightarrow> shadow_metrics" where
  "metrics_of s \<equiv> sh_metrics (mb_shadow (fst s))"

lemma wf_metrics_ops:
  "wf_metrics (sh_metrics x) \<Longrightarrow> wf_metrics (sh_metrics (recordShadowRead m x))"
  "wf_metrics (sh_metrics x) \<Longrightarrow> wf_metrics (sh_metrics (recordReplication ok x))"
  "wf_metrics (sh_metrics x) \<Longrightarrow> wf_metrics (sh_metrics (recordPrimaryWrite x))"
  "wf_metrics (sh_metrics x) \<Longrightarrow> wf_metrics (sh_metrics ((recordReplication ok ^^ n) x))"
proof -
  show rep: "wf_metrics (sh_metrics (recordReplication ok x))" if "wf_metrics (sh_metrics x)" for x ok
    using that by (simp add: wf_metrics_def recordReplication_def)
  show "wf_metrics (sh_metrics ((recordReplication ok ^^ n) x))" if "wf_metrics (sh_metrics x)"
    using that by (induction n) (auto intro: rep)
qed (auto simp: wf_metrics_def recordShadowRead_def recordPrimaryWrite_def Let_def)

lemma wf_metrics_finish: "wf_metrics (metrics_of s) \<Longrightarrow> wf_metrics (metrics_of (flush_finish f up now s))"
  by (simp add: flush_finish_def Let_def wf_metrics_ops split: sum.split prod.split)

lemma wf_metrics_shutdown: "wf_metrics (metrics_of s) \<Longrightarrow> wf_metrics (metrics_of (shutdown f up now s))"
  using wf_metrics_finish[of "(flush_start ((fst s)\<lparr>mb_flushTimer := False\<rparr>), snd s)" f up now]
  by (simp add: shutdown_def Let_def)

interpretation metrics_machine: invariant_machine "managed_step f" "\<lambda>s. wf_metrics (metrics_of s)" for f
proof unfold_locales
  fix s :: "managed \<times> pg_db" and op
  assume w: "wf_metrics (metrics_of s)"
  show "wf_metrics (metrics_of (managed_step f op s))"
  proof (cases op)
    case (Initialize oc)
    then show ?thesis using w by (cases oc) (auto simp: managed_step_def initialize_def Let_def)
  next
    case (Replicate e)
    then show ?thesis using w by (simp add: managed_step_def replicateEvent_def Let_def wf_metrics_ops)
  next
    case FlushTimer
    then show ?thesis using w by (simp add: managed_step_def)
  next
    case (FlushDone up now)
    then show ?thesis using wf_metrics_finish[OF w] by (simp add: managed_step_def)
  next
    case (ShadowRead ids found)
    then show ?thesis using w by (cases found) (simp_all add: managed_step_def shadowRead_def wf_metrics_ops)
  next
    case Promote
    then show ?thesis using w by (simp add: managed_step_def attemptPromotion_def Let_def split: prod.split)
  next
    case (Shutdown up now)
    then show ?thesis using w wf_metrics_shutdown[OF w] by (simp add: managed_step_def)
  qed
qed

lemma initial_metrics: "wf_metrics (metrics_of (new_backend mode, empty_pg))"
  by (simp add: wf_metrics_def new_backend_def new_shadow_def zero_metrics_def)

lemma getPhase_simps [simp]: "getPhase (recordShadowRead m x) = getPhase x"
  "getPhase (recordReplication ok x) = getPhase x" "getPhase (recordPrimaryWrite x) = getPhase x"
  by (simp_all add: getPhase_def recordShadowRead_def recordReplication_def recordPrimaryWrite_def Let_def)

lemma getPhase_finish [simp]: "getPhase (mb_shadow (fst (flush_finish f up now s))) = getPhase (mb_shadow (fst s))"
  using finish_shadow[of f up now s] by (simp add: getPhase_def)

lemma getPhase_shutdown [simp]: "getPhase (mb_shadow (fst (shutdown f up now s))) = getPhase (mb_shadow (fst s))"
  by (simp add: shutdown_def Let_def)

lemma ready_criteria:
  assumes "fst (isReadyForPromotion x)" "wf_metrics (sh_metrics x)"
  shows "100 \<le> sm_shadow_reads (sh_metrics x) \<and>
    95 * sm_shadow_reads (sh_metrics x) \<le> 100 * sm_shadow_matches (sh_metrics x) \<and>
    100 * sm_replication_failures (sh_metrics x)
      \<le> sm_managed_replications (sh_metrics x) + sm_replication_failures (sh_metrics x)"
proof -
  let ?m = "sh_metrics x"
  let ?t = "sm_managed_replications ?m + sm_replication_failures ?m"
  have r: "100 \<le> sm_shadow_reads ?m" "95 / 100 \<le> sm_shadow_match_rate ?m" "failure_rate ?m \<le> 1 / 100"
    using assms(1) by (auto simp: isReadyForPromotion_def Let_def split: if_splits)
  have "95 / 100 \<le> (of_nat (sm_shadow_matches ?m) / of_nat (sm_shadow_reads ?m) :: rat)"
    using r(1,2) assms(2) by (simp add: wf_metrics_def)
  then have "(95 * of_nat (sm_shadow_reads ?m) :: rat) \<le> 100 * of_nat (sm_shadow_matches ?m)"
    using r(1) by (simp add: field_simps)
  then have "(of_nat (95 * sm_shadow_reads ?m) :: rat) \<le> of_nat (100 * sm_shadow_matches ?m)" by simp
  then have m: "95 * sm_shadow_reads ?m \<le> 100 * sm_shadow_matches ?m" by (simp only: of_nat_le_iff)
  have "100 * sm_replication_failures ?m \<le> ?t"
  proof (cases "?t = 0")
    case False
    then have "(of_nat (sm_replication_failures ?m) / of_nat ?t :: rat) \<le> 1 / 100"
      using r(3) by (simp add: failure_rate_def Let_def)
    then have "(100 * of_nat (sm_replication_failures ?m) :: rat) \<le> of_nat ?t"
      using False by (simp add: field_simps)
    then have "(of_nat (100 * sm_replication_failures ?m) :: rat) \<le> of_nat ?t" by simp
    then show ?thesis by (simp only: of_nat_le_iff)
  qed simp
  then show ?thesis using r(1) m by simp
qed

lemma phase_step:
  "getPhase (mb_shadow (fst (managed_step f op s))) = getPhase (mb_shadow (fst s)) \<or>
   (op = Initialize SchemaOk \<and> getPhase (mb_shadow (fst s)) = Off \<and>
      getPhase (mb_shadow (fst (managed_step f op s))) = Shadow) \<or>
   (op = Promote \<and> fst (isReadyForPromotion (mb_shadow (fst s))) \<and>
      getPhase (mb_shadow (fst s)) < getPhase (mb_shadow (fst (managed_step f op s))))"
proof (cases op)
  case (Initialize oc)
  then show ?thesis
    by (cases oc) (auto simp: managed_step_def initialize_def Let_def advancePhase_def getPhase_def)
next
  case Promote
  then show ?thesis
    by (cases "getPhase (mb_shadow (fst s))"; cases "isReadyForPromotion (mb_shadow (fst s))")
      (auto simp: managed_step_def attemptPromotion_def Let_def advancePhase_def getPhase_def
        less_shadow_phase_def phase_rank_def)
next
  case (ShadowRead ids found)
  then show ?thesis by (cases found) (simp_all add: managed_step_def shadowRead_def)
qed (simp_all add: managed_step_def replicateEvent_def Let_def)

text \<open>Phases only go forward, and past the shadow phase only on evidence: from any state the backend
  reaches, one more operation either leaves the phase, or starts the shadow phase at a successful
  initialisation, or is a promotion attempt that moves it up after at least a hundred shadow reads of which
  at least 95 in a hundred matched, with at most one failure in a hundred replications (exactly one in a
  hundred still passes).\<close>

theorem promotion_needs_evidence:
  assumes "fold (managed_step f) ops (new_backend mode, empty_pg) = s"
    and "getPhase (mb_shadow (fst (managed_step f op s))) \<noteq> getPhase (mb_shadow (fst s))"
  shows "getPhase (mb_shadow (fst s)) < getPhase (mb_shadow (fst (managed_step f op s))) \<and>
    (op = Initialize SchemaOk \<and> getPhase (mb_shadow (fst (managed_step f op s))) = Shadow \<or>
     op = Promote \<and> 100 \<le> sm_shadow_reads (metrics_of s) \<and>
       95 * sm_shadow_reads (metrics_of s) \<le> 100 * sm_shadow_matches (metrics_of s) \<and>
       100 * sm_replication_failures (metrics_of s)
         \<le> sm_managed_replications (metrics_of s) + sm_replication_failures (metrics_of s))"
proof -
  have w: "wf_metrics (metrics_of s)"
    using metrics_machine.run_inv[OF initial_metrics] assms(1) by blast
  have "Off < Shadow" by (simp add: less_shadow_phase_def phase_rank_def)
  then show ?thesis using phase_step[of f op s] assms(2) ready_criteria[OF _ w] by auto
qed

subsection \<open>A short life\<close>

definition no_stringify :: "json \<Rightarrow> string" where
  "no_stringify v = ''{}''"

definition ev1 :: stored_event where
  "ev1 = sample_stored ''e1'' ''h1''"

definition outage :: "managed_op list" where
  "outage = [Initialize SchemaOk, Replicate ev1, FlushDone False 7]"

definition after_outage :: "managed \<times> pg_db" where
  "after_outage = fold (managed_step no_stringify) outage (new_backend Hybrid, empty_pg)"

lemma after_outage_eq: "fold (managed_step no_stringify) outage (new_backend Hybrid, empty_pg) =
    (fst after_outage, snd after_outage)"
  by (simp add: after_outage_def)

theorem replication_queue_is_bounded_witness:
  "length (mb_replicationQueue (fst after_outage)) + length (mb_batch (fst after_outage)) \<le> 1100"
  using replication_queue_is_bounded[OF after_outage_eq] by simp


theorem degraded_backend_stays_degraded_witness:
  "mb_connectionState (fst (fold (managed_step no_stringify) [FlushTimer, FlushDone True 9] after_outage)) = DegradedConnection"
proof -
  have "mb_connectionState (fst after_outage) = DegradedConnection" by code_simp
  then show ?thesis
    using degraded_backend_stays_degraded[of after_outage "[FlushTimer, FlushDone True 9]" no_stringify]
    by (simp add: restarts_def)
qed

theorem promotion_needs_evidence_witness:
  "getPhase (mb_shadow (new_backend Hybrid)) < getPhase (mb_shadow (initialize SchemaOk (new_backend Hybrid)))"
proof -
  have "fold (managed_step no_stringify) [] (new_backend Hybrid, empty_pg) = (new_backend Hybrid, empty_pg)" by simp
  moreover have "getPhase (mb_shadow (fst (managed_step no_stringify (Initialize SchemaOk) (new_backend Hybrid, empty_pg))))
      \<noteq> getPhase (mb_shadow (fst (new_backend Hybrid, empty_pg)))"
    by code_simp
  ultimately have "getPhase (mb_shadow (fst (new_backend Hybrid, empty_pg))) <
      getPhase (mb_shadow (fst (managed_step no_stringify (Initialize SchemaOk) (new_backend Hybrid, empty_pg))))"
    by (rule promotion_needs_evidence[THEN conjunct1])
  then show ?thesis by (simp add: managed_step_def)
qed

end
