(* ===== verification/Text_Rules.thy ===== *)
theory Text_Rules
  imports Tables Privacy_Tags Json "HOL-Library.Sublist"
begin

text \<open>
  The text rules of \<open>memory-server/src/core/event-recorder.ts\<close>: tag normalisation, redaction,
  classification of an observation and its signal score. Every regular expression is written out
  in its matching order. A \<open>char\<close> is a code unit below 256, so the Japanese alternatives of the
  classification patterns, which no such text can contain, do not appear.
\<close>

subsection \<open>Global replacement\<close>

text \<open>
  A rule says how many characters the pattern matches at a position (0: no match there), given
  whether the character before is a word character. \<open>replace_all\<close> is \<open>String.replace\<close> with a
  global pattern.
\<close>

type_synonym text_rule = "bool \<Rightarrow> string \<Rightarrow> nat"

definition starts_word :: "string \<Rightarrow> bool" where
  "starts_word s = (case s of [] \<Rightarrow> False | c # _ \<Rightarrow> is_word_char c)"

definition word_boundary :: "bool \<Rightarrow> string \<Rightarrow> bool" where
  "word_boundary prev s \<longleftrightarrow> prev \<noteq> starts_word s"

function replace_all :: "text_rule \<Rightarrow> string \<Rightarrow> bool \<Rightarrow> string \<Rightarrow> string" where
  "replace_all m rep prev [] = []"
| "replace_all m rep prev (c # s) =
     (case m prev (c # s) of
        0 \<Rightarrow> c # replace_all m rep (is_word_char c) s
      | Suc n \<Rightarrow> rep @ replace_all m rep (is_word_char (last (c # take n s))) (drop n s))"
  by pat_completeness auto
termination
  by (relation "measure (length \<circ> snd \<circ> snd \<circ> snd)") auto

lemma starts_word_simps [simp]: "\<not> starts_word []" "starts_word (c # s) = is_word_char c"
  by (simp_all add: starts_word_def)

subsection \<open>Tags\<close>

text \<open>\<open>[...new Set(xs)]\<close>: the first of each value, in order.\<close>

fun keep_first :: "'a set \<Rightarrow> 'a list \<Rightarrow> 'a list" where
  "keep_first seen [] = []"
| "keep_first seen (x # xs) =
     (if x \<in> seen then keep_first seen xs else x # keep_first (insert x seen) xs)"

lemma set_keep_first: "set (keep_first seen xs) = set xs - seen"
  by (induction xs arbitrary: seen) auto

lemma distinct_keep_first: "distinct (keep_first seen xs)"
  by (induction xs arbitrary: seen) (auto simp: set_keep_first)

definition normal_tag :: "json \<Rightarrow> string" where
  "normal_tag v = (case v of JStr s \<Rightarrow> js_lower (js_trim s) | _ \<Rightarrow> [])"

definition normalizeTags :: "json option \<Rightarrow> string list" where
  "normalizeTags tags =
     (case as_array tags of
        None \<Rightarrow> []
      | Some vs \<Rightarrow> keep_first {} (filter (\<lambda>t. t \<noteq> []) (map normal_tag vs)))"

definition isBlockedTag :: "string list \<Rightarrow> bool" where
  "isBlockedTag tags \<longleftrightarrow> ''block'' \<in> set tags \<or> ''no_mem'' \<in> set tags"

definition shouldRedact :: "string list \<Rightarrow> bool" where
  "shouldRedact tags \<longleftrightarrow> ''redact'' \<in> set tags \<or> ''mask'' \<in> set tags"

definition isPrivateTag :: "string list \<Rightarrow> bool" where
  "isPrivateTag tags \<longleftrightarrow> ''private'' \<in> set tags \<or> ''sensitive'' \<in> set tags"

subsection \<open>Redaction\<close>

definition is_letter :: "char \<Rightarrow> bool" where
  "is_letter c = (let n = (of_char c :: nat) in (65 \<le> n \<and> n \<le> 90) \<or> (97 \<le> n \<and> n \<le> 122))"

definition is_hex :: "char \<Rightarrow> bool" where
  "is_hex c = (let n = (of_char c :: nat) in
     (48 \<le> n \<and> n \<le> 57) \<or> (65 \<le> n \<and> n \<le> 70) \<or> (97 \<le> n \<and> n \<le> 102))"

definition is_email_local :: "char \<Rightarrow> bool" where
  "is_email_local c \<longleftrightarrow> is_letter c \<or> is_digit c \<or> c \<in> set ''._%+-''"

definition is_email_domain :: "char \<Rightarrow> bool" where
  "is_email_domain c \<longleftrightarrow> is_letter c \<or> is_digit c \<or> c \<in> set ''.-''"

text \<open>\<open>[A-Z0-9.-]+\.[A-Z]{2,}\b\<close>: the dot of the last domain part is looked for from the right.\<close>

fun domain_end :: "nat \<Rightarrow> string \<Rightarrow> nat option" where
  "domain_end 0 t = None"
| "domain_end (Suc j) t =
     (let ls = takeWhile is_letter (drop (Suc j) t) in
      if 1 \<le> j \<and> t ! j = CHR ''.'' \<and> 2 \<le> length ls \<and> \<not> starts_word (drop (Suc j + length ls) t)
      then Some (Suc j + length ls)
      else domain_end j t)"

definition email_rule :: text_rule where
  "email_rule prev s =
     (let l = takeWhile is_email_local s in
      case dropWhile is_email_local s of
        [] \<Rightarrow> 0
      | c # t \<Rightarrow>
          if word_boundary prev s \<and> l \<noteq> [] \<and> c = CHR 0x40
          then (case domain_end (length (takeWhile is_email_domain t)) t of
                  None \<Rightarrow> 0
                | Some n \<Rightarrow> length l + 1 + n)
          else 0)"

definition key_rule :: text_rule where
  "key_rule prev s =
     (let body = takeWhile (\<lambda>c. is_letter c \<or> is_digit c) (drop 3 s) in
      if word_boundary prev s \<and> take 3 s \<in> {''sk_'', ''rk_'', ''pk_''} \<and> 16 \<le> length body \<and>
         \<not> starts_word (drop (3 + length body) s)
      then 3 + length body else 0)"

definition secret_name :: "string \<Rightarrow> string option" where
  "secret_name s =
     (case chop_ci ''api'' s of
        Some t \<Rightarrow> chop_ci ''key'' (if t \<noteq> [] \<and> hd t \<in> set ''-_ '' then tl t else t)
      | None \<Rightarrow>
          (case chop_ci ''token'' s of Some t \<Rightarrow> Some t
           | None \<Rightarrow> (case chop_ci ''secret'' s of Some t \<Rightarrow> Some t
           | None \<Rightarrow> chop_ci ''password'' s)))"

definition is_secret_char :: "char \<Rightarrow> bool" where
  "is_secret_char c \<longleftrightarrow> \<not> is_js_space c \<and> c \<notin> set '',;''"

definition secret_rule :: text_rule where
  "secret_rule prev s =
     (if \<not> word_boundary prev s then 0
      else (case secret_name s of
              None \<Rightarrow> 0
            | Some t \<Rightarrow>
                (case dropWhile is_js_space t of
                   [] \<Rightarrow> 0
                 | c # u \<Rightarrow>
                     if c \<notin> set '':='' then 0
                     else (let v = dropWhile is_js_space u; val = takeWhile is_secret_char v in
                           if val = [] then 0 else length s - length v + length val))))"

definition hex_rule :: text_rule where
  "hex_rule prev s =
     (let run = takeWhile is_hex s in
      if word_boundary prev s \<and> 32 \<le> length run \<and> \<not> starts_word (drop (length run) s)
      then length run else 0)"

definition redactContent :: "string \<Rightarrow> string list \<Rightarrow> string" where
  "redactContent raw tags =
     (if \<not> shouldRedact tags then raw
      else replace_all hex_rule ''[REDACTED_HEX]'' False
             (replace_all secret_rule ''[REDACTED_SECRET]'' False
               (replace_all key_rule ''[REDACTED_KEY]'' False
                 (replace_all email_rule ''[REDACTED_EMAIL]'' False raw))))"

subsection \<open>Classification\<close>

definition has_any :: "string list \<Rightarrow> string \<Rightarrow> bool" where
  "has_any ws t \<longleftrightarrow> list_ex (\<lambda>w. sublist w t) ws"

text \<open>\<open>\b(w1|...|wn)\b\<close> for words that begin and end with a word character.\<close>

fun has_word :: "string list \<Rightarrow> bool \<Rightarrow> string \<Rightarrow> bool" where
  "has_word ws prev [] = False"
| "has_word ws prev (c # s) =
     ((\<not> prev \<and> list_ex (\<lambda>w. prefix w (c # s) \<and> \<not> starts_word (drop (length w) (c # s))) ws)
      \<or> has_word ws (is_word_char c) s)"

definition classifyObservation :: "string \<Rightarrow> string \<Rightarrow> string \<Rightarrow> string" where
  "classifyObservation eventType title content =
     (if eventType = ''session_end'' then ''summary''
      else if eventType = ''session_start'' then ''context''
      else if eventType = ''tool_use'' then ''action''
      else (let t = js_lower (title @ '' '' @ content) in
        if has_any [''decided'', ''chose'', ''picked'', ''switched to''] t then ''decision''
        else if has_any [''pattern'', ''usually'', ''consistently'', ''repeatedly''] t then ''pattern''
        else if has_any [''prefer'', ''dislike'', ''avoid'', ''rather'', ''preference''] t then ''preference''
        else if has_any [''learned'', ''lesson'', ''realized'', ''gotcha'', ''mistake''] t then ''lesson''
        else if has_any [''next step'', ''todo'', ''next action''] t then ''action''
        else ''context''))"

definition has_fence :: "string \<Rightarrow> bool" where
  "has_fence content =
     (let fence = [CHR 0x60, CHR 0x60, CHR 0x60] in
      case after_first fence content of None \<Rightarrow> False | Some r \<Rightarrow> after_first fence r \<noteq> None)"

definition classifyMemoryType :: "string \<Rightarrow> string \<Rightarrow> string \<Rightarrow> string" where
  "classifyMemoryType eventType title content =
     (let t = js_lower (title @ '' '' @ content) in
      if eventType = ''session_start'' \<or> eventType = ''session_end'' then ''episodic''
      else if has_word [''happened'', ''occurred'', ''experienced'', ''encountered'', ''ran into'',
                        ''found that''] False t then ''episodic''
      else if has_word [''today'', ''yesterday'', ''last time'', ''this morning'', ''earlier''] False t
        then ''episodic''
      else if eventType = ''tool_use'' then ''procedural''
      else if has_word [''how to'', ''step'', ''steps'', ''procedure'', ''instruction'', ''instructions'',
                        ''tutorial'', ''guide''] False t then ''procedural''
      else if has_word [''run'', ''execute'', ''install'', ''configure'', ''setup'', ''deploy'', ''build'',
                        ''compile''] False t then ''procedural''
      else if has_fence content then ''procedural''
      else ''semantic'')"

definition SIGNAL_BOOST_AMOUNT :: rat where
  "SIGNAL_BOOST_AMOUNT = 3 / 10"

definition NOISE_DAMPEN_AMOUNT :: rat where
  "NOISE_DAMPEN_AMOUNT = 2 / 10"

definition extractSignalScore :: "string \<Rightarrow> rat" where
  "extractSignalScore content =
     (let t = js_lower content in
      (if has_word [''remember'', ''architecture'', ''decision'', ''bug'', ''fix''] False t
       then SIGNAL_BOOST_AMOUNT else 0)
      - (if has_any [''<environment_context>'', ''<agents.md>''] t then NOISE_DAMPEN_AMOUNT else 0))"

subsection \<open>What redaction leaves\<close>

text \<open>A hexadecimal token: at least 32 hexadecimal digits that stand as a word of their own.\<close>

definition has_hex_token :: "string \<Rightarrow> bool" where
  "has_hex_token t \<longleftrightarrow>
     (\<exists>u w v. t = u @ w @ v \<and> 32 \<le> length w \<and> list_all is_hex w \<and>
        (u = [] \<or> \<not> is_word_char (last u)) \<and> \<not> starts_word v)"

fun unmatched :: "bool \<Rightarrow> string \<Rightarrow> bool" where
  "unmatched prev [] = True"
| "unmatched prev (c # s) \<longleftrightarrow> hex_rule prev (c # s) = 0 \<and> unmatched (is_word_char c) s"

lemma hex_is_word: "is_hex c \<Longrightarrow> is_word_char c"
  by (auto simp: is_hex_def is_word_char_def Let_def)

lemma hex_rule_inside: "is_word_char c \<Longrightarrow> hex_rule True (c # s) = 0"
  by (simp add: hex_rule_def word_boundary_def Let_def)

lemma hex_rule_other: "\<not> is_hex c \<Longrightarrow> hex_rule prev (c # s) = 0"
  by (simp add: hex_rule_def)

lemma hex_rule_nonword: "\<not> starts_word s \<Longrightarrow> hex_rule prev s = 0"
  by (cases s) (auto simp: hex_rule_def dest: hex_is_word)

text \<open>Inside a word nothing is replaced, so the run of digits at its start stays as it is.\<close>

lemma run_kept:
  "takeWhile is_hex (replace_all hex_rule rep True s) = takeWhile is_hex s \<and>
   starts_word (dropWhile is_hex (replace_all hex_rule rep True s)) = starts_word (dropWhile is_hex s)"
proof (induction s)
  case (Cons c s)
  show ?case
  proof (cases "is_word_char c")
    case True
    with Cons.IH show ?thesis by (simp add: hex_rule_inside)
  next
    case False
    then have "\<not> is_hex c" using hex_is_word by blast
    with False show ?thesis by (simp add: hex_rule_other)
  qed
qed simp

lemma hex_rule_run:
  "hex_rule prev s =
     (if word_boundary prev s \<and> 32 \<le> length (takeWhile is_hex s) \<and> \<not> starts_word (dropWhile is_hex s)
      then length (takeWhile is_hex s) else 0)"
  by (simp add: hex_rule_def Let_def dropWhile_eq_drop)

lemma hex_rule_kept:
  "hex_rule prev (c # replace_all hex_rule rep (is_word_char c) s) = hex_rule prev (c # s)"
proof (cases "is_hex c")
  case True
  with run_kept [of rep s] hex_is_word [OF True] show ?thesis
    by (simp add: hex_rule_run word_boundary_def)
qed (simp add: hex_rule_other)

lemma unmatched_nonword: "\<not> starts_word s \<Longrightarrow> unmatched p s = unmatched q s"
  by (cases s) (auto simp: hex_rule_nonword)

lemma hex_rule_match:
  assumes "hex_rule prev s = Suc n"
  shows "Suc n = length (takeWhile is_hex s) \<and> \<not> starts_word (drop (Suc n) s)"
  using assms by (auto simp: hex_rule_run dropWhile_eq_drop split: if_splits)

lemma starts_word_replaced:
  "\<not> starts_word s \<Longrightarrow> \<not> starts_word (replace_all hex_rule rep prev s)"
  by (cases s) (auto simp: hex_rule_nonword)

lemma unmatched_marker:
  "\<not> starts_word s \<Longrightarrow> unmatched True s \<Longrightarrow> unmatched prev (''[REDACTED_HEX]'' @ s)"
  using unmatched_nonword [of s True False]
  by (simp add: hex_rule_inside hex_rule_other is_word_char_def is_hex_def)

lemma last_hex: "hex_rule prev (c # s) = Suc n \<Longrightarrow> is_word_char (last (c # take n s))"
proof -
  assume m: "hex_rule prev (c # s) = Suc n"
  then have "Suc n = length (takeWhile is_hex (c # s))" using hex_rule_match by blast
  then have "c # take n s = takeWhile is_hex (c # s)"
    by (metis take_Suc_Cons takeWhile_eq_take)
  then have "is_hex (last (c # take n s))"
    by (metis last_in_set list.distinct(1) set_takeWhileD)
  then show ?thesis by (rule hex_is_word)
qed

lemma unmatched_replaced: "unmatched prev (replace_all hex_rule ''[REDACTED_HEX]'' prev s)"
proof (induction hex_rule "''[REDACTED_HEX]''" prev s rule: replace_all.induct)
  case (2 prev c s)
  show ?case
  proof (cases "hex_rule prev (c # s)")
    case 0
    with 2 show ?thesis by (simp add: hex_rule_kept)
  next
    case (Suc n)
    have nw: "\<not> starts_word (drop n s)" using hex_rule_match [OF Suc] by simp
    have "unmatched True (replace_all hex_rule ''[REDACTED_HEX]'' True (drop n s))"
      using 2(2) [OF Suc] last_hex [OF Suc] by simp
    with unmatched_marker [OF starts_word_replaced [OF nw]] Suc last_hex [OF Suc]
    show ?thesis by simp
  qed
qed simp

lemma hex_rule_token:
  "list_all is_hex w \<Longrightarrow> 32 \<le> length w \<Longrightarrow> \<not> starts_word v \<Longrightarrow> hex_rule False (w @ v) \<noteq> 0"
proof -
  assume w: "list_all is_hex w" "32 \<le> length w" and v: "\<not> starts_word v"
  then obtain c w' where c: "w = c # w'" "is_hex c" by (cases w) auto
  have "takeWhile is_hex v = [] \<and> dropWhile is_hex v = v"
    using v by (cases v) (auto dest: hex_is_word)
  with w v c show ?thesis
    by (simp add: hex_rule_run word_boundary_def hex_is_word list_all_iff takeWhile_append dropWhile_append)
qed

lemma unmatched_suffix:
  "unmatched prev (u @ t) \<Longrightarrow> unmatched (if u = [] then prev else is_word_char (last u)) t"
  by (induction u arbitrary: prev) (auto split: if_splits)

lemma no_hex_token: "unmatched False t \<Longrightarrow> \<not> has_hex_token t"
proof
  assume t: "unmatched False t" "has_hex_token t"
  then obtain u w v where s: "t = u @ w @ v" "32 \<le> length w" "list_all is_hex w" "\<not> starts_word v"
    and b: "u = [] \<or> \<not> is_word_char (last u)" unfolding has_hex_token_def by blast
  have "unmatched False (w @ v)"
    using unmatched_suffix [of False u "w @ v"] t(1) s(1) b by (auto split: if_splits)
  moreover have "w \<noteq> []" using s(2) by auto
  ultimately have "hex_rule False (w @ v) = 0" by (cases "w @ v") auto
  with hex_rule_token [OF s(3,2,4)] show False by simp
qed

text \<open>
  Redaction is by tag: without a redact or mask tag the text is stored as it came, with one no
  hexadecimal token of 32 or more digits is left in it, whatever the other rules put beside it.
\<close>

theorem redaction_removes_hex_tokens:
  "if shouldRedact tags then \<not> has_hex_token (redactContent raw tags) else redactContent raw tags = raw"
  by (simp add: redactContent_def no_hex_token unmatched_replaced)

definition quoted_secret :: string where
  "quoted_secret = ''{'' @ [CHR 0x22] @ ''password'' @ [CHR 0x22] @ '':'' @ [CHR 0x22] @ ''hunter2'' @ [CHR 0x22] @ ''}''"

text \<open>
  The rule for named secrets expects the separator right after the name, so in the JSON text of
  a payload, where a quote closes the name first, the secret stays; in plain text it is replaced.
\<close>

theorem json_secrets_are_not_redacted:
  "redactContent quoted_secret [''redact''] = quoted_secret \<and>
   redactContent ''password: hunter2'' [''redact''] = ''[REDACTED_SECRET]''"
  by (intro conjI) code_simp+

end
