(* ===== verification/Event_Build.thy ===== *)
theory Event_Build
  imports Text_Rules
begin

text \<open>
  From an event envelope to the values that are stored: the pure part of
  \<open>memory-server/src/core/event-recorder.ts\<close> (\<open>buildDedupeHash\<close>, \<open>buildContentDedupeHash\<close>,
  \<open>buildObservationFromEvent\<close>, the temporal anchors) with the helpers of \<open>core-utils.ts\<close> it
  calls. SHA-256, \<open>JSON.parse\<close> of a text, \<open>Date.parse\<close> and the printing of a date are
  parameters, gathered in the record \<open>host\<close>.
\<close>

record host =
  sha256 :: "string \<Rightarrow> string"
  json_parse :: "string \<Rightarrow> json option"
  date_parse :: "string \<Rightarrow> int option"
  to_iso :: "int \<Rightarrow> string"

text \<open>The envelope: fields the code only tests for being a string keep their JSON value.\<close>

record envelope =
  en_event_id :: "string option"
  en_platform :: "string option"
  en_project :: "string option"
  en_session_id :: "string option"
  en_event_type :: "string option"
  en_ts :: "string option"
  en_payload :: "json option"
  en_metadata :: "json option"
  en_tags :: "json option"
  en_privacy_tags :: "json option"
  en_dedupe_hash :: "string option"
  en_correlation_id :: "string option"
  en_user_id :: "json option"
  en_team_id :: "json option"
  en_thread_id :: "json option"
  en_topic :: "json option"
  en_branch :: "json option"
  en_expires_at :: "json option"
  en_event_time :: "json option"
  en_observed_at :: "json option"
  en_valid_from :: "json option"
  en_valid_to :: "json option"
  en_supersedes :: "json option"
  en_invalidated_at :: "json option"

subsection \<open>Values\<close>

definition parseJsonSafe :: "host \<Rightarrow> json option \<Rightarrow> json" where
  "parseJsonSafe h v =
     (case v of
        Some (JObj kvs) \<Rightarrow> JObj kvs
      | Some (JArr xs) \<Rightarrow> JArr xs
      | Some (JStr s) \<Rightarrow>
          (if js_trim s \<noteq> []
           then (case json_parse h s of Some (JObj kvs) \<Rightarrow> JObj kvs | _ \<Rightarrow> JObj [])
           else JObj [])
      | _ \<Rightarrow> JObj [])"

text \<open>\<open>x || d\<close> on a string or undefined.\<close>

definition or_string :: "string option \<Rightarrow> string \<Rightarrow> string" where
  "or_string x d = (if truthy x then or_else x [] else d)"

text \<open>\<open>typeof v === "string" && v.trim() ? v.trim() : null\<close>\<close>

definition trimmed_string :: "json option \<Rightarrow> string option" where
  "trimmed_string v =
     (case as_string v of None \<Rightarrow> None | Some s \<Rightarrow> (if js_trim s = [] then None else Some (js_trim s)))"

text \<open>
  A date, or the RangeError that \<open>toISOString\<close> raises beyond 8.64e15 ms of the epoch. Numbers are
  integers, so none is infinite.
\<close>

datatype date_result = NoDate | IsoDate string | DateRangeError

definition MAX_DATE_MS :: int where
  "MAX_DATE_MS = 8640000000000000"

definition normalizeExpiresAt :: "host \<Rightarrow> json option \<Rightarrow> date_result" where
  "normalizeExpiresAt h v =
     (case v of
        Some (JNum n) \<Rightarrow>
          (if \<bar>n * 1000\<bar> \<le> MAX_DATE_MS then IsoDate (to_iso h (n * 1000)) else DateRangeError)
      | Some (JStr s) \<Rightarrow>
          (if s = [] then NoDate
           else (case date_parse h s of None \<Rightarrow> NoDate | Some t \<Rightarrow> IsoDate (to_iso h t)))
      | _ \<Rightarrow> NoDate)"

definition normalizeTemporalTimestamp :: "host \<Rightarrow> json option \<Rightarrow> date_result" where
  "normalizeTemporalTimestamp h v = normalizeExpiresAt h v"

subsection \<open>Dedupe hashes\<close>

definition js_strings :: "string list \<Rightarrow> json" where
  "js_strings ts = JArr (map JStr ts)"

definition buildDedupeHash :: "host \<Rightarrow> envelope \<Rightarrow> string" where
  "buildDedupeHash h e = sha256 h (stringify (JObj
     [(''platform'', JStr (js_lower (js_trim (or_string (en_platform e) ''unknown'')))),
      (''project'', JStr (js_trim (or_string (en_project e) ''unknown''))),
      (''session_id'', JStr (js_trim (or_string (en_session_id e) ''unknown''))),
      (''event_type'', JStr (js_lower (js_trim (or_string (en_event_type e) ''unknown'')))),
      (''ts'', JStr (js_trim (or_string (en_ts e) []))),
      (''payload'', (case en_payload e of None \<Rightarrow> JObj [] | Some JNull \<Rightarrow> JObj [] | Some p \<Rightarrow> p)),
      (''tags'', js_strings (normalizeTags (en_tags e))),
      (''privacy_tags'', js_strings (normalizeTags (en_privacy_tags e)))]))"

function collapse_spaces :: "string \<Rightarrow> string" where
  "collapse_spaces [] = []"
| "collapse_spaces (c # s) =
     (if is_js_space c then CHR '' '' # collapse_spaces (dropWhile is_js_space s)
      else c # collapse_spaces s)"
  by pat_completeness auto
termination
  by (relation "measure length") (auto simp: le_imp_less_Suc length_dropWhile_le)

definition normalizeDedupeText :: "string \<Rightarrow> string" where
  "normalizeDedupeText v = js_lower (js_trim (collapse_spaces v))"

definition strip_punctuation :: "string \<Rightarrow> string" where
  "strip_punctuation s = rev (dropWhile (\<lambda>c. c \<in> set ''.,;:!?'') (rev s))"

definition is_url_char :: "char \<Rightarrow> bool" where
  "is_url_char c \<longleftrightarrow>
     \<not> is_js_space c \<and> c \<notin> {CHR 0x22, CHR 0x27, CHR 0x60, CHR ''<'', CHR ''>'', CHR '')'', CHR '']''}"

definition url_at :: "string \<Rightarrow> string option" where
  "url_at s =
     (let scheme = (if prefix ''https://'' s then 8 else if prefix ''http://'' s then 7 else 0 :: nat);
          rest = takeWhile is_url_char (drop scheme s)
      in if scheme = 0 \<or> rest = [] then None else Some (take scheme s @ rest))"

fun first_url :: "string \<Rightarrow> string option" where
  "first_url [] = None"
| "first_url (c # s) = (case url_at (c # s) of Some u \<Rightarrow> Some u | None \<Rightarrow> first_url s)"

definition extractFirstUrl :: "string \<Rightarrow> string option" where
  "extractFirstUrl v = (case first_url v of None \<Rightarrow> None | Some u \<Rightarrow> Some (strip_punctuation u))"

definition event_payload :: "envelope \<Rightarrow> json" where
  "event_payload e = (case en_payload e of None \<Rightarrow> JObj [] | Some JNull \<Rightarrow> JObj [] | Some p \<Rightarrow> p)"

definition checkpoint_url :: "json \<Rightarrow> string \<Rightarrow> string option" where
  "checkpoint_url payload content =
     (case filter (\<lambda>v. case as_string v of None \<Rightarrow> False | Some s \<Rightarrow> js_trim s \<noteq> [])
             (map (jget (Some payload))
                [''url'', ''href'', ''link'', ''pr_url'', ''pull_request_url'', ''source_url'']) of
        v # _ \<Rightarrow> Some (strip_punctuation (js_trim (or_else (as_string v) [])))
      | [] \<Rightarrow> extractFirstUrl (stringify payload @ '' '' @ content))"

definition buildContentDedupeHash :: "host \<Rightarrow> envelope \<Rightarrow> string \<Rightarrow> string \<Rightarrow> string option" where
  "buildContentDedupeHash h e observationType content =
     (let normalized = normalizeDedupeText content;
          eventType = js_lower (js_trim (or_string (en_event_type e) ''unknown''));
          url = (if eventType = ''checkpoint'' then checkpoint_url (event_payload e) content else None);
          basis = (if truthy url then (''checkpoint_url'', normalizeDedupeText (or_else url []))
                   else (''content'', normalized))
      in if normalized = [] then None
         else Some (sha256 h (stringify (JObj
           [(''session_id'', JStr (js_trim (or_string (en_session_id e) ''unknown''))),
            (''event_type'', JStr eventType),
            (''observation_type'', JStr observationType),
            (''basis_kind'', JStr (fst basis)),
            (''basis_value'', JStr (snd basis))]))))"

subsection \<open>The observation\<close>

record observation_base =
  bs_title :: string
  bs_content :: string

text \<open>\<open>typeof raw === "string" && raw.trim()\<close> as a string, empty when false.\<close>

definition trimmed_or_empty :: "json option \<Rightarrow> string" where
  "trimmed_or_empty v = (case as_string v of None \<Rightarrow> [] | Some s \<Rightarrow> js_trim s)"

fun first_nonempty :: "string list \<Rightarrow> string \<Rightarrow> string" where
  "first_nonempty [] d = d"
| "first_nonempty (s # ss) d = (if s \<noteq> [] then s else first_nonempty ss d)"

definition buildObservationFromEvent :: "host \<Rightarrow> envelope \<Rightarrow> string \<Rightarrow> observation_base" where
  "buildObservationFromEvent h e redactedContent =
     (let payload = parseJsonSafe h (en_payload e);
          field = (\<lambda>k. trimmed_or_empty (jget (Some payload) k))
      in \<lparr>bs_title = first_nonempty
            [field ''title'', take 120 (field ''prompt''), take 120 (field ''command'')]
            (or_else (en_event_type e) ''undefined''),
          bs_content = first_nonempty
            [field ''content'', field ''prompt'', field ''command'', redactedContent]
            (take 4000 (stringify payload))\<rparr>)"

definition raw_content :: "host \<Rightarrow> envelope \<Rightarrow> string option" where
  "raw_content h e =
     (let payload = parseJsonSafe h (en_payload e);
          text_of = (\<lambda>k. map_option js_trim (as_string (jget (Some payload) k)))
      in case text_of ''content'' of Some s \<Rightarrow> Some s
         | None \<Rightarrow> (case text_of ''prompt'' of Some s \<Rightarrow> Some s | None \<Rightarrow> text_of ''command''))"

subsection \<open>Temporal anchors\<close>

definition firstTemporalValue :: "host \<Rightarrow> envelope \<Rightarrow> json option \<Rightarrow> json \<Rightarrow> string \<Rightarrow> json option" where
  "firstTemporalValue h e direct payload key =
     (if direct \<noteq> None then direct
      else if jget (Some payload) key \<noteq> None then jget (Some payload) key
      else jget (Some (parseJsonSafe h (en_metadata e))) key)"

text \<open>\<open>a ?? b\<close>: null counts as absent.\<close>

definition nullish_or :: "json option \<Rightarrow> json option \<Rightarrow> json option" where
  "nullish_or a b = (case a of None \<Rightarrow> b | Some JNull \<Rightarrow> b | Some v \<Rightarrow> Some v)"

definition firstTemporalId :: "host \<Rightarrow> envelope \<Rightarrow> json \<Rightarrow> string option" where
  "firstTemporalId h e payload =
     trimmed_string
       (if en_supersedes e \<noteq> None then en_supersedes e
        else nullish_or (jget (Some payload) ''supersedes'')
               (jget (Some (parseJsonSafe h (en_metadata e))) ''supersedes''))"

record anchors =
  an_event_time :: "string option"
  an_observed_at :: "string option"
  an_valid_from :: "string option"
  an_valid_to :: "string option"
  an_supersedes :: "string option"
  an_invalidated_at :: "string option"

definition date_option :: "date_result \<Rightarrow> string option" where
  "date_option d = (case d of IsoDate s \<Rightarrow> Some s | _ \<Rightarrow> None)"

text \<open>\<open>None\<close> is the RangeError: the anchors are computed outside the handler's try block.\<close>

definition temporalAnchors :: "host \<Rightarrow> envelope \<Rightarrow> json \<Rightarrow> string \<Rightarrow> anchors option" where
  "temporalAnchors h e payload timestamp =
     (let date = (\<lambda>direct key. normalizeTemporalTimestamp h (firstTemporalValue h e direct payload key));
          t1 = date (en_event_time e) ''event_time''; t2 = date (en_observed_at e) ''observed_at'';
          t3 = date (en_valid_from e) ''valid_from''; t4 = date (en_valid_to e) ''valid_to'';
          t5 = date (en_invalidated_at e) ''invalidated_at''
      in if DateRangeError \<in> set [t1, t2, t3, t4, t5] then None
         else Some \<lparr>an_event_time = date_option t1,
                    an_observed_at = Some (or_else (date_option t2) timestamp),
                    an_valid_from = date_option t3, an_valid_to = date_option t4,
                    an_supersedes = firstTemporalId h e payload,
                    an_invalidated_at = date_option t5\<rparr>)"

end
