(* ===== verification/Nuggets.thy ===== *)
theory Nuggets
  imports Text_Rules
begin

text \<open>
  The nugget splitter of \<open>memory-server/src/core/nugget-splitter.ts\<close>: paragraphs, sentences, groups
  of sentences, duplicates removed. The Japanese sentence marks and the Japanese look-ahead are code
  units above 255 and do not occur in a text of the model.
\<close>

definition MIN_NUGGET_CHARS :: nat where "MIN_NUGGET_CHARS = 20"
definition MAX_NUGGET_CHARS :: nat where "MAX_NUGGET_CHARS = 500"
definition SENTENCES_PER_NUGGET :: nat where "SENTENCES_PER_NUGGET = 3"

record nugget =
  ng_seq :: nat
  ng_content :: string
  ng_content_hash :: string

definition newline :: char where
  "newline = CHR 0x0A"

subsection \<open>Sentences\<close>

text \<open>\<open>text.split(/\n{2,}/)\<close>; \<open>acc\<close> is the current paragraph, backwards.\<close>

function split_paragraphs :: "string \<Rightarrow> string \<Rightarrow> string list" where
  "split_paragraphs acc [] = [rev acc]"
| "split_paragraphs acc (c # s) =
     (if c = newline \<and> s \<noteq> [] \<and> hd s = newline
      then rev acc # split_paragraphs [] (dropWhile (\<lambda>d. d = newline) s)
      else split_paragraphs (c # acc) s)"
  by pat_completeness auto
termination
  by (relation "measure (length \<circ> snd)") (auto simp: le_imp_less_Suc length_dropWhile_le)

definition is_upper :: "char \<Rightarrow> bool" where
  "is_upper c = (let n = (of_char c :: nat) in 65 \<le> n \<and> n \<le> 90)"

text \<open>\<open>split(/(?<=[.!?])\s+(?=[A-Z])/)\<close>.\<close>

function split_ends :: "string \<Rightarrow> string \<Rightarrow> string list" where
  "split_ends acc [] = [rev acc]"
| "split_ends acc (c # s) =
     (let rest = dropWhile is_js_space s in
      if is_js_space c \<and> acc \<noteq> [] \<and> hd acc \<in> set ''.!?'' \<and> rest \<noteq> [] \<and> is_upper (hd rest)
      then rev acc # split_ends [] rest
      else split_ends (c # acc) s)"
  by pat_completeness auto
termination
  by (relation "measure (length \<circ> snd)") (auto simp: le_imp_less_Suc length_dropWhile_le)

definition trimmed_parts :: "string list \<Rightarrow> string list" where
  "trimmed_parts ps = filter (\<lambda>s. s \<noteq> []) (map js_trim ps)"

definition splitIntoSentences :: "string \<Rightarrow> string list" where
  "splitIntoSentences t =
     concat (map (\<lambda>p. trimmed_parts (split_ends [] p)) (trimmed_parts (split_paragraphs [] t)))"

subsection \<open>Groups\<close>

fun join_spaces :: "string list \<Rightarrow> string" where
  "join_spaces [] = []"
| "join_spaces [s] = s"
| "join_spaces (s # ss) = s @ '' '' @ join_spaces ss"

text \<open>The nuggets so far, the buffered sentences, and the length the code keeps of the buffer.\<close>

type_synonym group_state = "string list \<times> string list \<times> nat"

definition flush_group :: "group_state \<Rightarrow> group_state" where
  "flush_group g =
     (case g of (nuggets, buffer, bufferLength) \<Rightarrow>
        if buffer = [] then g
        else (let joined = js_trim (join_spaces buffer) in
              (if MIN_NUGGET_CHARS \<le> length joined then nuggets @ [joined] else nuggets, [], 0)))"

function chunks :: "string \<Rightarrow> string list" where
  "chunks s =
     (if s = [] then []
      else (let chunk = js_trim (take MAX_NUGGET_CHARS s) in
            (if MIN_NUGGET_CHARS \<le> length chunk then [chunk] else []) @ chunks (drop MAX_NUGGET_CHARS s)))"
  by pat_completeness auto
termination
  by (relation "measure length") (auto simp: MAX_NUGGET_CHARS_def)

declare chunks.simps [simp del]

definition group_sentence :: "string \<Rightarrow> group_state \<Rightarrow> group_state" where
  "group_sentence sentence g =
     (if MAX_NUGGET_CHARS < length sentence
      then (case flush_group g of (nuggets, buffer, n) \<Rightarrow> (nuggets @ chunks sentence, buffer, n))
      else (case (if MAX_NUGGET_CHARS < snd (snd g) + length sentence + 1 \<and> fst (snd g) \<noteq> []
                  then flush_group g else g) of
              (nuggets, buffer, n) \<Rightarrow>
                (let g' = (nuggets, buffer @ [sentence], n + length sentence + 1) in
                 if SENTENCES_PER_NUGGET \<le> length buffer + 1 then flush_group g' else g')))"

definition groupSentencesIntoNuggets :: "string list \<Rightarrow> string list" where
  "groupSentencesIntoNuggets sentences = fst (flush_group (fold group_sentence sentences ([], [], 0)))"

fun number_nuggets :: "(string \<Rightarrow> string) \<Rightarrow> string set \<Rightarrow> nat \<Rightarrow> string list \<Rightarrow> nugget list" where
  "number_nuggets H seen n [] = []"
| "number_nuggets H seen n (t # ts) =
     (if H t \<in> seen then number_nuggets H seen n ts
      else \<lparr>ng_seq = n, ng_content = t, ng_content_hash = H t\<rparr>
             # number_nuggets H (insert (H t) seen) (Suc n) ts)"

definition splitIntoNuggets :: "(string \<Rightarrow> string) \<Rightarrow> string \<Rightarrow> nugget list" where
  "splitIntoNuggets H content =
     (if length (js_trim content) < MIN_NUGGET_CHARS then []
      else number_nuggets H {} 0 (groupSentencesIntoNuggets (splitIntoSentences content)))"

subsection \<open>Bounds\<close>

definition nugget_sized :: "string \<Rightarrow> bool" where
  "nugget_sized t \<longleftrightarrow> MIN_NUGGET_CHARS \<le> length t \<and> length t \<le> MAX_NUGGET_CHARS"

text \<open>The code's running length is the length of the joined buffer plus one.\<close>

definition group_ok :: "group_state \<Rightarrow> bool" where
  "group_ok g \<longleftrightarrow>
     (\<forall>t \<in> set (fst g). nugget_sized t) \<and>
     snd (snd g) = (if fst (snd g) = [] then 0 else length (join_spaces (fst (snd g))) + 1) \<and>
     snd (snd g) \<le> MAX_NUGGET_CHARS + 1"

lemma length_join_snoc:
  "length (join_spaces (ss @ [s])) = (if ss = [] then length s else length (join_spaces ss) + 1 + length s)"
  by (induction ss rule: join_spaces.induct) auto

lemma trim_fits: "length s \<le> n \<Longrightarrow> length (js_trim s) \<le> n"
  using js_trim_length le_trans by blast

lemma chunks_sized: "t \<in> set (chunks s) \<Longrightarrow> nugget_sized t"
proof (induction s rule: chunks.induct)
  case (1 s)
  then show ?case
    by (subst (asm) (2) chunks.simps)
       (auto simp: Let_def nugget_sized_def trim_fits split: if_splits)
qed

lemma flush_ok: "group_ok g \<Longrightarrow> group_ok (flush_group g)"
proof -
  assume ok: "group_ok g"
  obtain ns b n where g: "g = (ns, b, n)" by (cases g) auto
  have "b \<noteq> [] \<Longrightarrow> length (js_trim (join_spaces b)) \<le> MAX_NUGGET_CHARS"
    using ok by (intro trim_fits) (simp add: group_ok_def g)
  then show ?thesis
    using ok by (auto simp: flush_group_def g group_ok_def nugget_sized_def Let_def)
qed

lemma flush_empties: "fst (snd (flush_group g)) = []"
  by (cases g) (auto simp: flush_group_def Let_def)

lemma add_ok:
  "group_ok (ns, b, n) \<Longrightarrow> length s \<le> MAX_NUGGET_CHARS \<Longrightarrow> b = [] \<or> n + length s + 1 \<le> MAX_NUGGET_CHARS \<Longrightarrow>
     group_ok (ns, b @ [s], n + length s + 1)"
  by (auto simp: group_ok_def length_join_snoc split: if_splits)

lemma group_sentence_ok: "group_ok g \<Longrightarrow> group_ok (group_sentence s g)"
proof (cases "MAX_NUGGET_CHARS < length s")
  case True
  assume "group_ok g"
  then have "group_ok (flush_group g)" by (rule flush_ok)
  with True show ?thesis
    using chunks_sized [of _ s] by (auto simp: group_sentence_def group_ok_def split: prod.split)
next
  case False
  assume ok: "group_ok g"
  let ?g = "if MAX_NUGGET_CHARS < snd (snd g) + length s + 1 \<and> fst (snd g) \<noteq> [] then flush_group g else g"
  obtain ns b n where g: "?g = (ns, b, n)" by (cases ?g) auto
  have "group_ok (ns, b, n)" using ok flush_ok [OF ok] g by (metis (full_types))
  moreover have "b = [] \<or> n + length s + 1 \<le> MAX_NUGGET_CHARS"
    using g flush_empties [of g] by (auto split: if_splits)
  ultimately have "group_ok (ns, b @ [s], n + length s + 1)" using False by (intro add_ok) auto
  with False g flush_ok show ?thesis by (simp add: group_sentence_def Let_def)
qed

lemma groups_sized: "t \<in> set (groupSentencesIntoNuggets ss) \<Longrightarrow> nugget_sized t"
proof -
  have "group_ok ([], [], 0)" by (simp add: group_ok_def)
  then have "group_ok (fold group_sentence ss ([], [], 0))"
    by (induction ss arbitrary: rule: rev_induct) (auto intro: group_sentence_ok)
  then have "group_ok (flush_group (fold group_sentence ss ([], [], 0)))" by (rule flush_ok)
  moreover assume "t \<in> set (groupSentencesIntoNuggets ss)"
  ultimately show ?thesis by (simp add: group_ok_def groupSentencesIntoNuggets_def)
qed

lemma number_nuggets_parts:
  "map ng_seq (number_nuggets H seen n ts) = [n ..< n + length (number_nuggets H seen n ts)] \<and>
   set (map ng_content (number_nuggets H seen n ts)) \<subseteq> set ts \<and>
   (\<forall>g \<in> set (number_nuggets H seen n ts). ng_content_hash g = H (ng_content g) \<and> ng_content_hash g \<notin> seen) \<and>
   distinct (map ng_content_hash (number_nuggets H seen n ts)) \<and>
   H ` set ts \<subseteq> seen \<union> set (map ng_content_hash (number_nuggets H seen n ts))"
proof (induction ts arbitrary: seen n)
  case (Cons t ts)
  show ?case
    using Cons.IH [of seen n] Cons.IH [of "insert (H t) seen" "Suc n"]
    by (auto simp: upt_rec)
qed simp

text \<open>
  A text is cut into nuggets of 20 to 500 characters, numbered from 0 without a gap, no two with
  the same digest, and no group of sentences is lost: the digest of each is the digest of a nugget.
\<close>

theorem nuggets_are_bounded:
  "set (map ng_content (splitIntoNuggets H content)) \<subseteq> {t. 20 \<le> length t \<and> length t \<le> 500} \<and>
   map ng_seq (splitIntoNuggets H content) = [0 ..< length (splitIntoNuggets H content)] \<and>
   distinct (map ng_content_hash (splitIntoNuggets H content)) \<and>
   map ng_content_hash (splitIntoNuggets H content) = map (H \<circ> ng_content) (splitIntoNuggets H content) \<and>
   (if length (js_trim content) < 20 then splitIntoNuggets H content = []
    else set (map ng_content_hash (splitIntoNuggets H content)) =
           H ` set (groupSentencesIntoNuggets (splitIntoSentences content)))"
proof -
  let ?ts = "groupSentencesIntoNuggets (splitIntoSentences content)"
  have parts: "set ?ts \<subseteq> {t. 20 \<le> length t \<and> length t \<le> 500}"
    using groups_sized by (auto simp: nugget_sized_def MIN_NUGGET_CHARS_def MAX_NUGGET_CHARS_def)
  show ?thesis
    using number_nuggets_parts [of H "{}" 0 ?ts] parts
    by (auto simp: splitIntoNuggets_def MIN_NUGGET_CHARS_def)
qed

end
