(* ===== verification/Memory_Db.thy ===== *)
theory Memory_Db
  imports Tables Audit_Chain
begin

text \<open>
  The SQLite database the recorder writes: the tables of \<open>memory-server/src/db/schema.ts\<close> with
  their primary keys and unique indexes, the statements that insert into them, and the integrity
  invariant (keys, uniqueness, references) each statement keeps.
\<close>

subsection \<open>Tables and inserts\<close>

record entity_row =
  et_id :: nat
  et_name :: string
  et_entity_type :: string

record relation_row =
  rl_src :: string
  rl_dst :: string
  rl_kind :: string
  rl_strength :: rat
  rl_observation_id :: string
  rl_created_at :: string

record vector_row =
  ve_observation_id :: string
  ve_model :: string
  ve_vector_json :: string
  ve_created_at :: string
  ve_updated_at :: string

record nugget_row =
  nu_nugget_id :: string
  nu_observation_id :: string
  nu_seq :: nat
  nu_content :: string
  nu_content_hash :: string

record mem_db =
  db_sessions :: "session_row list"
  db_events :: "event_row list"
  db_observations :: "obs_row list"
  db_tags :: "tag_row list"
  db_entities :: "entity_row list"
  db_obs_entities :: "(string \<times> nat) list"
  db_relations :: "relation_row list"
  db_links :: "link_row list"
  db_vectors :: "vector_row list"
  db_nuggets :: "nugget_row list"
  db_nugget_vectors :: "(string \<times> string \<times> string) list"
  db_audit :: audit_log
  db_retry :: "retry_row list"
  db_retry_next :: nat

definition empty_db :: mem_db where
  "empty_db = \<lparr>db_sessions = [], db_events = [], db_observations = [], db_tags = [], db_entities = [],
     db_obs_entities = [], db_relations = [], db_links = [], db_vectors = [], db_nuggets = [],
     db_nugget_vectors = [], db_audit = empty_log, db_retry = [], db_retry_next = 1\<rparr>"

text \<open>INSERT OR IGNORE: a row whose key is taken is left out.\<close>

definition insert_or_ignore :: "('r \<Rightarrow> 'k) \<Rightarrow> 'r \<Rightarrow> 'r list \<Rightarrow> 'r list" where
  "insert_or_ignore k r t = (if k r \<in> k ` set t then t else t @ [r])"

definition link_key :: "link_row \<Rightarrow> string \<times> string \<times> string" where
  "link_key l = (li_from l, li_to l, li_relation l)"

definition tag_key :: "tag_row \<Rightarrow> string \<times> string \<times> string" where
  "tag_key g = (tg_observation_id g, tg_tag g, tg_tag_type g)"

definition vector_key :: "vector_row \<Rightarrow> string \<times> string" where
  "vector_key v = (ve_observation_id v, ve_model v)"

definition add_links :: "link_row list \<Rightarrow> mem_db \<Rightarrow> mem_db" where
  "add_links ls db = db\<lparr>db_links := fold (insert_or_ignore link_key) ls (db_links db)\<rparr>"

definition add_tags :: "tag_row list \<Rightarrow> mem_db \<Rightarrow> mem_db" where
  "add_tags gs db = db\<lparr>db_tags := fold (insert_or_ignore tag_key) gs (db_tags db)\<rparr>"

text \<open>INSERT ... ON CONFLICT(observation_id, model) DO UPDATE.\<close>

definition upsert_vector :: "vector_row \<Rightarrow> vector_row list \<Rightarrow> vector_row list" where
  "upsert_vector v t =
     (if vector_key v \<in> vector_key ` set t
      then sql_update (\<lambda>r. vector_key r = vector_key v)
             (\<lambda>r. r\<lparr>ve_vector_json := ve_vector_json v, ve_updated_at := ve_updated_at v\<rparr>) t
      else t @ [v])"

definition upsert_session_row ::
  "string \<Rightarrow> string \<Rightarrow> string \<Rightarrow> string \<Rightarrow> string \<Rightarrow> string option \<Rightarrow> string \<Rightarrow> string option \<Rightarrow>
     session_row list \<Rightarrow> session_row list"
where
  "upsert_session_row current sid platform project ts corr user team t =
     (if sid \<in> ss_session_id ` set t
      then sql_update (\<lambda>r. ss_session_id r = sid)
             (\<lambda>r. r\<lparr>ss_started_at := (if ss_started_at r \<le> ts then ss_started_at r else ts),
                    ss_correlation_id := (case ss_correlation_id r of None \<Rightarrow> corr | Some c \<Rightarrow> Some c),
                    ss_updated_at := current\<rparr>) t
      else t @ [\<lparr>ss_session_id = sid, ss_platform = platform, ss_project = project,
                 ss_started_at = ts, ss_ended_at = None, ss_summary = None, ss_summary_mode = None, ss_correlation_id = corr,
                 ss_user_id = user, ss_team_id = team, ss_created_at = current,
                 ss_updated_at = current\<rparr>])"

definition ensureSession ::
  "string \<Rightarrow> string \<Rightarrow> string \<Rightarrow> string \<Rightarrow> string \<Rightarrow> string option \<Rightarrow> string option \<Rightarrow> string option \<Rightarrow>
     mem_db \<Rightarrow> mem_db"
where
  "ensureSession current sid platform project ts corr user team db =
     db\<lparr>db_sessions := upsert_session_row current sid platform project ts corr
          (or_else user ''default'') team (db_sessions db)\<rparr>"

subsection \<open>Integrity\<close>

definition session_ids :: "mem_db \<Rightarrow> string set" where
  "session_ids db = ss_session_id ` set (db_sessions db)"

definition event_ids :: "mem_db \<Rightarrow> string set" where
  "event_ids db = ev_event_id ` set (db_events db)"

definition obs_ids :: "mem_db \<Rightarrow> string set" where
  "obs_ids db = ob_id ` set (db_observations db)"

text \<open>Sessions, events and observations: keys, references, and one live row for a content hash.\<close>

definition core_ok :: "mem_db \<Rightarrow> bool" where
  "core_ok db \<longleftrightarrow>
     distinct (map ss_session_id (db_sessions db)) \<and>
     distinct (map ev_event_id (db_events db)) \<and>
     distinct (map ev_dedupe_hash (db_events db)) \<and>
     distinct (map ob_id (db_observations db)) \<and>
     ev_session_id ` set (db_events db) \<subseteq> session_ids db \<and>
     ob_session_id ` set (db_observations db) \<subseteq> session_ids db \<and>
     (\<forall>r \<in> set (db_observations db). \<forall>e. ob_event_id r = Some e \<longrightarrow> e \<in> event_ids db) \<and>
     (\<forall>r \<in> set (db_observations db). \<forall>s \<in> set (db_observations db). \<forall>h.
        h \<noteq> [] \<and> live r \<and> live s \<and> ob_content_dedupe_hash r = Some h \<and> ob_content_dedupe_hash s = Some h
          \<longrightarrow> r = s)"

text \<open>What hangs on observations: every reference resolves, keys are unique, no link is a loop.\<close>

definition refs_ok :: "mem_db \<Rightarrow> bool" where
  "refs_ok db \<longleftrightarrow>
     tg_observation_id ` set (db_tags db) \<subseteq> obs_ids db \<and> distinct (map tag_key (db_tags db)) \<and>
     ve_observation_id ` set (db_vectors db) \<subseteq> obs_ids db \<and> distinct (map vector_key (db_vectors db)) \<and>
     fst ` set (db_obs_entities db) \<subseteq> obs_ids db \<and>
     rl_observation_id ` set (db_relations db) \<subseteq> obs_ids db \<and>
     nu_observation_id ` set (db_nuggets db) \<subseteq> obs_ids db \<and>
     li_from ` set (db_links db) \<subseteq> obs_ids db \<and> li_to ` set (db_links db) \<subseteq> obs_ids db \<and>
     distinct (map link_key (db_links db)) \<and> (\<forall>l \<in> set (db_links db). li_from l \<noteq> li_to l)"

lemma core_empty [simp]: "core_ok empty_db" and refs_empty [simp]: "refs_ok empty_db"
  by (simp_all add: core_ok_def refs_ok_def empty_db_def)

lemma set_insert_or_ignore: "set t \<subseteq> set (insert_or_ignore k r t)"
  "set (insert_or_ignore k r t) \<subseteq> insert r (set t)"
  by (auto simp: insert_or_ignore_def)

lemma fold_insert_set: "set (fold (insert_or_ignore k) rs t) \<subseteq> set t \<union> set rs"
proof (induction rs arbitrary: t)
  case (Cons r rs)
  show ?case
    using Cons.IH [of "insert_or_ignore k r t"] set_insert_or_ignore(2) [of k r t] by auto
qed simp

lemma fold_insert_grows: "set t \<subseteq> set (fold (insert_or_ignore k) rs t)"
proof (induction rs arbitrary: t)
  case (Cons r rs)
  show ?case
    using Cons.IH [of "insert_or_ignore k r t"] set_insert_or_ignore(1) [of t k r] by auto
qed simp

lemma fold_insert_keys:
  "k ` set (fold (insert_or_ignore k) rs t) = k ` set t \<union> k ` set rs"
  by (induction rs arbitrary: t) (auto simp: insert_or_ignore_def)

lemma fold_insert_distinct:
  "distinct (map k t) \<Longrightarrow> distinct (map k (fold (insert_or_ignore k) rs t))"
  by (induction rs arbitrary: t) (auto simp: insert_or_ignore_def)

lemma map_upsert_vector:
  assumes "\<And>r. f (r\<lparr>ve_vector_json := j, ve_updated_at := u\<rparr>) = f r"
    and "j = ve_vector_json v" "u = ve_updated_at v"
  shows "map f (upsert_vector v t) =
     (if vector_key v \<in> vector_key ` set t then map f t else map f t @ [f v])"
  using assms by (simp add: upsert_vector_def map_sql_update)

lemma upsert_vector_distinct:
  "distinct (map vector_key t) \<Longrightarrow> distinct (map vector_key (upsert_vector v t))"
  by (simp add: map_upsert_vector [OF _ refl refl] vector_key_def)

lemma upsert_vector_obs:
  "ve_observation_id ` set (upsert_vector v t) \<subseteq> insert (ve_observation_id v) (ve_observation_id ` set t)"
proof -
  have "set (map ve_observation_id (upsert_vector v t)) \<subseteq> insert (ve_observation_id v) (ve_observation_id ` set t)"
    by (subst map_upsert_vector [OF _ refl refl]) auto
  then show ?thesis by simp
qed

lemma map_upsert_session_row:
  "map ss_session_id (upsert_session_row c s pl pr ts co us tm t) =
     (if s \<in> ss_session_id ` set t then map ss_session_id t else map ss_session_id t @ [s])"
  by (auto simp: upsert_session_row_def sql_update_def)

lemma ensureSession_session_ids:
  "session_ids (ensureSession c s pl pr ts co us tm db) = insert s (session_ids db)"
proof -
  have "set (map ss_session_id (upsert_session_row c s pl pr ts co u tm (db_sessions db))) =
      insert s (set (map ss_session_id (db_sessions db)))" for u
    unfolding map_upsert_session_row by auto
  then show ?thesis by (simp add: session_ids_def ensureSession_def)
qed

lemma core_ensureSession: "core_ok db \<Longrightarrow> core_ok (ensureSession c s pl pr ts co us tm db)"
proof -
  assume ok: "core_ok db"
  have ids: "session_ids db \<subseteq> session_ids (ensureSession c s pl pr ts co us tm db)"
    by (simp add: ensureSession_session_ids subset_insertI)
  have "distinct (map ss_session_id (db_sessions (ensureSession c s pl pr ts co us tm db)))"
    using ok by (auto simp: core_ok_def ensureSession_def map_upsert_session_row)
  then show ?thesis
    using ok ids unfolding core_ok_def event_ids_def by (simp add: ensureSession_def) blast
qed

text \<open>References stay good while the observations only gain ids.\<close>

lemma add_links_simps [simp]:
  "db_sessions (add_links ls db) = db_sessions db" "db_events (add_links ls db) = db_events db"
  "db_observations (add_links ls db) = db_observations db" "db_tags (add_links ls db) = db_tags db"
  "db_vectors (add_links ls db) = db_vectors db" "db_obs_entities (add_links ls db) = db_obs_entities db"
  "db_relations (add_links ls db) = db_relations db" "db_nuggets (add_links ls db) = db_nuggets db"
  "db_entities (add_links ls db) = db_entities db" "db_audit (add_links ls db) = db_audit db"
  "db_retry (add_links ls db) = db_retry db" "db_retry_next (add_links ls db) = db_retry_next db" "obs_ids (add_links ls db) = obs_ids db"
  by (simp_all add: add_links_def obs_ids_def)

lemma add_tags_simps [simp]:
  "db_sessions (add_tags gs db) = db_sessions db" "db_events (add_tags gs db) = db_events db"
  "db_observations (add_tags gs db) = db_observations db" "db_links (add_tags gs db) = db_links db"
  "db_vectors (add_tags gs db) = db_vectors db" "db_obs_entities (add_tags gs db) = db_obs_entities db"
  "db_relations (add_tags gs db) = db_relations db" "db_nuggets (add_tags gs db) = db_nuggets db"
  "db_entities (add_tags gs db) = db_entities db" "db_audit (add_tags gs db) = db_audit db"
  "db_retry (add_tags gs db) = db_retry db" "db_retry_next (add_tags gs db) = db_retry_next db" "obs_ids (add_tags gs db) = obs_ids db"
  by (simp_all add: add_tags_def obs_ids_def)

lemma image_grow: "S \<subseteq> A \<union> B \<Longrightarrow> f ` A \<subseteq> T \<Longrightarrow> f ` B \<subseteq> T \<Longrightarrow> f ` S \<subseteq> T"
  by blast

lemma refs_okD:
  "refs_ok db \<Longrightarrow> tg_observation_id ` set (db_tags db) \<subseteq> obs_ids db"
  "refs_ok db \<Longrightarrow> distinct (map tag_key (db_tags db))"
  "refs_ok db \<Longrightarrow> ve_observation_id ` set (db_vectors db) \<subseteq> obs_ids db"
  "refs_ok db \<Longrightarrow> distinct (map vector_key (db_vectors db))"
  "refs_ok db \<Longrightarrow> fst ` set (db_obs_entities db) \<subseteq> obs_ids db"
  "refs_ok db \<Longrightarrow> rl_observation_id ` set (db_relations db) \<subseteq> obs_ids db"
  "refs_ok db \<Longrightarrow> nu_observation_id ` set (db_nuggets db) \<subseteq> obs_ids db"
  "refs_ok db \<Longrightarrow> li_from ` set (db_links db) \<subseteq> obs_ids db"
  "refs_ok db \<Longrightarrow> li_to ` set (db_links db) \<subseteq> obs_ids db"
  "refs_ok db \<Longrightarrow> distinct (map link_key (db_links db))"
  "refs_ok db \<Longrightarrow> l \<in> set (db_links db) \<Longrightarrow> li_from l \<noteq> li_to l"
  by (simp_all add: refs_ok_def)

lemma refs_okI:
  assumes "tg_observation_id ` set (db_tags db) \<subseteq> obs_ids db" "distinct (map tag_key (db_tags db))"
    "ve_observation_id ` set (db_vectors db) \<subseteq> obs_ids db" "distinct (map vector_key (db_vectors db))"
    "fst ` set (db_obs_entities db) \<subseteq> obs_ids db"
    "rl_observation_id ` set (db_relations db) \<subseteq> obs_ids db"
    "nu_observation_id ` set (db_nuggets db) \<subseteq> obs_ids db"
    "li_from ` set (db_links db) \<subseteq> obs_ids db" "li_to ` set (db_links db) \<subseteq> obs_ids db"
    "distinct (map link_key (db_links db))" "\<And>l. l \<in> set (db_links db) \<Longrightarrow> li_from l \<noteq> li_to l"
  shows "refs_ok db"
  using assms by (simp add: refs_ok_def)

lemma refs_links:
  assumes "refs_ok db" and "li_from ` set ls \<subseteq> obs_ids db" "li_to ` set ls \<subseteq> obs_ids db"
    and "\<forall>l \<in> set ls. li_from l \<noteq> li_to l"
  shows "refs_ok (add_links ls db)"
proof -
  have s: "set (db_links (add_links ls db)) \<subseteq> set (db_links db) \<union> set ls"
    by (simp add: add_links_def fold_insert_set)
  have d: "distinct (map link_key (db_links (add_links ls db)))"
    using assms(1) by (simp add: add_links_def fold_insert_distinct refs_ok_def)
  have l: "\<forall>l \<in> set (db_links (add_links ls db)). li_from l \<noteq> li_to l"
    using s assms(4) refs_okD(11) [OF assms(1)] by blast
  note i = image_grow [OF s refs_okD(8) [OF assms(1)] assms(2)]
    image_grow [OF s refs_okD(9) [OF assms(1)] assms(3)]
  show ?thesis
    unfolding refs_ok_def add_links_simps
    by (intro conjI refs_okD [OF assms(1)] i d l)
qed

lemma refs_tags:
  assumes "refs_ok db" "tg_observation_id ` set gs \<subseteq> obs_ids db"
  shows "refs_ok (add_tags gs db)"
proof -
  have s: "set (db_tags (add_tags gs db)) \<subseteq> set (db_tags db) \<union> set gs"
    by (simp add: add_tags_def fold_insert_set)
  have d: "distinct (map tag_key (db_tags (add_tags gs db)))"
    using assms(1) by (simp add: add_tags_def fold_insert_distinct refs_ok_def)
  note i = image_grow [OF s refs_okD(1) [OF assms(1)] assms(2)]
  show ?thesis
    unfolding refs_ok_def add_tags_simps
    by (intro conjI refs_okD [OF assms(1)] i d ballI)
qed

lemma core_cong:
  assumes "core_ok db" "db_sessions db' = db_sessions db" "db_events db' = db_events db"
    "db_observations db' = db_observations db"
  shows "core_ok db'"
  using assms by (simp add: core_ok_def session_ids_def event_ids_def)

lemma refs_audit: "refs_ok db \<Longrightarrow> refs_ok (db\<lparr>db_audit := l\<rparr>)"
  by (simp add: refs_ok_def obs_ids_def)

lemma core_audit: "core_ok db \<Longrightarrow> core_ok (db\<lparr>db_audit := l\<rparr>)"
  by (erule core_cong) simp_all

end
