(* ===== verification/Observation_Links.thy ===== *)
theory Observation_Links
  imports Memory_Db Text_Rules
begin

text \<open>
  The links a new observation gets: \<open>autoLinkObservation\<close> and \<open>autoSupersedes\<close> of
  \<open>memory-server/src/core/event-recorder.ts\<close> and the three strategies of
  \<open>memory-server/src/core/auto-linker.ts\<close>. Each step computes rows for \<open>mem_links\<close> and inserts
  them with INSERT OR IGNORE; the lemmas show that whatever the order of the steps, links join
  existing observations, never an observation with itself, and never twice with one relation.
  Tokenisation (Intl.Segmenter), JSON text of vectors and the cosine (square roots) are
  parameters. Where ORDER BY leaves ties open, the row inserted first is taken.
\<close>

definition link :: "string \<Rightarrow> string \<Rightarrow> string \<Rightarrow> rat \<Rightarrow> string \<Rightarrow> link_row" where
  "link from to relation weight created =
     \<lparr>li_from = from, li_to = to, li_relation = relation, li_weight = weight, li_created_at = created\<rparr>"

subsection \<open>The previous observation of the session\<close>

definition previous_in_session :: "mem_db \<Rightarrow> string \<Rightarrow> string \<Rightarrow> string \<Rightarrow> obs_row option" where
  "previous_in_session db oid sid created =
     sql_get (order_desc ob_created_at
       (sql_where (\<lambda>r. ob_session_id r = sid \<and> ob_id r \<noteq> oid \<and> ob_created_at r \<le> created)
          (db_observations db)))"

definition observation_by_id :: "mem_db \<Rightarrow> string \<Rightarrow> obs_row option" where
  "observation_by_id db oid = sql_get (sql_where (\<lambda>r. ob_id r = oid) (db_observations db))"

text \<open>\<open>s.split(/\s+/)\<close>, where only the parts longer than two characters count.\<close>

function split_words :: "string \<Rightarrow> string \<Rightarrow> string list" where
  "split_words acc [] = [rev acc]"
| "split_words acc (c # s) =
     (if is_js_space c then rev acc # split_words [] (dropWhile is_js_space s)
      else split_words (c # acc) s)"
  by pat_completeness auto
termination
  by (relation "measure (length \<circ> snd)") (auto simp: le_imp_less_Suc length_dropWhile_le)

definition long_words :: "string \<Rightarrow> string list" where
  "long_words title = filter (\<lambda>w. 2 < length w) (split_words [] (js_lower title))"

definition title_relation :: "string \<Rightarrow> string \<Rightarrow> string" where
  "title_relation prevTitle currTitle =
     (let prevWords = remdups (long_words prevTitle); currWords = long_words currTitle in
      if prevWords \<noteq> [] \<and> currWords \<noteq> []
      then (let overlap = length (filter (\<lambda>w. w \<in> set prevWords) currWords);
                similarity = rat_of_nat overlap / rat_of_nat (max (length prevWords) (length currWords))
            in if 6 / 10 \<le> similarity then ''updates''
               else if 3 / 10 \<le> similarity then ''extends'' else ''follows'')
      else ''follows'')"

definition link_relation :: "obs_row option \<Rightarrow> obs_row \<Rightarrow> string" where
  "link_relation current previous =
     (case current of
        None \<Rightarrow> ''follows''
      | Some cur \<Rightarrow>
          (let content = js_lower (ob_content_redacted cur) in
           if has_any [''however'', ''but'', ''instead'', ''contrary''] content then ''contradicts''
           else if has_any [''because'', ''therefore'', ''caused by'', ''results in''] content then ''causes''
           else if has_any [''part of'', ''belongs to'', ''component of''] content then ''part_of''
           else if truthy (ob_title cur) \<and> truthy (ob_title previous)
           then title_relation (or_else (ob_title previous) []) (or_else (ob_title cur) [])
           else ''follows''))"

definition session_link :: "string \<Rightarrow> string \<Rightarrow> string \<Rightarrow> mem_db \<Rightarrow> link_row list" where
  "session_link oid sid created db =
     (case previous_in_session db oid sid created of
        None \<Rightarrow> []
      | Some p \<Rightarrow>
          if ob_id p = [] then []
          else [link oid (ob_id p) (link_relation (observation_by_id db oid) p) 1 created])"

subsection \<open>Shared entities\<close>

definition entity_weight :: "rat \<Rightarrow> string \<Rightarrow> rat" where
  "entity_weight fallback t =
     (if t = ''file'' then 8 / 10 else if t = ''package'' then 9 / 10
      else if t = ''symbol'' then 7 / 10 else if t = ''url'' then 6 / 10 else fallback)"

text \<open>The distinct pairs of another observation and the type of an entity it shares with this one.\<close>

definition shared_entities :: "mem_db \<Rightarrow> string \<Rightarrow> (string \<times> string) list" where
  "shared_entities db oid =
     remdups [(fst oe2, et_entity_type e).
       oe1 \<leftarrow> db_obs_entities db, fst oe1 = oid,
       oe2 \<leftarrow> db_obs_entities db, snd oe1 = snd oe2 \<and> fst oe2 \<noteq> oid,
       e \<leftarrow> db_entities db, et_id e = snd oe1]"

definition entity_links :: "string \<Rightarrow> string \<Rightarrow> mem_db \<Rightarrow> link_row list" where
  "entity_links oid created db =
     map (\<lambda>p. link oid (fst p) ''shared_entity'' (entity_weight (7 / 10) (snd p)) created)
       (take 20 (order_asc fst (shared_entities db oid)))"

definition autoLinkObservation :: "string \<Rightarrow> string \<Rightarrow> string \<Rightarrow> mem_db \<Rightarrow> mem_db" where
  "autoLinkObservation oid sid created db =
     (let db1 = add_links (session_link oid sid created db) db
      in add_links (entity_links oid created db1) db1)"

subsection \<open>Superseded observations\<close>

definition jaccard :: "string list \<Rightarrow> string list \<Rightarrow> rat" where
  "jaccard new cand =
     (let inter = length (filter (\<lambda>t. t \<in> set cand) new);
          union = int (length new) + int (length cand) - int inter
      in if 0 < union then rat_of_nat inter / rat_of_int union else 0)"

definition autoSupersedes ::
  "(string \<Rightarrow> string list) \<Rightarrow> rat \<Rightarrow> string \<Rightarrow> string \<Rightarrow> string \<Rightarrow> string \<Rightarrow> string \<Rightarrow> mem_db \<Rightarrow> mem_db"
where
  "autoSupersedes tokenize threshold oid project otype content created db =
     (let newTokens = remdups (tokenize content);
          candidates = take 50 (order_desc ob_created_at
            (sql_where (\<lambda>r. ob_project r = project \<and> ob_observation_type r = otype \<and> ob_id r \<noteq> oid)
               (db_observations db)));
          score = (\<lambda>r. jaccard newTokens (remdups (tokenize (ob_content_redacted r))))
      in if newTokens = [] then db
         else add_links
           (map (\<lambda>r. link oid (ob_id r) ''updates'' (score r) created)
              (filter (\<lambda>r. tokenize (ob_content_redacted r) \<noteq> [] \<and> threshold \<le> score r) candidates)) db)"

subsection \<open>The auto-linker\<close>

definition ENTITY_COOCCURRENCE_LIMIT :: nat where "ENTITY_COOCCURRENCE_LIMIT = 10"
definition TEMPORAL_PROXIMITY_WEIGHT :: rat where "TEMPORAL_PROXIMITY_WEIGHT = 8 / 10"
definition SEMANTIC_SIMILARITY_THRESHOLD :: rat where "SEMANTIC_SIMILARITY_THRESHOLD = 85 / 100"
definition SEMANTIC_COMPARISON_LIMIT :: nat where "SEMANTIC_COMPARISON_LIMIT = 100"
definition SEMANTIC_SIMILARITY_WEIGHT :: rat where "SEMANTIC_SIMILARITY_WEIGHT = 5 / 10"

definition linkByEntityCooccurrence :: "string \<Rightarrow> string \<Rightarrow> mem_db \<Rightarrow> nat \<times> mem_db" where
  "linkByEntityCooccurrence oid created db =
     (let rows = take ENTITY_COOCCURRENCE_LIMIT (order_desc fst (shared_entities db oid))
      in (length rows,
          add_links (map (\<lambda>p. link oid (fst p) ''shared_entity'' (entity_weight (6 / 10) (snd p)) created)
                       rows) db))"

definition linkByTemporalProximity :: "string \<Rightarrow> string \<Rightarrow> string \<Rightarrow> mem_db \<Rightarrow> nat \<times> mem_db" where
  "linkByTemporalProximity oid sid created db =
     (case previous_in_session db oid sid created of
        None \<Rightarrow> (0, db)
      | Some p \<Rightarrow>
          if ob_id p = [] then (0, db)
          else (1, add_links [link oid (ob_id p) ''follows'' TEMPORAL_PROXIMITY_WEIGHT created] db))"

definition linkBySemanticSimilarity ::
  "(string \<Rightarrow> rat list option) \<Rightarrow> (rat list \<Rightarrow> rat list \<Rightarrow> rat) \<Rightarrow> string \<Rightarrow> string \<Rightarrow>
     (string \<Rightarrow> rat list option) \<Rightarrow> mem_db \<Rightarrow> nat \<times> mem_db"
where
  "linkBySemanticSimilarity parse cosine oid created getEmbedding db =
     (case getEmbedding oid of
        None \<Rightarrow> (0, db)
      | Some new \<Rightarrow>
          if new = [] then (0, db)
          else (let rows = take SEMANTIC_COMPARISON_LIMIT (order_desc ve_observation_id
                      (sql_where (\<lambda>v. ve_observation_id v \<noteq> oid) (db_vectors db)));
                    hits = filter (\<lambda>v. case parse (ve_vector_json v) of None \<Rightarrow> False
                                       | Some vec \<Rightarrow> SEMANTIC_SIMILARITY_THRESHOLD \<le> cosine new vec) rows
                in (length hits,
                    add_links (map (\<lambda>v. link oid (ve_observation_id v) ''extends''
                                          SEMANTIC_SIMILARITY_WEIGHT created) hits) db)))"

record auto_link_result =
  entityLinks :: nat
  temporalLinks :: nat
  semanticLinks :: nat

definition runAutoLinker ::
  "(string \<Rightarrow> rat list option) \<Rightarrow> (rat list \<Rightarrow> rat list \<Rightarrow> rat) \<Rightarrow> bool \<Rightarrow> (string \<Rightarrow> rat list option) \<Rightarrow>
     string \<Rightarrow> string \<Rightarrow> string \<Rightarrow> mem_db \<Rightarrow> auto_link_result \<times> mem_db"
where
  "runAutoLinker parse cosine semanticEnabled getEmbedding oid sid created db =
     (case linkByEntityCooccurrence oid created db of
        (a, db1) \<Rightarrow>
          (case linkByTemporalProximity oid sid created db1 of
             (b, db2) \<Rightarrow>
               (case (if semanticEnabled then linkBySemanticSimilarity parse cosine oid created getEmbedding db2
                      else (0, db2)) of
                  (c, db3) \<Rightarrow> (\<lparr>entityLinks = a, temporalLinks = b, semanticLinks = c\<rparr>, db3))))"

subsection \<open>Links are sound\<close>

text \<open>A step that adds links from one observation to others the database holds.\<close>

definition links_from :: "string \<Rightarrow> mem_db \<Rightarrow> link_row list \<Rightarrow> bool" where
  "links_from oid db ls \<longleftrightarrow>
     (\<forall>l \<in> set ls. li_from l = oid \<and> li_to l \<in> obs_ids db \<and> li_to l \<noteq> oid)"

lemma refs_links_from: "refs_ok db \<Longrightarrow> oid \<in> obs_ids db \<Longrightarrow> links_from oid db ls \<Longrightarrow> refs_ok (add_links ls db)"
  by (rule refs_links) (auto simp: links_from_def)

lemma link_simps [simp]:
  "li_from (link a b r w c) = a" "li_to (link a b r w c) = b" "li_relation (link a b r w c) = r"
  "li_weight (link a b r w c) = w" "li_created_at (link a b r w c) = c"
  by (simp_all add: link_def)

lemma previous_in_session_Some:
  "previous_in_session db oid sid created = Some p \<Longrightarrow>
     ob_id p \<in> obs_ids db \<and> ob_id p \<noteq> oid \<and> ob_session_id p = sid \<and> p \<in> set (db_observations db)"
  unfolding previous_in_session_def by (drule sql_get_in) (auto simp: obs_ids_def)

lemma session_link_from: "links_from oid db (session_link oid sid created db)"
proof (cases "previous_in_session db oid sid created")
  case (Some p)
  then show ?thesis
    using previous_in_session_Some [OF Some] by (simp add: session_link_def links_from_def)
qed (simp add: session_link_def links_from_def)

lemma shared_entities_in: "p \<in> set (shared_entities db oid) \<Longrightarrow> fst p \<in> fst ` set (db_obs_entities db) \<and> fst p \<noteq> oid"
  by (auto simp: shared_entities_def intro: rev_image_eqI)

lemma entity_links_from: "refs_ok db \<Longrightarrow> links_from oid db (entity_links oid created db)"
  using shared_entities_in refs_okD(5)
  by (fastforce simp: links_from_def entity_links_def dest!: in_set_takeD)

lemma links_from_add [simp]: "links_from oid (add_links ks db) ls = links_from oid db ls"
  by (simp add: links_from_def)

lemma autoLinkObservation_refs:
  "refs_ok db \<Longrightarrow> oid \<in> obs_ids db \<Longrightarrow> refs_ok (autoLinkObservation oid sid created db)"
proof -
  assume ok: "refs_ok db" "oid \<in> obs_ids db"
  then have "refs_ok (add_links (session_link oid sid created db) db)"
    by (rule refs_links_from [OF _ _ session_link_from])
  from refs_links_from [OF this _ entity_links_from [OF this]] ok(2) show ?thesis
    by (simp add: autoLinkObservation_def Let_def)
qed

lemma autoSupersedes_refs:
  "refs_ok db \<Longrightarrow> oid \<in> obs_ids db \<Longrightarrow> refs_ok (autoSupersedes tk th oid project ot content created db)"
  unfolding autoSupersedes_def Let_def
  by (auto intro!: refs_links_from simp: links_from_def obs_ids_def dest!: in_set_takeD)

lemma entityCooccurrence_refs:
  "refs_ok db \<Longrightarrow> oid \<in> obs_ids db \<Longrightarrow> refs_ok (snd (linkByEntityCooccurrence oid created db))"
  unfolding linkByEntityCooccurrence_def Let_def
  using shared_entities_in refs_okD(5)
  by (auto intro!: refs_links_from simp: links_from_def dest!: in_set_takeD) fastforce+

lemma temporalProximity_refs:
  "refs_ok db \<Longrightarrow> oid \<in> obs_ids db \<Longrightarrow> refs_ok (snd (linkByTemporalProximity oid sid created db))"
  unfolding linkByTemporalProximity_def
  by (auto intro!: refs_links_from simp: links_from_def dest: previous_in_session_Some split: option.split)

lemma semanticSimilarity_refs:
  "refs_ok db \<Longrightarrow> oid \<in> obs_ids db \<Longrightarrow> refs_ok (snd (linkBySemanticSimilarity ps cs oid created ge db))"
  unfolding linkBySemanticSimilarity_def Let_def
  using refs_okD(3)
  by (auto intro!: refs_links_from simp: links_from_def dest!: in_set_takeD split: option.split) fastforce+

text \<open>The steps touch no table but \<open>mem_links\<close>.\<close>

definition only_links :: "mem_db \<Rightarrow> mem_db \<Rightarrow> bool" where
  "only_links db db' \<longleftrightarrow> (\<exists>ls. db' = db\<lparr>db_links := ls\<rparr>)"

lemma only_links_add: "only_links db (add_links ls db)"
  unfolding only_links_def add_links_def by blast

lemma only_links_trans: "only_links a b \<Longrightarrow> only_links b c \<Longrightarrow> only_links a c"
  by (auto simp: only_links_def)

lemma only_links_refl: "only_links a a"
  unfolding only_links_def by (rule exI [of _ "db_links a"]) simp

lemma only_links_ids: "only_links a b \<Longrightarrow> obs_ids b = obs_ids a"
  by (auto simp: only_links_def obs_ids_def)

lemma only_links_core: "only_links a b \<Longrightarrow> core_ok a \<Longrightarrow> core_ok b"
  by (auto simp: only_links_def intro: core_cong)

lemma autoLinkObservation_only: "only_links db (autoLinkObservation oid sid created db)"
  unfolding autoLinkObservation_def Let_def by (rule only_links_trans [OF only_links_add only_links_add])

lemma autoSupersedes_only: "only_links db (autoSupersedes tk th oid project ot content created db)"
  unfolding autoSupersedes_def Let_def by (simp add: only_links_add only_links_refl)

lemma entityCooccurrence_only: "only_links db (snd (linkByEntityCooccurrence oid created db))"
  by (simp add: linkByEntityCooccurrence_def Let_def only_links_add)

lemma temporalProximity_only: "only_links db (snd (linkByTemporalProximity oid sid created db))"
  by (auto simp: linkByTemporalProximity_def only_links_add only_links_refl split: option.split)

lemma semanticSimilarity_only: "only_links db (snd (linkBySemanticSimilarity ps cs oid created ge db))"
  by (auto simp: linkBySemanticSimilarity_def Let_def only_links_add only_links_refl split: option.split)

lemma runAutoLinker_snd:
  "snd (runAutoLinker ps cs sem ge oid sid created db) =
     (let db2 = snd (linkByTemporalProximity oid sid created (snd (linkByEntityCooccurrence oid created db)))
      in if sem then snd (linkBySemanticSimilarity ps cs oid created ge db2) else db2)"
  by (simp add: runAutoLinker_def Let_def split: prod.split)

lemma runAutoLinker_only: "only_links db (snd (runAutoLinker ps cs sem ge oid sid created db))"
  unfolding runAutoLinker_snd Let_def
  using only_links_trans entityCooccurrence_only temporalProximity_only semanticSimilarity_only
  by (metis (full_types))

lemma runAutoLinker_refs:
  assumes "refs_ok db" "oid \<in> obs_ids db"
  shows "refs_ok (snd (runAutoLinker ps cs sem ge oid sid created db))"
proof -
  let ?a = "snd (linkByEntityCooccurrence oid created db)"
  let ?b = "snd (linkByTemporalProximity oid sid created ?a)"
  have a: "refs_ok ?a" "oid \<in> obs_ids ?a"
    using assms entityCooccurrence_refs only_links_ids [OF entityCooccurrence_only] by auto
  have b: "refs_ok ?b" "oid \<in> obs_ids ?b"
    using a temporalProximity_refs only_links_ids [OF temporalProximity_only] by auto
  then show ?thesis
    unfolding runAutoLinker_snd Let_def using semanticSimilarity_refs by simp
qed

subsection \<open>What the steps link\<close>

definition fresh_links :: "mem_db \<Rightarrow> mem_db \<Rightarrow> link_row set" where
  "fresh_links db db' = set (db_links db') - set (db_links db)"

lemma fresh_links_add: "fresh_links db (add_links ls db) \<subseteq> set ls"
  using fold_insert_set [of link_key ls "db_links db"] by (auto simp: fresh_links_def add_links_def)

text \<open>
  A new observation supersedes at most 50 others, all of its project and type and never itself,
  each by a link whose weight is their Jaccard score and reaches the threshold.
\<close>

theorem superseding_links_are_similar:
  assumes "l \<in> fresh_links db (autoSupersedes tokenize threshold oid project otype content created db)"
  shows "li_from l = oid \<and> li_relation l = ''updates'' \<and> threshold \<le> li_weight l \<and>
    (\<exists>r \<in> set (db_observations db). li_to l = ob_id r \<and> ob_id r \<noteq> oid \<and>
       ob_project r = project \<and> ob_observation_type r = otype \<and>
       li_weight l = jaccard (remdups (tokenize content)) (remdups (tokenize (ob_content_redacted r)))) \<and>
    card (fresh_links db (autoSupersedes tokenize threshold oid project otype content created db)) \<le> 50"
proof -
  let ?s = "\<lambda>r. jaccard (remdups (tokenize content)) (remdups (tokenize (ob_content_redacted r)))"
  let ?rows = "take 50 (order_desc ob_created_at
            (sql_where (\<lambda>r. ob_project r = project \<and> ob_observation_type r = otype \<and> ob_id r \<noteq> oid)
               (db_observations db)))"
  let ?ls = "map (\<lambda>r. link oid (ob_id r) ''updates'' (?s r) created)
              (filter (\<lambda>r. tokenize (ob_content_redacted r) \<noteq> [] \<and> threshold \<le> ?s r) ?rows)"
  let ?fresh = "fresh_links db (autoSupersedes tokenize threshold oid project otype content created db)"
  have "tokenize content \<noteq> []"
    using assms by (auto simp: autoSupersedes_def fresh_links_def)
  then have "autoSupersedes tokenize threshold oid project otype content created db = add_links ?ls db"
    by (simp add: autoSupersedes_def Let_def)
  then have sub: "?fresh \<subseteq> set ?ls" using fresh_links_add [of db ?ls] by simp
  have "card (set ?ls) \<le> length ?ls" by (rule card_length)
  also have "\<dots> \<le> length ?rows" unfolding length_map by (rule length_filter_le)
  finally have "card ?fresh \<le> 50" using card_mono [OF _ sub] by simp
  moreover have "l \<in> set ?ls" using sub assms by blast
  then obtain r where r: "r \<in> set ?rows" "threshold \<le> ?s r" "l = link oid (ob_id r) ''updates'' (?s r) created"
    unfolding set_map set_filter by blast
  from r(1) have "r \<in> set (db_observations db) \<and> ob_project r = project \<and> ob_observation_type r = otype \<and> ob_id r \<noteq> oid"
    by (drule_tac in_set_takeD) simp
  ultimately show ?thesis using r(2,3) by (intro conjI bexI [of _ r]) simp_all
qed

definition sample_row :: "string \<Rightarrow> string \<Rightarrow> obs_row" where
  "sample_row i c = \<lparr>ob_id = i, ob_event_id = None, ob_platform = ''p'', ob_project = ''pr'',
     ob_session_id = ''s'', ob_title = None, ob_content = c, ob_content_redacted = c,
     ob_content_dedupe_hash = None, ob_raw_text = None, ob_observation_type = ''context'',
     ob_memory_type = ''semantic'', ob_tags_json = [], ob_privacy_tags_json = [],
     ob_signal_score = None, ob_access_count = None, ob_user_id = ''u'', ob_team_id = None,
     ob_event_time = None, ob_observed_at = None, ob_valid_from = None, ob_valid_to = None,
     ob_supersedes = None, ob_invalidated_at = None, ob_archived_at = None, ob_expires_at = None,
     ob_thread_id = None, ob_topic = None, ob_branch = None, ob_created_at = ''1'', ob_updated_at = ''1''\<rparr>"

definition sample_db :: mem_db where
  "sample_db = empty_db\<lparr>db_observations := [sample_row ''a'' ''red apple'', sample_row ''b'' ''green apple'']\<rparr>"

theorem superseding_links_are_similar_witness:
  "card (fresh_links sample_db (autoSupersedes (split_words []) (1/10) ''b'' ''pr'' ''context'' ''green apple'' ''2'' sample_db)) \<le> 50"
proof -
  have "link ''b'' ''a'' ''updates'' (1/3) ''2'' \<in>
      fresh_links sample_db (autoSupersedes (split_words []) (1/10) ''b'' ''pr'' ''context'' ''green apple'' ''2'' sample_db)"
    by code_simp
  from superseding_links_are_similar [OF this] show ?thesis by blast
qed

text \<open>
  The auto-linker does not only add similarity links: with semantic linking on it also runs the
  first two strategies, so an observation already linked to its predecessor as a contradiction gets
  a follows link to it as well.
\<close>

theorem auto_linker_runs_every_strategy:
  assumes "previous_in_session db oid sid created = Some p" "ob_id p \<noteq> []"
    and "\<not> (\<exists>l \<in> set (db_links db). link_key l = (oid, ob_id p, ''follows''))"
  shows "link oid (ob_id p) ''follows'' (8 / 10) created
    \<in> fresh_links db (snd (runAutoLinker parse cosine sem getEmbedding oid sid created db))"
proof -
  let ?l = "link oid (ob_id p) ''follows'' (8 / 10) created"
  let ?a = "snd (linkByEntityCooccurrence oid created db)"
  let ?b = "snd (linkByTemporalProximity oid sid created ?a)"
  obtain ls where ls: "?a = add_links ls db" "\<forall>l \<in> set ls. li_relation l = ''shared_entity''"
    by (simp add: linkByEntityCooccurrence_def Let_def)
  have "previous_in_session ?a oid sid created = Some p"
    using assms(1) ls(1) by (simp add: previous_in_session_def)
  then have b: "?b = add_links [?l] ?a"
    using assms(2) by (simp add: linkByTemporalProximity_def TEMPORAL_PROXIMITY_WEIGHT_def)
  have key: "link_key ?l \<notin> link_key ` set (db_links ?a)"
  proof
    assume "link_key ?l \<in> link_key ` set (db_links ?a)"
    then have "link_key ?l \<in> link_key ` set (db_links db) \<union> link_key ` set ls"
      unfolding ls(1) add_links_def by (simp add: fold_insert_keys)
    then show False using assms(3) ls(2) by (auto simp: link_key_def)
  qed
  then have "?l \<in> set (db_links ?b)" unfolding b by (simp add: add_links_def insert_or_ignore_def)
  moreover have "?l \<notin> set (db_links db)" using assms(3) by (auto simp: link_key_def)
  moreover have "set (db_links ?b) \<subseteq> set (db_links (snd (linkBySemanticSimilarity parse cosine oid created getEmbedding ?b)))"
    by (auto simp: linkBySemanticSimilarity_def Let_def add_links_def split: option.split
        intro: subsetD [OF fold_insert_grows])
  ultimately show ?thesis
    by (auto simp: fresh_links_def runAutoLinker_snd Let_def)
qed

theorem auto_linker_runs_every_strategy_witness:
  "link ''b'' ''a'' ''follows'' (8 / 10) ''2''
    \<in> fresh_links sample_db (snd (runAutoLinker (\<lambda>_. None) (\<lambda>_ _. 0) True (\<lambda>_. None) ''b'' ''s'' ''2'' sample_db))"
proof -
  have p: "previous_in_session sample_db ''b'' ''s'' ''2'' = Some (sample_row ''a'' ''red apple'')"
    by code_simp
  show ?thesis
    using auto_linker_runs_every_strategy [OF p] by (simp add: sample_row_def sample_db_def empty_db_def)
qed

end
