(* ===== verification/Stream_Ring.thy ===== *)
theory Stream_Ring
  imports Bounded_Queue Complex_Main
begin

text \<open>
  The ring of stream events and the write queue of \<open>memory-server/src/core/event-recorder.ts\<close>
  (\<open>appendStreamEvent\<close>, \<open>getStreamEventsSince\<close>, \<open>getLatestStreamEventId\<close>, \<open>enqueueWrite\<close>,
  \<open>recordEventQueued\<close>) and \<open>clampLimit\<close> of \<open>core-utils.ts\<close>. The data of an event is a type
  parameter; the clock is an argument.
\<close>

subsection \<open>Stream events\<close>

record 'd stream_event =
  sv_id :: nat
  sv_type :: string
  sv_ts :: string
  sv_data :: 'd

record 'd stream_ring =
  sr_counter :: nat
  sr_events :: "'d stream_event list"

definition empty_ring :: "'d stream_ring" where
  "empty_ring = \<lparr>sr_counter = 0, sr_events = []\<rparr>"

definition streamEventRetention :: nat where
  "streamEventRetention = 600"

definition appendStreamEvent ::
  "string \<Rightarrow> string \<Rightarrow> 'd \<Rightarrow> 'd stream_ring \<Rightarrow> 'd stream_event \<times> 'd stream_ring" where
  "appendStreamEvent now type data r =
     (let event = \<lparr>sv_id = sr_counter r + 1, sv_type = type, sv_ts = now, sv_data = data\<rparr>;
          events = sr_events r @ [event]
      in (event,
          \<lparr>sr_counter = sr_counter r + 1,
           sr_events = (if streamEventRetention < length events
                        then drop (length events - streamEventRetention) events else events)\<rparr>))"

text \<open>\<open>None\<close> is an input that is not a finite number.\<close>

definition clampLimit :: "rat option \<Rightarrow> int \<Rightarrow> int \<Rightarrow> int \<Rightarrow> int" where
  "clampLimit input fallback min_v max_v =
     (case input of None \<Rightarrow> fallback | Some n \<Rightarrow> max min_v (min max_v \<lfloor>n\<rfloor>))"

definition getStreamEventsSince :: "int \<Rightarrow> rat option \<Rightarrow> 'd stream_ring \<Rightarrow> 'd stream_event list" where
  "getStreamEventsSince lastEventId limitInput r =
     (let limit = clampLimit limitInput 100 1 500 in
      if sr_events r = [] then []
      else take (nat limit) (filter (\<lambda>e. lastEventId < int (sv_id e)) (sr_events r)))"

definition getLatestStreamEventId :: "'d stream_ring \<Rightarrow> nat" where
  "getLatestStreamEventId r =
     (if sr_events r = [] then sr_counter r else sv_id (last (sr_events r)))"

text \<open>A ring the operations reach: consecutive ids up to the counter, at most 600 of them.\<close>

definition ring_ok :: "'d stream_ring \<Rightarrow> bool" where
  "ring_ok r \<longleftrightarrow> length (sr_events r) \<le> streamEventRetention \<and> length (sr_events r) \<le> sr_counter r \<and>
     map sv_id (sr_events r) = [Suc (sr_counter r) - length (sr_events r) ..< Suc (sr_counter r)]"

type_synonym 'd arrival = "string \<times> string \<times> 'd"

definition push_arrival :: "'d arrival \<Rightarrow> 'd stream_ring \<Rightarrow> 'd stream_ring" where
  "push_arrival a r = (case a of (now, type, d) \<Rightarrow> snd (appendStreamEvent now type d r))"

definition arrivals :: "'d stream_ring \<Rightarrow> 'd arrival list" where
  "arrivals r = map (\<lambda>e. (sv_ts e, sv_type e, sv_data e)) (sr_events r)"

lemma append_events:
  "sr_events (push_arrival (now, type, d) r) = keep_last streamEventRetention
     (sr_events r @ [\<lparr>sv_id = sr_counter r + 1, sv_type = type, sv_ts = now, sv_data = d\<rparr>])"
  "sr_counter (push_arrival (now, type, d) r) = Suc (sr_counter r)"
  by (auto simp: push_arrival_def appendStreamEvent_def Let_def keep_last_def)

lemma ring_ok_empty [simp]: "ring_ok empty_ring"
  by (simp add: ring_ok_def empty_ring_def)

lemma ring_ok_push: "ring_ok r \<Longrightarrow> ring_ok (push_arrival a r)"
proof -
  assume ok: "ring_ok r"
  obtain now type d where a: "a = (now, type, d)" by (cases a) auto
  let ?n = "length (sr_events r)" and ?c = "sr_counter r"
  have ids: "map sv_id (sr_events r @ [\<lparr>sv_id = ?c + 1, sv_type = type, sv_ts = now, sv_data = d\<rparr>]) =
      [Suc ?c - ?n ..< Suc (Suc ?c)]"
    using ok by (simp add: ring_ok_def)
  let ?es = "sr_events r @ [\<lparr>sv_id = ?c + 1, sv_type = type, sv_ts = now, sv_data = d\<rparr>]"
  have le: "?n \<le> ?c" using ok by (simp add: ring_ok_def)
  have "map sv_id (keep_last streamEventRetention ?es) = drop (Suc ?n - streamEventRetention) (map sv_id ?es)"
    by (simp only: keep_last_def drop_map length_append_singleton)
  also have "\<dots> = [Suc ?c - ?n + (Suc ?n - streamEventRetention) ..< Suc (Suc ?c)]"
    unfolding ids by (rule drop_upt)
  also have "Suc ?c - ?n + (Suc ?n - streamEventRetention) = Suc (Suc ?c) - min streamEventRetention (Suc ?n)"
    using le by auto
  finally show ?thesis
    using le unfolding a ring_ok_def append_events by simp
qed

lemma keep_last_map: "map f (keep_last n xs) = keep_last n (map f xs)"
  by (simp add: keep_last_def drop_map)

lemma arrivals_empty [simp]: "arrivals empty_ring = []"
  by (simp add: arrivals_def empty_ring_def)

text \<open>The ring is one of the bounded buffers: what it holds is the newest 600 arrivals.\<close>

interpretation stream: bounded_queue streamEventRetention push_arrival arrivals "\<lambda>a. a" ring_ok
proof unfold_locales
  fix r :: "'d stream_ring" and a :: "'d arrival"
  assume ok: "ring_ok r"
  then show "ring_ok (push_arrival a r)" by (rule ring_ok_push)
  obtain now type d where a: "a = (now, type, d)" by (cases a) auto
  show "arrivals (push_arrival a r) = keep_last streamEventRetention (arrivals r @ [a])"
    unfolding a by (simp add: arrivals_def append_events keep_last_map)
qed

interpretation ring_machine: invariant_machine push_arrival ring_ok
  by unfold_locales (rule ring_ok_push)

lemma filter_upt_above: "filter (\<lambda>i. l < int i) [a ..< b] = [max a (nat (l + 1)) ..< b]"
  by (induction b) auto

lemma ids_since:
  "map sv_id (filter (\<lambda>e. l < int (sv_id e)) es) = filter (\<lambda>i. l < int i) (map sv_id es)"
  by (simp add: filter_map comp_def)

lemma since_ids:
  assumes "ring_ok r"
  shows "map sv_id (getStreamEventsSince l lm r) =
    take (nat (clampLimit lm 100 1 500))
      [max (Suc (sr_counter r) - length (sr_events r)) (nat (l + 1)) ..< Suc (sr_counter r)]"
proof (cases "sr_events r = []")
  case True
  with assms show ?thesis by (simp add: getStreamEventsSince_def)
next
  case False
  let ?n = "nat (clampLimit lm 100 1 500)"
  have "map sv_id (getStreamEventsSince l lm r) = take ?n (filter (\<lambda>i. l < int i) (map sv_id (sr_events r)))"
    using False by (simp only: getStreamEventsSince_def Let_def if_False take_map [symmetric] ids_since)
  also have "map sv_id (sr_events r) = [Suc (sr_counter r) - length (sr_events r) ..< Suc (sr_counter r)]"
    using assms by (simp only: ring_ok_def)
  finally show ?thesis by (simp only: filter_upt_above)
qed

lemma clamp_range: "1 \<le> clampLimit lm 100 1 500 \<and> clampLimit lm 100 1 500 \<le> 500"
  by (auto simp: clampLimit_def split: option.split)

lemma latest_id: "ring_ok r \<Longrightarrow> getLatestStreamEventId r = sr_counter r"
proof (cases "sr_events r = []")
  case False
  assume ok: "ring_ok r"
  have "sv_id (last (sr_events r)) = last (map sv_id (sr_events r))" using False by (simp add: last_map)
  also have "\<dots> = sr_counter r" using ok False by (auto simp: ring_ok_def)
  finally show ?thesis using False by (simp add: getLatestStreamEventId_def)
qed (simp add: getLatestStreamEventId_def)

lemma ring_counter: "sr_counter (fold push_arrival as empty_ring) = length as"
proof -
  have "sr_counter (fold push_arrival as r) = sr_counter r + length as" for r :: "'a stream_ring"
  proof (induction as arbitrary: r)
    case (Cons a as)
    then show ?case by (cases a) (simp add: append_events)
  qed simp
  then show ?thesis by (simp add: empty_ring_def)
qed

lemma ring_arrivals: "arrivals (fold push_arrival as empty_ring) = keep_last 600 as"
  using stream.items_pushes [OF ring_ok_empty, of as] by (simp add: streamEventRetention_def)

lemma ring_length: "length (sr_events (fold push_arrival as empty_ring)) = min 600 (length as)"
  using arg_cong [OF ring_arrivals, of length as] by (simp add: arrivals_def)

text \<open>
  C36. After any sequence of appended events a reader that has seen the stream up to some id gets the
  next ids without a gap, as many as it may take (1 to 500, 100 by default), unless it is more than
  600 events behind, when it resumes at the oldest retained event; the latest id is the number of events.
\<close>

theorem stream_readers_see_no_gap:
  "map sv_id (getStreamEventsSince l lm (fold push_arrival as empty_ring)) =
     take (nat (clampLimit lm 100 1 500)) [max (Suc (length as - 600)) (nat (l + 1)) ..< Suc (length as)] \<and>
   getLatestStreamEventId (fold push_arrival as empty_ring) = length as \<and>
   arrivals (fold push_arrival as empty_ring) = keep_last 600 as"
proof -
  have ok: "ring_ok (fold push_arrival as empty_ring)" by (rule ring_machine.run_inv) simp
  have "Suc (length as) - min 600 (length as) = Suc (length as - 600)" by auto
  then have "map sv_id (getStreamEventsSince l lm (fold push_arrival as empty_ring)) =
     take (nat (clampLimit lm 100 1 500)) [max (Suc (length as - 600)) (nat (l + 1)) ..< Suc (length as)]"
    using since_ids [OF ok] by (simp only: ring_counter ring_length)
  then show ?thesis using latest_id [OF ok] ring_arrivals by (simp add: ring_counter)
qed

subsection \<open>The write queue\<close>

text \<open>
  \<open>writeQueue\<close> is a chain of promises: the tasks run one at a time in the order they were queued;
  \<open>writeQueuePending\<close> counts those that have not started. A task takes the recorder's state to a
  result or an exception (which only rejects its own promise) and a new state.
\<close>

record ('s, 'r) write_queue =
  wq_tasks :: "(nat \<times> ('s \<Rightarrow> 'r \<times> 's)) list"
  wq_pending :: int
  wq_results :: "(nat \<times> 'r) list"
  wq_next :: nat

definition writeQueueLimit :: int where
  "writeQueueLimit = 100"

definition empty_queue :: "('s, 'r) write_queue" where
  "empty_queue = \<lparr>wq_tasks = [], wq_pending = 0, wq_results = [], wq_next = 0\<rparr>"

definition enqueueWrite :: "('s \<Rightarrow> 'r \<times> 's) \<Rightarrow> ('s, 'r) write_queue \<Rightarrow> nat \<times> ('s, 'r) write_queue" where
  "enqueueWrite f q =
     (wq_next q, q\<lparr>wq_pending := wq_pending q + 1, wq_tasks := wq_tasks q @ [(wq_next q, f)],
                   wq_next := wq_next q + 1\<rparr>)"

definition run_task :: "('s, 'r) write_queue \<Rightarrow> 's \<Rightarrow> ('s, 'r) write_queue \<times> 's" where
  "run_task q s =
     (case wq_tasks q of
        [] \<Rightarrow> (q, s)
      | (i, f) # ts \<Rightarrow>
          (case f s of (r, s') \<Rightarrow>
             (q\<lparr>wq_pending := wq_pending q - 1, wq_tasks := ts, wq_results := wq_results q @ [(i, r)]\<rparr>, s')))"

datatype queued = QueueFull | Queued nat

definition recordEventQueued ::
  "('e \<Rightarrow> 's \<Rightarrow> 'r \<times> 's) \<Rightarrow> 'e \<Rightarrow> ('s, 'r) write_queue \<Rightarrow> queued \<times> ('s, 'r) write_queue" where
  "recordEventQueued record_event event q =
     (if writeQueueLimit \<le> wq_pending q then (QueueFull, q)
      else (case enqueueWrite (record_event event) q of (i, q') \<Rightarrow> (Queued i, q')))"

datatype 'e queue_op = Submit 'e | RunOne

definition queue_step ::
  "('e \<Rightarrow> 's \<Rightarrow> 'r \<times> 's) \<Rightarrow> 'e queue_op \<Rightarrow> ('s, 'r) write_queue \<times> 's \<times> 'e list \<Rightarrow>
     ('s, 'r) write_queue \<times> 's \<times> 'e list"
where
  "queue_step rec x w =
     (case w of (q, s, accepted) \<Rightarrow>
        (case x of
           Submit e \<Rightarrow>
             (case recordEventQueued rec e q of
                (QueueFull, q') \<Rightarrow> (q', s, accepted)
              | (Queued i, q') \<Rightarrow> (q', s, accepted @ [e]))
         | RunOne \<Rightarrow> (case run_task q s of (q', s') \<Rightarrow> (q', s', accepted))))"

text \<open>The results and the state of running the events one after the other from \<open>s0\<close>.\<close>

fun serial :: "('e \<Rightarrow> 's \<Rightarrow> 'r \<times> 's) \<Rightarrow> 'e list \<Rightarrow> 's \<Rightarrow> 'r list \<times> 's" where
  "serial rec [] s = ([], s)"
| "serial rec (e # es) s = (case rec e s of (r, s1) \<Rightarrow> (case serial rec es s1 of (rs, s2) \<Rightarrow> (r # rs, s2)))"

definition queue_ok ::
  "('e \<Rightarrow> 's \<Rightarrow> 'r \<times> 's) \<Rightarrow> 's \<Rightarrow> ('s, 'r) write_queue \<times> 's \<times> 'e list \<Rightarrow> bool" where
  "queue_ok rec s0 w \<longleftrightarrow>
     (case w of (q, s, accepted) \<Rightarrow>
        wq_pending q = int (length (wq_tasks q)) \<and> wq_pending q \<le> writeQueueLimit \<and>
        wq_next q = length accepted \<and>
        (\<exists>done waiting. accepted = done @ waiting \<and>
           wq_tasks q = map (\<lambda>p. (fst p, rec (snd p))) (zip [length done ..< length accepted] waiting) \<and>
           serial rec done s0 = (map snd (wq_results q), s) \<and>
           map fst (wq_results q) = [0 ..< length done]))"

lemma serial_snoc:
  "serial rec (es @ [e]) s =
     (case serial rec es s of (rs, s1) \<Rightarrow> (case rec e s1 of (r, s2) \<Rightarrow> (rs @ [r], s2)))"
  by (induction es arbitrary: s) (auto split: prod.splits)

lemma queue_ok_init: "queue_ok rec s0 (empty_queue, s0, [])"
  by (simp add: queue_ok_def empty_queue_def writeQueueLimit_def)

lemma submit_ok: "queue_ok rec s0 w \<Longrightarrow> queue_ok rec s0 (queue_step rec (Submit e) w)"
proof -
  assume ok: "queue_ok rec s0 w"
  obtain q s acc where w: "w = (q, s, acc)" by (cases w) auto
  from ok w obtain d u where p: "wq_pending q = int (length (wq_tasks q))" "wq_pending q \<le> writeQueueLimit"
    "wq_next q = length acc" "acc = d @ u"
    "wq_tasks q = map (\<lambda>p. (fst p, rec (snd p))) (zip [length d ..< length acc] u)"
    "serial rec d s0 = (map snd (wq_results q), s)" "map fst (wq_results q) = [0 ..< length d]"
    unfolding queue_ok_def by auto
  show ?thesis
  proof (cases "writeQueueLimit \<le> wq_pending q")
    case True
    with ok show ?thesis by (simp add: w queue_step_def recordEventQueued_def)
  next
    case False
    have z: "zip [length d ..< Suc (length acc)] (u @ [e]) = zip [length d ..< length acc] u @ [(length acc, e)]"
      using p(4) by (simp add: zip_append)
    have step: "queue_step rec (Submit e) w = (q\<lparr>wq_pending := wq_pending q + 1,
        wq_tasks := wq_tasks q @ [(wq_next q, rec e)], wq_next := wq_next q + 1\<rparr>, s, acc @ [e])"
      using False by (simp add: w queue_step_def recordEventQueued_def enqueueWrite_def)
    show ?thesis
      using p(1,2,3,6,7) False z unfolding step queue_ok_def prod.case
      by (intro conjI exI [of _ d] exI [of _ "u @ [e]"]) (simp_all add: p(4,5))
  qed
qed

lemma run_ok: "queue_ok rec s0 w \<Longrightarrow> queue_ok rec s0 (queue_step rec RunOne w)"
proof -
  assume ok: "queue_ok rec s0 w"
  obtain q s acc where w: "w = (q, s, acc)" by (cases w) auto
  from ok w obtain d u where p: "wq_pending q = int (length (wq_tasks q))" "wq_pending q \<le> writeQueueLimit"
    "wq_next q = length acc" "acc = d @ u"
    "wq_tasks q = map (\<lambda>p. (fst p, rec (snd p))) (zip [length d ..< length acc] u)"
    "serial rec d s0 = (map snd (wq_results q), s)" "map fst (wq_results q) = [0 ..< length d]"
    unfolding queue_ok_def by auto
  show ?thesis
  proof (cases u)
    case Nil
    then have "wq_tasks q = []" using p(5) by simp
    with ok show ?thesis by (simp add: w queue_step_def run_task_def)
  next
    case (Cons e u')
    obtain r s' where r: "rec e s = (r, s')" by fastforce
    have tasks: "wq_tasks q = (length d, rec e) #
        map (\<lambda>p. (fst p, rec (snd p))) (zip [Suc (length d) ..< length acc] u')"
      using p(4,5) Cons by (simp add: upt_rec)
    have s: "serial rec (d @ [e]) s0 = (map snd (wq_results q) @ [r], s')"
      using p(6) r by (simp add: serial_snoc)
    have step: "queue_step rec RunOne w = (q\<lparr>wq_pending := wq_pending q - 1,
        wq_tasks := map (\<lambda>p. (fst p, rec (snd p))) (zip [Suc (length d) ..< length acc] u'),
        wq_results := wq_results q @ [(length d, r)]\<rparr>, s', acc)"
      using tasks r by (simp add: w queue_step_def run_task_def)
    show ?thesis
      using p(1,2,3,7) s tasks unfolding step queue_ok_def prod.case
      by (intro conjI exI [of _ "d @ [e]"] exI [of _ u']) (simp_all add: p(4) Cons)
  qed
qed

interpretation write_queue: invariant_machine "queue_step rec" "queue_ok rec s0"
  for rec :: "'e \<Rightarrow> 's \<Rightarrow> 'r \<times> 's" and s0 :: 's
  by unfold_locales (metis queue_op.exhaust run_ok submit_ok)

text \<open>
  C32. However submissions and the event loop interleave, at most 100 writes wait; the writes that
  were accepted run in the order of their submission, one after the other, and the results so far
  and the state are those of running the finished ones serially.
\<close>

theorem queued_writes_are_serial:
  "case fold (queue_step rec) ops (empty_queue, s0, []) of (q, s, accepted) \<Rightarrow>
     0 \<le> wq_pending q \<and> wq_pending q \<le> 100 \<and>
     (\<exists>done waiting. accepted = done @ waiting \<and> length waiting = nat (wq_pending q) \<and>
        serial rec done s0 = (map snd (wq_results q), s))"
proof -
  obtain q s acc where w: "fold (queue_step rec) ops (empty_queue, s0, []) = (q, s, acc)"
    by (metis prod_cases3)
  have "queue_ok rec s0 (q, s, acc)"
    using write_queue.run_inv [OF queue_ok_init, of rec s0 ops] by (simp only: w)
  then obtain d u where p: "wq_pending q = int (length (wq_tasks q))" "wq_pending q \<le> writeQueueLimit"
    "acc = d @ u" "wq_tasks q = map (\<lambda>p. (fst p, rec (snd p))) (zip [length d ..< length acc] u)"
    "serial rec d s0 = (map snd (wq_results q), s)"
    unfolding queue_ok_def by auto
  then have "length u = nat (wq_pending q)" by simp
  moreover have "0 \<le> wq_pending q \<and> wq_pending q \<le> 100"
    using p(1,2) by (simp add: writeQueueLimit_def)
  ultimately show ?thesis unfolding w prod.case using p(3,5) by blast
qed

end
