(* ===== verification/Event_Recorder.thy ===== *)
theory Event_Recorder
  imports Event_Build Nuggets Observation_Links Ddouns_Gate Stream_Ring
begin

text \<open>
  \<open>recordEvent\<close> of \<open>memory-server/src/core/event-recorder.ts\<close>: guards, privacy strip with its audit
  row, the substrate gate, the transaction over the tables of \<open>Memory_Db\<close>, and the responses. A
  value of type \<open>recorder_env\<close> holds what the recorder is constructed with, the process environment
  it reads and the parts that are parameters here: embeddings, the regular expressions of the entity
  and provenance extractors, tokenisation. One reading of the clock stands for all of one call. An
  exception inside the transaction is \<open>Inl\<close> and leaves the database as it was; the sqlite-vec
  mirror of \<open>mem_vectors\<close> is not modelled.
\<close>

subsection \<open>State and environment\<close>

record embed_error =
  er_name :: "string option"
  er_code :: "string option"
  er_message :: string
  er_retryable :: "bool option"

record recorder_env =
  rv_host :: host
  captureEnabled :: bool
  normalizeProject :: "string \<Rightarrow> string + string"
  isAbsoluteProjectPath :: "string \<Rightarrow> bool"
  managedRequired :: bool
  managedConnected :: bool
  vectorDisabled :: bool
  embedPassage :: "string \<Rightarrow> embed_error + (string \<times> string) list"
  embedNugget :: "string \<Rightarrow> embed_error + string"
  vectorModelVersion :: string
  configUserId :: "string option"
  configTeamId :: "string option"
  gateEnv :: gate_env
  gitParse :: git
  rawMode :: bool
  semanticLinking :: bool
  parseVector :: "string \<Rightarrow> rat list option"
  cosineSimilarity :: "rat list \<Rightarrow> rat list \<Rightarrow> rat"
  extractEntities :: "string \<Rightarrow> (string \<times> string) list"
  extractRelations :: "string \<Rightarrow> string list \<Rightarrow> nat \<times> (string \<times> string \<times> string) list"
  extractCodeProvenance :: "json \<Rightarrow> (string \<times> json) option"
  tokenizeText :: "string \<Rightarrow> string list"
  jaccardThreshold :: rat
  envelopeJson :: "envelope \<Rightarrow> string"
  nowText :: string
  freshEventId :: string
  freshNuggetId :: "nat \<Rightarrow> string"

text \<open>What a recorded event puts on the stream and replicates.\<close>

record item =
  it_id :: string
  it_event_id :: string
  it_dedupe_hash :: string
  it_content_dedupe_hash :: "string option"
  it_project :: string
  it_session_id :: string
  it_event_type :: string
  it_card_type :: string
  it_ts :: string
  it_title :: string
  it_content :: string
  it_observation_type :: string
  it_memory_type :: string
  it_anchors :: anchors
  it_tags :: "string list"
  it_privacy_tags :: "string list"

record recorder =
  rc_db :: mem_db
  rc_cache :: tag_cache
  rc_roots :: "string list"
  rc_stream :: "item stream_ring"
  rc_replicated :: "(event_row \<times> anchors) list"

datatype dedupe_basis = ByEvent | ByContent

datatype response =
    CaptureDisabled
  | MissingFields
  | ProjectError string
  | Blocked
  | FailClosed
  | GateRejected "string list"
  | Deduped dedupe_basis string "string option"
  | Recorded item "string option"
  | WriteFailed string
  | Thrown

subsection \<open>Retryable embedding failures\<close>

definition isRetryableWriteEmbeddingFailure :: "embed_error \<Rightarrow> bool" where
  "isRetryableWriteEmbeddingFailure err =
     (let lowered = js_lower (er_message err); code = js_lower (or_else (er_code err) []);
          permanent = code = ''init_failed'' \<or> code = ''inference_failed'' \<or>
            has_any [''failed to initialize'', ''failed to load'', ''inference failed''] lowered;
          coldStart = code = ''prime_required'' \<or> code = ''warming'' \<or>
            has_any [''requires async prime before sync embed''] lowered \<or>
            (has_any [''local onnx model''] lowered \<and> has_any [''warming up''] lowered);
          looksLike = er_name err = Some ''EmbeddingReadinessError'' \<or>
            has_any [''write embedding is unavailable'', ''write embedding is not ready''] lowered
      in if permanent then False
         else if \<not> looksLike \<or> \<not> coldStart then False
         else er_retryable err \<noteq> Some False)"

subsection \<open>What is stored\<close>

text \<open>The values computed before the transaction.\<close>

record prepared =
  pr_event :: envelope
  pr_platform :: string
  pr_project :: string
  pr_session_id :: string
  pr_event_type :: string
  pr_timestamp :: string
  pr_payload :: json
  pr_redacted_payload :: string
  pr_tags :: "string list"
  pr_privacy_tags :: "string list"
  pr_dedupe_hash :: string
  pr_event_id :: string
  pr_title :: string
  pr_content :: string
  pr_redacted_content :: string
  pr_observation_type :: string
  pr_memory_type :: string
  pr_content_hash :: "string option"
  pr_user_id :: string
  pr_team_id :: "string option"

definition observation_id :: "prepared \<Rightarrow> string" where
  "observation_id p = ''obs_'' @ pr_event_id p"

definition owner :: "json option \<Rightarrow> string option \<Rightarrow> string option" where
  "owner v config = (case trimmed_string v of Some s \<Rightarrow> Some s | None \<Rightarrow> config)"

text \<open>The stripped content and what \<open>onStrip\<close> is called with.\<close>

definition strip_content :: "recorder_env \<Rightarrow> string \<Rightarrow> string \<times> (nat \<times> string list) option" where
  "strip_content env content =
     (case stripPrivateBlocksAudited (sha256 (rv_host env)) (Some content) True of
        (stripped, report) \<Rightarrow> (or_else stripped content, report))"

definition prepare :: "recorder_env \<Rightarrow> string \<Rightarrow> envelope \<Rightarrow> prepared \<times> (nat \<times> string list) option" where
  "prepare env project e =
     (let h = rv_host env; eventType = or_else (en_event_type e) [];
          tags = normalizeTags (en_tags e); privacyTags = normalizeTags (en_privacy_tags e);
          payload = parseJsonSafe h (en_payload e);
          redactedPayload = redactContent (stringify payload) privacyTags;
          eventId = js_trim (or_string (en_event_id e) (freshEventId env));
          base = buildObservationFromEvent h e redactedPayload
      in case strip_content env (bs_content base) of
           (content, report) \<Rightarrow>
             (let redacted = redactContent content privacyTags;
                  otype = classifyObservation eventType (bs_title base) content
              in (\<lparr>pr_event = e, pr_platform = or_else (en_platform e) [], pr_project = project,
                   pr_session_id = or_else (en_session_id e) [], pr_event_type = eventType,
                   pr_timestamp = or_string (en_ts e) (nowText env), pr_payload = payload,
                   pr_redacted_payload = redactedPayload, pr_tags = tags, pr_privacy_tags = privacyTags,
                   pr_dedupe_hash = js_trim (or_string (en_dedupe_hash e) (buildDedupeHash h e)),
                   pr_event_id = eventId, pr_title = bs_title base, pr_content = content,
                   pr_redacted_content = redacted, pr_observation_type = otype,
                   pr_memory_type = classifyMemoryType eventType (bs_title base) content,
                   pr_content_hash = buildContentDedupeHash h e otype redacted,
                   pr_user_id = or_else (owner (en_user_id e) (configUserId env)) ''default'',
                   pr_team_id = owner (en_team_id e) (configTeamId env)\<rparr>, report)))"

definition rawText :: "recorder_env \<Rightarrow> prepared \<Rightarrow> string option" where
  "rawText env p =
     (if rawMode env then stripPrivateBlocks (raw_content (rv_host env) (pr_event p)) else None)"

definition tags_json :: "string list \<Rightarrow> string" where
  "tags_json ts = stringify (js_strings ts)"

definition event_row_of :: "recorder_env \<Rightarrow> prepared \<Rightarrow> event_row" where
  "event_row_of env p =
     \<lparr>ev_event_id = pr_event_id p, ev_platform = pr_platform p, ev_project = pr_project p,
      ev_session_id = pr_session_id p, ev_event_type = pr_event_type p, ev_ts = pr_timestamp p,
      ev_payload_json = pr_redacted_payload p, ev_tags_json = tags_json (pr_tags p),
      ev_privacy_tags_json = tags_json (pr_privacy_tags p), ev_dedupe_hash = pr_dedupe_hash p,
      ev_observation_id = Some (observation_id p), ev_correlation_id = en_correlation_id (pr_event p),
      ev_user_id = pr_user_id p, ev_team_id = pr_team_id p, ev_created_at = nowText env\<rparr>"

definition obs_row_of :: "recorder_env \<Rightarrow> prepared \<Rightarrow> anchors \<Rightarrow> string option \<Rightarrow> obs_row" where
  "obs_row_of env p a expires =
     \<lparr>ob_id = observation_id p, ob_event_id = Some (pr_event_id p), ob_platform = pr_platform p,
      ob_project = pr_project p, ob_session_id = pr_session_id p, ob_title = Some (pr_title p),
      ob_content = pr_content p, ob_content_redacted = pr_redacted_content p,
      ob_content_dedupe_hash = pr_content_hash p, ob_raw_text = rawText env p,
      ob_observation_type = pr_observation_type p, ob_memory_type = pr_memory_type p,
      ob_tags_json = tags_json (pr_tags p), ob_privacy_tags_json = tags_json (pr_privacy_tags p),
      ob_signal_score = Some (extractSignalScore (pr_content p)), ob_access_count = None,
      ob_user_id = pr_user_id p, ob_team_id = pr_team_id p,
      ob_event_time = an_event_time a, ob_observed_at = an_observed_at a,
      ob_valid_from = an_valid_from a, ob_valid_to = an_valid_to a, ob_supersedes = an_supersedes a,
      ob_invalidated_at = an_invalidated_at a, ob_archived_at = None, ob_expires_at = expires,
      ob_thread_id = trimmed_string (en_thread_id (pr_event p)),
      ob_topic = trimmed_string (en_topic (pr_event p)),
      ob_branch = trimmed_string (en_branch (pr_event p)),
      ob_created_at = pr_timestamp p, ob_updated_at = nowText env\<rparr>"

text \<open>ON CONFLICT(id) DO UPDATE: identity, owner, place, creation and archive mark stay.\<close>

definition merge_observation :: "obs_row \<Rightarrow> obs_row \<Rightarrow> obs_row" where
  "merge_observation new old =
     new\<lparr>ob_event_id := ob_event_id old, ob_platform := ob_platform old, ob_project := ob_project old,
         ob_session_id := ob_session_id old, ob_access_count := ob_access_count old,
         ob_user_id := ob_user_id old, ob_team_id := ob_team_id old,
         ob_archived_at := ob_archived_at old, ob_created_at := ob_created_at old\<rparr>"

definition upsert_obs_row :: "obs_row \<Rightarrow> obs_row list \<Rightarrow> obs_row list" where
  "upsert_obs_row new t =
     (if ob_id new \<in> ob_id ` set t
      then sql_update (\<lambda>r. ob_id r = ob_id new) (merge_observation new) t
      else t @ [new])"

subsection \<open>The steps of the transaction\<close>

definition tag_rows :: "recorder_env \<Rightarrow> prepared \<Rightarrow> string \<Rightarrow> string list \<Rightarrow> tag_row list" where
  "tag_rows env p kind ts =
     map (\<lambda>t. \<lparr>tg_observation_id = observation_id p, tg_tag = t, tg_tag_type = kind,
               tg_created_at = nowText env\<rparr>) ts"

text \<open>\<open>{ ...payload, code_provenance: provenance }\<close>\<close>

definition with_provenance :: "json \<Rightarrow> json \<Rightarrow> json" where
  "with_provenance payload v =
     (case payload of
        JObj kvs \<Rightarrow>
          (if ''code_provenance'' \<in> fst ` set kvs
           then JObj (map (\<lambda>kv. if fst kv = ''code_provenance'' then (fst kv, v) else kv) kvs)
           else JObj (kvs @ [(''code_provenance'', v)]))
      | JArr xs \<Rightarrow> JObj (zip (map (show_nat) [0 ..< length xs]) xs @ [(''code_provenance'', v)])
      | _ \<Rightarrow> JObj [(''code_provenance'', v)])"

definition add_provenance :: "recorder_env \<Rightarrow> prepared \<Rightarrow> mem_db \<Rightarrow> mem_db" where
  "add_provenance env p db =
     (if pr_event_type p \<noteq> ''tool_use'' then db
      else (case extractCodeProvenance env (pr_payload p) of
              None \<Rightarrow> db
            | Some (path, v) \<Rightarrow>
                (let db1 = add_tags (tag_rows env p ''provenance'' [''file:'' @ path]) db in
                 db1\<lparr>db_events := sql_update (\<lambda>r. ev_event_id r = pr_event_id p)
                       (\<lambda>r. r\<lparr>ev_payload_json := stringify (with_provenance (pr_payload p) v)\<rparr>)
                       (db_events db1)\<rparr>)))"

definition upsertVector :: "recorder_env \<Rightarrow> prepared \<Rightarrow> string \<Rightarrow> mem_db \<Rightarrow> embed_error + mem_db" where
  "upsertVector env p source db =
     (if vectorDisabled env then Inr db
      else (case embedPassage env source of
              Inl err \<Rightarrow> Inl err
            | Inr variants \<Rightarrow>
                Inr (db\<lparr>db_vectors := fold (\<lambda>v. upsert_vector
                      \<lparr>ve_observation_id = observation_id p, ve_model = fst v, ve_vector_json = snd v,
                       ve_created_at = pr_timestamp p, ve_updated_at = nowText env\<rparr>)
                   variants (db_vectors db)\<rparr>)))"

definition insert_entity :: "string \<times> string \<Rightarrow> entity_row list \<Rightarrow> entity_row list" where
  "insert_entity nt t =
     (if \<exists>r \<in> set t. et_name r = fst nt \<and> et_entity_type r = snd nt then t
      else t @ [\<lparr>et_id = Suc (fold max (map et_id t) 0), et_name = fst nt, et_entity_type = snd nt\<rparr>])"

definition extractAndStoreEntities :: "recorder_env \<Rightarrow> prepared \<Rightarrow> mem_db \<Rightarrow> mem_db" where
  "extractAndStoreEntities env p db =
     (let entities = extractEntities env (pr_redacted_content p);
          stored = fold insert_entity entities (db_entities db);
          ids = map et_id (sql_where (\<lambda>r. (et_name r, et_entity_type r) \<in> set entities) stored)
      in if entities = [] then db
         else db\<lparr>db_entities := stored,
                 db_obs_entities := fold (insert_or_ignore (\<lambda>x. x))
                   (map (\<lambda>i. (observation_id p, i)) ids) (db_obs_entities db)\<rparr>)"

definition extractAndStoreGraphRelations :: "recorder_env \<Rightarrow> prepared \<Rightarrow> mem_db \<Rightarrow> mem_db" where
  "extractAndStoreGraphRelations env p db =
     (case extractRelations env (pr_redacted_content p) (pr_tags p) of
        (entities, relations) \<Rightarrow>
          (let strength = (if 1 < entities then 1 / rat_of_nat entities else 1) in
           db\<lparr>db_relations := db_relations db @
              map (\<lambda>(src, dst, kind). \<lparr>rl_src = src, rl_dst = dst, rl_kind = kind,
                     rl_strength = strength, rl_observation_id = observation_id p,
                     rl_created_at = pr_timestamp p\<rparr>) relations\<rparr>))"

text \<open>
  A nugget whose key is taken is ignored; its vector then violates the foreign key and ends the
  loop, as does a failing embedding. What was inserted before stays.
\<close>

fun insert_nuggets :: "recorder_env \<Rightarrow> prepared \<Rightarrow> nugget list \<Rightarrow> mem_db \<Rightarrow> mem_db" where
  "insert_nuggets env p [] db = db"
| "insert_nuggets env p (n # ns) db =
     (let nid = freshNuggetId env (ng_seq n);
          taken = (\<exists>r \<in> set (db_nuggets db). nu_nugget_id r = nid \<or>
                     (nu_observation_id r = observation_id p \<and> nu_seq r = ng_seq n));
          row = \<lparr>nu_nugget_id = nid, nu_observation_id = observation_id p, nu_seq = ng_seq n,
                 nu_content = ng_content n, nu_content_hash = ng_content_hash n\<rparr>;
          db1 = (if taken then db else db\<lparr>db_nuggets := db_nuggets db @ [row]\<rparr>)
      in case embedNugget env (ng_content n) of
           Inl err \<Rightarrow> db1
         | Inr vec \<Rightarrow>
             if nid \<notin> nu_nugget_id ` set (db_nuggets db1) then db1
             else insert_nuggets env p ns
               (db1\<lparr>db_nugget_vectors :=
                  (if (nid, vectorModelVersion env) \<in> (\<lambda>t. (fst t, fst (snd t))) ` set (db_nugget_vectors db1)
                   then sql_update (\<lambda>t. fst t = nid \<and> fst (snd t) = vectorModelVersion env)
                          (\<lambda>t. (nid, vectorModelVersion env, vec)) (db_nugget_vectors db1)
                   else db_nugget_vectors db1 @ [(nid, vectorModelVersion env, vec)])\<rparr>))"

definition insertNuggets :: "recorder_env \<Rightarrow> prepared \<Rightarrow> mem_db \<Rightarrow> mem_db" where
  "insertNuggets env p db =
     (if vectorDisabled env then db
      else insert_nuggets env p (splitIntoNuggets (sha256 (rv_host env)) (pr_redacted_content p)) db)"

definition stored_vector :: "recorder_env \<Rightarrow> mem_db \<Rightarrow> string \<Rightarrow> rat list option" where
  "stored_vector env db oid =
     (case sql_get (sql_where (\<lambda>v. ve_observation_id v = oid) (db_vectors db)) of
        None \<Rightarrow> None | Some v \<Rightarrow> parseVector env (ve_vector_json v))"

definition semantic_step :: "recorder_env \<Rightarrow> prepared \<Rightarrow> mem_db \<Rightarrow> mem_db" where
  "semantic_step env p db =
     (if \<not> semanticLinking env then db
      else snd (runAutoLinker (parseVector env) (cosineSimilarity env) True (stored_vector env db)
                  (observation_id p) (pr_session_id p) (pr_timestamp p) db))"

definition audit_entry ::
  "recorder_env \<Rightarrow> string \<Rightarrow> string \<Rightarrow> string \<Rightarrow> string \<Rightarrow> (string \<times> json) list \<Rightarrow> audit_write" where
  "audit_entry env action actor ttype tid details =
     \<lparr>aw_action = action, aw_target_type = ttype, aw_target_id = tid,
      aw_details_json = stringify (JObj details), aw_actor = actor, aw_created_at = nowText env\<rparr>"

definition append_chained :: "recorder_env \<Rightarrow> audit_write \<Rightarrow> mem_db \<Rightarrow> mem_db" where
  "append_chained env w db = db\<lparr>db_audit := write_chained (sha256 (rv_host env)) w (db_audit db)\<rparr>"

definition audit_private :: "recorder_env \<Rightarrow> prepared \<Rightarrow> mem_db \<Rightarrow> mem_db" where
  "audit_private env p db =
     (if \<not> isPrivateTag (pr_privacy_tags p) then db
      else db\<lparr>db_audit := write_plain
             (audit_entry env ''privacy_filter'' (pr_platform p) ''event'' (pr_event_id p)
                [(''reason'', JStr ''private_tag''),
                 (''path'', JStr (pr_platform p @ ''/'' @ pr_project p)),
                 (''privacy_tags'', js_strings (pr_privacy_tags p))])
             (db_audit db)\<rparr>)"

subsection \<open>The transaction\<close>

definition event_taken :: "prepared \<Rightarrow> mem_db \<Rightarrow> bool" where
  "event_taken p db \<longleftrightarrow> (\<exists>r \<in> set (db_events db).
     ev_event_id r = pr_event_id p \<or> ev_dedupe_hash r = pr_dedupe_hash p)"

definition same_content :: "prepared \<Rightarrow> mem_db \<Rightarrow> obs_row option" where
  "same_content p db =
     (if truthy (pr_content_hash p)
      then sql_get (live_with_hash (or_else (pr_content_hash p) []) (db_observations db)) else None)"

text \<open>What follows the vector: entities, relations, links, nuggets, the audit row of a private tag.\<close>

definition enrich :: "recorder_env \<Rightarrow> prepared \<Rightarrow> mem_db \<Rightarrow> mem_db" where
  "enrich env p db =
     (let db1 = extractAndStoreEntities env p db;
          db2 = extractAndStoreGraphRelations env p db1;
          db3 = autoLinkObservation (observation_id p) (pr_session_id p) (pr_timestamp p) db2;
          db4 = autoSupersedes (tokenizeText env) (jaccardThreshold env) (observation_id p)
                  (pr_project p) (pr_observation_type p) (pr_redacted_content p) (pr_timestamp p) db3;
          db5 = semantic_step env p db4;
          db6 = insertNuggets env p db5
      in audit_private env p db6)"

definition store_observation :: "recorder_env \<Rightarrow> prepared \<Rightarrow> anchors \<Rightarrow> string option \<Rightarrow> mem_db \<Rightarrow> mem_db" where
  "store_observation env p a expires db =
     (let db1 = db\<lparr>db_observations := upsert_obs_row (obs_row_of env p a expires) (db_observations db)\<rparr>;
          db2 = add_tags (tag_rows env p ''tag'' (pr_tags p)) db1;
          db3 = add_tags (tag_rows env p ''privacy'' (pr_privacy_tags p)) db2
      in add_provenance env p db3)"

definition write_observation ::
  "recorder_env \<Rightarrow> prepared \<Rightarrow> anchors \<Rightarrow> mem_db \<Rightarrow> string + string option \<times> mem_db" where
  "write_observation env p a db =
     (case normalizeExpiresAt (rv_host env) (en_expires_at (pr_event p)) of
        DateRangeError \<Rightarrow> Inl ''Invalid Date''
      | d \<Rightarrow>
          (let db1 = store_observation env p a (date_option d) db;
               source = or_else (rawText env p) (pr_redacted_content p)
           in case upsertVector env p source db1 of
                Inl err \<Rightarrow>
                  if pr_event_type p \<noteq> ''checkpoint'' \<or> \<not> isRetryableWriteEmbeddingFailure err
                  then Inl (er_message err)
                  else Inr (Some (er_message err), enrich env p db1)
              | Inr db2 \<Rightarrow> Inr (None, enrich env p db2)))"

datatype written = DuplicateEvent | DuplicateContent string | Created "string option"

definition transaction ::
  "recorder_env \<Rightarrow> prepared \<Rightarrow> anchors \<Rightarrow> mem_db \<Rightarrow> string + written \<times> mem_db" where
  "transaction env p a db =
     (let db1 = ensureSession (nowText env) (pr_session_id p) (pr_platform p) (pr_project p)
                  (pr_timestamp p) (en_correlation_id (pr_event p)) (Some (pr_user_id p)) (pr_team_id p) db
      in if event_taken p db1 then Inr (DuplicateEvent, db1)
         else (let db2 = db1\<lparr>db_events := db_events db1 @ [event_row_of env p]\<rparr> in
               case same_content p db2 of
                 Some r \<Rightarrow>
                   Inr (DuplicateContent (ob_id r),
                     db2\<lparr>db_events := sql_update (\<lambda>e. ev_event_id e = pr_event_id p)
                            (\<lambda>e. e\<lparr>ev_observation_id := Some (ob_id r)\<rparr>) (db_events db2)\<rparr>)
               | None \<Rightarrow>
                   (case write_observation env p a db2 of
                      Inl msg \<Rightarrow> Inl msg
                    | Inr (warning, db3) \<Rightarrow> Inr (Created warning, db3))))"

subsection \<open>recordEvent\<close>

definition item_of :: "prepared \<Rightarrow> anchors \<Rightarrow> item" where
  "item_of p a =
     \<lparr>it_id = observation_id p, it_event_id = pr_event_id p, it_dedupe_hash = pr_dedupe_hash p,
      it_content_dedupe_hash = pr_content_hash p, it_project = pr_project p,
      it_session_id = pr_session_id p, it_event_type = pr_event_type p,
      it_card_type = (if pr_event_type p = ''session_end'' then ''session_summary'' else pr_event_type p),
      it_ts = pr_timestamp p, it_title = pr_title p, it_content = take 1200 (pr_redacted_content p),
      it_observation_type = pr_observation_type p, it_memory_type = pr_memory_type p,
      it_anchors = a, it_tags = pr_tags p, it_privacy_tags = pr_privacy_tags p\<rparr>"

definition audit_strip ::
  "recorder_env \<Rightarrow> prepared \<Rightarrow> (nat \<times> string list) option \<Rightarrow> mem_db \<Rightarrow> mem_db" where
  "audit_strip env p report db =
     (case report of
        None \<Rightarrow> db
      | Some (n, hashes) \<Rightarrow>
          append_chained env
            (audit_entry env ''privacy_strip'' ''system'' ''observation'' (observation_id p)
               [(''count'', JNum (int n)), (''hashes'', js_strings hashes),
                (''project'', JStr (pr_project p)), (''session_id'', JStr (pr_session_id p)),
                (''event_type'', JStr (pr_event_type p))]) db)"

definition decision_text :: "gate_decision \<Rightarrow> string" where
  "decision_text d = (case d of Accept \<Rightarrow> ''accept'' | Reject \<Rightarrow> ''reject'' | WarnDecision \<Rightarrow> ''warn'')"

definition audit_gate :: "recorder_env \<Rightarrow> prepared \<Rightarrow> gate_verdict \<Rightarrow> mem_db \<Rightarrow> mem_db" where
  "audit_gate env p v db =
     append_chained env
       (audit_entry env ''ddouns_gate_warn'' ''system'' ''event'' (pr_event_id p)
          [(''decision'', JStr (decision_text (gv_decision v))), (''reasons'', js_strings (gv_reasons v)),
           (''closure_evidence'', (case gv_closure_evidence v of None \<Rightarrow> JNull | Some t \<Rightarrow> JStr t)),
           (''project'', JStr (pr_project p)), (''session_id'', JStr (pr_session_id p))]) db"

text \<open>The gate's part of the handler: a rejection, or the database with the audit row it leaves.\<close>

definition gate_step ::
  "recorder_env \<Rightarrow> prepared \<Rightarrow> mem_db \<Rightarrow> tag_cache \<Rightarrow> (string list + mem_db) \<times> tag_cache" where
  "gate_step env p db cache =
     (let cfg = resolveGateConfig (gateEnv env) in
      if \<not> gc_enabled cfg then (Inr db, cache)
      else (case evaluateGate (gitParse env) (gateEnv env) (pr_redacted_content p)
                   (Some (db_observations db)) (pr_content_hash p) cache of
              (v, cache') \<Rightarrow>
                if gv_decision v = Reject \<and> gc_mode cfg = Block then (Inl (gv_reasons v), cache')
                else if (gv_decision v = Reject \<or> gv_decision v = WarnDecision) \<and> gc_mode cfg \<in> {Warn, Audit}
                then (Inr (audit_gate env p v db), cache')
                else (Inr db, cache')))"

definition enqueueRetry :: "recorder_env \<Rightarrow> envelope \<Rightarrow> string \<Rightarrow> mem_db \<Rightarrow> mem_db" where
  "enqueueRetry env e reason db =
     db\<lparr>db_retry_next := db_retry_next db + 1,
        db_retry := db_retry db @ [\<lparr>rt_id = db_retry_next db, rt_event_json = envelopeJson env e, rt_reason = take 500 reason,
          rt_retry_count = 0, rt_next_retry_at = nowText env, rt_created_at = nowText env,
          rt_updated_at = nowText env\<rparr>]\<rparr>"

definition commit ::
  "recorder_env \<Rightarrow> bool \<Rightarrow> prepared \<Rightarrow> anchors \<Rightarrow> recorder \<Rightarrow> response \<times> recorder" where
  "commit env allowQueue p a st =
     (case transaction env p a (rc_db st) of
        Inl msg \<Rightarrow>
          (WriteFailed msg,
           if allowQueue then st\<lparr>rc_db := enqueueRetry env (pr_event p) msg (rc_db st)\<rparr> else st)
      | Inr (DuplicateEvent, db) \<Rightarrow>
          (Deduped ByEvent (pr_dedupe_hash p) (pr_content_hash p), st\<lparr>rc_db := db\<rparr>)
      | Inr (DuplicateContent i, db) \<Rightarrow>
          (Deduped ByContent (pr_dedupe_hash p) (pr_content_hash p), st\<lparr>rc_db := db\<rparr>)
      | Inr (Created warning, db) \<Rightarrow>
          (Recorded (item_of p a) warning,
           st\<lparr>rc_db := db,
              rc_stream := snd (appendStreamEvent (nowText env) ''observation.created'' (item_of p a)
                                  (rc_stream st)),
              rc_replicated := rc_replicated st @ [(event_row_of env p, a)]\<rparr>))"

text \<open>From the end of the guards on: strip, gate, anchors, transaction.\<close>

definition record_admitted ::
  "recorder_env \<Rightarrow> envelope \<Rightarrow> bool \<Rightarrow> string \<Rightarrow> recorder \<Rightarrow> response \<times> recorder" where
  "record_admitted env e allowQueue project st =
     (case prepare env project e of
        (p, report) \<Rightarrow>
          (let db1 = audit_strip env p report (rc_db st) in
           case gate_step env p db1 (rc_cache st) of
             (Inl reasons, cache) \<Rightarrow> (GateRejected reasons, st\<lparr>rc_db := db1, rc_cache := cache\<rparr>)
           | (Inr db2, cache) \<Rightarrow>
               (let st2 = st\<lparr>rc_db := db2, rc_cache := cache\<rparr> in
                case temporalAnchors (rv_host env) e (pr_payload p) (pr_timestamp p) of
                  None \<Rightarrow> (Thrown, st2)
                | Some a \<Rightarrow> commit env allowQueue p a st2)))"

definition recordEvent :: "recorder_env \<Rightarrow> envelope \<Rightarrow> bool \<Rightarrow> recorder \<Rightarrow> response \<times> recorder" where
  "recordEvent env e allowQueue st =
     (if \<not> captureEnabled env then (CaptureDisabled, st)
      else if \<not> truthy (en_project e) \<or> \<not> truthy (en_session_id e) \<or> \<not> truthy (en_event_type e) \<or>
              \<not> truthy (en_platform e) then (MissingFields, st)
      else (case normalizeProject env (or_else (en_project e) []) of
              Inl msg \<Rightarrow> (ProjectError msg, st)
            | Inr project \<Rightarrow>
                (let st1 = (if isAbsoluteProjectPath env project
                            then st\<lparr>rc_roots := rc_roots st @ [project]\<rparr> else st)
                 in if isBlockedTag (normalizeTags (en_privacy_tags e)) then (Blocked, st1)
                    else if managedRequired env \<and> \<not> managedConnected env then (FailClosed, st1)
                    else record_admitted env e allowQueue project st1)))"

subsection \<open>A sample call\<close>

definition sample_host :: host where
  "sample_host = \<lparr>sha256 = (\<lambda>s. show_nat (length s)), json_parse = (\<lambda>s. None),
     date_parse = (\<lambda>s. Some 0), to_iso = (\<lambda>t. ''1970'')\<rparr>"

definition sample_renv :: "gate_env \<Rightarrow> recorder_env" where
  "sample_renv g = \<lparr>rv_host = sample_host, captureEnabled = True, normalizeProject = Inr,
     isAbsoluteProjectPath = (\<lambda>p. False), managedRequired = False, managedConnected = False,
     vectorDisabled = True, embedPassage = (\<lambda>s. Inr []), embedNugget = (\<lambda>s. Inr []),
     vectorModelVersion = ''m'', configUserId = None, configTeamId = None, gateEnv = g,
     gitParse = sample_git, rawMode = False, semanticLinking = False, parseVector = (\<lambda>s. None),
     cosineSimilarity = (\<lambda>a b. 0), extractEntities = (\<lambda>s. []), extractRelations = (\<lambda>s ts. (0, [])),
     extractCodeProvenance = (\<lambda>j. None), tokenizeText = (\<lambda>s. []), jaccardThreshold = 1 / 10,
     envelopeJson = (\<lambda>e. ''{}''), nowText = ''2026'', freshEventId = ''n1'', freshNuggetId = (\<lambda>n. show_nat n)\<rparr>"

definition gate_off :: gate_env where
  "gate_off = \<lparr>DDOUNS_GATE_ENABLED = None, DDOUNS_GATE_MODE = None, DDOUNS_GATE_GIT_ROOT = None\<rparr>"

definition sample_event :: "(string \<times> json) list \<Rightarrow> string list \<Rightarrow> envelope" where
  "sample_event payload privacy = \<lparr>en_event_id = Some ''e1'', en_platform = Some ''p'', en_project = Some ''x'',
     en_session_id = Some ''s'', en_event_type = Some ''user'', en_ts = Some ''t'',
     en_payload = Some (JObj payload), en_metadata = None, en_tags = None,
     en_privacy_tags = Some (js_strings privacy), en_dedupe_hash = None, en_correlation_id = None,
     en_user_id = None, en_team_id = None, en_thread_id = None, en_topic = None, en_branch = None,
     en_expires_at = None, en_event_time = None, en_observed_at = None, en_valid_from = None,
     en_valid_to = None, en_supersedes = None, en_invalidated_at = None\<rparr>"

definition hello_event :: envelope where
  "hello_event = sample_event [(''content'', JStr ''hello'')] []"

end
