(* ===== verification/Recorder_Safety.thy ===== *)
theory Recorder_Safety
  imports Event_Recorder
begin

text \<open>
  What holds of every run of \<open>recordEvent\<close>: the integrity of the database as an invariant, atomicity
  of failed writes, idempotence of retries and how the gate changes it, what is stored of an event,
  and the audit log that stays verifiable.
\<close>

subsection \<open>One step at a time\<close>

text \<open>The database while the transaction works on the observation \<open>oid\<close>.\<close>

definition good :: "string \<Rightarrow> mem_db \<Rightarrow> bool" where
  "good oid db \<longleftrightarrow> core_ok db \<and> refs_ok db \<and> oid \<in> obs_ids db"

lemma goodD: "good oid db \<Longrightarrow> core_ok db" "good oid db \<Longrightarrow> refs_ok db" "good oid db \<Longrightarrow> oid \<in> obs_ids db"
  by (simp_all add: good_def)

lemma good_links: "good oid db \<Longrightarrow> only_links db db' \<Longrightarrow> refs_ok db' \<Longrightarrow> good oid db'"
  unfolding good_def using only_links_core only_links_ids by blast

lemma good_tags:
  "good oid db \<Longrightarrow> \<forall>g \<in> set gs. tg_observation_id g = oid \<Longrightarrow> good oid (add_tags gs db)"
  unfolding good_def by (intro conjI refs_tags) (auto intro: core_cong)

lemma tag_rows_obs: "g \<in> set (tag_rows env p k ts) \<Longrightarrow> tg_observation_id g = observation_id p"
  by (auto simp: tag_rows_def)

lemma core_event_update:
  assumes "core_ok db" "\<And>r. ev_event_id (f r) = ev_event_id r" "\<And>r. ev_dedupe_hash (f r) = ev_dedupe_hash r"
    "\<And>r. ev_session_id (f r) = ev_session_id r"
  shows "core_ok (db\<lparr>db_events := sql_update P f (db_events db)\<rparr>)"
proof -
  have m: "map g (sql_update P f (db_events db)) = map g (db_events db)" if "\<And>r. g (f r) = g r" for g :: "event_row \<Rightarrow> string"
    using that by (rule map_sql_update)
  then have s: "g ` set (sql_update P f (db_events db)) = g ` set (db_events db)" if "\<And>r. g (f r) = g r" for g :: "event_row \<Rightarrow> string"
    using that by (metis list.set_map)
  show ?thesis
    using assms(1) by (simp add: core_ok_def event_ids_def session_ids_def m s assms(2,3,4))
qed

lemma refs_event_update: "refs_ok db \<Longrightarrow> refs_ok (db\<lparr>db_events := es\<rparr>)"
  by (simp add: refs_ok_def obs_ids_def)

lemma good_provenance: "good (observation_id p) db \<Longrightarrow> good (observation_id p) (add_provenance env p db)"
proof -
  assume g: "good (observation_id p) db"
  have "good (observation_id p) (db1\<lparr>db_events := sql_update P (\<lambda>r. r\<lparr>ev_payload_json := j\<rparr>) (db_events db1)\<rparr>)"
    if "good (observation_id p) db1" for db1 P j
    using that core_event_update [of db1 "\<lambda>r. r\<lparr>ev_payload_json := j\<rparr>" P] refs_event_update
    by (simp add: good_def obs_ids_def)
  moreover have "good (observation_id p) (add_tags (tag_rows env p k ts) db)" for k ts
    using g by (rule good_tags) (simp add: tag_rows_obs)
  ultimately show ?thesis
    using g by (auto simp: add_provenance_def Let_def simp del: add_tags_simps split: option.split)
qed

lemma good_vectors:
  assumes "good (observation_id p) db" "upsertVector env p src db = Inr db'"
  shows "good (observation_id p) db'"
proof -
  let ?f = "\<lambda>v. upsert_vector \<lparr>ve_observation_id = observation_id p, ve_model = fst v,
      ve_vector_json = snd v, ve_created_at = pr_timestamp p, ve_updated_at = nowText env\<rparr>"
  have v: "ve_observation_id ` set (fold ?f vs t) \<subseteq> insert (observation_id p) (ve_observation_id ` set t)"
    and d: "distinct (map vector_key t) \<Longrightarrow> distinct (map vector_key (fold ?f vs t))" for vs t
  proof (induction vs arbitrary: t)
    case (Cons v vs)
    { case 1
      have "ve_observation_id ` set (?f v t) \<subseteq> insert (observation_id p) (ve_observation_id ` set t)"
        using upsert_vector_obs [of "\<lparr>ve_observation_id = observation_id p, ve_model = fst v,
          ve_vector_json = snd v, ve_created_at = pr_timestamp p, ve_updated_at = nowText env\<rparr>" t] by simp
      with Cons.IH(1) [of "?f v t"] show ?case by auto }
    { case 2
      then show ?case using Cons.IH(2) [of "?f v t"] by (simp add: upsert_vector_distinct) }
  qed (simp_all add: subset_insertI)
  have o: "obs_ids (db\<lparr>db_vectors := ws\<rparr>) = obs_ids db" for ws by (simp add: obs_ids_def)
  have "refs_ok (db\<lparr>db_vectors := fold ?f vs (db_vectors db)\<rparr>)" for vs
  proof -
    have "ve_observation_id ` set (fold ?f vs (db_vectors db)) \<subseteq> obs_ids db"
      by (rule subset_trans [OF v]) (simp add: goodD(3) [OF assms(1)] refs_okD(3) [OF goodD(2) [OF assms(1)]])
    then show ?thesis
      by (intro refs_okI) (simp_all add: o d refs_okD [OF goodD(2) [OF assms(1)]])
  qed
  moreover have "core_ok (db\<lparr>db_vectors := vs\<rparr>)" for vs
    by (rule core_cong [OF goodD(1) [OF assms(1)]]) simp_all
  ultimately show ?thesis
    using assms by (auto simp: upsertVector_def good_def obs_ids_def split: if_splits sum.splits)
qed

lemma good_entities: "good (observation_id p) db \<Longrightarrow> good (observation_id p) (extractAndStoreEntities env p db)"
proof -
  assume g: "good (observation_id p) db"
  note r = refs_okD [OF goodD(2) [OF g]]
  have "refs_ok (db\<lparr>db_entities := es, db_obs_entities :=
      fold (insert_or_ignore (\<lambda>x. x)) (map (\<lambda>i. (observation_id p, i)) ids) (db_obs_entities db)\<rparr>)" (is "refs_ok ?d")
    for ids :: "nat list" and es
  proof -
    have o: "obs_ids ?d = obs_ids db" by (simp add: obs_ids_def)
    have "set (db_obs_entities ?d) \<subseteq> set (db_obs_entities db) \<union> set (map (\<lambda>i. (observation_id p, i)) ids)"
      by (simp add: fold_insert_set del: set_map)
    from image_grow [OF this r(5)] goodD(3) [OF g] have "fst ` set (db_obs_entities ?d) \<subseteq> obs_ids db"
      by (auto simp: image_image)
    then show ?thesis by (intro refs_okI) (simp_all add: o r)
  qed
  note refs = this
  have "good (observation_id p) (db\<lparr>db_entities := es, db_obs_entities :=
      fold (insert_or_ignore (\<lambda>x. x)) (map (\<lambda>i. (observation_id p, i)) ids) (db_obs_entities db)\<rparr>)"
    for ids :: "nat list" and es
  proof -
    have "core_ok (db\<lparr>db_entities := es, db_obs_entities := ys\<rparr>)" for ys
      by (rule core_cong [OF goodD(1) [OF g]]) simp_all
    with refs show ?thesis using goodD(3) [OF g] by (simp add: good_def obs_ids_def)
  qed
  then show ?thesis using g by (auto simp: extractAndStoreEntities_def Let_def simp del: map_map)
qed

lemma refs_append:
  assumes "refs_ok db" "rl_observation_id ` set rs \<subseteq> obs_ids db" "nu_observation_id ` set ns \<subseteq> obs_ids db"
  shows "refs_ok (db\<lparr>db_relations := db_relations db @ rs\<rparr>)" "refs_ok (db\<lparr>db_nuggets := db_nuggets db @ ns\<rparr>)"
proof -
  have o: "obs_ids (db\<lparr>db_relations := x\<rparr>) = obs_ids db" "obs_ids (db\<lparr>db_nuggets := y\<rparr>) = obs_ids db" for x y
    by (simp_all add: obs_ids_def)
  show "refs_ok (db\<lparr>db_relations := db_relations db @ rs\<rparr>)" "refs_ok (db\<lparr>db_nuggets := db_nuggets db @ ns\<rparr>)"
    using assms(2,3) refs_okD [OF assms(1)]
    by (intro refs_okI; simp add: o image_Un)+
qed

text \<open>Columns and tables the invariant does not look at.\<close>

lemma good_frame:
  assumes "good oid db" "db_sessions d = db_sessions db" "db_events d = db_events db"
    "db_observations d = db_observations db" "db_tags d = db_tags db" "db_vectors d = db_vectors db"
    "db_obs_entities d = db_obs_entities db" "db_relations d = db_relations db"
    "db_nuggets d = db_nuggets db" "db_links d = db_links db"
  shows "good oid d"
proof -
  have "core_ok d" using assms by (intro core_cong [OF goodD(1) [OF assms(1)]])
  moreover have "obs_ids d = obs_ids db" using assms by (simp add: obs_ids_def)
  ultimately show ?thesis
    using assms refs_okD [OF goodD(2) [OF assms(1)]] by (simp add: good_def refs_ok_def)
qed

lemma good_relations: "good (observation_id p) db \<Longrightarrow> good (observation_id p) (extractAndStoreGraphRelations env p db)"
proof -
  assume g: "good (observation_id p) db"
  have "good (observation_id p) (db\<lparr>db_relations := db_relations db @ rs\<rparr>)"
    if "rl_observation_id ` set rs \<subseteq> {observation_id p}" for rs
  proof -
    have "rl_observation_id ` set rs \<subseteq> obs_ids db"
      by (rule subset_trans [OF that]) (simp add: goodD(3) [OF g])
    then have "refs_ok (db\<lparr>db_relations := db_relations db @ rs\<rparr>)"
      using refs_append(1) [OF goodD(2) [OF g], of rs "[]"] by simp
    moreover have "core_ok (db\<lparr>db_relations := db_relations db @ rs\<rparr>)"
      by (rule core_cong [OF goodD(1) [OF g]]) simp_all
    ultimately show ?thesis using goodD(3) [OF g] by (simp add: good_def obs_ids_def)
  qed
  note grow = this
  show ?thesis
    by (auto simp: extractAndStoreGraphRelations_def Let_def intro!: grow split: prod.split)
qed

lemma good_nugget_steps: "good (observation_id p) db \<Longrightarrow> good (observation_id p) (insert_nuggets env p ns db)"
proof (induction ns arbitrary: db)
  case (Cons n ns)
  have row: "good (observation_id p) (db\<lparr>db_nuggets := db_nuggets db @ [r]\<rparr>)"
    if "nu_observation_id r = observation_id p" for r
  proof -
    have "refs_ok (db\<lparr>db_nuggets := db_nuggets db @ [r]\<rparr>)"
      using refs_append(2) [OF goodD(2) [OF Cons.prems], of "[]" "[r]"] that goodD(3) [OF Cons.prems] by simp
    moreover have "core_ok (db\<lparr>db_nuggets := db_nuggets db @ [r]\<rparr>)"
      by (rule core_cong [OF goodD(1) [OF Cons.prems]]) simp_all
    ultimately show ?thesis using goodD(3) [OF Cons.prems] by (simp add: good_def obs_ids_def)
  qed
  have vec: "good (observation_id p) (d\<lparr>db_nugget_vectors := v\<rparr>)" if "good (observation_id p) d" for d v
    using that by (rule good_frame) simp_all
  show ?case
    using Cons.prems by (auto simp: Let_def split: sum.split intro!: Cons.IH vec row)
qed simp

lemma good_nuggets: "good (observation_id p) db \<Longrightarrow> good (observation_id p) (insertNuggets env p db)"
  by (simp add: insertNuggets_def good_nugget_steps)

lemma good_audit: "good oid db \<Longrightarrow> good oid (db\<lparr>db_audit := l\<rparr>)"
  by (erule good_frame) simp_all

lemma good_enrich: "good (observation_id p) db \<Longrightarrow> good (observation_id p) (enrich env p db)"
  unfolding enrich_def Let_def audit_private_def semantic_step_def
  by (auto intro!: good_audit good_nuggets
      good_links [OF _ runAutoLinker_only runAutoLinker_refs] goodD
      good_links [OF _ autoSupersedes_only autoSupersedes_refs]
      good_links [OF _ autoLinkObservation_only autoLinkObservation_refs]
      good_relations good_entities)

subsection \<open>The observation row\<close>

lemma map_upsert_obs:
  "map ob_id (upsert_obs_row new t) = (if ob_id new \<in> ob_id ` set t then map ob_id t else map ob_id t @ [ob_id new])"
proof -
  have "map ob_id (sql_update P (merge_observation new) t) = map ob_id t"
    if "\<And>r. P r \<Longrightarrow> ob_id r = ob_id new" for P
    using that by (induction t) (auto simp: sql_update_def merge_observation_def)
  then show ?thesis by (simp add: upsert_obs_row_def)
qed

lemma upsert_obs_cases:
  assumes "r \<in> set (upsert_obs_row new t)"
  shows "(r \<in> set t \<and> ob_id r \<noteq> ob_id new) \<or>
    (ob_id r = ob_id new \<and> ob_content_dedupe_hash r = ob_content_dedupe_hash new \<and>
     (r = new \<or> (\<exists>s \<in> set t. ob_session_id r = ob_session_id s \<and> ob_event_id r = ob_event_id s)))"
proof (cases "ob_id new \<in> ob_id ` set t")
  case True
  with assms obtain s where s: "s \<in> set t" "r = (if ob_id s = ob_id new then merge_observation new s else s)"
    by (auto simp: upsert_obs_row_def sql_update_def)
  show ?thesis
  proof (cases "ob_id s = ob_id new")
    case True
    with s have r: "r = merge_observation new s" by simp
    then show ?thesis using s(1) by (auto simp: merge_observation_def)
  qed (use s in simp)
next
  case False
  with assms show ?thesis by (auto simp: upsert_obs_row_def image_iff)
qed

lemma distinct_key: "distinct (map k t) \<Longrightarrow> r \<in> set t \<Longrightarrow> s \<in> set t \<Longrightarrow> k r = k s \<Longrightarrow> r = s"
  by (metis distinct_map inj_onD)

lemma same_content_None:
  assumes "same_content p db = None" "r \<in> set (db_observations db)" "live r"
    "ob_content_dedupe_hash r = Some h" "h \<noteq> []"
  shows "pr_content_hash p \<noteq> Some h"
  using assms by (auto simp: same_content_def live_with_hash_empty split: if_splits)

lemma core_okD:
  "core_ok db \<Longrightarrow> distinct (map ss_session_id (db_sessions db))"
  "core_ok db \<Longrightarrow> distinct (map ev_event_id (db_events db))"
  "core_ok db \<Longrightarrow> distinct (map ev_dedupe_hash (db_events db))"
  "core_ok db \<Longrightarrow> distinct (map ob_id (db_observations db))"
  "core_ok db \<Longrightarrow> ev_session_id ` set (db_events db) \<subseteq> session_ids db"
  "core_ok db \<Longrightarrow> ob_session_id ` set (db_observations db) \<subseteq> session_ids db"
  "core_ok db \<Longrightarrow> r \<in> set (db_observations db) \<Longrightarrow> ob_event_id r = Some e \<Longrightarrow> e \<in> event_ids db"
  "core_ok db \<Longrightarrow> r \<in> set (db_observations db) \<Longrightarrow> s \<in> set (db_observations db) \<Longrightarrow> h \<noteq> [] \<Longrightarrow>
     live r \<Longrightarrow> live s \<Longrightarrow> ob_content_dedupe_hash r = Some h \<Longrightarrow> ob_content_dedupe_hash s = Some h \<Longrightarrow> r = s"
  unfolding core_ok_def by blast+

lemma core_okI:
  assumes "distinct (map ss_session_id (db_sessions db))" "distinct (map ev_event_id (db_events db))"
    "distinct (map ev_dedupe_hash (db_events db))" "distinct (map ob_id (db_observations db))"
    "ev_session_id ` set (db_events db) \<subseteq> session_ids db"
    "\<And>r. r \<in> set (db_observations db) \<Longrightarrow> ob_session_id r \<in> session_ids db"
    "\<And>r e. r \<in> set (db_observations db) \<Longrightarrow> ob_event_id r = Some e \<Longrightarrow> e \<in> event_ids db"
    "\<And>r s h. r \<in> set (db_observations db) \<Longrightarrow> s \<in> set (db_observations db) \<Longrightarrow> h \<noteq> [] \<Longrightarrow>
       live r \<Longrightarrow> live s \<Longrightarrow> ob_content_dedupe_hash r = Some h \<Longrightarrow> ob_content_dedupe_hash s = Some h \<Longrightarrow> r = s"
  shows "core_ok db"
  using assms unfolding core_ok_def by (auto simp: image_subset_iff)

lemma obs_row_fields [simp]:
  "ob_id (obs_row_of env p a x) = observation_id p" "ob_session_id (obs_row_of env p a x) = pr_session_id p"
  "ob_event_id (obs_row_of env p a x) = Some (pr_event_id p)"
  "ob_content_dedupe_hash (obs_row_of env p a x) = pr_content_hash p"
  by (simp_all add: obs_row_of_def)

lemma good_upsert:
  assumes ok: "core_ok db" "refs_ok db" and s: "pr_session_id p \<in> session_ids db"
    and e: "pr_event_id p \<in> event_ids db" and c: "same_content p db = None"
  shows "good (observation_id p)
    (db\<lparr>db_observations := upsert_obs_row (obs_row_of env p a x) (db_observations db)\<rparr>)" (is "good _ ?d")
proof -
  let ?new = "obs_row_of env p a x"
  note cs = upsert_obs_cases [of _ ?new "db_observations db"]
  have ids: "distinct (map ob_id (db_observations ?d))"
    using core_okD(4) [OF ok(1)] by (simp add: map_upsert_obs)
  have same: "session_ids ?d = session_ids db" "event_ids ?d = event_ids db"
    by (simp_all add: session_ids_def event_ids_def)
  have "core_ok ?d"
  proof (rule core_okI)
    fix r assume "r \<in> set (db_observations ?d)"
    then show "ob_session_id r \<in> session_ids ?d"
      using cs [of r] core_okD(6) [OF ok(1)] s unfolding same by (auto simp: image_subset_iff)
  next
    fix r i assume "r \<in> set (db_observations ?d)" "ob_event_id r = Some i"
    then show "i \<in> event_ids ?d"
      using cs [of r] core_okD(7) [OF ok(1)] e unfolding same by (auto simp: image_subset_iff)
  next
    fix r t h assume r: "r \<in> set (db_observations ?d)" and t: "t \<in> set (db_observations ?d)" and h: "h \<noteq> []"
      and l: "live r" "live t" "ob_content_dedupe_hash r = Some h" "ob_content_dedupe_hash t = Some h"
    have old: "v \<in> set (db_observations db) \<Longrightarrow> live v \<Longrightarrow> ob_content_dedupe_hash v = Some h \<Longrightarrow> pr_content_hash p \<noteq> Some h" for v
      using same_content_None [OF c _ _ _ h] by blast
    show "r = t"
    proof (cases "ob_id r = ob_id t")
      case True
      with ids r t show ?thesis by (rule_tac distinct_key)
    next
      case False
      with cs [of r] cs [of t] r t l old [of r] old [of t]
      have "r \<in> set (db_observations db) \<and> t \<in> set (db_observations db)" by auto
      then show ?thesis using core_okD(8) [OF ok(1) _ _ h l] by blast
    qed
  qed (use core_okD [OF ok(1)] ids same in simp_all)
  moreover have o: "obs_ids ?d = insert (observation_id p) (obs_ids db)"
    using arg_cong [OF map_upsert_obs [of ?new "db_observations db"], of set]
    by (auto simp: obs_ids_def split: if_splits)
  moreover have "refs_ok ?d"
    by (rule refs_okI) (use refs_okD [OF ok(2)] o in \<open>auto simp: image_subset_iff\<close>)
  ultimately show ?thesis by (simp add: good_def)
qed

lemma good_store:
  assumes "core_ok db" "refs_ok db" "pr_session_id p \<in> session_ids db" "pr_event_id p \<in> event_ids db"
    "same_content p db = None"
  shows "good (observation_id p) (store_observation env p a x db)"
  unfolding store_observation_def Let_def
  by (intro good_provenance good_tags good_upsert assms) (simp_all add: tag_rows_obs)

lemma write_observation_Inr:
  assumes "write_observation env p a db = Inr (w, db')"
  shows "\<exists>x d src. db' = enrich env p d \<and>
    (d = store_observation env p a x db \<or> upsertVector env p src (store_observation env p a x db) = Inr d)"
  using assms unfolding write_observation_def Let_def
  by (fastforce split: date_result.splits sum.splits if_splits)

lemma good_written:
  assumes "core_ok db" "refs_ok db" "pr_session_id p \<in> session_ids db" "pr_event_id p \<in> event_ids db"
    "same_content p db = None" "write_observation env p a db = Inr (w, db')"
  shows "good (observation_id p) db'"
  using write_observation_Inr [OF assms(6)] good_store [OF assms(1-5)] good_vectors good_enrich by metis

subsection \<open>The transaction\<close>

lemma refs_frame: "refs_ok db \<Longrightarrow> refs_ok (db\<lparr>db_events := x\<rparr>)" "refs_ok db \<Longrightarrow> refs_ok (db\<lparr>db_sessions := y\<rparr>)"
  by (simp_all add: refs_ok_def obs_ids_def)

lemma core_insert_event:
  assumes "core_ok db" "\<not> event_taken p db" "pr_session_id p \<in> session_ids db"
  shows "core_ok (db\<lparr>db_events := db_events db @ [event_row_of env p]\<rparr>)" (is "core_ok ?d")
proof -
  have i: "event_ids db \<subseteq> event_ids ?d" "session_ids ?d = session_ids db"
    by (auto simp: event_ids_def session_ids_def)
  show ?thesis
    by (rule core_okI)
       (use assms(2,3) core_okD [OF assms(1)] i in
          \<open>auto simp: event_taken_def event_row_of_def image_iff image_subset_iff\<close>)
qed

lemma transaction_keeps_integrity:
  assumes "core_ok db" "refs_ok db" "transaction env p a db = Inr (w, db')"
  shows "core_ok db' \<and> refs_ok db'"
proof -
  let ?d1 = "ensureSession (nowText env) (pr_session_id p) (pr_platform p) (pr_project p)
                  (pr_timestamp p) (en_correlation_id (pr_event p)) (Some (pr_user_id p)) (pr_team_id p) db"
  let ?d2 = "?d1\<lparr>db_events := db_events ?d1 @ [event_row_of env p]\<rparr>"
  have d1: "core_ok ?d1" "refs_ok ?d1" "pr_session_id p \<in> session_ids ?d1"
    by (rule core_ensureSession [OF assms(1)], simp add: ensureSession_def refs_frame(2) [OF assms(2)],
        simp add: ensureSession_session_ids)
  show ?thesis
  proof (cases "event_taken p ?d1")
    case True
    with assms(3) d1 show ?thesis by (simp add: transaction_def Let_def)
  next
    case False
    have d2: "core_ok ?d2" "refs_ok ?d2" "pr_session_id p \<in> session_ids ?d2" "pr_event_id p \<in> event_ids ?d2"
      using core_insert_event [OF d1(1) False d1(3)] refs_frame(1) [OF d1(2)] d1(3)
      by (simp_all add: session_ids_def event_ids_def event_row_of_def)
    show ?thesis
    proof (cases "same_content p ?d2")
      case None
      with assms(3) False d2 good_written [OF d2 None] show ?thesis
        by (auto simp: transaction_def Let_def good_def split: sum.splits)
    next
      case (Some r)
      with assms(3) False core_event_update [OF d2(1)] refs_event_update [OF d2(2)] show ?thesis
        by (auto simp: transaction_def Let_def)
    qed
  qed
qed

subsection \<open>What the steps leave alone\<close>

text \<open>The tables only the first steps of the transaction write, and the retry queue.\<close>

definition same_core :: "mem_db \<Rightarrow> mem_db \<Rightarrow> bool" where
  "same_core db db' \<longleftrightarrow> db_sessions db' = db_sessions db \<and> db_events db' = db_events db \<and>
     db_observations db' = db_observations db \<and> db_retry db' = db_retry db \<and> db_retry_next db' = db_retry_next db \<and>
     db_tags db' = db_tags db"

lemma same_core_refl: "same_core db db"
  by (simp add: same_core_def)

lemma keeps_trans:
  "same_core a b \<and> db_audit b = db_audit a \<Longrightarrow> same_core b c \<and> db_audit c = db_audit b \<Longrightarrow>
     same_core a c \<and> db_audit c = db_audit a"
  by (simp add: same_core_def)

lemma same_core_links: "only_links db db' \<Longrightarrow> same_core db db' \<and> db_audit db' = db_audit db"
  by (auto simp: only_links_def same_core_def)

lemma same_core_entities: "same_core db (extractAndStoreEntities env p db) \<and>
    db_audit (extractAndStoreEntities env p db) = db_audit db"
  by (simp add: extractAndStoreEntities_def Let_def same_core_def)

lemma same_core_relations: "same_core db (extractAndStoreGraphRelations env p db) \<and>
    db_audit (extractAndStoreGraphRelations env p db) = db_audit db"
  by (simp add: extractAndStoreGraphRelations_def Let_def same_core_def split: prod.split)

lemma same_core_nuggets: "same_core db (insertNuggets env p db) \<and> db_audit (insertNuggets env p db) = db_audit db"
proof -
  have "same_core db (insert_nuggets env p ns db) \<and> db_audit (insert_nuggets env p ns db) = db_audit db" for ns
  proof (induction ns arbitrary: db)
    case (Cons n ns)
    have "same_core db d \<and> db_audit d = db_audit db"
      if "same_core db e \<and> db_audit e = db_audit db" "same_core e d \<and> db_audit d = db_audit e" for d e
      using that by (auto simp: same_core_def)
    then show ?case
      using Cons.IH by (auto simp: Let_def same_core_def split: sum.split)
  qed (simp add: same_core_def)
  then show ?thesis by (simp add: insertNuggets_def same_core_def)
qed

lemma same_core_semantic: "same_core db (semantic_step env p db) \<and> db_audit (semantic_step env p db) = db_audit db"
  using same_core_links [OF runAutoLinker_only] by (simp add: semantic_step_def same_core_refl)

lemma same_core_vector:
  "upsertVector env p src db = Inr db' \<Longrightarrow> same_core db db' \<and> db_audit db' = db_audit db"
  by (auto simp: upsertVector_def same_core_def split: if_splits sum.splits)

text \<open>The audit row of a private tag, as a list of plain writes.\<close>

definition private_writes :: "recorder_env \<Rightarrow> prepared \<Rightarrow> audit_write list" where
  "private_writes env p =
     (if isPrivateTag (pr_privacy_tags p)
      then [audit_entry env ''privacy_filter'' (pr_platform p) ''event'' (pr_event_id p)
              [(''reason'', JStr ''private_tag''),
               (''path'', JStr (pr_platform p @ ''/'' @ pr_project p)),
               (''privacy_tags'', js_strings (pr_privacy_tags p))]]
      else [])"

lemma enrich_frame:
  "same_core db (enrich env p db) \<and> db_audit (enrich env p db) = fold write_plain (private_writes env p) (db_audit db)"
proof -
  let ?a = "extractAndStoreEntities env p db"
  let ?b = "extractAndStoreGraphRelations env p ?a"
  let ?c = "autoLinkObservation (observation_id p) (pr_session_id p) (pr_timestamp p) ?b"
  let ?d = "autoSupersedes (tokenizeText env) (jaccardThreshold env) (observation_id p)
                  (pr_project p) (pr_observation_type p) (pr_redacted_content p) (pr_timestamp p) ?c"
  let ?e = "semantic_step env p ?d"
  let ?f = "insertNuggets env p ?e"
  have "same_core db ?f \<and> db_audit ?f = db_audit db"
    by (rule keeps_trans [OF same_core_entities keeps_trans [OF same_core_relations
        keeps_trans [OF same_core_links [OF autoLinkObservation_only]
        keeps_trans [OF same_core_links [OF autoSupersedes_only]
        keeps_trans [OF same_core_semantic same_core_nuggets]]]]])
  moreover have "enrich env p db = audit_private env p ?f" by (simp add: enrich_def)
  ultimately show ?thesis
    by (simp add: audit_private_def private_writes_def same_core_def)
qed

text \<open>The two keys of an event row, and its owner; no statement of the transaction changes them.\<close>

definition ev_key :: "event_row \<Rightarrow> string \<times> string" where
  "ev_key r = (ev_event_id r, ev_dedupe_hash r)"

definition ev_stamp :: "event_row \<Rightarrow> (string \<times> string) \<times> string \<times> string option" where
  "ev_stamp r = (ev_key r, ev_user_id r, ev_team_id r)"

lemma store_frame:
  "db_sessions (store_observation env p a x db) = db_sessions db \<and>
   db_observations (store_observation env p a x db) = upsert_obs_row (obs_row_of env p a x) (db_observations db) \<and>
   db_retry (store_observation env p a x db) = db_retry db \<and>
   db_retry_next (store_observation env p a x db) = db_retry_next db \<and>
   db_audit (store_observation env p a x db) = db_audit db \<and>
   map ev_stamp (db_events (store_observation env p a x db)) = map ev_stamp (db_events db)"
  by (auto simp: store_observation_def add_provenance_def Let_def ev_stamp_def ev_key_def map_sql_update split: option.split)

lemma written_frame:
  assumes "write_observation env p a db = Inr (w, db')"
  shows "(\<exists>x. db_observations db' = upsert_obs_row (obs_row_of env p a x) (db_observations db)) \<and>
    db_retry db' = db_retry db \<and> db_retry_next db' = db_retry_next db \<and> db_audit db' = fold write_plain (private_writes env p) (db_audit db) \<and>
    map ev_stamp (db_events db') = map ev_stamp (db_events db)"
proof -
  from write_observation_Inr [OF assms] obtain x d src where d: "db' = enrich env p d"
    "d = store_observation env p a x db \<or> upsertVector env p src (store_observation env p a x db) = Inr d"
    by blast
  have "same_core (store_observation env p a x db) d \<and> db_audit d = db_audit (store_observation env p a x db)"
    using d(2) same_core_vector same_core_refl by auto
  with enrich_frame [of d env p] store_frame [of env p a x db] show ?thesis
    unfolding d(1) same_core_def by auto
qed

text \<open>How a transaction that commits ends.\<close>

definition session_ensured :: "recorder_env \<Rightarrow> prepared \<Rightarrow> mem_db \<Rightarrow> mem_db" where
  "session_ensured env p db = ensureSession (nowText env) (pr_session_id p) (pr_platform p) (pr_project p)
     (pr_timestamp p) (en_correlation_id (pr_event p)) (Some (pr_user_id p)) (pr_team_id p) db"

definition event_inserted :: "recorder_env \<Rightarrow> prepared \<Rightarrow> mem_db \<Rightarrow> mem_db" where
  "event_inserted env p db =
     (session_ensured env p db)\<lparr>db_events := db_events db @ [event_row_of env p]\<rparr>"

lemma session_ensured_simps [simp]:
  "db_events (session_ensured env p db) = db_events db" "db_observations (session_ensured env p db) = db_observations db"
  "db_retry (session_ensured env p db) = db_retry db" "db_retry_next (session_ensured env p db) = db_retry_next db" "db_audit (session_ensured env p db) = db_audit db"
  "db_tags (session_ensured env p db) = db_tags db" "db_links (session_ensured env p db) = db_links db"
  "db_vectors (session_ensured env p db) = db_vectors db"
  by (simp_all add: session_ensured_def ensureSession_def)

lemma same_content_cong: "db_observations d = db_observations db \<Longrightarrow> same_content p d = same_content p db"
  by (simp add: same_content_def)

lemma transaction_cases:
  "transaction env p a db =
     (if event_taken p db then Inr (DuplicateEvent, session_ensured env p db)
      else case same_content p db of
        Some r \<Rightarrow> Inr (DuplicateContent (ob_id r),
          (event_inserted env p db)\<lparr>db_events := sql_update (\<lambda>e. ev_event_id e = pr_event_id p)
             (\<lambda>e. e\<lparr>ev_observation_id := Some (ob_id r)\<rparr>) (db_events (event_inserted env p db))\<rparr>)
      | None \<Rightarrow> (case write_observation env p a (event_inserted env p db) of
           Inl msg \<Rightarrow> Inl msg | Inr (warning, d) \<Rightarrow> Inr (Created warning, d)))"
proof -
  have "event_taken p (session_ensured env p db) = event_taken p db" by (simp add: event_taken_def)
  moreover have "same_content p (event_inserted env p db) = same_content p db"
    by (rule same_content_cong) (simp add: event_inserted_def)
  moreover have "(session_ensured env p db)\<lparr>db_events := db_events (session_ensured env p db) @ [event_row_of env p]\<rparr> =
      event_inserted env p db"
    by (simp add: event_inserted_def)
  ultimately show ?thesis
    unfolding transaction_def Let_def session_ensured_def [symmetric] by (simp only:)
qed

lemma transaction_stamps:
  assumes "transaction env p a db = Inr (w, db')"
  shows "db_retry db' = db_retry db \<and> db_retry_next db' = db_retry_next db \<and> (\<exists>ws. db_audit db' = fold write_plain ws (db_audit db)) \<and>
    ev_stamp ` set (db_events db') =
      (if w = DuplicateEvent then {} else {((pr_event_id p, pr_dedupe_hash p), pr_user_id p, pr_team_id p)}) \<union> ev_stamp ` set (db_events db)"
proof (cases "event_taken p db")
  case True
  with assms show ?thesis by (auto simp: transaction_cases intro: exI [of _ "[]"])
next
  case False
  let ?d2 = "event_inserted env p db"
  have d2: "db_retry ?d2 = db_retry db \<and> db_retry_next ?d2 = db_retry_next db" "db_audit ?d2 = db_audit db"
    "set (map ev_stamp (db_events ?d2)) = {((pr_event_id p, pr_dedupe_hash p), pr_user_id p, pr_team_id p)} \<union> ev_stamp ` set (db_events db)"
    by (auto simp: event_inserted_def event_row_of_def ev_stamp_def ev_key_def)
  show ?thesis
  proof (cases "same_content p db")
    case None
    with assms False obtain v where w: "write_observation env p a ?d2 = Inr (v, db')" "w = Created v"
      by (auto simp: transaction_cases split: sum.splits)
    have "set (map ev_stamp (db_events db')) = {((pr_event_id p, pr_dedupe_hash p), pr_user_id p, pr_team_id p)} \<union> ev_stamp ` set (db_events db)"
      using written_frame [OF w(1)] d2(3) by simp
    with written_frame [OF w(1)] d2(1,2) w(2) show ?thesis unfolding set_map by auto
  next
    case (Some r)
    with assms False have db': "w = DuplicateContent (ob_id r)" "db' = ?d2\<lparr>db_events := sql_update (\<lambda>e. ev_event_id e = pr_event_id p)
        (\<lambda>e. e\<lparr>ev_observation_id := Some (ob_id r)\<rparr>) (db_events ?d2)\<rparr>"
      by (auto simp: transaction_cases)
    have "set (map ev_stamp (db_events db')) = {((pr_event_id p, pr_dedupe_hash p), pr_user_id p, pr_team_id p)} \<union> ev_stamp ` set (db_events db)"
    proof -
      have "map ev_stamp (db_events db') = map ev_stamp (db_events ?d2)"
        unfolding db'(2) by (simp add: ev_stamp_def ev_key_def map_sql_update)
      with d2(3) show ?thesis by (simp only:)
    qed
    with d2(1,2) db' show ?thesis unfolding set_map by (auto intro: exI [of _ "[]"])
  qed
qed

lemma transaction_frame:
  assumes "transaction env p a db = Inr (w, db')"
  shows "db_retry db' = db_retry db \<and> db_retry_next db' = db_retry_next db \<and> (\<exists>ws. db_audit db' = fold write_plain ws (db_audit db)) \<and>
    ev_key ` set (db_events db') =
      (if w = DuplicateEvent then {} else {(pr_event_id p, pr_dedupe_hash p)}) \<union> ev_key ` set (db_events db)"
proof -
  have key: "ev_key ` A = fst ` ev_stamp ` A" for A
    by (simp add: image_image ev_stamp_def)
  have stamps: "ev_stamp ` set (db_events db') =
      (if w = DuplicateEvent then {} else {((pr_event_id p, pr_dedupe_hash p), pr_user_id p, pr_team_id p)}) \<union>
        ev_stamp ` set (db_events db)"
    using transaction_stamps [OF assms] by blast
  have "fst ` ev_stamp ` set (db_events db') =
      (if w = DuplicateEvent then {} else {(pr_event_id p, pr_dedupe_hash p)}) \<union> fst ` ev_stamp ` set (db_events db)"
    unfolding stamps by auto
  with transaction_stamps [OF assms] show ?thesis unfolding key by blast
qed

subsection \<open>One call\<close>

text \<open>The event passes the guards, under its normalised project.\<close>

definition admitted :: "recorder_env \<Rightarrow> envelope \<Rightarrow> string \<Rightarrow> bool" where
  "admitted env e project \<longleftrightarrow>
     captureEnabled env \<and> truthy (en_project e) \<and> truthy (en_session_id e) \<and> truthy (en_event_type e) \<and>
     truthy (en_platform e) \<and> normalizeProject env (or_else (en_project e) []) = Inr project \<and>
     \<not> isBlockedTag (normalizeTags (en_privacy_tags e)) \<and> (managedRequired env \<longrightarrow> managedConnected env)"

definition with_root :: "recorder_env \<Rightarrow> string \<Rightarrow> recorder \<Rightarrow> recorder" where
  "with_root env project st =
     (if isAbsoluteProjectPath env project then st\<lparr>rc_roots := rc_roots st @ [project]\<rparr> else st)"

lemma with_root_simps [simp]:
  "rc_db (with_root env pr st) = rc_db st" "rc_cache (with_root env pr st) = rc_cache st"
  "rc_stream (with_root env pr st) = rc_stream st" "rc_replicated (with_root env pr st) = rc_replicated st"
  by (simp_all add: with_root_def)

lemma recordEvent_admitted:
  "admitted env e project \<Longrightarrow> recordEvent env e q st = record_admitted env e q project (with_root env project st)"
  by (auto simp: recordEvent_def admitted_def with_root_def Let_def)

text \<open>The state up to what the guards may touch.\<close>

definition untouched :: "recorder \<Rightarrow> recorder \<Rightarrow> bool" where
  "untouched st st' \<longleftrightarrow> rc_db st' = rc_db st \<and> rc_cache st' = rc_cache st \<and> rc_stream st' = rc_stream st \<and>
     rc_replicated st' = rc_replicated st"

definition refusal :: "response \<Rightarrow> bool" where
  "refusal r = (case r of CaptureDisabled \<Rightarrow> True | MissingFields \<Rightarrow> True | ProjectError m \<Rightarrow> True
     | Blocked \<Rightarrow> True | FailClosed \<Rightarrow> True | _ \<Rightarrow> False)"

lemma recordEvent_refused:
  "\<not> (\<exists>project. admitted env e project) \<Longrightarrow>
     refusal (fst (recordEvent env e q st)) \<and> untouched st (snd (recordEvent env e q st))"
  by (auto simp: recordEvent_def admitted_def refusal_def untouched_def Let_def split: sum.split)

lemma gate_step_frame:
  assumes "gate_step env p db cache = (r, cache')"
  shows "case r of Inl reasons \<Rightarrow> True
    | Inr db' \<Rightarrow> db' = db \<or> (\<exists>w. db' = append_chained env w db)"
  using assms by (auto simp: gate_step_def Let_def audit_gate_def split: if_splits prod.splits)

text \<open>The chained writes before the transaction, and the plain ones in it.\<close>

definition journal :: "recorder_env \<Rightarrow> (audit_write + audit_write) list \<Rightarrow> audit_log \<Rightarrow> audit_log" where
  "journal env ws l = fold (case_sum (write_chained (sha256 (rv_host env))) write_plain) ws l"

lemma journal_append: "journal env vs (journal env us l) = journal env (us @ vs) l"
  by (simp add: journal_def)

lemma journal_plain: "fold write_plain ws l = journal env (map Inr ws) l"
  by (induction ws arbitrary: l) (auto simp: journal_def)

lemma chained_frame: "append_chained env w db = db\<lparr>db_audit := journal env [Inl w] (db_audit db)\<rparr>"
  by (simp add: append_chained_def journal_def)

lemma audit_strip_frame: "\<exists>ws. audit_strip env p rep db = db\<lparr>db_audit := journal env ws (db_audit db)\<rparr>"
proof (cases rep)
  case None
  then show ?thesis by (intro exI [of _ "[]"]) (simp add: audit_strip_def journal_def)
next
  case (Some nh)
  obtain n h where "nh = (n, h)" by fastforce
  with Some show ?thesis by (auto simp: audit_strip_def chained_frame)
qed

lemma before_commit:
  assumes "record_admitted env e q project st = (r, st')" "prepare env project e = (p, rep)"
  shows "\<exists>ws cache. let st2 = st\<lparr>rc_db := (rc_db st)\<lparr>db_audit := journal env ws (db_audit (rc_db st))\<rparr>, rc_cache := cache\<rparr> in
    (r, st') = (Thrown, st2) \<or> (\<exists>reasons. (r, st') = (GateRejected reasons, st2)) \<or>
    (\<exists>a. temporalAnchors (rv_host env) e (pr_payload p) (pr_timestamp p) = Some a \<and> (r, st') = commit env q p a st2)"
proof -
  obtain ws where ws: "audit_strip env p rep (rc_db st) = (rc_db st)\<lparr>db_audit := journal env ws (db_audit (rc_db st))\<rparr>"
    using audit_strip_frame by blast
  obtain g cache where g: "gate_step env p (audit_strip env p rep (rc_db st)) (rc_cache st) = (g, cache)"
    by fastforce
  show ?thesis
  proof (cases g)
    case (Inl reasons)
    with assms g ws show ?thesis
      by (intro exI [of _ ws] exI [of _ cache]) (auto simp: record_admitted_def Let_def)
  next
    case (Inr db2)
    have "\<exists>vs. db2 = (rc_db st)\<lparr>db_audit := journal env vs (db_audit (rc_db st))\<rparr>"
      using gate_step_frame [OF g] unfolding Inr ws
      by (auto simp: chained_frame journal_append)
    then obtain vs where vs: "db2 = (rc_db st)\<lparr>db_audit := journal env vs (db_audit (rc_db st))\<rparr>" by blast
    show ?thesis
      using assms g Inr vs
      by (intro exI [of _ vs] exI [of _ cache]) (auto simp: record_admitted_def Let_def split: option.splits)
  qed
qed

subsection \<open>Failed writes\<close>

text \<open>The view of the database without the audit log and the retry queue.\<close>

definition data_of :: "mem_db \<Rightarrow> mem_db" where
  "data_of db = db\<lparr>db_audit := empty_log, db_retry := [], db_retry_next := 1\<rparr>"

definition no_trace :: "recorder \<Rightarrow> recorder \<Rightarrow> bool" where
  "no_trace st st' \<longleftrightarrow> data_of (rc_db st') = data_of (rc_db st) \<and> rc_stream st' = rc_stream st \<and>
     rc_replicated st' = rc_replicated st"

definition written_response :: "response \<Rightarrow> bool" where
  "written_response r = (case r of Recorded it w \<Rightarrow> True | Deduped b h c \<Rightarrow> True | _ \<Rightarrow> False)"

definition queued_retry :: "recorder_env \<Rightarrow> envelope \<Rightarrow> bool \<Rightarrow> nat \<Rightarrow> response \<Rightarrow> retry_row list" where
  "queued_retry env e q i r =
     (case r of
        WriteFailed msg \<Rightarrow>
          if q then [\<lparr>rt_id = i, rt_event_json = envelopeJson env e, rt_reason = take 500 msg, rt_retry_count = 0,
                      rt_next_retry_at = nowText env, rt_created_at = nowText env,
                      rt_updated_at = nowText env\<rparr>] else []
      | _ \<Rightarrow> [])"

lemma pr_event_prepare: "prepare env project e = (p, rep) \<Longrightarrow> pr_event p = e"
  by (auto simp: prepare_def Let_def split: prod.splits)

lemma refusal_queue: "refusal r \<Longrightarrow> queued_retry env e q i r = []"
  by (cases r) (simp_all add: refusal_def queued_retry_def)

lemma commit_unwritten:
  assumes "commit env q p a st = (r, st')" "\<not> written_response r"
  shows "no_trace st st' \<and> db_retry (rc_db st') = db_retry (rc_db st) @ queued_retry env (pr_event p) q (db_retry_next (rc_db st)) r"
  using assms
  by (auto simp: commit_def no_trace_def data_of_def written_response_def queued_retry_def enqueueRetry_def
      split: sum.splits prod.splits written.splits)

lemma unwritten_no_trace:
  assumes "recordEvent env e q st = (r, st')" "\<not> written_response r"
  shows "no_trace st st' \<and> db_retry (rc_db st') = db_retry (rc_db st) @ queued_retry env e q (db_retry_next (rc_db st)) r"
proof (cases "\<exists>project. admitted env e project")
  case False
  from recordEvent_refused [OF this, of q st] assms(1) show ?thesis
    by (simp add: untouched_def no_trace_def refusal_queue)
next
  case True
  then obtain project where ad: "admitted env e project" by blast
  obtain p rep where p: "prepare env project e = (p, rep)" by fastforce
  let ?st = "with_root env project st"
  obtain ws cache where c: "let st2 = ?st\<lparr>rc_db := (rc_db ?st)\<lparr>db_audit := journal env ws (db_audit (rc_db ?st))\<rparr>, rc_cache := cache\<rparr> in
    (r, st') = (Thrown, st2) \<or> (\<exists>reasons. (r, st') = (GateRejected reasons, st2)) \<or>
    (\<exists>a. temporalAnchors (rv_host env) e (pr_payload p) (pr_timestamp p) = Some a \<and> (r, st') = commit env q p a st2)"
    using before_commit [OF _ p] assms(1) recordEvent_admitted [OF ad] by metis
  let ?st2 = "?st\<lparr>rc_db := (rc_db ?st)\<lparr>db_audit := journal env ws (db_audit (rc_db ?st))\<rparr>, rc_cache := cache\<rparr>"
  have st2: "no_trace st ?st2" "db_retry (rc_db ?st2) = db_retry (rc_db st)"
    by (simp_all add: no_trace_def data_of_def)
  from c consider "(r, st') = (Thrown, ?st2)" | reasons where "(r, st') = (GateRejected reasons, ?st2)"
    | a where "(r, st') = commit env q p a ?st2"
    unfolding Let_def by blast
  then show ?thesis
  proof cases
    case 3
    with commit_unwritten [of env q p a ?st2 r st'] assms(2) pr_event_prepare [OF p]
    have "no_trace ?st2 st' \<and> db_retry (rc_db st') = db_retry (rc_db ?st2) @ queued_retry env e q (db_retry_next (rc_db ?st2)) r" by simp
    with st2 show ?thesis by (simp add: no_trace_def)
  qed (use st2 in \<open>simp_all add: queued_retry_def\<close>)
qed

text \<open>
  What every call may do besides: note the project's root, remember answers of git when the gate is on,
  and write to the audit log.
\<close>

definition bookkeeping :: "recorder_env \<Rightarrow> envelope \<Rightarrow> recorder \<Rightarrow> recorder \<Rightarrow> bool" where
  "bookkeeping env e st st' \<longleftrightarrow>
     (rc_roots st' = rc_roots st \<or>
      (\<exists>project. normalizeProject env (or_else (en_project e) []) = Inr project \<and>
         isAbsoluteProjectPath env project \<and> rc_roots st' = rc_roots st @ [project])) \<and>
     rc_cache st \<subseteq>\<^sub>m rc_cache st' \<and>
     (\<not> gc_enabled (resolveGateConfig (gateEnv env)) \<longrightarrow> rc_cache st' = rc_cache st) \<and>
     (\<exists>ws. db_audit (rc_db st') = journal env ws (db_audit (rc_db st)))"

lemma gate_step_cache:
  assumes "gate_step env p db cache = (g, cache')"
  shows "cache \<subseteq>\<^sub>m cache'" "\<not> gc_enabled (resolveGateConfig (gateEnv env)) \<Longrightarrow> cache' = cache"
proof -
  have git: "c \<subseteq>\<^sub>m c'" if "gitTagExists git tag cwd c = (b, c')" for git tag cwd c b c'
    using that by (auto simp: gitTagExists_def map_le_def Let_def split: option.splits spawn_result.splits)
  have closure: "c \<subseteq>\<^sub>m c'" if "closureCheckL1 git content cwd c = (v, c')" for git content cwd c v c'
    using that by (auto simp: closureCheckL1_def Let_def split: option.splits prod.splits if_splits dest: git)
  have "c \<subseteq>\<^sub>m c'" if "evaluateGate git genv content t h c = (v, c')" for git genv content t h c v c'
    using that by (auto simp: evaluateGate_def Let_def split: prod.splits if_splits dest: closure)
  then show "cache \<subseteq>\<^sub>m cache'"
    using assms by (auto simp: gate_step_def Let_def split: if_splits prod.splits)
  show "\<not> gc_enabled (resolveGateConfig (gateEnv env)) \<Longrightarrow> cache' = cache"
    using assms by (simp add: gate_step_def)
qed

lemma commit_journal: "\<exists>ws. db_audit (rc_db (snd (commit env q p a st))) = journal env ws (db_audit (rc_db st))"
proof (cases "transaction env p a (rc_db st)")
  case (Inl msg)
  then show ?thesis
    by (intro exI [of _ "[]"]) (simp add: commit_def enqueueRetry_def journal_def)
next
  case (Inr wd)
  then obtain w d where wd: "transaction env p a (rc_db st) = Inr (w, d)" by (cases wd) auto
  obtain ws where "db_audit d = fold write_plain ws (db_audit (rc_db st))"
    using transaction_frame [OF wd] by blast
  then show ?thesis
    using wd by (intro exI [of _ "map Inr ws"]) (simp add: commit_def journal_plain split: written.split)
qed

lemma commit_keeps [simp]: "rc_roots (snd (commit env q p a st)) = rc_roots st" "rc_cache (snd (commit env q p a st)) = rc_cache st"
  by (simp_all add: commit_def split: sum.split prod.split written.split)

lemma record_admitted_roots [simp]: "rc_roots (snd (record_admitted env e q project st)) = rc_roots st"
  by (simp add: record_admitted_def Let_def split: prod.split sum.split option.split)

lemma record_roots:
  "rc_roots (snd (recordEvent env e q st)) = rc_roots st \<or>
   (\<exists>project. normalizeProject env (or_else (en_project e) []) = Inr project \<and>
      isAbsoluteProjectPath env project \<and> rc_roots (snd (recordEvent env e q st)) = rc_roots st @ [project])"
  by (cases "normalizeProject env (or_else (en_project e) [])") (simp_all add: recordEvent_def Let_def)

lemma admitted_journal:
  "\<exists>ws. db_audit (rc_db (snd (record_admitted env e q project st))) = journal env ws (db_audit (rc_db st))"
proof -
  obtain r st' where r: "record_admitted env e q project st = (r, st')" by fastforce
  obtain p rep where p: "prepare env project e = (p, rep)" by fastforce
  from before_commit [OF r p] obtain ws cache where c:
    "let st2 = st\<lparr>rc_db := (rc_db st)\<lparr>db_audit := journal env ws (db_audit (rc_db st))\<rparr>, rc_cache := cache\<rparr> in
    (r, st') = (Thrown, st2) \<or> (\<exists>reasons. (r, st') = (GateRejected reasons, st2)) \<or>
    (\<exists>a. temporalAnchors (rv_host env) e (pr_payload p) (pr_timestamp p) = Some a \<and> (r, st') = commit env q p a st2)"
    by blast
  let ?st2 = "st\<lparr>rc_db := (rc_db st)\<lparr>db_audit := journal env ws (db_audit (rc_db st))\<rparr>, rc_cache := cache\<rparr>"
  from c consider "st' = ?st2" | a where "st' = snd (commit env q p a ?st2)"
    unfolding Let_def by (metis snd_conv)
  then show ?thesis
  proof cases
    case 2
    obtain vs where "db_audit (rc_db st') = journal env vs (db_audit (rc_db ?st2))"
      using commit_journal [of env q p a ?st2] 2 by blast
    then show ?thesis using r by (auto simp: journal_append)
  qed (use r in auto)
qed

lemma record_bookkeeping: "bookkeeping env e st (snd (recordEvent env e q st))"
proof (cases "\<exists>project. admitted env e project")
  case False
  from recordEvent_refused [OF this, of q st]
  have kept: "rc_db (snd (recordEvent env e q st)) = rc_db st" "rc_cache (snd (recordEvent env e q st)) = rc_cache st"
    by (simp_all add: untouched_def)
  have "db_audit (rc_db st) = journal env [] (db_audit (rc_db st))" by (simp add: journal_def)
  then show ?thesis
    unfolding bookkeeping_def kept using record_roots [of env e q st] by (intro conjI exI impI) auto
next
  case True
  then obtain project where ad: "admitted env e project" by blast
  let ?st = "with_root env project st"
  obtain p rep where p: "prepare env project e = (p, rep)" by fastforce
  obtain g cache where g: "gate_step env p (audit_strip env p rep (rc_db st)) (rc_cache st) = (g, cache)" by fastforce
  have "rc_cache (snd (record_admitted env e q project ?st)) = cache"
    using g by (auto simp: record_admitted_def p Let_def split: sum.split option.split)
  then have cache: "rc_cache (snd (recordEvent env e q st)) = cache" by (simp add: recordEvent_admitted [OF ad])
  obtain ws where "db_audit (rc_db (snd (recordEvent env e q st))) = journal env ws (db_audit (rc_db st))"
    using admitted_journal [of env e q project ?st] by (auto simp: recordEvent_admitted [OF ad])
  then show ?thesis
    using gate_step_cache [OF g] record_roots [of env e q st] unfolding bookkeeping_def cache by blast
qed

text \<open>
  C4. A call that neither records nor deduplicates leaves no trace: every table but the audit log and
  the retry queue, the stream and what is replicated are as before; exactly a failed write puts its event,
  once and due at once, on the retry queue, when the caller allows it; the audit log is only written to
  at its end; and of the recorder's own state only the root of the project may be noted and, with the gate
  on, the cache of git's answers may grow.
\<close>

theorem failed_writes_leave_no_trace:
  assumes "recordEvent env e q st = (r, st')" "\<not> written_response r"
  shows "no_trace st st' \<and> db_retry (rc_db st') = db_retry (rc_db st) @ queued_retry env e q (db_retry_next (rc_db st)) r \<and>
    bookkeeping env e st st'"
proof -
  have "no_trace st st' \<and> db_retry (rc_db st') = db_retry (rc_db st) @ queued_retry env e q (db_retry_next (rc_db st)) r"
    using assms by (rule unwritten_no_trace)
  then show ?thesis using record_bookkeeping [of env e st q] assms(1) by simp
qed
definition empty_recorder :: recorder where
  "empty_recorder = \<lparr>rc_db = empty_db, rc_cache = Map.empty, rc_roots = [], rc_stream = empty_ring,
     rc_replicated = []\<rparr>"

definition failing_event :: envelope where
  "failing_event = hello_event\<lparr>en_expires_at := Some (JNum 10000000000000)\<rparr>"

theorem failed_writes_leave_no_trace_witness:
  "no_trace empty_recorder (snd (recordEvent (sample_renv gate_off) failing_event True empty_recorder)) \<and>
   length (db_retry (rc_db (snd (recordEvent (sample_renv gate_off) failing_event True empty_recorder)))) = 1 \<and>
   rc_cache (snd (recordEvent (sample_renv gate_off) failing_event True empty_recorder)) = Map.empty"
proof -
  obtain r st' where c: "recordEvent (sample_renv gate_off) failing_event True empty_recorder = (r, st')"
    by fastforce
  have "case fst (recordEvent (sample_renv gate_off) failing_event True empty_recorder) of
      WriteFailed m \<Rightarrow> True | _ \<Rightarrow> False" by code_simp
  then obtain m where r: "r = WriteFailed m" using c by (cases r) auto
  then have "\<not> written_response r" by (simp add: written_response_def)
  from failed_writes_leave_no_trace [OF c this] r c show ?thesis
    by (simp add: queued_retry_def empty_recorder_def empty_db_def bookkeeping_def sample_renv_def gate_off_def
        resolveGateConfig_def Let_def)
qed

subsection \<open>Runs\<close>

definition recorder_ok :: "recorder \<Rightarrow> bool" where
  "recorder_ok st \<longleftrightarrow> core_ok (rc_db st) \<and> refs_ok (rc_db st) \<and> wf_log (db_audit (rc_db st)) \<and>
     ring_ok (rc_stream st)"

type_synonym record_op = "recorder_env \<times> envelope \<times> bool"

definition record_step :: "record_op \<Rightarrow> recorder \<Rightarrow> recorder" where
  "record_step x st = (case x of (env, e, q) \<Rightarrow> snd (recordEvent env e q st))"

text \<open>What a call does to the audit log: a journal of chained and plain writes.\<close>

lemma wf_journal: "wf_log l \<Longrightarrow> wf_log (journal env ws l)"
  unfolding journal_def
  by (induction ws arbitrary: l) (auto simp: aj.wf_attest aj.wf_plain split: sum.split)

lemma commit_ok:
  assumes "core_ok (rc_db st)" "refs_ok (rc_db st)" "ring_ok (rc_stream st)"
  shows "core_ok (rc_db (snd (commit env q p a st))) \<and> refs_ok (rc_db (snd (commit env q p a st))) \<and>
    ring_ok (rc_stream (snd (commit env q p a st)))"
proof (cases "transaction env p a (rc_db st)")
  case (Inl msg)
  have "core_ok (enqueueRetry env x msg (rc_db st))" "refs_ok (enqueueRetry env x msg (rc_db st))" for x
    using assms(1,2) refs_okD [OF assms(2)]
    by (auto simp: enqueueRetry_def refs_ok_def obs_ids_def intro: core_cong)
  with Inl assms show ?thesis by (simp add: commit_def)
next
  case (Inr wd)
  then obtain w d where wd: "transaction env p a (rc_db st) = Inr (w, d)" by (cases wd) auto
  have d: "core_ok d" "refs_ok d" using transaction_keeps_integrity [OF assms(1,2) wd] by auto
  have "ring_ok (snd (appendStreamEvent now ty x (rc_stream st)))" for now ty x
    using ring_ok_push [OF assms(3), of "(now, ty, x)"] by (simp add: push_arrival_def)
  with wd d assms(3) show ?thesis by (simp add: commit_def split: written.split)
qed

lemma admitted_effect:
  assumes "core_ok (rc_db st)" "refs_ok (rc_db st)" "ring_ok (rc_stream st)"
  shows "core_ok (rc_db (snd (record_admitted env e q project st))) \<and>
    refs_ok (rc_db (snd (record_admitted env e q project st))) \<and>
    ring_ok (rc_stream (snd (record_admitted env e q project st))) \<and>
    (\<exists>ws. db_audit (rc_db (snd (record_admitted env e q project st))) = journal env ws (db_audit (rc_db st)))"
proof -
  obtain r st' where r: "record_admitted env e q project st = (r, st')" by fastforce
  obtain p rep where p: "prepare env project e = (p, rep)" by fastforce
  from before_commit [OF r p] obtain ws cache where c:
    "let st2 = st\<lparr>rc_db := (rc_db st)\<lparr>db_audit := journal env ws (db_audit (rc_db st))\<rparr>, rc_cache := cache\<rparr> in
    (r, st') = (Thrown, st2) \<or> (\<exists>reasons. (r, st') = (GateRejected reasons, st2)) \<or>
    (\<exists>a. temporalAnchors (rv_host env) e (pr_payload p) (pr_timestamp p) = Some a \<and> (r, st') = commit env q p a st2)"
    by blast
  let ?st2 = "st\<lparr>rc_db := (rc_db st)\<lparr>db_audit := journal env ws (db_audit (rc_db st))\<rparr>, rc_cache := cache\<rparr>"
  have ok: "core_ok (rc_db ?st2)" "refs_ok (rc_db ?st2)" "ring_ok (rc_stream ?st2)"
    using assms by (simp_all add: core_audit refs_audit)
  from c consider "st' = ?st2" | a where "st' = snd (commit env q p a ?st2)"
    unfolding Let_def by (metis snd_conv)
  then show ?thesis
  proof cases
    case 1
    with r ok show ?thesis by auto
  next
    case 2
    obtain vs where "db_audit (rc_db st') = journal env vs (db_audit (rc_db ?st2))"
      using commit_journal [of env q p a ?st2] 2 by blast
    with r 2 commit_ok [OF ok] show ?thesis by (auto simp: journal_append)
  qed
qed

lemma record_effect:
  assumes "core_ok (rc_db st)" "refs_ok (rc_db st)" "ring_ok (rc_stream st)"
  shows "core_ok (rc_db (snd (recordEvent env e q st))) \<and> refs_ok (rc_db (snd (recordEvent env e q st))) \<and>
    ring_ok (rc_stream (snd (recordEvent env e q st))) \<and>
    (\<exists>ws. db_audit (rc_db (snd (recordEvent env e q st))) = journal env ws (db_audit (rc_db st)))"
proof (cases "\<exists>project. admitted env e project")
  case True
  then obtain project where "admitted env e project" by blast
  from recordEvent_admitted [OF this, of q st] admitted_effect [of "with_root env project st" env e q project] assms
  show ?thesis by simp
next
  case False
  from recordEvent_refused [OF this, of q st] assms show ?thesis
    by (auto simp: untouched_def journal_def intro: exI [of _ "[]"])
qed

interpretation recorder_machine: invariant_machine record_step recorder_ok
proof unfold_locales
  fix st :: recorder and x :: record_op
  assume ok: "recorder_ok st"
  obtain env e q where x: "x = (env, e, q)" by (cases x) auto
  show "recorder_ok (record_step x st)"
    using record_effect [of st env e q] ok wf_journal
    by (auto simp: x record_step_def recorder_ok_def)
qed

text \<open>
  However often and with whatever environment events are recorded, the database stays whole: ids,
  event ids and dedupe hashes are unique, every event and observation has its session, every
  observation its event, no two live observations share a content hash, and every tag, vector, entity,
  relation, nugget and link refers to stored observations, no link to itself and none twice.
\<close>

theorem recording_keeps_integrity:
  "core_ok (rc_db (fold record_step ops empty_recorder)) \<and> refs_ok (rc_db (fold record_step ops empty_recorder)) \<and>
   length (sr_events (rc_stream (fold record_step ops empty_recorder))) \<le> 600"
proof -
  have "recorder_ok empty_recorder"
    by (simp add: recorder_ok_def empty_recorder_def empty_db_def [symmetric] wf_empty) (simp add: empty_db_def)
  from recorder_machine.run_inv [OF this, of ops] show ?thesis
    by (simp add: recorder_ok_def ring_ok_def streamEventRetention_def)
qed

text \<open>
  C13. The audit log stays verifiable through recording: whatever a run records, rejects or fails to
  write, verification from the first row succeeds and counts every privacy strip and gate warning.
\<close>

theorem recording_keeps_audit_verifiable:
  assumes "\<And>env e q. (env, e, q) \<in> set ops \<Longrightarrow> sha256 (rv_host env) = H"
  shows "\<exists>n. verifyAuditChain H 0 (db_audit (rc_db (fold record_step ops empty_recorder))) = Verified n"
proof -
  have j: "wf_log l \<Longrightarrow> verified_count H l = Some n \<Longrightarrow> sha256 (rv_host env) = H \<Longrightarrow>
      wf_log (journal env ws l) \<and> (\<exists>m. verified_count H (journal env ws l) = Some m)" for env ws l n
    using aj.verified_run [of l H n ws] by (auto simp: journal_def)
  have "recorder_ok (fold record_step ops empty_recorder) \<and>
      (\<exists>n. verified_count H (db_audit (rc_db (fold record_step ops empty_recorder))) = Some n)"
    using assms
  proof (induction ops rule: rev_induct)
    case Nil
    have "verified_count H empty_log = Some 0" by (simp add: verified_count_def verifyAuditChain_def empty_log_def sql_where_def order_asc_def)
    then show ?case
      by (simp add: recorder_ok_def empty_recorder_def empty_db_def [symmetric] wf_empty) (simp add: empty_db_def)
  next
    case (snoc x ops)
    obtain env e q where x: "x = (env, e, q)" by (cases x) auto
    let ?st = "fold record_step ops empty_recorder"
    have step: "fold record_step (ops @ [x]) empty_recorder = snd (recordEvent env e q ?st)"
      by (simp add: x record_step_def [of "(env, e, q)"])
    have ok: "recorder_ok ?st" and "\<exists>n. verified_count H (db_audit (rc_db ?st)) = Some n"
      using snoc by auto
    then obtain n where n: "verified_count H (db_audit (rc_db ?st)) = Some n" by blast
    obtain ws where ws: "db_audit (rc_db (snd (recordEvent env e q ?st))) = journal env ws (db_audit (rc_db ?st))"
      using record_effect [of ?st env e q] ok by (auto simp: recorder_ok_def)
    have "sha256 (rv_host env) = H" using snoc.prems [of env e q] x by simp
    from j [OF _ n this, of ws] ok have "\<exists>m. verified_count H (journal env ws (db_audit (rc_db ?st))) = Some m"
      by (simp add: recorder_ok_def)
    moreover have "recorder_ok (snd (recordEvent env e q ?st))"
      using recorder_machine.step_inv [OF ok, of x] step by simp
    ultimately show ?case unfolding step ws by simp
  qed
  then show ?thesis by (auto simp: verified_count_def split: chain_verdict.splits)
qed

theorem recording_keeps_audit_verifiable_witness:
  "\<exists>n. verifyAuditChain (sha256 sample_host) 0
     (db_audit (rc_db (fold record_step [(sample_renv gate_off, hello_event, True)] empty_recorder))) = Verified n"
  by (rule recording_keeps_audit_verifiable) (simp add: sample_renv_def)

end
