(* ===== verification/Recorder_Retry.thy ===== *)
theory Recorder_Retry
  imports Recorder_Safety
begin

text \<open>
  Recording the same event again, what the substrate gate makes of it, and what is stored of an event:
  which of the texts are stripped of private blocks and redacted, and which are not.
\<close>

subsection \<open>The values of a call\<close>

lemma prepare_fields:
  assumes "prepare env project e = (p, rep)"
  shows "pr_dedupe_hash p = js_trim (or_string (en_dedupe_hash e) (buildDedupeHash (rv_host env) e))"
    and "pr_payload p = parseJsonSafe (rv_host env) (en_payload e)"
    and "pr_event_type p = or_else (en_event_type e) []"
    and "pr_redacted_payload p = redactContent (stringify (pr_payload p)) (normalizeTags (en_privacy_tags e))"
    and "pr_title p = bs_title (buildObservationFromEvent (rv_host env) e (pr_redacted_payload p))"
    and "pr_content p = fst (strip_content env (bs_content (buildObservationFromEvent (rv_host env) e (pr_redacted_payload p))))"
    and "pr_redacted_content p = redactContent (pr_content p) (normalizeTags (en_privacy_tags e))"
    and "pr_content_hash p = buildContentDedupeHash (rv_host env) e
           (classifyObservation (pr_event_type p) (pr_title p) (pr_content p)) (pr_redacted_content p)"
    and "pr_event e' = pr_event e'"
  using assms by (auto simp: prepare_def Let_def split: prod.splits)

lemma strip_content_eq: "fst (strip_content env t) = (if t = [] then [] else strip_all t)"
  by (auto simp: strip_content_def stripPrivateBlocksAudited_def Let_def)

text \<open>Two environments with the same host compute the same values from an event.\<close>

lemma prepare_same:
  assumes "prepare env project e = (p, rep)" "prepare env' project' e = (p', rep')" "rv_host env' = rv_host env"
  shows "pr_dedupe_hash p' = pr_dedupe_hash p" "pr_payload p' = pr_payload p" "pr_content_hash p' = pr_content_hash p"
proof -
  note f = prepare_fields [OF assms(1)] prepare_fields [OF assms(2)]
  show d: "pr_dedupe_hash p' = pr_dedupe_hash p" "pr_payload p' = pr_payload p"
    using f assms(3) by simp_all
  have "pr_redacted_payload p' = pr_redacted_payload p" using f(4,13) d by simp
  moreover from this have "pr_content p' = pr_content p" "pr_title p' = pr_title p"
    using f(5,6,14,15) assms(3) by (simp_all add: strip_content_eq)
  ultimately show "pr_content_hash p' = pr_content_hash p" using f(3,7,8,12,16,17) assms(3) by simp
qed

lemma anchors_same:
  "temporalAnchors h e pl ts = Some a \<Longrightarrow> \<exists>b. temporalAnchors h e pl ts' = Some b"
  by (auto simp: temporalAnchors_def Let_def split: if_splits)

text \<open>What a recorded response says of the call.\<close>

lemma recorded_call:
  assumes "recordEvent env e q st = (Recorded it w, st')"
  shows "\<exists>project p rep a db d. admitted env e project \<and> prepare env project e = (p, rep) \<and>
    temporalAnchors (rv_host env) e (pr_payload p) (pr_timestamp p) = Some a \<and>
    it = item_of p a \<and> transaction env p a db = Inr (Created w, d) \<and>
    data_of db = data_of (rc_db st) \<and> rc_db st' = d"
proof -
  have "\<not> refusal (Recorded it w)" by (simp add: refusal_def)
  with assms recordEvent_refused [of env e q st] obtain project where ad: "admitted env e project" by auto
  obtain p rep where p: "prepare env project e = (p, rep)" by fastforce
  let ?st = "with_root env project st"
  from before_commit [OF _ p] assms recordEvent_admitted [OF ad]
  obtain ws cache where c: "let st2 = ?st\<lparr>rc_db := (rc_db ?st)\<lparr>db_audit := journal env ws (db_audit (rc_db ?st))\<rparr>, rc_cache := cache\<rparr> in
    (Recorded it w, st') = (Thrown, st2) \<or> (\<exists>reasons. (Recorded it w, st') = (GateRejected reasons, st2)) \<or>
    (\<exists>a. temporalAnchors (rv_host env) e (pr_payload p) (pr_timestamp p) = Some a \<and> (Recorded it w, st') = commit env q p a st2)"
    by metis
  let ?st2 = "?st\<lparr>rc_db := (rc_db ?st)\<lparr>db_audit := journal env ws (db_audit (rc_db ?st))\<rparr>, rc_cache := cache\<rparr>"
  from c obtain a where a: "temporalAnchors (rv_host env) e (pr_payload p) (pr_timestamp p) = Some a"
    "commit env q p a ?st2 = (Recorded it w, st')" unfolding Let_def by auto
  from a(2) obtain d where d: "transaction env p a (rc_db ?st2) = Inr (Created w, d)" "it = item_of p a" "rc_db st' = d"
    by (auto simp: commit_def split: sum.splits prod.splits written.splits)
  have "data_of (rc_db ?st2) = data_of (rc_db st)" by (simp add: data_of_def)
  with ad p a(1) d show ?thesis by blast
qed

lemma data_of_fields:
  assumes "data_of db = data_of db'"
  shows "db_events db = db_events db'" "db_observations db = db_observations db'"
  using arg_cong [OF assms, of db_events] arg_cong [OF assms, of db_observations] by (simp_all add: data_of_def)

subsection \<open>Events stay\<close>

definition event_keys :: "recorder \<Rightarrow> (string \<times> string) set" where
  "event_keys st = ev_key ` set (db_events (rc_db st))"

lemma commit_keys: "event_keys st \<subseteq> event_keys (snd (commit env q p a st))"
proof (cases "transaction env p a (rc_db st)")
  case (Inr wd)
  then obtain w d where wd: "transaction env p a (rc_db st) = Inr (w, d)" by (cases wd) auto
  have "ev_key ` set (db_events (rc_db st)) \<subseteq> ev_key ` set (db_events d)"
    using transaction_frame [OF wd] by blast
  then show ?thesis using wd by (simp add: commit_def event_keys_def split: written.split)
qed (simp add: commit_def event_keys_def enqueueRetry_def)

lemma record_keys: "event_keys st \<subseteq> event_keys (snd (recordEvent env e q st))"
proof (cases "\<exists>project. admitted env e project")
  case False
  from recordEvent_refused [OF this, of q st] show ?thesis by (simp add: untouched_def event_keys_def)
next
  case True
  then obtain project where ad: "admitted env e project" by blast
  let ?st = "with_root env project st"
  obtain r st' where r: "record_admitted env e q project ?st = (r, st')" by fastforce
  obtain p rep where p: "prepare env project e = (p, rep)" by fastforce
  from before_commit [OF r p] obtain ws cache where c:
    "let st2 = ?st\<lparr>rc_db := (rc_db ?st)\<lparr>db_audit := journal env ws (db_audit (rc_db ?st))\<rparr>, rc_cache := cache\<rparr> in
    (r, st') = (Thrown, st2) \<or> (\<exists>reasons. (r, st') = (GateRejected reasons, st2)) \<or>
    (\<exists>a. temporalAnchors (rv_host env) e (pr_payload p) (pr_timestamp p) = Some a \<and> (r, st') = commit env q p a st2)"
    by blast
  let ?st2 = "?st\<lparr>rc_db := (rc_db ?st)\<lparr>db_audit := journal env ws (db_audit (rc_db ?st))\<rparr>, rc_cache := cache\<rparr>"
  have s: "event_keys ?st2 = event_keys st" by (simp add: event_keys_def)
  from c have "st' = ?st2 \<or> (\<exists>a. st' = snd (commit env q p a ?st2))" unfolding Let_def by (metis snd_conv)
  with s commit_keys [of ?st2 env q p] have "event_keys st \<subseteq> event_keys st'" by auto
  with r recordEvent_admitted [OF ad] show ?thesis by simp
qed

lemma run_keys: "event_keys st \<subseteq> event_keys (fold record_step ops st)"
proof (induction ops arbitrary: st)
  case (Cons x ops)
  obtain env e q where x: "x = (env, e, q)" by (cases x) auto
  have "event_keys st \<subseteq> event_keys (record_step x st)"
    using record_keys by (simp add: x record_step_def)
  with Cons.IH [of "record_step x st"] show ?case by auto
qed simp

lemma upsert_session_others:
  "filter (\<lambda>s. ss_session_id s \<noteq> sid) (upsert_session_row c sid pl pr ts co u tm t) =
     filter (\<lambda>s. ss_session_id s \<noteq> sid) t"
proof -
  have "filter (\<lambda>s. ss_session_id s \<noteq> sid) (sql_update (\<lambda>r. ss_session_id r = sid) f t) =
      filter (\<lambda>s. ss_session_id s \<noteq> sid) t" if "\<And>r. ss_session_id (f r) = ss_session_id r" for f
    using that by (induction t) (simp_all add: sql_update_def)
  then show ?thesis by (simp add: upsert_session_row_def)
qed

text \<open>What a duplicate changes: its session's row, and the audit log.\<close>

definition only_session_and_audit :: "recorder_env \<Rightarrow> string \<Rightarrow> mem_db \<Rightarrow> mem_db \<Rightarrow> bool" where
  "only_session_and_audit env sid db db' \<longleftrightarrow>
     (\<exists>ss ws. db' = db\<lparr>db_sessions := ss, db_audit := journal env ws (db_audit db)\<rparr> \<and>
        filter (\<lambda>s. ss_session_id s \<noteq> sid) ss = filter (\<lambda>s. ss_session_id s \<noteq> sid) (db_sessions db))"

lemma session_ensured_only:
  "only_session_and_audit env (pr_session_id p) db
     (session_ensured env p (db\<lparr>db_audit := journal env ws (db_audit db)\<rparr>))"
  unfolding only_session_and_audit_def
  by (intro exI [of _ "db_sessions (session_ensured env p db)"] exI [of _ ws])
    (simp add: session_ensured_def ensureSession_def upsert_session_others)

lemma admitted_deduped:
  assumes "admitted env e project" "\<not> gc_enabled (resolveGateConfig (gateEnv env))"
    and "prepare env project e = (p, rep)" "pr_dedupe_hash p \<in> snd ` event_keys st"
    and "temporalAnchors (rv_host env) e (pr_payload p) (pr_timestamp p) = Some a"
  shows "\<exists>c st'. recordEvent env e q st = (Deduped ByEvent (pr_dedupe_hash p) c, st') \<and>
    only_session_and_audit env (or_else (en_session_id e) []) (rc_db st) (rc_db st') \<and>
    rc_stream st' = rc_stream st \<and> rc_replicated st' = rc_replicated st"
proof -
  obtain ws where ws: "audit_strip env p rep (rc_db st) = (rc_db st)\<lparr>db_audit := journal env ws (db_audit (rc_db st))\<rparr>"
    using audit_strip_frame by blast
  have "event_taken p ((rc_db st)\<lparr>db_audit := l\<rparr>)" for l
    using assms(4) by (auto simp: event_keys_def event_taken_def ev_key_def)
  moreover have "pr_session_id p = or_else (en_session_id e) []"
    using assms(3) by (auto simp: prepare_def Let_def split: prod.splits)
  ultimately show ?thesis
    using assms ws session_ensured_only [of env p "rc_db st" ws]
    by (simp add: recordEvent_admitted record_admitted_def Let_def gate_step_def commit_def transaction_cases)
qed


subsection \<open>A recorded call\<close>

definition is_recorded :: "response \<Rightarrow> bool" where
  "is_recorded r = (case r of Recorded it w \<Rightarrow> True | _ \<Rightarrow> False)"

lemma is_recorded_call:
  "is_recorded (fst (recordEvent env e q st)) \<Longrightarrow>
     \<exists>it w. recordEvent env e q st = (Recorded it w, snd (recordEvent env e q st))"
  by (cases "recordEvent env e q st") (auto simp: is_recorded_def split: response.splits)

lemma hello_recorded: "is_recorded (fst (recordEvent (sample_renv gate_off) hello_event True empty_recorder))"
  by code_simp

lemma sample_admitted: "admitted (sample_renv g) hello_event ''x''"
  by (simp add: admitted_def sample_renv_def hello_event_def sample_event_def js_strings_def
      normalizeTags_def as_array_def isBlockedTag_def)

lemma sample_gate_off: "\<not> gc_enabled (resolveGateConfig gate_off)"
  by (simp add: resolveGateConfig_def gate_off_def Let_def)


subsection \<open>What is stored\<close>

text \<open>Title and content before the private blocks are taken out.\<close>

definition base_of :: "recorder_env \<Rightarrow> envelope \<Rightarrow> observation_base" where
  "base_of env e = buildObservationFromEvent (rv_host env) e
     (redactContent (stringify (parseJsonSafe (rv_host env) (en_payload e))) (normalizeTags (en_privacy_tags e)))"

lemma upsert_obs_row_in:
  "\<exists>r \<in> set (upsert_obs_row new t). ob_id r = ob_id new \<and> ob_title r = ob_title new \<and>
     ob_content r = ob_content new \<and> ob_content_redacted r = ob_content_redacted new \<and>
     ob_content_dedupe_hash r = ob_content_dedupe_hash new \<and> (ob_id new \<notin> ob_id ` set t \<longrightarrow> r = new)"
proof (cases "ob_id new \<in> ob_id ` set t")
  case True
  then obtain s where "s \<in> set t" "ob_id s = ob_id new" by auto
  with True show ?thesis
    by (intro bexI [of _ "merge_observation new s"])
       (auto simp: upsert_obs_row_def sql_update_def merge_observation_def image_iff split: if_splits)
qed (simp add: upsert_obs_row_def)

lemma created_row:
  assumes "transaction env p a db = Inr (Created w, d)"
  shows "\<exists>r \<in> set (db_observations d). ob_id r = observation_id p \<and> ob_title r = Some (pr_title p) \<and>
    ob_content r = pr_content p \<and> ob_content_redacted r = pr_redacted_content p \<and>
    ob_content_dedupe_hash r = pr_content_hash p \<and> (observation_id p \<notin> obs_ids db \<longrightarrow> live r)"
proof -
  from assms have "\<not> event_taken p db" "same_content p db = None"
    by (auto simp: transaction_cases split: if_splits option.splits)
  with assms have w: "write_observation env p a (event_inserted env p db) = Inr (w, d)"
    by (auto simp: transaction_cases split: sum.splits)
  then obtain x where "db_observations d = upsert_obs_row (obs_row_of env p a x) (db_observations db)"
    using written_frame [OF w] by (auto simp: event_inserted_def)
  with upsert_obs_row_in [of "obs_row_of env p a x" "db_observations db"] show ?thesis
    by (auto simp: obs_ids_def obs_row_of_def live_def)
qed

text \<open>
  C22. A recorded event leaves one observation: its content is the text of the payload without its
  private blocks, its redacted content that text redacted by the privacy tags, and its title the title
  as it came, neither stripped nor redacted; the stream shows the first 1200 characters of the
  redacted content.
\<close>

theorem recorded_observation_is_stripped:
  assumes "recordEvent env e q st = (Recorded it w, st')"
  shows "\<exists>r \<in> set (db_observations (rc_db st')). ob_id r = it_id it \<and>
    ob_content r = strip_all (bs_content (base_of env e)) \<and>
    ob_content_redacted r = redactContent (ob_content r) (normalizeTags (en_privacy_tags e)) \<and>
    ob_title r = Some (bs_title (base_of env e)) \<and>
    it_title it = bs_title (base_of env e) \<and> it_content it = take 1200 (ob_content_redacted r)"
proof -
  obtain pr p rep a db d where c: "prepare env pr e = (p, rep)" "it = item_of p a"
    "transaction env p a db = Inr (Created w, d)" "rc_db st' = d"
    using recorded_call [OF assms] by blast
  note f = prepare_fields [OF c(1)]
  have b: "pr_title p = bs_title (base_of env e)" "pr_content p = strip_all (bs_content (base_of env e))"
    using f(2,4,5,6) by (simp_all add: base_of_def strip_content_eq)
  from created_row [OF c(3)] obtain r where r: "r \<in> set (db_observations d)" "ob_id r = observation_id p"
    "ob_title r = Some (pr_title p)" "ob_content r = pr_content p" "ob_content_redacted r = pr_redacted_content p"
    by blast
  with b f(7) c(2,4) show ?thesis
    by (intro bexI [of _ r]) (simp_all add: item_of_def)
qed

theorem recorded_observation_is_stripped_witness:
  "\<exists>r \<in> set (db_observations (rc_db (snd (recordEvent (sample_renv gate_off) hello_event True empty_recorder)))).
     ob_content r = ''hello''"
proof -
  obtain it w where r: "recordEvent (sample_renv gate_off) hello_event True empty_recorder =
      (Recorded it w, snd (recordEvent (sample_renv gate_off) hello_event True empty_recorder))"
    using is_recorded_call [OF hello_recorded] by blast
  have "strip_all (bs_content (base_of (sample_renv gate_off) hello_event)) = ''hello''" by code_simp
  with recorded_observation_is_stripped [OF r] show ?thesis by auto
qed

text \<open>The payload text the event row ends up with.\<close>

definition stored_payload :: "recorder_env \<Rightarrow> envelope \<Rightarrow> string" where
  "stored_payload env e =
     (let payload = parseJsonSafe (rv_host env) (en_payload e);
          redacted = redactContent (stringify payload) (normalizeTags (en_privacy_tags e))
      in if en_event_type e = Some ''tool_use''
         then (case extractCodeProvenance env payload of
                 None \<Rightarrow> redacted | Some (path, v) \<Rightarrow> stringify (with_provenance payload v))
         else redacted)"

lemma store_events:
  "db_events (store_observation env p a x db) =
     (if pr_event_type p = ''tool_use''
      then (case extractCodeProvenance env (pr_payload p) of
              None \<Rightarrow> db_events db
            | Some (path, v) \<Rightarrow> sql_update (\<lambda>r. ev_event_id r = pr_event_id p)
                (\<lambda>r. r\<lparr>ev_payload_json := stringify (with_provenance (pr_payload p) v)\<rparr>) (db_events db))
      else db_events db)"
  by (auto simp: store_observation_def add_provenance_def Let_def split: option.split)

lemma created_event:
  assumes "transaction env p a db = Inr (Created w, d)"
  shows "\<exists>v \<in> set (db_events d). ev_event_id v = pr_event_id p \<and> ev_observation_id v = Some (observation_id p) \<and>
    ev_payload_json v =
      (if pr_event_type p = ''tool_use''
       then (case extractCodeProvenance env (pr_payload p) of
               None \<Rightarrow> pr_redacted_payload p | Some (path, j) \<Rightarrow> stringify (with_provenance (pr_payload p) j))
       else pr_redacted_payload p)"
proof -
  from assms have "\<not> event_taken p db" "same_content p db = None"
    by (auto simp: transaction_cases split: if_splits option.splits)
  with assms have "write_observation env p a (event_inserted env p db) = Inr (w, d)"
    by (auto simp: transaction_cases split: sum.splits)
  from write_observation_Inr [OF this] obtain x c src where c: "d = enrich env p c"
    "c = store_observation env p a x (event_inserted env p db) \<or>
     upsertVector env p src (store_observation env p a x (event_inserted env p db)) = Inr c" by blast
  have "same_core (store_observation env p a x (event_inserted env p db)) c"
    using c(2) same_core_vector same_core_refl by auto
  then have "db_events d = db_events (store_observation env p a x (event_inserted env p db))"
    using enrich_frame [of c env p] unfolding c(1) same_core_def by simp
  moreover have "event_row_of env p \<in> set (db_events (event_inserted env p db))"
    by (simp add: event_inserted_def)
  moreover have "ev_event_id (event_row_of env p) = pr_event_id p"
    "ev_observation_id (event_row_of env p) = Some (observation_id p)"
    "ev_payload_json (event_row_of env p) = pr_redacted_payload p"
    by (simp_all add: event_row_of_def)
  ultimately show ?thesis
    by (auto simp: store_events sql_update_def image_iff intro!: bexI [of _ "event_row_of env p"] split: option.split)
qed

text \<open>
  The payload of a recorded event is stored redacted, unless the event is a tool use in which a file
  is recognised: then the row is rewritten with the whole payload, redacted nowhere.
\<close>

theorem provenance_stores_raw_payload:
  assumes "recordEvent env e q st = (Recorded it w, st')"
  shows "\<exists>v \<in> set (db_events (rc_db st')). ev_event_id v = it_event_id it \<and>
    ev_observation_id v = Some (it_id it) \<and> ev_payload_json v = stored_payload env e"
proof -
  obtain pr p rep a db d where c: "admitted env e pr" "prepare env pr e = (p, rep)" "it = item_of p a"
    "transaction env p a db = Inr (Created w, d)" "rc_db st' = d"
    using recorded_call [OF assms] by blast
  note f = prepare_fields [OF c(2)]
  have "pr_event_type p = ''tool_use'' \<longleftrightarrow> en_event_type e = Some ''tool_use''"
    using c(1) f(3) by (cases "en_event_type e") (auto simp: admitted_def)
  then have "stored_payload env e =
      (if pr_event_type p = ''tool_use''
       then (case extractCodeProvenance env (pr_payload p) of
               None \<Rightarrow> pr_redacted_payload p | Some (path, j) \<Rightarrow> stringify (with_provenance (pr_payload p) j))
       else pr_redacted_payload p)"
    unfolding stored_payload_def Let_def f(4) f(2) by (simp only:)
  moreover have "it_event_id it = pr_event_id p" "it_id it = observation_id p" using c(3) by (simp_all add: item_of_def)
  ultimately show ?thesis using created_event [OF c(4)] c(5) by simp
qed

definition private_prompt :: envelope where
  "private_prompt = sample_event [(''prompt'', JStr ''<private>pw</private> hi'')] []"

text \<open>
  Private text survives in two columns: on a prompt without a title the content loses the block, but
  the title of the observation and the payload of the event keep it.
\<close>

lemma private_text_stays_in_title_and_payload:
  "bs_title (base_of (sample_renv gate_off) private_prompt) = ''<private>pw</private> hi'' \<and>
   strip_all (bs_content (base_of (sample_renv gate_off) private_prompt)) = '' hi'' \<and>
   stored_payload (sample_renv gate_off) private_prompt =
     stringify (JObj [(''prompt'', JStr ''<private>pw</private> hi'')])"
  by (intro conjI) code_simp+

subsection \<open>The gate and retries\<close>

lemma gate_blocks:
  assumes "gc_enabled (resolveGateConfig (gateEnv env))" "gc_mode (resolveGateConfig (gateEnv env)) = Block"
    and "cache_sound (gitParse env) (DDOUNS_GATE_GIT_ROOT (gateEnv env)) cache"
    and "already_stored (Some (db_observations db)) (pr_content_hash p)"
  shows "\<exists>reasons cache'. gate_step env p db cache = (Inl reasons, cache')"
proof -
  obtain v cache' where v: "evaluateGate (gitParse env) (gateEnv env) (pr_redacted_content p)
      (Some (db_observations db)) (pr_content_hash p) cache = (v, cache')" by fastforce
  have "gv_decision v = Reject" using evaluateGate_decision(1) [OF assms(3)] assms(4) v by (metis fst_conv)
  with assms(1,2) v show ?thesis by (simp add: gate_step_def Let_def)
qed

text \<open>
  The gate turns a retry into an error: with it on in block mode the event that was just recorded
  as a new observation, sent again, is not answered as a duplicate but rejected, and leaves no trace.
\<close>

theorem gate_rejects_retries:
  assumes "recordEvent env e q st = (Recorded it w, st1)"
    and "it_id it \<notin> obs_ids (rc_db st)" "truthy (it_content_dedupe_hash it)"
    and "admitted env' e project" "rv_host env' = rv_host env"
    and "gc_enabled (resolveGateConfig (gateEnv env'))" "gc_mode (resolveGateConfig (gateEnv env')) = Block"
    and "cache_sound (gitParse env') (DDOUNS_GATE_GIT_ROOT (gateEnv env')) (rc_cache st1)"
  shows "\<exists>reasons st2. recordEvent env' e q' st1 = (GateRejected reasons, st2) \<and> no_trace st1 st2"
proof -
  obtain pr p rep a db d where c: "prepare env pr e = (p, rep)" "it = item_of p a"
    "transaction env p a db = Inr (Created w, d)" "data_of db = data_of (rc_db st)" "rc_db st1 = d"
    using recorded_call [OF assms(1)] by blast
  obtain p' rep' where p': "prepare env' project e = (p', rep')" by fastforce
  have h: "pr_content_hash p' = pr_content_hash p" using prepare_same(3) [OF c(1) p' assms(5)] .
  have "observation_id p \<notin> obs_ids db"
    using assms(2) c(2) data_of_fields(2) [OF c(4)] by (simp add: item_of_def obs_ids_def)
  with created_row [OF c(3)] c(5) obtain r where r: "r \<in> set (db_observations (rc_db st1))" "live r"
    "ob_content_dedupe_hash r = pr_content_hash p" by blast
  obtain ws where ws: "audit_strip env' p' rep' (rc_db st1) = (rc_db st1)\<lparr>db_audit := journal env' ws (db_audit (rc_db st1))\<rparr>"
    using audit_strip_frame by blast
  have "already_stored (Some (db_observations (audit_strip env' p' rep' (rc_db st1)))) (pr_content_hash p')"
    using r assms(3) c(2) h by (auto simp: ws already_stored_def item_of_def)
  from gate_blocks [OF assms(6,7,8) this] obtain reasons cache' where
    g: "gate_step env' p' (audit_strip env' p' rep' (rc_db st1)) (rc_cache st1) = (Inl reasons, cache')" by blast
  have "no_trace st1 ((with_root env' project st1)\<lparr>rc_db := audit_strip env' p' rep' (rc_db st1), rc_cache := cache'\<rparr>)"
    by (simp add: no_trace_def data_of_def ws)
  moreover have "recordEvent env' e q' st1 = (GateRejected reasons,
      (with_root env' project st1)\<lparr>rc_db := audit_strip env' p' rep' (rc_db st1), rc_cache := cache'\<rparr>)"
    using p' g by (simp add: recordEvent_admitted [OF assms(4)] record_admitted_def Let_def)
  ultimately show ?thesis by blast
qed

lemma commit_cache: "rc_cache (snd (commit env q p a st)) = rc_cache st"
  by (simp add: commit_def split: sum.split prod.split written.split)

lemma gate_off_cache:
  "\<not> gc_enabled (resolveGateConfig (gateEnv env)) \<Longrightarrow> rc_cache (snd (recordEvent env e q st)) = rc_cache st"
  by (simp add: recordEvent_def record_admitted_def gate_step_def Let_def commit_cache split: sum.split prod.split option.split)

theorem gate_rejects_retries_witness:
  "\<exists>reasons st2. recordEvent (sample_renv sample_env) hello_event True
     (snd (recordEvent (sample_renv gate_off) hello_event True empty_recorder)) = (GateRejected reasons, st2)"
proof -
  obtain it w where r: "recordEvent (sample_renv gate_off) hello_event True empty_recorder =
      (Recorded it w, snd (recordEvent (sample_renv gate_off) hello_event True empty_recorder))"
    using is_recorded_call [OF hello_recorded] by blast
  have "case fst (recordEvent (sample_renv gate_off) hello_event True empty_recorder) of
      Recorded it w \<Rightarrow> truthy (it_content_dedupe_hash it) | _ \<Rightarrow> False" by code_simp
  then have t: "truthy (it_content_dedupe_hash it)" using r by (cases "recordEvent (sample_renv gate_off) hello_event True empty_recorder") simp
  have c: "rc_cache (snd (recordEvent (sample_renv gate_off) hello_event True empty_recorder)) = Map.empty"
    by (subst gate_off_cache) (simp_all add: sample_renv_def sample_gate_off empty_recorder_def)
  have g: "gateEnv (sample_renv sample_env) = sample_env" "rv_host (sample_renv sample_env) = rv_host (sample_renv gate_off)"
    by (simp_all add: sample_renv_def)
  have e: "gc_enabled (resolveGateConfig sample_env)" "gc_mode (resolveGateConfig sample_env) = Block" by code_simp+
  have i: "it_id it \<notin> obs_ids (rc_db empty_recorder)" by (simp add: obs_ids_def empty_recorder_def empty_db_def)
  have s: "cache_sound (gitParse (sample_renv sample_env)) (DDOUNS_GATE_GIT_ROOT (gateEnv (sample_renv sample_env)))
      (rc_cache (snd (recordEvent (sample_renv gate_off) hello_event True empty_recorder)))"
    unfolding c by simp
  show ?thesis
    using gate_rejects_retries [OF r i t sample_admitted g(2) _ _ s] e unfolding g(1) by blast
qed

subsection \<open>Dates out of range\<close>

definition out_of_range :: "json option \<Rightarrow> bool" where
  "out_of_range v = (case v of Some (JNum n) \<Rightarrow> MAX_DATE_MS < \<bar>n * 1000\<bar> | _ \<Rightarrow> False)"

definition anchor_fields :: "envelope \<Rightarrow> (json option \<times> string) list" where
  "anchor_fields e = [(en_event_time e, ''event_time''), (en_observed_at e, ''observed_at''),
     (en_valid_from e, ''valid_from''), (en_valid_to e, ''valid_to''), (en_invalidated_at e, ''invalidated_at'')]"

lemma normalize_range: "normalizeTemporalTimestamp h v = DateRangeError \<longleftrightarrow> out_of_range v"
  by (auto simp: normalizeTemporalTimestamp_def normalizeExpiresAt_def out_of_range_def
      split: option.split json_value.split)

lemma anchors_range:
  "temporalAnchors h e pl ts = None \<longleftrightarrow>
     (\<exists>f \<in> set (anchor_fields e). out_of_range (firstTemporalValue h e (fst f) pl (snd f)))"
  unfolding temporalAnchors_def Let_def anchor_fields_def
  by (simp add: eq_commute [of DateRangeError] normalize_range)

lemma commit_not_thrown: "fst (commit env q p a st) \<noteq> Thrown"
  by (simp add: commit_def split: sum.split prod.split written.split)

text \<open>
  A number of seconds beyond the range of dates, in any of the five anchor fields of an admitted
  event, its payload or its metadata, makes the call raise instead of answering; nothing else does.
\<close>

theorem out_of_range_dates_raise:
  assumes "admitted env e project" "\<not> gc_enabled (resolveGateConfig (gateEnv env))"
  shows "fst (recordEvent env e q st) = Thrown \<longleftrightarrow>
    (\<exists>f \<in> set (anchor_fields e). out_of_range
       (firstTemporalValue (rv_host env) e (fst f) (parseJsonSafe (rv_host env) (en_payload e)) (snd f)))"
proof -
  obtain p rep where p: "prepare env project e = (p, rep)" by fastforce
  show ?thesis
    using p assms prepare_fields(2) [OF p] anchors_range [of "rv_host env" e "pr_payload p" "pr_timestamp p"]
    by (auto simp: recordEvent_admitted record_admitted_def Let_def gate_step_def commit_not_thrown split: option.split)
qed

theorem out_of_range_dates_raise_witness:
  "fst (recordEvent (sample_renv gate_off)
     (hello_event\<lparr>en_event_time := Some (JNum 10000000000000)\<rparr>) True empty_recorder) = Thrown"
proof -
  have ad: "admitted (sample_renv gate_off) (hello_event\<lparr>en_event_time := Some (JNum 10000000000000)\<rparr>) ''x''"
    using sample_admitted by (simp add: admitted_def)
  have g: "gateEnv (sample_renv gate_off) = gate_off" by (simp add: sample_renv_def)
  show ?thesis
    using out_of_range_dates_raise [OF ad, of True empty_recorder] sample_gate_off
    by (simp add: g anchor_fields_def firstTemporalValue_def out_of_range_def MAX_DATE_MS_def)
qed

end
