(* ===== verification/Retry_Worker.thy ===== *)
theory Retry_Worker
  imports Recorder_Retry
begin

text \<open>
  The worker of the retry queue: \<open>processRetryQueue\<close> of
  \<open>memory-server/src/core/harness-mem-core.ts\<close>, which the retry timer of the ingest coordinator and
  the shutdown call. A value of type \<open>worker_env\<close> holds the clock and, for each row, what
  \<open>recordEvent\<close> sees when it reaches that row; \<open>JSON.parse\<close> of a stored envelope is a
  parameter. An exception of \<open>recordEvent\<close> ends the loop, what was done before it stays.
\<close>

subsection \<open>One pass of the worker\<close>

record worker_env =
  wk_now :: string
  wk_recorder :: "retry_row \<Rightarrow> recorder_env"
  wk_parse :: "string \<Rightarrow> envelope option"
  wk_later :: "retry_row \<Rightarrow> int \<Rightarrow> string"

definition due_rows :: "string \<Rightarrow> retry_row list \<Rightarrow> retry_row list" where
  "due_rows now t = take 100 (order_asc rt_id (sql_where (\<lambda>r. rt_next_retry_at r \<le> now) t))"

definition wait_seconds :: "int \<Rightarrow> int" where
  "wait_seconds retryCount = min 300 (2 ^ nat (min retryCount 8))"

text \<open>\<open>ok\<close> of a response: \<open>makeResponse\<close> sets it, \<open>makeErrorResponse\<close> does not.\<close>

definition response_ok :: "response \<Rightarrow> bool" where
  "response_ok r =
     (case r of CaptureDisabled \<Rightarrow> True | Blocked \<Rightarrow> True | Deduped b h c \<Rightarrow> True | Recorded it w \<Rightarrow> True
      | _ \<Rightarrow> False)"

definition delete_retry :: "nat \<Rightarrow> recorder \<Rightarrow> recorder" where
  "delete_retry i st = st\<lparr>rc_db := (rc_db st)\<lparr>db_retry := sql_delete (\<lambda>r. rt_id r = i) (db_retry (rc_db st))\<rparr>\<rparr>"

definition postpone_retry :: "worker_env \<Rightarrow> retry_row \<Rightarrow> recorder \<Rightarrow> recorder" where
  "postpone_retry w row st =
     (let retryCount = rt_retry_count row + 1;
          nextRetry = wk_later w row (wait_seconds retryCount * 1000)
      in st\<lparr>rc_db := (rc_db st)\<lparr>db_retry := sql_update (\<lambda>r. rt_id r = rt_id row)
            (\<lambda>r. r\<lparr>rt_retry_count := retryCount, rt_next_retry_at := nextRetry,
                   rt_updated_at := nowText (wk_recorder w row)\<rparr>) (db_retry (rc_db st))\<rparr>\<rparr>)"

text \<open>The body of the loop; \<open>False\<close> when \<open>recordEvent\<close> raised.\<close>

definition retry_row_step :: "worker_env \<Rightarrow> retry_row \<Rightarrow> recorder \<Rightarrow> bool \<times> recorder" where
  "retry_row_step w row st =
     (case wk_parse w (rt_event_json row) of
        None \<Rightarrow> (True, delete_retry (rt_id row) st)
      | Some parsed \<Rightarrow>
          (case recordEvent (wk_recorder w row) parsed False st of
             (Thrown, st1) \<Rightarrow> (False, st1)
           | (r, st1) \<Rightarrow>
               (True, if response_ok r then delete_retry (rt_id row) st1 else postpone_retry w row st1)))"

fun retry_rows :: "worker_env \<Rightarrow> retry_row list \<Rightarrow> recorder \<Rightarrow> recorder" where
  "retry_rows w [] st = st"
| "retry_rows w (row # rows) st =
     (case retry_row_step w row st of (goes_on, st1) \<Rightarrow> if goes_on then retry_rows w rows st1 else st1)"

definition processRetryQueue :: "bool \<Rightarrow> bool \<Rightarrow> worker_env \<Rightarrow> recorder \<Rightarrow> recorder" where
  "processRetryQueue shuttingDown force w st =
     (if shuttingDown \<and> \<not> force then st
      else retry_rows w (due_rows (wk_now w) (db_retry (rc_db st))) st)"

subsection \<open>How a call of the recorder ends\<close>

definition journaled ::
  "recorder_env \<Rightarrow> string \<Rightarrow> (audit_write + audit_write) list \<Rightarrow> tag_cache \<Rightarrow> recorder \<Rightarrow> recorder" where
  "journaled env pr ws cache st =
     (with_root env pr st)\<lparr>rc_db := (rc_db st)\<lparr>db_audit := journal env ws (db_audit (rc_db st))\<rparr>, rc_cache := cache\<rparr>"

lemma journaled_simps [simp]:
  "db_retry (rc_db (journaled env pr ws cache st)) = db_retry (rc_db st)"
  "db_retry_next (rc_db (journaled env pr ws cache st)) = db_retry_next (rc_db st)"
  "event_keys (journaled env pr ws cache st) = event_keys st"
  by (simp_all add: journaled_def event_keys_def)

lemma record_forms:
  assumes "recordEvent env e q st = (r, st')"
  obtains (refused) "refusal r" "untouched st st'" "\<not> (\<exists>pr. admitted env e pr)"
  | (early) pr ws cache where "r = Thrown \<or> (\<exists>reasons. r = GateRejected reasons)" "st' = journaled env pr ws cache st"
  | (committed) pr p rep a ws cache where "admitted env e pr" "prepare env pr e = (p, rep)"
      "temporalAnchors (rv_host env) e (pr_payload p) (pr_timestamp p) = Some a"
      "commit env q p a (journaled env pr ws cache st) = (r, st')"
proof (cases "\<exists>pr. admitted env e pr")
  case False
  with recordEvent_refused [OF this, of q st] assms refused show ?thesis by simp
next
  case True
  then obtain pr where ad: "admitted env e pr" by blast
  obtain p rep where p: "prepare env pr e = (p, rep)" by fastforce
  have r: "record_admitted env e q pr (with_root env pr st) = (r, st')"
    using assms recordEvent_admitted [OF ad] by simp
  have j: "(with_root env pr st)\<lparr>rc_db := (rc_db (with_root env pr st))\<lparr>db_audit :=
      journal env ws (db_audit (rc_db (with_root env pr st)))\<rparr>, rc_cache := cache\<rparr> = journaled env pr ws cache st" for ws cache
    by (simp add: journaled_def)
  from before_commit [OF r p] obtain ws cache where
    "(r, st') = (Thrown, journaled env pr ws cache st) \<or>
     (\<exists>reasons. (r, st') = (GateRejected reasons, journaled env pr ws cache st)) \<or>
     (\<exists>a. temporalAnchors (rv_host env) e (pr_payload p) (pr_timestamp p) = Some a \<and>
        (r, st') = commit env q p a (journaled env pr ws cache st))"
    unfolding Let_def j by blast
  then consider "r = Thrown \<or> (\<exists>reasons. r = GateRejected reasons)" "st' = journaled env pr ws cache st"
    | a where "temporalAnchors (rv_host env) e (pr_payload p) (pr_timestamp p) = Some a"
        "commit env q p a (journaled env pr ws cache st) = (r, st')" by auto
  then show ?thesis
  proof cases
    case 1
    then show ?thesis by (rule early)
  next
    case 2
    with ad p show ?thesis by (rule committed)
  qed
qed

lemma commit_queue:
  assumes "commit env q p a st = (r, st')"
  shows "db_retry (rc_db st') = db_retry (rc_db st) @ queued_retry env (pr_event p) q (db_retry_next (rc_db st)) r \<and>
    db_retry_next (rc_db st') = db_retry_next (rc_db st) + length (queued_retry env (pr_event p) q (db_retry_next (rc_db st)) r)"
proof (cases "transaction env p a (rc_db st)")
  case (Inl msg)
  with assms show ?thesis by (auto simp: commit_def queued_retry_def enqueueRetry_def)
next
  case (Inr wd)
  then obtain w d where t: "transaction env p a (rc_db st) = Inr (w, d)" by (cases wd) auto
  have "db_retry (rc_db st') = db_retry d \<and> db_retry_next (rc_db st') = db_retry_next d \<and>
      queued_retry env (pr_event p) q (db_retry_next (rc_db st)) r = []"
    using assms t by (auto simp: commit_def queued_retry_def split: written.splits)
  with transaction_frame [OF t] show ?thesis by simp
qed

lemma record_queue:
  assumes "recordEvent env e q st = (r, st')"
  shows "db_retry (rc_db st') = db_retry (rc_db st) @ queued_retry env e q (db_retry_next (rc_db st)) r \<and>
    db_retry_next (rc_db st') = db_retry_next (rc_db st) + length (queued_retry env e q (db_retry_next (rc_db st)) r)"
  using assms
proof (cases rule: record_forms)
  case refused
  then show ?thesis by (simp add: untouched_def refusal_queue)
next
  case early
  then show ?thesis by (auto simp: queued_retry_def)
next
  case (committed pr p rep a ws cache)
  with commit_queue [OF committed(4)] pr_event_prepare show ?thesis by simp
qed

lemma record_queue_False: "recordEvent env e False st = (r, st') \<Longrightarrow> db_retry (rc_db st') = db_retry (rc_db st)"
  using record_queue by (simp add: queued_retry_def split: response.split)

subsection \<open>What leaves the queue\<close>

definition event_stored :: "recorder_env \<Rightarrow> envelope \<Rightarrow> recorder \<Rightarrow> bool" where
  "event_stored env e st \<longleftrightarrow>
     (\<exists>k \<in> event_keys st. fst k = js_trim (or_string (en_event_id e) (freshEventId env)) \<or>
        snd k = js_trim (or_string (en_dedupe_hash e) (buildDedupeHash (rv_host env) e)))"

lemma prepare_event_id:
  "prepare env project e = (p, rep) \<Longrightarrow> pr_event_id p = js_trim (or_string (en_event_id e) (freshEventId env))"
  by (auto simp: prepare_def Let_def split: prod.splits)

lemma event_stored_prepared:
  assumes "prepare env project e = (p, rep)"
  shows "event_stored env e st \<longleftrightarrow> (\<exists>k \<in> event_keys st. fst k = pr_event_id p \<or> snd k = pr_dedupe_hash p)"
  using prepare_event_id [OF assms] prepare_fields(1) [OF assms] by (simp add: event_stored_def)

lemma event_stored_mono: "event_keys st \<subseteq> event_keys st' \<Longrightarrow> event_stored env e st \<Longrightarrow> event_stored env e st'"
  unfolding event_stored_def by blast

lemma commit_stored:
  assumes "commit env q p a st = (r, st')" "written_response r"
  shows "\<exists>k \<in> event_keys st'. fst k = pr_event_id p \<or> snd k = pr_dedupe_hash p"
proof -
  obtain w d where t: "transaction env p a (rc_db st) = Inr (w, d)" "rc_db st' = d"
    using assms by (auto simp: commit_def written_response_def split: sum.splits prod.splits written.splits)
  note keys = transaction_frame [OF t(1)]
  show ?thesis
  proof (cases "w = DuplicateEvent")
    case True
    then have "event_taken p (rc_db st)"
      using t(1) by (auto simp: transaction_cases split: if_splits option.splits sum.splits)
    then obtain x where "x \<in> set (db_events (rc_db st))" "ev_event_id x = pr_event_id p \<or> ev_dedupe_hash x = pr_dedupe_hash p"
      by (auto simp: event_taken_def)
    moreover have "ev_key x \<in> event_keys st'" if "x \<in> set (db_events (rc_db st))" for x
      using that keys t(2) by (auto simp: event_keys_def)
    ultimately show ?thesis by (intro bexI [of _ "ev_key x"]) (simp_all add: ev_key_def)
  next
    case False
    with keys t(2) have "(pr_event_id p, pr_dedupe_hash p) \<in> event_keys st'" by (simp add: event_keys_def)
    then show ?thesis by force
  qed
qed

lemma written_is_stored:
  assumes "recordEvent env e q st = (r, st')" "written_response r"
  shows "event_stored env e st'"
  using assms(1)
proof (cases rule: record_forms)
  case refused
  with assms(2) show ?thesis by (auto simp: refusal_def written_response_def split: response.splits)
next
  case early
  with assms(2) show ?thesis by (auto simp: written_response_def)
next
  case committed
  with commit_stored assms(2) event_stored_prepared show ?thesis by metis
qed

lemma ok_is_written:
  assumes "recordEvent env e q st = (r, st')" "response_ok r" "captureEnabled env"
    and "\<not> isBlockedTag (normalizeTags (en_privacy_tags e))"
  shows "written_response r"
  using assms(1)
proof (cases rule: record_forms)
  case refused
  then show ?thesis
    using assms by (auto simp: recordEvent_def admitted_def response_ok_def Let_def split: if_splits sum.splits)
next
  case early
  with assms(2) show ?thesis by (auto simp: response_ok_def)
next
  case (committed pr p rep a ws cache)
  with assms(2) show ?thesis
    by (auto simp: commit_def response_ok_def written_response_def split: sum.splits prod.splits written.splits)
qed

subsection \<open>The queue\<close>

definition retries :: "recorder \<Rightarrow> retry_row list" where
  "retries st = db_retry (rc_db st)"

definition postponed :: "worker_env \<Rightarrow> retry_row \<Rightarrow> retry_row" where
  "postponed w row = row\<lparr>rt_retry_count := rt_retry_count row + 1,
     rt_next_retry_at := wk_later w row (wait_seconds (rt_retry_count row + 1) * 1000),
     rt_updated_at := nowText (wk_recorder w row)\<rparr>"

lemma postponed_simps [simp]: "rt_id (postponed w r) = rt_id r" "rt_event_json (postponed w r) = rt_event_json r"
  "rt_retry_count (postponed w r) = rt_retry_count r + 1"
  by (simp_all add: postponed_def)

lemma edit_keys [simp]:
  "event_keys (delete_retry i st) = event_keys st" "event_keys (postpone_retry w row st) = event_keys st"
  by (simp_all add: delete_retry_def postpone_retry_def event_keys_def Let_def)

lemma retries_delete: "retries (delete_retry i st) = filter (\<lambda>r. rt_id r \<noteq> i) (retries st)"
  by (simp add: retries_def delete_retry_def sql_delete_def)

lemma retries_postpone:
  assumes "distinct (map rt_id (retries st))" "row \<in> set (retries st)"
  shows "retries (postpone_retry w row st) = map (\<lambda>r. if r = row then postponed w r else r) (retries st)"
proof -
  have "rt_id r = rt_id row \<longleftrightarrow> r = row" if "r \<in> set (retries st)" for r
    using that assms by (auto simp: distinct_map inj_on_def)
  then show ?thesis
    by (auto simp: retries_def postpone_retry_def Let_def sql_update_def postponed_def)
qed

text \<open>What one turn of the loop does to the row it takes and to the others.\<close>

definition settled :: "worker_env \<Rightarrow> retry_row \<Rightarrow> recorder \<Rightarrow> bool" where
  "settled w row st =
     (case wk_parse w (rt_event_json row) of
        None \<Rightarrow> True
      | Some e \<Rightarrow> \<not> captureEnabled (wk_recorder w row) \<or> isBlockedTag (normalizeTags (en_privacy_tags e)) \<or>
          event_stored (wk_recorder w row) e st)"

lemma settled_mono: "event_keys st \<subseteq> event_keys st' \<Longrightarrow> settled w row st \<Longrightarrow> settled w row st'"
  unfolding settled_def using event_stored_mono by (auto split: option.splits)

lemma retry_row_effect:
  assumes "retry_row_step w row st = (True, st')" "distinct (map rt_id (retries st))" "row \<in> set (retries st)"
  shows "event_keys st \<subseteq> event_keys st' \<and>
    (retries st' = filter (\<lambda>r. rt_id r \<noteq> rt_id row) (retries st) \<and> settled w row st' \<or>
     retries st' = map (\<lambda>r. if r = row then postponed w r else r) (retries st))"
proof (cases "wk_parse w (rt_event_json row)")
  case None
  with assms show ?thesis by (auto simp: retry_row_step_def retries_delete settled_def)
next
  case (Some e)
  obtain r st1 where r: "recordEvent (wk_recorder w row) e False st = (r, st1)" by fastforce
  have q: "retries st1 = retries st" using record_queue_False [OF r] by (simp add: retries_def)
  have keys: "event_keys st \<subseteq> event_keys st1" using record_keys [of st "wk_recorder w row" e False] r by simp
  have st': "st' = (if response_ok r then delete_retry (rt_id row) st1 else postpone_retry w row st1)"
    using assms(1) Some r by (auto simp: retry_row_step_def split: response.splits)
  show ?thesis
  proof (cases "response_ok r")
    case True
    have "settled w row st1"
      using Some written_is_stored [OF r] ok_is_written [OF r True] by (auto simp: settled_def)
    then have "settled w row st'" using st' True settled_mono [of st1 st'] by simp
    with True st' q keys show ?thesis by (simp add: retries_delete)
  next
    case False
    with st' q keys retries_postpone [of st1 row w] assms(2,3) show ?thesis by simp
  qed
qed

lemma retry_row_keys: "event_keys st \<subseteq> event_keys (snd (retry_row_step w row st))"
proof (cases "wk_parse w (rt_event_json row)")
  case (Some e)
  with record_keys [of st "wk_recorder w row" e False] show ?thesis
    by (auto simp: retry_row_step_def split: prod.split response.split)
qed (simp add: retry_row_step_def)

lemma retry_rows_keys: "event_keys st \<subseteq> event_keys (retry_rows w rows st)"
proof (induction rows arbitrary: st)
  case (Cons row rows)
  obtain b st1 where s: "retry_row_step w row st = (b, st1)" by fastforce
  with retry_row_keys [of st w row] Cons.IH [of st1] show ?case by auto
qed simp

lemma retry_rows_effect:
  assumes "distinct (map rt_id (retries st))" "distinct rows" "set rows \<subseteq> set (retries st)"
    and "\<And>row st. row \<in> set rows \<Longrightarrow> fst (retry_row_step w row st)"
    and "r \<in> set (retries st)"
  shows "if r \<in> set rows then postponed w r \<in> set (retries (retry_rows w rows st)) \<or> settled w r (retry_rows w rows st)
     else r \<in> set (retries (retry_rows w rows st))"
  using assms
proof (induction rows arbitrary: st r)
  case (Cons row rows)
  obtain st1 where s: "retry_row_step w row st = (True, st1)"
    using Cons.prems(4) [of row st] by (cases "retry_row_step w row st") auto
  have row: "row \<in> set (retries st)" using Cons.prems(3) by simp
  have inj: "x = y" if "x \<in> set (retries st)" "y \<in> set (retries st)" "rt_id x = rt_id y" for x y
    using that Cons.prems(1) by (auto simp: distinct_map inj_on_def)
  note eff = retry_row_effect [OF s Cons.prems(1) row]
  have map: "map rt_id (map (\<lambda>r. if r = row then postponed w r else r) (retries st)) = map rt_id (retries st)"
    by simp
  have d1: "distinct (map rt_id (retries st1))"
  proof -
    from eff consider "retries st1 = filter (\<lambda>r. rt_id r \<noteq> rt_id row) (retries st)"
      | "retries st1 = map (\<lambda>r. if r = row then postponed w r else r) (retries st)" by blast
    then show ?thesis
    proof cases
      case 2
      with Cons.prems(1) map show ?thesis by (simp only:)
    qed (simp add: Cons.prems(1) distinct_map_filter)
  qed
  have others: "x \<in> set (retries st1)" if "x \<in> set (retries st)" "x \<noteq> row" for x
    using eff that inj [OF that(1) row] by auto
  have sub: "set rows \<subseteq> set (retries st1)" using Cons.prems(2,3) others by auto
  have step: "x \<in> set (retries st1) \<Longrightarrow>
      (if x \<in> set rows then postponed w x \<in> set (retries (retry_rows w rows st1)) \<or> settled w x (retry_rows w rows st1)
       else x \<in> set (retries (retry_rows w rows st1)))" for x
    using Cons.IH [OF d1 _ sub] Cons.prems(2,4) by simp
  have r: "retry_rows w (row # rows) st = retry_rows w rows st1" using s by simp
  show ?case
  proof (cases "r = row")
    case False
    with others [OF Cons.prems(5)] step [of r] show ?thesis unfolding r by simp
  next
    case True
    have "postponed w row \<notin> set rows"
    proof
      assume "postponed w row \<in> set rows"
      with Cons.prems(3) have "postponed w row \<in> set (retries st)" by auto
      with inj [OF _ row, of "postponed w row"] have "postponed w row = row" by simp
      with \<open>postponed w row \<in> set rows\<close> Cons.prems(2) show False by simp
    qed
    with eff row step [of "postponed w row"] settled_mono [OF retry_rows_keys [of st1 w rows], of w row]
    show ?thesis unfolding r True by auto
  qed
qed simp

text \<open>An event whose anchors are in the range of dates never raises.\<close>

definition dates_in_range :: "host \<Rightarrow> envelope \<Rightarrow> bool" where
  "dates_in_range h e \<longleftrightarrow> temporalAnchors h e (parseJsonSafe h (en_payload e)) [] \<noteq> None"

lemma dates_in_range: "dates_in_range h e \<longleftrightarrow> temporalAnchors h e (parseJsonSafe h (en_payload e)) ts \<noteq> None"
  using anchors_same [of h e _ ts] anchors_same [of h e _ "[]"] unfolding dates_in_range_def by (metis option.exhaust option.simps(3))

lemma in_range_not_thrown:
  assumes "dates_in_range (rv_host env) e"
  shows "fst (recordEvent env e q st) \<noteq> Thrown"
proof (cases "\<exists>pr. admitted env e pr")
  case False
  from recordEvent_refused [OF this, of q st] show ?thesis by (auto simp: refusal_def)
next
  case True
  then obtain pr where ad: "admitted env e pr" by blast
  obtain p rep where p: "prepare env pr e = (p, rep)" by fastforce
  have "temporalAnchors (rv_host env) e (pr_payload p) (pr_timestamp p) \<noteq> None"
    using assms prepare_fields(2) [OF p] dates_in_range by simp
  then show ?thesis
    using p by (auto simp: recordEvent_admitted [OF ad] record_admitted_def Let_def commit_not_thrown split: prod.split sum.split)
qed

subsection \<open>Runs of the service\<close>

text \<open>
  Recordings and passes of the worker, in any order, in a process whose host and whose parser of
  stored envelopes do not change: \<open>JSON.parse\<close> gives back what \<open>JSON.stringify\<close> printed.
\<close>

datatype service_op = RecordOp recorder_env envelope bool | WorkerOp bool bool worker_env

fun service_step :: "service_op \<Rightarrow> recorder \<Rightarrow> recorder" where
  "service_step (RecordOp env e q) st = snd (recordEvent env e q st)"
| "service_step (WorkerOp shuttingDown force w) st = processRetryQueue shuttingDown force w st"

fun same_service :: "host \<Rightarrow> (string \<Rightarrow> envelope option) \<Rightarrow> service_op \<Rightarrow> bool" where
  "same_service h parse (RecordOp env e q) = (rv_host env = h \<and> parse (envelopeJson env e) = Some e)"
| "same_service h parse (WorkerOp shuttingDown force w) = (wk_parse w = parse \<and> (\<forall>r. rv_host (wk_recorder w r) = h))"

definition row_ok :: "host \<Rightarrow> (string \<Rightarrow> envelope option) \<Rightarrow> retry_row \<Rightarrow> bool" where
  "row_ok h parse r \<longleftrightarrow> 0 \<le> rt_retry_count r \<and>
     (\<exists>e. parse (rt_event_json r) = Some e \<and> dates_in_range h e \<and> \<not> isBlockedTag (normalizeTags (en_privacy_tags e)))"

definition retry_queue_ok :: "host \<Rightarrow> (string \<Rightarrow> envelope option) \<Rightarrow> recorder \<Rightarrow> bool" where
  "retry_queue_ok h parse st \<longleftrightarrow> distinct (map rt_id (retries st)) \<and>
     (\<forall>r \<in> set (retries st). rt_id r < db_retry_next (rc_db st) \<and> row_ok h parse r)"

lemma record_queue_ok:
  assumes "retry_queue_ok h parse st" "recordEvent env e q st = (r, st')" "rv_host env = h" "parse (envelopeJson env e) = Some e"
  shows "retry_queue_ok h parse st'"
proof (cases "queued_retry env e q (db_retry_next (rc_db st)) r = []")
  case True
  with record_queue [OF assms(2)] assms(1) show ?thesis by (simp add: retry_queue_ok_def retries_def)
next
  case False
  then obtain msg where r: "r = WriteFailed msg" and q: "q" by (auto simp: queued_retry_def split: response.splits if_splits)
  have "dates_in_range h e \<and> \<not> isBlockedTag (normalizeTags (en_privacy_tags e))"
    using assms(2)
  proof (cases rule: record_forms)
    case (committed pr p rep a ws cache)
    then have "temporalAnchors h e (parseJsonSafe h (en_payload e)) (pr_timestamp p) \<noteq> None"
      using prepare_fields(2) [OF committed(2)] assms(3) by simp
    then have "dates_in_range h e" using dates_in_range by blast
    with committed(1) show ?thesis by (simp add: admitted_def)
  qed (use r in \<open>auto simp: refusal_def\<close>)
  with record_queue [OF assms(2)] assms(1,3,4) show ?thesis
    by (force simp: retry_queue_ok_def row_ok_def retries_def r q queued_retry_def)
qed

lemma delete_queue_ok: "retry_queue_ok h parse st \<Longrightarrow> retry_queue_ok h parse (delete_retry i st)"
  by (auto simp: retry_queue_ok_def retries_delete distinct_map_filter) (simp add: delete_retry_def)

lemma postpone_queue_ok:
  assumes "retry_queue_ok h parse st" "0 \<le> rt_retry_count row"
  shows "retry_queue_ok h parse (postpone_retry w row st)"
proof -
  have "map rt_id (retries (postpone_retry w row st)) = map rt_id (retries st)"
    by (simp add: retries_def postpone_retry_def Let_def map_sql_update)
  then have "distinct (map rt_id (retries (postpone_retry w row st)))"
    using assms(1) by (simp only: retry_queue_ok_def)
  moreover have "rt_id r < db_retry_next (rc_db (postpone_retry w row st)) \<and> row_ok h parse r"
    if "r \<in> set (retries (postpone_retry w row st))" for r
    using that assms by (auto simp: retry_queue_ok_def retries_def postpone_retry_def Let_def sql_update_def row_ok_def)
  ultimately show ?thesis by (simp add: retry_queue_ok_def)
qed

lemma worker_goes_on:
  assumes "same_service h parse (WorkerOp sd f w)" "row_ok h parse row"
  shows "fst (retry_row_step w row st)"
proof -
  obtain e where e: "wk_parse w (rt_event_json row) = Some e" "dates_in_range (rv_host (wk_recorder w row)) e"
    using assms by (auto simp: row_ok_def)
  with in_range_not_thrown [OF e(2), of False st] show ?thesis
    by (cases "recordEvent (wk_recorder w row) e False st") (auto simp: retry_row_step_def split: response.split)
qed

lemma wait_bounds: "0 < n \<Longrightarrow> 2 \<le> wait_seconds n \<and> wait_seconds n \<le> 256"
proof -
  assume "0 < n"
  then have "1 \<le> nat (min n 8)" "nat (min n 8) \<le> 8" by simp_all
  then have "(2::int) ^ 1 \<le> 2 ^ nat (min n 8)" "(2::int) ^ nat (min n 8) \<le> 2 ^ 8"
    by (simp_all only: power_increasing one_le_numeral)
  then show ?thesis by (simp add: wait_seconds_def)
qed

lemma worker_step_ok:
  assumes "retry_queue_ok h parse st" "same_service h parse (WorkerOp sd f w)" "row_ok h parse row"
  shows "fst (retry_row_step w row st) \<and> retry_queue_ok h parse (snd (retry_row_step w row st))"
proof -
  obtain e where e: "wk_parse w (rt_event_json row) = Some e" "dates_in_range (rv_host (wk_recorder w row)) e"
    using assms(2,3) by (auto simp: row_ok_def)
  obtain r st1 where r: "recordEvent (wk_recorder w row) e False st = (r, st1)" by fastforce
  have "r \<noteq> Thrown" using in_range_not_thrown [OF e(2), of False st] r by simp
  moreover have q1: "retry_queue_ok h parse st1"
    using record_queue [OF r] assms(1) by (simp add: retry_queue_ok_def retries_def queued_retry_def split: response.splits)
  ultimately show ?thesis
    using e(1) r delete_queue_ok [OF q1] postpone_queue_ok [OF q1] assms(3)
    by (auto simp: retry_row_step_def row_ok_def split: response.split)
qed

lemma retry_rows_ok:
  assumes "retry_queue_ok h parse st" "same_service h parse (WorkerOp sd f w)" "\<And>row. row \<in> set rows \<Longrightarrow> row_ok h parse row"
  shows "retry_queue_ok h parse (retry_rows w rows st)"
  using assms
proof (induction rows arbitrary: st)
  case (Cons row rows)
  with worker_step_ok [of h parse st sd f w row] show ?case
    by (cases "retry_row_step w row st") simp
qed simp

lemma due_in_queue: "set (due_rows now t) \<subseteq> set t"
  unfolding due_rows_def using set_take_subset [of 100 "order_asc rt_id (sql_where (\<lambda>r. rt_next_retry_at r \<le> now) t)"]
  by auto

lemma due_distinct: "distinct (map rt_id t) \<Longrightarrow> distinct (due_rows now t)"
  by (simp add: due_rows_def order_asc_def sql_where_def distinct_map)

lemma worker_queue_ok:
  assumes "retry_queue_ok h parse st" "same_service h parse (WorkerOp sd f w)"
  shows "retry_queue_ok h parse (processRetryQueue sd f w st)"
  using assms retry_rows_ok [OF assms, of "due_rows (wk_now w) (db_retry (rc_db st))"] due_in_queue [of "wk_now w" "db_retry (rc_db st)"]
  by (auto simp: processRetryQueue_def retry_queue_ok_def retries_def)

lemma run_queue_ok:
  assumes "retry_queue_ok h parse st" "\<And>x. x \<in> set ops \<Longrightarrow> same_service h parse x"
  shows "retry_queue_ok h parse (fold service_step ops st)"
  using assms
proof (induction ops arbitrary: st)
  case (Cons x ops)
  have "retry_queue_ok h parse (service_step x st)"
  proof (cases x)
    case (RecordOp env e q)
    with Cons.prems(2) [of x] have "rv_host env = h" "parse (envelopeJson env e) = Some e" by simp_all
    with RecordOp record_queue_ok [OF Cons.prems(1), of env e q] show ?thesis
      by (cases "recordEvent env e q st") simp
  next
    case (WorkerOp sd f w)
    with Cons.prems(2) [of x] have "same_service h parse (WorkerOp sd f w)" by simp
    with WorkerOp worker_queue_ok [OF Cons.prems(1)] show ?thesis by simp
  qed
  with Cons show ?case by simp
qed simp

definition sample_worker :: worker_env where
  "sample_worker = \<lparr>wk_now = ''2026'', wk_recorder = (\<lambda>r. sample_renv gate_off),
     wk_parse = (\<lambda>s. Some failing_event), wk_later = (\<lambda>r n. ''2027'')\<rparr>"

abbreviation one_failed :: recorder where
  "one_failed \<equiv> fold service_step [RecordOp (sample_renv gate_off) failing_event True] empty_recorder"

lemma one_failed_queue: "\<exists>r. db_retry (rc_db one_failed) = [r] \<and> rt_next_retry_at r = ''2026''"
proof -
  obtain r st' where c: "recordEvent (sample_renv gate_off) failing_event True empty_recorder = (r, st')"
    by fastforce
  have "case fst (recordEvent (sample_renv gate_off) failing_event True empty_recorder) of
      WriteFailed m \<Rightarrow> True | _ \<Rightarrow> False" by code_simp
  then obtain m where "r = WriteFailed m" using c by (cases r) auto
  with record_queue [OF c] c show ?thesis
    by (simp add: queued_retry_def empty_recorder_def empty_db_def sample_renv_def)
qed

text \<open>
  C5. Queued writes are not lost: in every run of recordings and worker passes, a pass keeps each row
  that is not due, and of the first 100 due rows each is postponed by 2 to 256 seconds with its count
  raised, or its event (its event id or its dedupe hash) is stored; only with capturing switched off
  does the worker drop an event that is stored nowhere.
\<close>

theorem queued_events_are_not_lost:
  assumes "\<And>x. x \<in> set ops \<Longrightarrow> same_service h parse x" "same_service h parse (WorkerOp False f w)"
    and "r \<in> set (db_retry (rc_db (fold service_step ops empty_recorder)))"
  shows "if r \<in> set (due_rows (wk_now w) (db_retry (rc_db (fold service_step ops empty_recorder))))
    then (\<exists>n. postponed w r = r\<lparr>rt_retry_count := rt_retry_count r + 1, rt_next_retry_at := wk_later w r (n * 1000),
            rt_updated_at := nowText (wk_recorder w r)\<rparr> \<and> 2 \<le> n \<and> n \<le> 256) \<and>
      (postponed w r \<in> set (db_retry (rc_db (processRetryQueue False f w (fold service_step ops empty_recorder)))) \<or>
       captureEnabled (wk_recorder w r) = False \<or>
       (\<exists>e. parse (rt_event_json r) = Some e \<and>
          event_stored (wk_recorder w r) e (processRetryQueue False f w (fold service_step ops empty_recorder))))
    else r \<in> set (db_retry (rc_db (processRetryQueue False f w (fold service_step ops empty_recorder))))"
proof -
  let ?st = "fold service_step ops empty_recorder"
  let ?rows = "due_rows (wk_now w) (db_retry (rc_db ?st))"
  have "retry_queue_ok h parse empty_recorder"
    by (simp add: retry_queue_ok_def retries_def empty_recorder_def empty_db_def)
  then have ok: "retry_queue_ok h parse ?st" by (rule run_queue_ok) (use assms(1) in blast)
  have d: "distinct (map rt_id (retries ?st))" using ok by (simp add: retry_queue_ok_def)
  have rows: "distinct ?rows" "set ?rows \<subseteq> set (retries ?st)"
    using due_distinct d due_in_queue by (auto simp: retries_def)
  have good: "row_ok h parse row" if "row \<in> set (retries ?st)" for row
    using that ok by (simp add: retry_queue_ok_def)
  have on: "fst (retry_row_step w row st)" if "row \<in> set ?rows" for row st
    using that rows(2) good worker_goes_on [OF assms(2)] by blast
  have w: "2 \<le> wait_seconds (rt_retry_count r + 1) \<and> wait_seconds (rt_retry_count r + 1) \<le> 256"
    using good [of r] assms(3) by (intro wait_bounds) (simp add: row_ok_def retries_def)
  obtain e where e: "parse (rt_event_json r) = Some e" "\<not> isBlockedTag (normalizeTags (en_privacy_tags e))"
    using good [of r] assms(3) by (auto simp: row_ok_def retries_def)
  show ?thesis
    using retry_rows_effect [OF d rows on, of r] assms(2,3) w e
    by (auto simp: processRetryQueue_def retries_def settled_def postponed_def)
qed

theorem queued_events_are_not_lost_witness:
  "\<exists>r. db_retry (rc_db one_failed) = [r] \<and>
     (postponed sample_worker r \<in> set (db_retry (rc_db (processRetryQueue False False sample_worker one_failed))) \<or>
      (\<exists>e. Some failing_event = Some e \<and>
         event_stored (sample_renv gate_off) e (processRetryQueue False False sample_worker one_failed)))"
proof -
  obtain r where r: "db_retry (rc_db one_failed) = [r]" "rt_next_retry_at r = ''2026''"
    using one_failed_queue by blast
  have same: "same_service sample_host (\<lambda>s. Some failing_event) x"
    if "x \<in> set [RecordOp (sample_renv gate_off) failing_event True]" for x
    using that by (simp add: sample_renv_def)
  have w: "same_service sample_host (\<lambda>s. Some failing_event) (WorkerOp False False sample_worker)"
    by (simp add: sample_worker_def sample_renv_def)
  have "r \<in> set (db_retry (rc_db one_failed))" using r by simp
  from queued_events_are_not_lost [OF same w this] r show ?thesis
    by (auto simp: due_rows_def sql_where_def order_asc_def sample_worker_def sample_renv_def split: if_splits)
qed

end
