(* ===== verification/Front_Door.thy ===== *)
theory Front_Door
  imports Retry_Worker Rate_Limiter Validator Coordination_Api
begin

text \<open>
  The way of an event into the database: the \<open>fetch\<close> handler of \<open>memory-server/src/server.ts\<close> for
  \<open>POST /v1/events/record\<close> with the limiter, the admin gate, the validator, the identity of the caller
  and the write queue it passes, and the task of the queue that records it. A value of type \<open>door_env\<close>
  holds what the server was started with; whether the embedding can be prepared is a parameter.

  The code casts the JSON event to an envelope without looking at the types of its fields. The model reads
  the fields that are texts as texts, so it speaks of requests whose fields are typed (\<open>typed_event\<close>).
\<close>

subsection \<open>The handler\<close>

record door_env =
  dv_limiter :: "rate_config option"
  dv_server :: server_env
  dv_validator :: validation_config
  dv_embeddable :: "envelope \<Rightarrow> bool"

datatype door_reply =
    DoorRaised
  | TooManyRequests ms
  | NoAdminToken
  | InvalidBody "string list"
  | EmbeddingUnavailable
  | WriteQueueFull
  | AcceptedAs nat
  | OtherEndpoint

record door =
  do_buckets :: buckets
  do_queue :: "(recorder, response) write_queue"
  do_recorder :: recorder

definition text_fields :: "string list" where
  "text_fields = [''event_id'', ''platform'', ''project'', ''session_id'', ''event_type'', ''ts'',
     ''dedupe_hash'', ''correlation_id'']"

definition typed_event :: "json option \<Rightarrow> bool" where
  "typed_event event \<longleftrightarrow> (\<forall>f \<in> set text_fields.
     case jget event f of None \<Rightarrow> True | Some JNull \<Rightarrow> True | Some (JStr s) \<Rightarrow> True | _ \<Rightarrow> False)"

text \<open>\<open>toRecord(body.event) as EventEnvelope\<close>\<close>

definition envelope_of :: "json option \<Rightarrow> envelope" where
  "envelope_of event =
     (let txt = (\<lambda>f. as_string (jget event f)) in
      \<lparr>en_event_id = txt ''event_id'', en_platform = txt ''platform'', en_project = txt ''project'',
       en_session_id = txt ''session_id'', en_event_type = txt ''event_type'', en_ts = txt ''ts'',
       en_payload = jget event ''payload'', en_metadata = jget event ''metadata'',
       en_tags = jget event ''tags'', en_privacy_tags = jget event ''privacy_tags'',
       en_dedupe_hash = txt ''dedupe_hash'', en_correlation_id = txt ''correlation_id'',
       en_user_id = jget event ''user_id'', en_team_id = jget event ''team_id'',
       en_thread_id = jget event ''thread_id'', en_topic = jget event ''topic'',
       en_branch = jget event ''branch'', en_expires_at = jget event ''expires_at'',
       en_event_time = jget event ''event_time'', en_observed_at = jget event ''observed_at'',
       en_valid_from = jget event ''valid_from'', en_valid_to = jget event ''valid_to'',
       en_supersedes = jget event ''supersedes'', en_invalidated_at = jget event ''invalidated_at''\<rparr>)"

text \<open>A member's identity replaces what the event claims.\<close>

definition with_identity :: "identity option \<Rightarrow> envelope \<Rightarrow> envelope" where
  "with_identity who e =
     (case who of
        None \<Rightarrow> e
      | Some i \<Rightarrow>
          if id_role i = Admin then e
          else e\<lparr>en_user_id := Some (JStr (id_user_id i)), en_team_id := map_option JStr (id_team_id i)\<rparr>)"

definition record_endpoint ::
  "door_env \<Rightarrow> request \<Rightarrow> json option \<Rightarrow> recorder_env \<Rightarrow> (recorder, response) write_queue \<Rightarrow>
     door_reply \<times> (recorder, response) write_queue" where
  "record_endpoint env rq raw renv queue =
     (let body = parseRequestJson raw; checked = validateRecordEvent (dv_validator env) body in
      if \<not> vr_valid checked then (InvalidBody (vr_errors checked), queue)
      else (case resolveRequestIdentity (dv_server env) rq of
              Inl err \<Rightarrow> (DoorRaised, queue)
            | Inr who \<Rightarrow>
                (let event = with_identity who (envelope_of (jget body ''event'')) in
                 if \<not> dv_embeddable env event then (EmbeddingUnavailable, queue)
                 else (case recordEventQueued (\<lambda>e. recordEvent renv e True) event queue of
                         (QueueFull, queue1) \<Rightarrow> (WriteQueueFull, queue1)
                       | (Queued i, queue1) \<Rightarrow> (AcceptedAs i, queue1)))))"

text \<open>The limiter and the admin gate stand before every endpoint.\<close>

definition limit_request :: "door_env \<Rightarrow> ms \<Rightarrow> request \<Rightarrow> buckets \<Rightarrow> ms option \<times> buckets" where
  "limit_request env now rq bs =
     (case dv_limiter env of
        None \<Rightarrow> (None, bs)
      | Some cfg \<Rightarrow>
          (case tryConsume cfg now (or_else (rq_remoteAddress rq) ''unknown'') bs of
             (c, bs1) \<Rightarrow> (if cr_allowed c then None else Some (cr_resetAt c), bs1)))"

definition handle_record ::
  "door_env \<Rightarrow> ms \<Rightarrow> request \<Rightarrow> json option \<Rightarrow> recorder_env \<Rightarrow> door \<Rightarrow> door_reply \<times> door" where
  "handle_record env now rq raw renv st =
     (case limit_request env now rq (do_buckets st) of
        (Some resetAt, bs) \<Rightarrow> (TooManyRequests resetAt, st\<lparr>do_buckets := bs\<rparr>)
      | (None, bs) \<Rightarrow>
          (let st1 = st\<lparr>do_buckets := bs\<rparr>;
               allowed = (if requiresAdminToken (rq_method rq) (rq_path rq)
                          then hasValidAdminToken (dv_server env) rq else Inr True)
           in case allowed of
                Inl err \<Rightarrow> (DoorRaised, st1)
              | Inr ok \<Rightarrow>
                  if \<not> ok then (NoAdminToken, st1)
                  else if rq_method rq = ''POST'' \<and> rq_path rq = ''/v1/events/record''
                  then (case record_endpoint env rq raw renv (do_queue st1) of (r, q) \<Rightarrow> (r, st1\<lparr>do_queue := q\<rparr>))
                  else (OtherEndpoint, st1)))"

datatype door_op = RecordRequest door_env ms request "json option" recorder_env | RunWrite

fun door_step :: "door_op \<Rightarrow> door \<Rightarrow> door" where
  "door_step (RecordRequest env now rq raw renv) st = snd (handle_record env now rq raw renv st)"
| "door_step RunWrite st =
     (case run_task (do_queue st) (do_recorder st) of (q, rec) \<Rightarrow> st\<lparr>do_queue := q, do_recorder := rec\<rparr>)"

definition closed_door :: door where
  "closed_door = \<lparr>do_buckets = Map.empty, do_queue = empty_queue, do_recorder = empty_recorder\<rparr>"

subsection \<open>Who wrote a row\<close>

definition stored_owner :: "recorder_env \<Rightarrow> envelope \<Rightarrow> string \<times> string option" where
  "stored_owner renv e =
     (or_else (owner (en_user_id e) (configUserId renv)) ''default'', owner (en_team_id e) (configTeamId renv))"

lemma prepare_owner: "prepare env project e = (p, rep) \<Longrightarrow> (pr_user_id p, pr_team_id p) = stored_owner env e"
  by (auto simp: prepare_def Let_def stored_owner_def split: prod.splits)

subsection \<open>Where a row comes from\<close>

text \<open>
  A row of the event table holds the columns made of one event; only the observation it points to is set
  later, when its content turns out to be stored already, and the payload of a tool use is rewritten with
  the provenance found in it.
\<close>

definition stems_from :: "recorder_env \<Rightarrow> prepared \<Rightarrow> event_row \<Rightarrow> bool" where
  "stems_from env p r \<longleftrightarrow>
     r\<lparr>ev_payload_json := [], ev_observation_id := None\<rparr> =
       (event_row_of env p)\<lparr>ev_payload_json := [], ev_observation_id := None\<rparr> \<and>
     (ev_payload_json r = pr_redacted_payload p \<or>
      pr_event_type p = ''tool_use'' \<and> (\<exists>path v. extractCodeProvenance env (pr_payload p) = Some (path, v) \<and>
        ev_payload_json r = stringify (with_provenance (pr_payload p) v)))"

lemma stems_from_fields:
  assumes "stems_from env p r"
  shows "ev_event_id r = pr_event_id p" "ev_user_id r = pr_user_id p" "ev_team_id r = pr_team_id p"
    "ev_session_id r = pr_session_id p"
proof -
  have eq: "r\<lparr>ev_payload_json := [], ev_observation_id := None\<rparr> =
      (event_row_of env p)\<lparr>ev_payload_json := [], ev_observation_id := None\<rparr>"
    using assms by (simp add: stems_from_def)
  show "ev_event_id r = pr_event_id p" using arg_cong [OF eq, of ev_event_id] by (simp add: event_row_of_def)
  show "ev_user_id r = pr_user_id p" using arg_cong [OF eq, of ev_user_id] by (simp add: event_row_of_def)
  show "ev_team_id r = pr_team_id p" using arg_cong [OF eq, of ev_team_id] by (simp add: event_row_of_def)
  show "ev_session_id r = pr_session_id p" using arg_cong [OF eq, of ev_session_id] by (simp add: event_row_of_def)
qed

lemma stems_from_row: "stems_from env p (event_row_of env p)"
  by (simp add: stems_from_def event_row_of_def)

lemma stems_from_observation: "stems_from env p r \<Longrightarrow> stems_from env p (r\<lparr>ev_observation_id := x\<rparr>)"
  by (simp add: stems_from_def)

lemma store_rows:
  assumes "r \<in> set (db_events (store_observation env p a x db))"
    and "\<And>s. s \<in> set (db_events db) \<Longrightarrow> ev_event_id s = pr_event_id p \<Longrightarrow> s = event_row_of env p"
  shows "r \<in> set (db_events db) \<or> stems_from env p r"
proof -
  have "stems_from env p ((event_row_of env p)\<lparr>ev_payload_json := stringify (with_provenance (pr_payload p) v)\<rparr>)"
    if "pr_event_type p = ''tool_use''" "extractCodeProvenance env (pr_payload p) = Some (path, v)" for path v
    using that by (auto simp: stems_from_def event_row_of_def)
  with assms show ?thesis
    by (auto simp: store_observation_def add_provenance_def Let_def sql_update_def split: option.splits if_splits)
qed

lemma transaction_rows:
  assumes "transaction env p a db = Inr (w, db')" "r \<in> set (db_events db')"
  shows "r \<in> set (db_events db) \<or> stems_from env p r"
proof (cases "event_taken p db")
  case True
  with assms show ?thesis by (auto simp: transaction_cases)
next
  case False
  let ?d = "event_inserted env p db"
  have d: "db_events ?d = db_events db @ [event_row_of env p]" by (simp add: event_inserted_def)
  have fresh: "ev_event_id s \<noteq> pr_event_id p" if "s \<in> set (db_events db)" for s
    using that False by (auto simp: event_taken_def)
  have mine: "s = event_row_of env p" if "s \<in> set (db_events ?d)" "ev_event_id s = pr_event_id p" for s
    using that fresh unfolding d by auto
  show ?thesis
  proof (cases "same_content p db")
    case (Some o1)
    then have "db' = ?d\<lparr>db_events := sql_update (\<lambda>e. ev_event_id e = pr_event_id p)
        (\<lambda>e. e\<lparr>ev_observation_id := Some (ob_id o1)\<rparr>) (db_events ?d)\<rparr>"
      using assms(1) False by (simp add: transaction_cases)
    with assms(2) have "r \<in> set (sql_update (\<lambda>e. ev_event_id e = pr_event_id p)
        (\<lambda>e. e\<lparr>ev_observation_id := Some (ob_id o1)\<rparr>) (db_events ?d))"
      by simp
    then show ?thesis
      using fresh stems_from_row stems_from_observation [OF stems_from_row] unfolding d by (auto simp: sql_update_def split: if_splits)
  next
    case None
    with assms False obtain v where v: "write_observation env p a ?d = Inr (v, db')"
      by (auto simp: transaction_cases split: sum.splits)
    obtain x e src where e: "db' = enrich env p e"
      "e = store_observation env p a x ?d \<or> upsertVector env p src (store_observation env p a x ?d) = Inr e"
      using write_observation_Inr [OF v] by blast
    have "db_events db' = db_events (store_observation env p a x ?d)"
      using e enrich_frame [of e env p] same_core_vector [of env p src "store_observation env p a x ?d" e]
      by (auto simp: same_core_def)
    then have "r \<in> set (db_events ?d) \<or> stems_from env p r"
      using store_rows [OF _ mine] assms(2) by simp
    then show ?thesis using stems_from_row unfolding d by auto
  qed
qed

lemma commit_rows:
  assumes "r \<in> set (db_events (rc_db (snd (commit env q p a st))))"
  shows "r \<in> set (db_events (rc_db st)) \<or> stems_from env p r"
proof (cases "transaction env p a (rc_db st)")
  case (Inl msg)
  then show ?thesis using assms by (auto simp: commit_def enqueueRetry_def split: if_splits)
next
  case (Inr wd)
  then obtain w d where t: "transaction env p a (rc_db st) = Inr (w, d)" by (cases wd) auto
  have "rc_db (snd (commit env q p a st)) = d" using t by (simp add: commit_def split: written.split)
  with transaction_rows [OF t] assms show ?thesis by simp
qed

lemma record_rows:
  assumes "r \<in> set (db_events (rc_db (snd (recordEvent env e q st))))"
  shows "r \<in> set (db_events (rc_db st)) \<or>
    (\<exists>project p rep. admitted env e project \<and> prepare env project e = (p, rep) \<and> stems_from env p r)"
proof -
  obtain resp st' where r: "recordEvent env e q st = (resp, st')" by fastforce
  then show ?thesis
  proof (cases rule: record_forms)
    case refused
    then show ?thesis using assms r by (simp add: untouched_def)
  next
    case early
    then show ?thesis using assms r by (simp add: journaled_def)
  next
    case (committed pr p rep a ws cache)
    have "db_events (rc_db (journaled env pr ws cache st)) = db_events (rc_db st)" by (simp add: journaled_def)
    with commit_rows [of r env q p a "journaled env pr ws cache st"] committed assms r show ?thesis by auto
  qed
qed

text \<open>The event that a request, when it is let in, puts on the write queue.\<close>

definition let_in :: "door_env \<Rightarrow> request \<Rightarrow> json option \<Rightarrow> identity option \<Rightarrow> envelope \<Rightarrow> bool" where
  "let_in env rq raw who e \<longleftrightarrow>
     rq_method rq = ''POST'' \<and> rq_path rq = ''/v1/events/record'' \<and>
     hasValidAdminToken (dv_server env) rq = Inr True \<and>
     vr_valid (validateRecordEvent (dv_validator env) (parseRequestJson raw)) \<and>
     resolveRequestIdentity (dv_server env) rq = Inr who \<and>
     e = with_identity who (envelope_of (jget (parseRequestJson raw) ''event''))"

lemma requires_admin_record [simp]: "requiresAdminToken ''POST'' ''/v1/events/record''"
  by (simp add: requiresAdminToken_def starts_with_def)

lemma handle_effect:
  assumes "handle_record env now rq raw renv st = (r, st')"
  shows "do_recorder st' = do_recorder st \<and>
    (do_queue st' = do_queue st \<or>
     (\<exists>who e i. let_in env rq raw who e \<and> r = AcceptedAs i \<and>
        do_queue st' = snd (enqueueWrite (recordEvent renv e True) (do_queue st))))"
  using assms
  by (auto simp: handle_record_def record_endpoint_def recordEventQueued_def enqueueWrite_def let_in_def Let_def
      split: prod.splits option.splits if_splits sum.splits bool.splits)

definition written_by :: "door_op set \<Rightarrow> recorder_env \<Rightarrow> envelope \<Rightarrow> bool" where
  "written_by ops renv e \<longleftrightarrow>
     (\<exists>env now rq raw who. RecordRequest env now rq raw renv \<in> ops \<and> let_in env rq raw who e)"

definition origin :: "door_op set \<Rightarrow> event_row \<Rightarrow> bool" where
  "origin ops r \<longleftrightarrow> (\<exists>renv e project p rep. written_by ops renv e \<and> admitted renv e project \<and>
     prepare renv project e = (p, rep) \<and> stems_from renv p r)"

definition task_ok :: "door_op set \<Rightarrow> (recorder \<Rightarrow> response \<times> recorder) \<Rightarrow> bool" where
  "task_ok ops f \<longleftrightarrow> (\<exists>renv e. f = recordEvent renv e True \<and> written_by ops renv e)"

definition door_ok :: "door_op set \<Rightarrow> door \<Rightarrow> bool" where
  "door_ok ops st \<longleftrightarrow>
     (\<forall>t \<in> set (wq_tasks (do_queue st)). task_ok ops (snd t)) \<and>
     (\<forall>r \<in> set (db_events (rc_db (do_recorder st))). origin ops r)"

lemma door_step_ok:
  assumes "door_ok ops st" "x \<in> ops"
  shows "door_ok ops (door_step x st)"
proof (cases x)
  case (RecordRequest env now rq raw renv)
  obtain r st' where h: "handle_record env now rq raw renv st = (r, st')" by fastforce
  have new: "task_ok ops (recordEvent renv e True)" if "let_in env rq raw who e" for who e
    using that assms(2) RecordRequest unfolding task_ok_def written_by_def by blast
  have "door_ok ops st'"
    using handle_effect [OF h] assms(1) new by (auto simp: door_ok_def enqueueWrite_def)
  with h RecordRequest show ?thesis by simp
next
  case RunWrite
  show ?thesis
  proof (cases "wq_tasks (do_queue st)")
    case Nil
    with RunWrite assms show ?thesis by (simp add: run_task_def)
  next
    case (Cons t ts)
    obtain i f where t: "t = (i, f)" by fastforce
    obtain renv e where f: "f = recordEvent renv e True" "written_by ops renv e"
      using assms(1) Cons t by (auto simp: door_ok_def task_ok_def)
    have "origin ops r" if "r \<in> set (db_events (rc_db (snd (recordEvent renv e True (do_recorder st)))))" for r
      using record_rows [OF that] assms(1) f(2) unfolding door_ok_def origin_def by blast
    with RunWrite Cons t f(1) assms(1) show ?thesis
      by (auto simp: run_task_def door_ok_def split: prod.split)
  qed
qed

lemma run_door_ok: "door_ok ops st \<Longrightarrow> set xs \<subseteq> ops \<Longrightarrow> door_ok ops (fold door_step xs st)"
  by (induction xs arbitrary: st) (auto simp: door_step_ok)


definition sample_door :: "(string \<times> token_entry) list \<Rightarrow> string option \<Rightarrow> door_env" where
  "sample_door tokens admin_token =
     \<lparr>dv_limiter = Some \<lparr>rc_requestsPerMinute = 60, rc_burstSize = 10\<rparr>,
      dv_server = \<lparr>en_admin_token = admin_token,
                   en_auth_config = Some \<lparr>au_admin_token = [], au_tokens = tokens\<rparr>\<rparr>,
      dv_validator = DEFAULT_CONFIG, dv_embeddable = (\<lambda>e. True)\<rparr>"

definition sample_member :: token_entry where
  "sample_member = \<lparr>te_user_id = ''ann'', te_team_id = None, te_role = Member\<rparr>"

definition member_request :: request where
  "member_request = \<lparr>rq_method = ''POST'', rq_path = ''/v1/events/record'', rq_remoteAddress = Some ''127.0.0.1'',
     rq_authorization = None, rq_token = Some ''t''\<rparr>"

definition event_body :: "json option" where
  "event_body = Some (JObj [(''event'', JObj
     [(''platform'', JStr ''p''), (''project'', JStr ''x''), (''session_id'', JStr ''s''),
      (''event_type'', JStr ''user''), (''user_id'', JStr ''bob'')])])"

abbreviation member_run :: "door_op list" where
  "member_run \<equiv> [RecordRequest (sample_door [(''t'', sample_member)] None) 0 member_request event_body
     (sample_renv gate_off), RunWrite]"

lemma member_run_stores: "length (db_events (rc_db (do_recorder (fold door_step member_run closed_door)))) = 1"
  by code_simp


subsection \<open>Members and the admin token\<close>

text \<open>
  With a token map, a caller without an admin token is refused whenever the server has an admin token:
  the override of a member's identity is then never reached. Without one, such a caller is let in from the
  machine itself, and one whose token is unknown records under whatever owner the event claims.
\<close>

theorem override_needs_no_admin_token:
  assumes "en_auth_config (dv_server env) = Some cfg"
    and "resolveTokenIdentity (extractBearerToken rq) cfg = Inr who" "who = None \<or> (\<exists>i. who = Some i \<and> id_role i = Member)"
    and "rq_method rq = ''POST''" "rq_path rq = ''/v1/events/record''"
    and "limit_request env now rq (do_buckets st) = (None, bs)"
    and "vr_valid (validateRecordEvent (dv_validator env) (parseRequestJson raw))"
    and "dv_embeddable env (with_identity who (envelope_of (jget (parseRequestJson raw) ''event'')))"
    and "wq_pending (do_queue st) < 100"
  shows "handle_record env now rq raw renv st =
    (if configured_token (dv_server env) = [] \<and> isLocalhostRequest (rq_remoteAddress rq)
     then (AcceptedAs (wq_next (do_queue st)), st\<lparr>do_buckets := bs, do_queue := snd (enqueueWrite
       (recordEvent renv
         (case who of
            None \<Rightarrow> envelope_of (jget (parseRequestJson raw) ''event'')
          | Some i \<Rightarrow> (envelope_of (jget (parseRequestJson raw) ''event''))
              \<lparr>en_user_id := Some (JStr (id_user_id i)), en_team_id := map_option JStr (id_team_id i)\<rparr>) True)
       (do_queue st))\<rparr>)
     else (NoAdminToken, st\<lparr>do_buckets := bs\<rparr>))"
proof -
  have who: "resolveRequestIdentity (dv_server env) rq = Inr who"
    using assms(1,2) by (simp add: resolveRequestIdentity_def Let_def)
  have "hasValidAdminToken (dv_server env) rq =
      Inr (configured_token (dv_server env) = [] \<and> isLocalhostRequest (rq_remoteAddress rq))"
    using assms(1-3) by (auto simp: hasValidAdminToken_def Let_def split: option.split)
  moreover have "with_identity who e = (case who of None \<Rightarrow> e
      | Some i \<Rightarrow> e\<lparr>en_user_id := Some (JStr (id_user_id i)), en_team_id := map_option JStr (id_team_id i)\<rparr>)" for e
    using assms(3) by (auto simp: with_identity_def split: option.split)
  ultimately show ?thesis
    using assms(4-9) who
    by (auto simp: handle_record_def record_endpoint_def recordEventQueued_def enqueueWrite_def Let_def writeQueueLimit_def)
qed

theorem override_needs_no_admin_token_witness:
  "fst (handle_record (sample_door [] None) 0 member_request event_body (sample_renv gate_off) closed_door) = AcceptedAs 0 \<and>
   fst (handle_record (sample_door [(''t'', sample_member)] (Some ''k'')) 0 member_request event_body
     (sample_renv gate_off) closed_door) = NoAdminToken"
proof
  have lim: "limit_request (sample_door ts k) 0 member_request (do_buckets closed_door) =
      (None, snd (limit_request (sample_door ts k) 0 member_request (do_buckets closed_door)))" for ts k
  proof -
    have "fst (limit_request (sample_door [] None) 0 member_request (do_buckets closed_door)) = None" by code_simp
    then show ?thesis by (simp add: prod_eq_iff limit_request_def sample_door_def)
  qed
  have v: "vr_valid (validateRecordEvent (dv_validator (sample_door ts k)) (parseRequestJson event_body))" for ts k
  proof -
    have "vr_valid (validateRecordEvent DEFAULT_CONFIG (parseRequestJson event_body))" by code_simp
    then show ?thesis by (simp add: sample_door_def)
  qed
  have m: "rq_method member_request = ''POST''" "rq_path member_request = ''/v1/events/record''"
    "rq_remoteAddress member_request = Some ''127.0.0.1''" "wq_pending (do_queue closed_door) < 100"
    "wq_next (do_queue closed_door) = 0"
    by (simp_all add: member_request_def closed_door_def empty_queue_def)
  have e: "dv_embeddable (sample_door ts k) x" for ts k x by (simp add: sample_door_def)
  have c: "en_auth_config (dv_server (sample_door ts k)) = Some \<lparr>au_admin_token = [], au_tokens = ts\<rparr>"
    "configured_token (dv_server (sample_door ts None)) = []" "configured_token (dv_server (sample_door ts (Some ''k''))) = ''k''" for ts k
    by (simp_all add: sample_door_def configured_token_def js_trim_def is_js_space_def)
  have r1: "resolveTokenIdentity (extractBearerToken member_request) \<lparr>au_admin_token = [], au_tokens = []\<rparr> = Inr None"
    by code_simp
  have r2: "resolveTokenIdentity (extractBearerToken member_request) \<lparr>au_admin_token = [], au_tokens = [(''t'', sample_member)]\<rparr> =
      Inr (Some \<lparr>id_user_id = ''ann'', id_team_id = None, id_role = Member\<rparr>)" by code_simp
  show "fst (handle_record (sample_door [] None) 0 member_request event_body (sample_renv gate_off) closed_door) = AcceptedAs 0"
    using override_needs_no_admin_token [OF c(1) r1 _ m(1,2) lim v e m(4)] c(2) m(3,5)
    by (simp add: isLocalhostRequest_def)
  show "fst (handle_record (sample_door [(''t'', sample_member)] (Some ''k'')) 0 member_request event_body
     (sample_renv gate_off) closed_door) = NoAdminToken"
    using override_needs_no_admin_token [OF c(1) r2 _ m(1,2) lim v e m(4)] c(3) by simp
qed

end
