(* ===== verification/Forget_Policy.thy ===== *)
theory Forget_Policy
  imports Event_Build Memory_Db
begin

text \<open>
  The forget policy of \<open>memory-server/src/consolidation/forget-policy.ts\<close>: which observations are
  candidates for a soft delete, in which order, and what a run of the policy changes. Factors and scores
  are exact rationals (the code's doubles round); \<open>JSON.parse\<close>, \<open>Date.parse\<close> and the printing of
  the clock are those of \<open>host\<close>. The arguments of \<open>writeAudit\<close> are returned as a record.
\<close>

subsection \<open>Options and results\<close>

record forget_weights =
  fw_access :: rat
  fw_signal :: rat
  fw_age :: rat

record forget_options =
  fo_dry_run :: "bool option"
  fo_score_threshold :: "rat option"
  fo_access :: "rat option"
  fo_signal :: "rat option"
  fo_age :: "rat option"
  fo_project :: "string option"
  fo_limit :: "rat option"
  fo_protect_accessed :: "bool option"

record forget_candidate =
  fc_observation_id :: string
  fc_project :: string
  fc_score :: rat
  fc_factors :: forget_weights
  fc_age_days :: rat
  fc_access_count :: int
  fc_signal_score :: rat
  fc_expired_at :: "string option"

record forget_result =
  fr_dry_run :: bool
  fr_evicted :: nat
  fr_candidates :: "forget_candidate list"
  fr_skipped :: bool
  fr_score_threshold :: rat
  fr_weights :: forget_weights
  fr_scanned :: nat

record forget_audit =
  fa_dry_run :: bool
  fa_requested_dry_run :: bool
  fa_skipped :: bool
  fa_evicted :: nat
  fa_scanned :: nat
  fa_candidate_ids :: "string list"
  fa_expired_candidate_ids :: "string list"
  fa_project :: "string option"

definition clamp01 :: "rat \<Rightarrow> rat" where
  "clamp01 v = (if v < 0 then 0 else if 1 < v then 1 else v)"

definition normaliseWeights :: "forget_options \<Rightarrow> forget_weights" where
  "normaliseWeights opts =
     (let access = max 0 (or_else (fo_access opts) (4 / 10));
          signal = max 0 (or_else (fo_signal opts) (3 / 10));
          age = max 0 (or_else (fo_age opts) (3 / 10));
          total = access + signal + age
      in if total \<le> 0 then \<lparr>fw_access = 1 / 3, fw_signal = 1 / 3, fw_age = 1 / 3\<rparr>
         else \<lparr>fw_access = access / total, fw_signal = signal / total, fw_age = age / total\<rparr>)"

subsection \<open>Scores\<close>

definition scoreFactors :: "int \<Rightarrow> rat \<Rightarrow> rat \<Rightarrow> forget_weights" where
  "scoreFactors accessCount signalScore ageDays =
     (let accessRaw = max 0 accessCount
      in \<lparr>fw_access = (if accessRaw = 0 then 1 else clamp01 (max 0 (1 - of_int accessRaw / 5))),
          fw_signal = clamp01 (1 - clamp01 signalScore),
          fw_age = clamp01 ((ageDays - 30) / 150)\<rparr>)"

definition compositeScore :: "forget_weights \<Rightarrow> forget_weights \<Rightarrow> rat" where
  "compositeScore factors weights =
     of_int \<lfloor>(fw_access weights * fw_access factors + fw_signal weights * fw_signal factors +
       fw_age weights * fw_age factors) * 10000 + 1 / 2\<rfloor> / 10000"

definition parsePrivacyTags :: "host \<Rightarrow> string \<Rightarrow> string list" where
  "parsePrivacyTags h raw =
     (if raw = [] then []
      else (case json_parse h raw of
              Some (JArr vs) \<Rightarrow> List.map_filter (\<lambda>v. as_string (Some v)) vs
            | _ \<Rightarrow> []))"

definition daysBetween :: "host \<Rightarrow> string \<Rightarrow> ms \<Rightarrow> rat" where
  "daysBetween h fromIso now =
     (if fromIso = [] then 0
      else (case date_parse h fromIso of
              None \<Rightarrow> 0
            | Some t \<Rightarrow> max 0 (of_int (now - t) / 86400000)))"

definition isAutoForgetEnabled :: "string option \<Rightarrow> bool" where
  "isAutoForgetEnabled v = (case v of None \<Rightarrow> False | Some s \<Rightarrow> js_trim s = ''1'')"

definition MIN_AGE_DAYS_FOR_EVICTION :: rat where
  "MIN_AGE_DAYS_FOR_EVICTION = 30"

definition protected_tags :: "string list" where
  "protected_tags = [''private'', ''secret'', ''sensitive'', ''legal_hold'']"

definition isProtectedByPrivacy :: "host \<Rightarrow> obs_row \<Rightarrow> bool" where
  "isProtectedByPrivacy h row \<longleftrightarrow>
     (\<exists>t \<in> set (map js_lower (parsePrivacyTags h (ob_privacy_tags_json row))). t \<in> set protected_tags)"

definition score_threshold :: "forget_options \<Rightarrow> rat" where
  "score_threshold opts = or_else (fo_score_threshold opts) (7 / 10)"

definition is_expired :: "host \<Rightarrow> ms \<Rightarrow> obs_row \<Rightarrow> bool" where
  "is_expired h now row \<longleftrightarrow> truthy (ob_expires_at row) \<and> or_else (ob_expires_at row) [] \<le> to_iso h now"

text \<open>The body of the loop over the rows: the candidate a row gives, if any.\<close>

definition candidate_of :: "host \<Rightarrow> forget_options \<Rightarrow> ms \<Rightarrow> obs_row \<Rightarrow> forget_candidate option" where
  "candidate_of h opts now row =
     (let accessCount = or_else (ob_access_count row) 0;
          signalScore = or_else (ob_signal_score row) 0;
          ageDays = daysBetween h (ob_created_at row) now;
          factors = scoreFactors accessCount signalScore ageDays;
          score = compositeScore factors (normaliseWeights opts);
          candidate = (\<lambda>s expired. \<lparr>fc_observation_id = ob_id row, fc_project = ob_project row, fc_score = s,
            fc_factors = factors, fc_age_days = of_int \<lfloor>ageDays * 100 + 1 / 2\<rfloor> / 100,
            fc_access_count = accessCount, fc_signal_score = signalScore, fc_expired_at = expired\<rparr>)
      in if isProtectedByPrivacy h row then None
         else if is_expired h now row then Some (candidate 1 (ob_expires_at row))
         else if fo_protect_accessed opts \<noteq> Some False \<and> 0 < accessCount then None
         else if ageDays < MIN_AGE_DAYS_FOR_EVICTION then None
         else if score < score_threshold opts then None
         else Some (candidate score None))"

definition scanned_rows :: "forget_options \<Rightarrow> obs_row list \<Rightarrow> obs_row list" where
  "scanned_rows opts t =
     sql_where (\<lambda>r. live r \<and> (truthy (fo_project opts) \<longrightarrow> ob_project r = or_else (fo_project opts) [])) t"

definition forget_limit :: "forget_options \<Rightarrow> nat" where
  "forget_limit opts = nat (max 1 (min 1000 \<lfloor>or_else (fo_limit opts) 100\<rfloor>))"

definition collectForgetCandidates ::
  "host \<Rightarrow> forget_options \<Rightarrow> ms \<Rightarrow> obs_row list \<Rightarrow> forget_candidate list \<times> nat \<times> forget_weights" where
  "collectForgetCandidates h opts now t =
     (let rows = scanned_rows opts t;
          candidates = List.map_filter (candidate_of h opts now) rows
      in (take (forget_limit opts) (order_desc fc_score candidates), length rows, normaliseWeights opts))"

subsection \<open>A run\<close>

definition archive_rows :: "string \<Rightarrow> string list \<Rightarrow> obs_row list \<Rightarrow> obs_row list" where
  "archive_rows ts ids t =
     sql_update (\<lambda>r. ob_id r \<in> set ids \<and> live r) (\<lambda>r. r\<lparr>ob_archived_at := Some ts, ob_updated_at := ts\<rparr>) t"

definition runForgetPolicy ::
  "host \<Rightarrow> string option \<Rightarrow> forget_options \<Rightarrow> ms \<Rightarrow> string \<Rightarrow> obs_row list \<Rightarrow>
     forget_result \<times> forget_audit \<times> obs_row list" where
  "runForgetPolicy h autoForget opts now ts t =
     (let dryRequested = fo_dry_run opts \<noteq> Some False
      in case collectForgetCandidates h opts now t of
           (candidates, scanned, weights) \<Rightarrow>
             (let skipped = \<not> dryRequested \<and> \<not> isAutoForgetEnabled autoForget;
                  dry = dryRequested \<or> skipped;
                  ids = map fc_observation_id candidates;
                  wet = \<not> dry \<and> candidates \<noteq> [];
                  evicted = (if wet then length (sql_where (\<lambda>r. ob_id r \<in> set ids \<and> live r) t) else 0)
              in (\<lparr>fr_dry_run = dry, fr_evicted = evicted, fr_candidates = candidates, fr_skipped = skipped,
                   fr_score_threshold = score_threshold opts, fr_weights = weights, fr_scanned = scanned\<rparr>,
                  \<lparr>fa_dry_run = dry, fa_requested_dry_run = dryRequested, fa_skipped = skipped, fa_evicted = evicted,
                   fa_scanned = scanned, fa_candidate_ids = ids,
                   fa_expired_candidate_ids =
                     map fc_observation_id (filter (\<lambda>c. truthy (fc_expired_at c)) candidates),
                   fa_project = fo_project opts\<rparr>,
                  if wet then archive_rows ts ids t else t)))"

subsection \<open>Scores are fractions\<close>

lemma clamp01_bounds [simp]: "0 \<le> clamp01 v" "clamp01 v \<le> 1"
  by (simp_all add: clamp01_def)

lemma weights_nonneg: "0 \<le> fw_access (normaliseWeights opts)" "0 \<le> fw_signal (normaliseWeights opts)"
    "0 \<le> fw_age (normaliseWeights opts)"
  and weights_sum: "fw_access (normaliseWeights opts) + fw_signal (normaliseWeights opts) + fw_age (normaliseWeights opts) = 1"
proof -
  let ?a = "max 0 (or_else (fo_access opts) (4 / 10))"
  let ?s = "max 0 (or_else (fo_signal opts) (3 / 10))"
  let ?g = "max 0 (or_else (fo_age opts) (3 / 10))"
  have n: "0 \<le> ?a" "0 \<le> ?s" "0 \<le> ?g" by simp_all
  show "0 \<le> fw_access (normaliseWeights opts)" "0 \<le> fw_signal (normaliseWeights opts)" "0 \<le> fw_age (normaliseWeights opts)"
    using n by (simp_all add: normaliseWeights_def Let_def)
  show "fw_access (normaliseWeights opts) + fw_signal (normaliseWeights opts) + fw_age (normaliseWeights opts) = 1"
  proof (cases "?a + ?s + ?g \<le> 0")
    case False
    then have "?a / (?a + ?s + ?g) + ?s / (?a + ?s + ?g) + ?g / (?a + ?s + ?g) = 1"
      by (simp add: add_divide_distrib [symmetric])
    with False show ?thesis by (simp add: normaliseWeights_def Let_def)
  qed (simp add: normaliseWeights_def)
qed

lemma factors_bounds:
  "0 \<le> fw_access (scoreFactors a s d) \<and> fw_access (scoreFactors a s d) \<le> 1"
  "0 \<le> fw_signal (scoreFactors a s d) \<and> fw_signal (scoreFactors a s d) \<le> 1"
  "0 \<le> fw_age (scoreFactors a s d) \<and> fw_age (scoreFactors a s d) \<le> 1"
  by (simp_all add: scoreFactors_def Let_def)

lemma score_bounds:
  "0 \<le> compositeScore (scoreFactors a s d) (normaliseWeights opts) \<and>
   compositeScore (scoreFactors a s d) (normaliseWeights opts) \<le> 1"
proof -
  let ?w = "normaliseWeights opts" and ?f = "scoreFactors a s d"
  let ?x = "fw_access ?w * fw_access ?f + fw_signal ?w * fw_signal ?f + fw_age ?w * fw_age ?f"
  have "0 \<le> ?x" using weights_nonneg [of opts] factors_bounds [of a s d] by simp
  moreover have "?x \<le> fw_access ?w + fw_signal ?w + fw_age ?w"
    using weights_nonneg [of opts] factors_bounds [of a s d] by (intro add_mono mult_left_le) simp_all
  ultimately have "0 \<le> ?x" "?x \<le> 1" using weights_sum [of opts] by simp_all
  then have "0 \<le> \<lfloor>?x * 10000 + 1 / 2\<rfloor>" "\<lfloor>?x * 10000 + 1 / 2\<rfloor> \<le> 10000"
    by (simp_all add: floor_le_iff)
  then have "0 \<le> (of_int \<lfloor>?x * 10000 + 1 / 2\<rfloor> :: rat)" "(of_int \<lfloor>?x * 10000 + 1 / 2\<rfloor> :: rat) \<le> 10000"
    by (simp_all add: of_int_le_iff [of _ 10000, simplified])
  then show ?thesis by (simp add: compositeScore_def)
qed

subsection \<open>Candidates\<close>

text \<open>When a row may be forgotten.\<close>

definition forgettable :: "host \<Rightarrow> forget_options \<Rightarrow> ms \<Rightarrow> obs_row \<Rightarrow> bool" where
  "forgettable h opts now r \<longleftrightarrow> \<not> isProtectedByPrivacy h r \<and>
     (is_expired h now r \<or>
      (fo_protect_accessed opts = Some False \<or> or_else (ob_access_count r) 0 \<le> 0) \<and>
      30 \<le> daysBetween h (ob_created_at r) now \<and>
      score_threshold opts \<le> compositeScore (scoreFactors (or_else (ob_access_count r) 0)
        (or_else (ob_signal_score r) 0) (daysBetween h (ob_created_at r) now)) (normaliseWeights opts))"

lemma candidate_iff: "candidate_of h opts now r \<noteq> None \<longleftrightarrow> forgettable h opts now r"
  by (auto simp: candidate_of_def forgettable_def Let_def MIN_AGE_DAYS_FOR_EVICTION_def not_less)

lemma candidate_id: "candidate_of h opts now r = Some c \<Longrightarrow> fc_observation_id c = ob_id r"
  by (auto simp: candidate_of_def Let_def split: if_splits)

lemma candidate_score: "candidate_of h opts now r = Some c \<Longrightarrow> 0 \<le> fc_score c \<and> fc_score c \<le> 1"
  using score_bounds by (auto simp: candidate_of_def Let_def split: if_splits)

definition all_candidates :: "host \<Rightarrow> forget_options \<Rightarrow> ms \<Rightarrow> obs_row list \<Rightarrow> forget_candidate list" where
  "all_candidates h opts now t = List.map_filter (candidate_of h opts now) (scanned_rows opts t)"

lemma collect_fst:
  "fst (collectForgetCandidates h opts now t) = take (forget_limit opts) (order_desc fc_score (all_candidates h opts now t))"
  by (simp add: collectForgetCandidates_def Let_def all_candidates_def)

lemma all_candidate_ids:
  "map fc_observation_id (all_candidates h opts now t) =
     map ob_id (filter (forgettable h opts now) (scanned_rows opts t))"
proof -
  have "map fc_observation_id (List.map_filter (candidate_of h opts now) rows) =
      map ob_id (filter (forgettable h opts now) rows)" for rows
    by (induction rows) (auto simp: List.map_filter_simps candidate_iff [symmetric] candidate_id split: option.split)
  then show ?thesis by (simp add: all_candidates_def)
qed

lemma candidate_ids_sub:
  "fc_observation_id ` set (fst (collectForgetCandidates h opts now t)) \<subseteq>
     ob_id ` {r \<in> set (scanned_rows opts t). forgettable h opts now r}"
proof -
  have "set (fst (collectForgetCandidates h opts now t)) \<subseteq> set (all_candidates h opts now t)"
    unfolding collect_fst by (metis set_order_desc set_take_subset)
  then show ?thesis
    using arg_cong [OF all_candidate_ids, of set h opts now t] by (auto simp: image_iff)
qed

subsection \<open>What a run changes\<close>

definition eligible :: "host \<Rightarrow> forget_options \<Rightarrow> ms \<Rightarrow> obs_row \<Rightarrow> bool" where
  "eligible h opts now r \<longleftrightarrow> live r \<and> (truthy (fo_project opts) \<longrightarrow> ob_project r = or_else (fo_project opts) []) \<and>
     forgettable h opts now r"

definition archived_at :: "string \<Rightarrow> obs_row \<Rightarrow> obs_row" where
  "archived_at ts r = r\<lparr>ob_archived_at := Some ts, ob_updated_at := ts\<rparr>"

lemma archived_at_simps [simp]: "ob_id (archived_at ts r) = ob_id r" "\<not> live (archived_at ts r)"
  "\<not> eligible h opts now (archived_at ts r)"
  by (simp_all add: archived_at_def live_def eligible_def)

definition candidate_ids :: "host \<Rightarrow> forget_options \<Rightarrow> ms \<Rightarrow> obs_row list \<Rightarrow> string list" where
  "candidate_ids h opts now t = map fc_observation_id (fst (collectForgetCandidates h opts now t))"

definition is_wet :: "string option \<Rightarrow> forget_options \<Rightarrow> bool" where
  "is_wet autoForget opts \<longleftrightarrow> fo_dry_run opts = Some False \<and> isAutoForgetEnabled autoForget"

lemma candidate_ids_eligible:
  "set (candidate_ids h opts now t) \<subseteq> ob_id ` {r \<in> set t. eligible h opts now r}"
  using candidate_ids_sub [of h opts now t] by (force simp: candidate_ids_def eligible_def scanned_rows_def)

lemma candidate_ids_length: "length (candidate_ids h opts now t) \<le> forget_limit opts"
  by (simp add: candidate_ids_def collect_fst)

lemma candidate_ids_empty: "candidate_ids h opts now t = [] \<longleftrightarrow> \<not> (\<exists>r \<in> set t. eligible h opts now r)"
proof -
  have "0 < forget_limit opts" by (simp add: forget_limit_def)
  then have "candidate_ids h opts now t = [] \<longleftrightarrow> map fc_observation_id (all_candidates h opts now t) = []"
    by (simp add: candidate_ids_def collect_fst)
  then show ?thesis
    unfolding all_candidate_ids by (auto simp: filter_empty_conv scanned_rows_def eligible_def)
qed

lemma run_table:
  "snd (snd (runForgetPolicy h auto opts now ts t)) =
     (if is_wet auto opts \<and> candidate_ids h opts now t \<noteq> [] then archive_rows ts (candidate_ids h opts now t) t else t)"
  by (auto simp: runForgetPolicy_def Let_def is_wet_def candidate_ids_def split: prod.split)

lemma archive_candidates:
  assumes "distinct (map ob_id t)" "r \<in> set t"
  shows "ob_id r \<in> set (candidate_ids h opts now t) \<Longrightarrow> eligible h opts now r"
proof -
  assume "ob_id r \<in> set (candidate_ids h opts now t)"
  then obtain s where "s \<in> set t" "eligible h opts now s" "ob_id s = ob_id r"
    using candidate_ids_eligible [of h opts now t] by fastforce
  moreover from this assms have "s = r" by (auto simp: distinct_map inj_on_def)
  ultimately show ?thesis by simp
qed

lemma archive_rows_map:
  assumes "distinct (map ob_id t)"
  shows "archive_rows ts (candidate_ids h opts now t) t =
    map (\<lambda>r. if ob_id r \<in> set (candidate_ids h opts now t) then archived_at ts r else r) t"
  using archive_candidates [OF assms] by (auto simp: archive_rows_def sql_update_def archived_at_def eligible_def)

lemma archive_rows_ids [simp]: "map ob_id (archive_rows ts ids t) = map ob_id t"
  by (simp add: archive_rows_def map_sql_update)

lemma run_rows:
  assumes "distinct (map ob_id t)"
  shows "list_all2 (\<lambda>r r'. r' = r \<or> (is_wet auto opts \<and> eligible h opts now r \<and> ob_id r \<in> set (candidate_ids h opts now t) \<and>
      r' = archived_at ts r)) t (snd (snd (runForgetPolicy h auto opts now ts t)))"
proof (cases "is_wet auto opts \<and> candidate_ids h opts now t \<noteq> []")
  case True
  then have "snd (snd (runForgetPolicy h auto opts now ts t)) =
      map (\<lambda>r. if ob_id r \<in> set (candidate_ids h opts now t) then archived_at ts r else r) t"
    by (simp add: run_table archive_rows_map [OF assms])
  with True archive_candidates [OF assms] show ?thesis
    by (simp add: list.rel_map list.rel_refl_strong)
next
  case False
  then have "snd (snd (runForgetPolicy h auto opts now ts t)) = t" by (simp only: run_table if_False)
  then show ?thesis by (simp add: list.rel_refl_strong)
qed

lemma evicted_bound:
  assumes "distinct (map ob_id t)"
  shows "fr_evicted (fst (runForgetPolicy h auto opts now ts t)) \<le> forget_limit opts"
proof -
  let ?ids = "candidate_ids h opts now t" and ?s = "filter (\<lambda>r. ob_id r \<in> set (candidate_ids h opts now t) \<and> live r) t"
  have "distinct (map ob_id ?s)" using assms by (simp add: distinct_map_filter)
  from distinct_card [OF this] have "length ?s = card (set (map ob_id ?s))" by simp
  also have "\<dots> \<le> card (set ?ids)" by (rule card_mono) auto
  also have "\<dots> \<le> forget_limit opts" using candidate_ids_length card_length order_trans by blast
  finally show ?thesis
    by (auto simp: runForgetPolicy_def Let_def candidate_ids_def sql_where_def split: prod.split)
qed

text \<open>
  C37. Forgetting is careful: a run changes nothing but the archive mark and the update time of rows, and a
  row only if the run is asked to be wet with HARNESS_MEM_AUTO_FORGET set, the row is in force and in the
  project, carries none of the tags private, secret, sensitive and legal_hold in any case, and either its
  expiry has passed or it is at least 30 days old, unused where use protects, and scores at or above the
  threshold. At most 1000 rows are archived, and a dry run reports the candidates a wet one archives.
\<close>

theorem forgetting_is_careful:
  assumes "distinct (map ob_id t)" "runForgetPolicy h auto opts now ts t = (res, aud, t')"
  shows "list_all2 (\<lambda>r r'. r' = r \<or>
      (fo_dry_run opts = Some False \<and> isAutoForgetEnabled auto \<and> live r \<and>
       (truthy (fo_project opts) \<longrightarrow> ob_project r = or_else (fo_project opts) []) \<and>
       set (map js_lower (parsePrivacyTags h (ob_privacy_tags_json r))) \<inter> {''private'', ''secret'', ''sensitive'', ''legal_hold''} = {} \<and>
       (is_expired h now r \<or>
        (fo_protect_accessed opts = Some False \<or> or_else (ob_access_count r) 0 \<le> 0) \<and>
        30 \<le> daysBetween h (ob_created_at r) now \<and>
        score_threshold opts \<le> compositeScore (scoreFactors (or_else (ob_access_count r) 0)
          (or_else (ob_signal_score r) 0) (daysBetween h (ob_created_at r) now)) (normaliseWeights opts)) \<and>
       ob_id r \<in> set (map fc_observation_id (fr_candidates res)) \<and>
       r' = r\<lparr>ob_archived_at := Some ts, ob_updated_at := ts\<rparr>)) t t' \<and>
    fr_evicted res \<le> 1000 \<and>
    fr_candidates res = fr_candidates (fst (runForgetPolicy h auto (opts\<lparr>fo_dry_run := None\<rparr>) now ts t))"
proof -
  have "fr_candidates res = fst (collectForgetCandidates h opts now t)"
    using assms(2) by (auto simp: runForgetPolicy_def Let_def split: prod.splits)
  moreover have "fr_candidates (fst (runForgetPolicy h auto (opts\<lparr>fo_dry_run := None\<rparr>) now ts t)) =
      fst (collectForgetCandidates h (opts\<lparr>fo_dry_run := None\<rparr>) now t)"
    by (auto simp: runForgetPolicy_def Let_def split: prod.splits)
  moreover have "collectForgetCandidates h (opts\<lparr>fo_dry_run := None\<rparr>) now t = collectForgetCandidates h opts now t"
  proof -
    have w: "normaliseWeights (opts\<lparr>fo_dry_run := None\<rparr>) = normaliseWeights opts"
      "score_threshold (opts\<lparr>fo_dry_run := None\<rparr>) = score_threshold opts"
      by (simp_all add: normaliseWeights_def score_threshold_def)
    have "candidate_of h (opts\<lparr>fo_dry_run := None\<rparr>) now = candidate_of h opts now"
      unfolding fun_eq_iff candidate_of_def Let_def w by simp
    then show ?thesis
      unfolding collectForgetCandidates_def w by (simp add: scanned_rows_def forget_limit_def)
  qed
  moreover have "fr_evicted res \<le> 1000"
    using evicted_bound [OF assms(1), of h auto opts now ts] assms(2) by (simp add: forget_limit_def)
  moreover have "list_all2 (\<lambda>r r'. r' = r \<or> (is_wet auto opts \<and> eligible h opts now r \<and>
      ob_id r \<in> set (candidate_ids h opts now t) \<and> r' = archived_at ts r)) t t'"
    using run_rows [OF assms(1), of auto opts h now ts] assms(2) by simp
  ultimately show ?thesis
    by (auto simp: is_wet_def eligible_def forgettable_def archived_at_def candidate_ids_def isProtectedByPrivacy_def
        protected_tags_def elim!: list.rel_mono_strong split: option.splits)
qed

subsection \<open>Repeated runs\<close>

fun forget_runs :: "host \<Rightarrow> string option \<Rightarrow> forget_options \<Rightarrow> ms \<Rightarrow> string list \<Rightarrow> obs_row list \<Rightarrow> obs_row list" where
  "forget_runs h auto opts now [] t = t"
| "forget_runs h auto opts now (ts # tss) t =
     forget_runs h auto opts now tss (snd (snd (runForgetPolicy h auto opts now ts t)))"

definition eligible_count :: "host \<Rightarrow> forget_options \<Rightarrow> ms \<Rightarrow> obs_row list \<Rightarrow> nat" where
  "eligible_count h opts now t = length (filter (eligible h opts now) t)"

lemma run_decreases:
  assumes "distinct (map ob_id t)" "is_wet auto opts" "0 < eligible_count h opts now t"
  shows "eligible_count h opts now (snd (snd (runForgetPolicy h auto opts now ts t))) < eligible_count h opts now t"
proof -
  let ?ids = "candidate_ids h opts now t"
  have "\<exists>r \<in> set t. eligible h opts now r"
    using assms(3) by (auto simp: eligible_count_def filter_empty_conv)
  then have ne: "?ids \<noteq> []" by (simp add: candidate_ids_empty)
  then obtain r where r: "r \<in> set t" "eligible h opts now r" "ob_id r \<in> set ?ids"
    using candidate_ids_eligible [of h opts now t] by (cases ?ids) auto
  let ?f = "\<lambda>r. if ob_id r \<in> set ?ids then archived_at ts r else r"
  have "filter (eligible h opts now) (map (\<lambda>r. if ob_id r \<in> I then archived_at ts r else r) u) =
      map (\<lambda>r. if ob_id r \<in> I then archived_at ts r else r)
        (filter (\<lambda>r. ob_id r \<notin> I) (filter (eligible h opts now) u))" for I u
    by (induction u) auto
  moreover have "length (filter (\<lambda>r. ob_id r \<notin> set ?ids) (filter (eligible h opts now) t)) <
      length (filter (eligible h opts now) t)"
    using r by (intro length_filter_less [of r]) auto
  ultimately show ?thesis
    using ne assms(2) by (simp add: eligible_count_def run_table archive_rows_map [OF assms(1)])
qed

lemma run_ids: "map ob_id (snd (snd (runForgetPolicy h auto opts now ts t))) = map ob_id t"
  by (simp add: run_table)

lemma run_then:
  assumes "distinct (map ob_id t)" "is_wet auto opts"
    and "list_all2 (\<lambda>r r'. if eligible h opts now r then \<exists>ts' \<in> set tss. r' = archived_at ts' r else r' = r)
      (snd (snd (runForgetPolicy h auto opts now ts t))) t'"
  shows "list_all2 (\<lambda>r r'. if eligible h opts now r then \<exists>ts' \<in> set (ts # tss). r' = archived_at ts' r else r' = r) t t'"
  by (rule list_all2_trans [OF _ run_rows [OF assms(1)] assms(3)]) (auto split: if_splits)

text \<open>
  Forgetting finishes: for a fixed reading of the clock, as many wet runs as there are rows to forget,
  whatever the limit of a run, archive exactly those rows and leave every other row as it was.
\<close>

theorem forgetting_finishes:
  assumes "distinct (map ob_id t)" "fo_dry_run opts = Some False" "isAutoForgetEnabled auto"
    and "length (filter (eligible h opts now) t) \<le> length tss"
  shows "list_all2 (\<lambda>r r'. if eligible h opts now r
      then \<exists>ts \<in> set tss. r' = r\<lparr>ob_archived_at := Some ts, ob_updated_at := ts\<rparr> else r' = r)
    t (forget_runs h auto opts now tss t)"
proof -
  have "is_wet auto opts" using assms(2,3) by (simp add: is_wet_def)
  then have "eligible_count h opts now t \<le> length tss \<Longrightarrow> distinct (map ob_id t) \<Longrightarrow>
    list_all2 (\<lambda>r r'. if eligible h opts now r then \<exists>ts \<in> set tss. r' = archived_at ts r else r' = r)
      t (forget_runs h auto opts now tss t)"
  proof (induction tss arbitrary: t)
    case Nil
    then show ?case by (auto simp: eligible_count_def filter_empty_conv intro: list.rel_refl_strong)
  next
    case (Cons ts tss)
    let ?t1 = "snd (snd (runForgetPolicy h auto opts now ts t))"
    have "eligible_count h opts now ?t1 \<le> length tss"
    proof (cases "eligible_count h opts now t = 0")
      case True
      then have "candidate_ids h opts now t = []" by (auto simp: candidate_ids_empty eligible_count_def filter_empty_conv)
      then have "?t1 = t" by (simp add: run_table)
      with True show ?thesis by simp
    next
      case False
      with run_decreases [OF Cons.prems(2) \<open>is_wet auto opts\<close>, of h now ts] Cons.prems(1) show ?thesis by simp
    qed
    moreover have "distinct (map ob_id ?t1)" using Cons.prems(2) by (simp add: run_ids)
    ultimately show ?case
      using run_then [OF Cons.prems(2) \<open>is_wet auto opts\<close>] Cons.IH [OF _ _ \<open>is_wet auto opts\<close>] by simp
  qed
  from this [OF assms(4) [folded eligible_count_def] assms(1)] show ?thesis unfolding archived_at_def .
qed

definition stale_row :: obs_row where
  "stale_row = \<lparr>ob_id = ''o1'', ob_event_id = None, ob_platform = ''p'', ob_project = ''x'', ob_session_id = ''s'',
     ob_title = None, ob_content = [], ob_content_redacted = [], ob_content_dedupe_hash = None, ob_raw_text = None,
     ob_observation_type = ''context'', ob_memory_type = ''episodic'', ob_tags_json = ''[]'', ob_privacy_tags_json = ''[]'',
     ob_signal_score = None, ob_access_count = None, ob_user_id = ''u'', ob_team_id = None, ob_event_time = None,
     ob_observed_at = None, ob_valid_from = None, ob_valid_to = None, ob_supersedes = None, ob_invalidated_at = None,
     ob_archived_at = None, ob_expires_at = None, ob_thread_id = None, ob_topic = None, ob_branch = None,
     ob_created_at = ''t'', ob_updated_at = ''t''\<rparr>"

definition wet_options :: forget_options where
  "wet_options = \<lparr>fo_dry_run = Some False, fo_score_threshold = None, fo_access = None, fo_signal = None, fo_age = None,
     fo_project = None, fo_limit = None, fo_protect_accessed = None\<rparr>"

definition forget_host :: host where
  "forget_host = \<lparr>sha256 = id, json_parse = (\<lambda>s. Some (JArr [])), date_parse = (\<lambda>s. Some 0), to_iso = (\<lambda>t. ''1970'')\<rparr>"

lemma stale_eligible: "eligible forget_host wet_options 8640000000 stale_row"
  by code_simp

theorem forgetting_is_careful_witness:
  "fr_evicted (fst (runForgetPolicy forget_host (Some ''1'') wet_options 8640000000 ''now'' [stale_row])) = 1 \<and>
   fr_evicted (fst (runForgetPolicy forget_host (Some ''1'') wet_options 8640000000 ''now'' [stale_row])) \<le> 1000"
proof
  show "fr_evicted (fst (runForgetPolicy forget_host (Some ''1'') wet_options 8640000000 ''now'' [stale_row])) = 1"
    by code_simp
  obtain res aud t' where r: "runForgetPolicy forget_host (Some ''1'') wet_options 8640000000 ''now'' [stale_row] = (res, aud, t')"
    by (metis prod_cases3)
  show "fr_evicted (fst (runForgetPolicy forget_host (Some ''1'') wet_options 8640000000 ''now'' [stale_row])) \<le> 1000"
    using forgetting_is_careful [OF _ r] r by simp
qed

theorem forgetting_finishes_witness:
  "forget_runs forget_host (Some ''1'') wet_options 8640000000 [''now''] [stale_row] =
     [stale_row\<lparr>ob_archived_at := Some ''now'', ob_updated_at := ''now''\<rparr>]"
proof -
  have "fo_dry_run wet_options = Some False" by (simp add: wet_options_def)
  moreover have "isAutoForgetEnabled (Some ''1'')" by code_simp
  ultimately show ?thesis
    using forgetting_finishes [of "[stale_row]" wet_options "Some ''1''" forget_host 8640000000 "[''now'']"] stale_eligible
    by (auto simp: list_all2_Cons1)
qed

end
