(* ===== verification/Graph_Reasoner.thy ===== *)
theory Graph_Reasoner
  imports Memory_Db
begin

text \<open>
  The expansion of search results over the graph of entities, \<open>memory-server/src/core/graph-reasoner.ts\<close>:
  two breadth-first searches on \<open>mem_relations\<close>. A JavaScript \<open>Set\<close> or \<open>Map\<close> is the list of its
  elements in insertion order; a SELECT without ORDER BY returns the rows in the order of the table. The
  extractor of the entities of a query is an argument.
\<close>

subsection \<open>Sets in insertion order\<close>

definition distinct_first :: "'a list \<Rightarrow> 'a list" where
  "distinct_first xs = rev (remdups (rev xs))"

lemma set_distinct_first [simp]: "set (distinct_first xs) = set xs"
  by (simp add: distinct_first_def)

lemma distinct_distinct_first [simp]: "distinct (distinct_first xs)"
  by (simp add: distinct_first_def)

lemma length_distinct_first: "length (distinct_first xs) = card (set xs)"
  by (simp add: distinct_first_def length_remdups_card_conv)

text \<open>The IN clauses are filled fifty at a time.\<close>

definition BATCH :: nat where
  "BATCH = 50"

function batches :: "'a list \<Rightarrow> 'a list list" where
  "batches xs = (if xs = [] then [] else take BATCH xs # batches (drop BATCH xs))"
  by pat_completeness auto
termination
  by (relation "measure length") (auto simp: BATCH_def)

declare batches.simps [simp del]

lemma batches_Nil [simp]: "batches [] = []"
  by (simp add: batches.simps)

lemma concat_batches [simp]: "concat (batches xs) = xs"
proof (induction xs rule: batches.induct)
  case (1 xs)
  then show ?case by (cases "xs = []") (simp_all add: batches.simps [of xs])
qed

lemma batches_single: "xs \<noteq> [] \<Longrightarrow> length xs \<le> 50 \<Longrightarrow> batches xs = [xs]"
  by (simp add: batches.simps [of xs] BATCH_def)

lemma batch_length: "b \<in> set (batches xs) \<Longrightarrow> length b \<le> 50"
proof (induction xs rule: batches.induct)
  case (1 xs)
  then show ?case by (cases "xs = []") (auto simp: batches.simps [of xs] BATCH_def)
qed

subsection \<open>Expansion of seeds\<close>

definition MAX_EXTRA_OBS :: nat where
  "MAX_EXTRA_OBS = 20"

definition MAX_DEPTH_BOUND :: int where
  "MAX_DEPTH_BOUND = 5"

text \<open>\<open>result\<close> and \<open>visitedObs\<close> always hold the same ids and are one field.\<close>

record expansion =
  ex_result :: "string list"
  ex_frontier :: "string list"
  ex_entities :: "string list"
  ex_extra :: nat

definition obs_entities :: "relation_row list \<Rightarrow> string \<Rightarrow> string list" where
  "obs_entities t i = concat (map (\<lambda>r. [rl_src r, rl_dst r]) (sql_where (\<lambda>r. rl_observation_id r = i) t))"

definition frontier_entities :: "relation_row list \<Rightarrow> expansion \<Rightarrow> string list" where
  "frontier_entities t x =
     distinct_first (filter (\<lambda>e. e \<notin> set (ex_entities x)) (concat (map (obs_entities t) (ex_frontier x))))"

definition batch_rows :: "relation_row list \<Rightarrow> string list \<Rightarrow> nat \<Rightarrow> string list" where
  "batch_rows t batch limit =
     take limit (distinct_first (map rl_observation_id
       (sql_where (\<lambda>r. rl_src r \<in> set batch \<or> rl_dst r \<in> set batch) t)))"

text \<open>The loop over the rows of a batch; \<open>ex_frontier\<close> is \<open>nextFrontier\<close> here.\<close>

fun add_rows :: "string list \<Rightarrow> expansion \<Rightarrow> expansion" where
  "add_rows [] x = x"
| "add_rows (i # is) x =
     (if i \<in> set (ex_result x) then add_rows is x
      else let x1 = x\<lparr>ex_result := ex_result x @ [i], ex_frontier := ex_frontier x @ [i], ex_extra := ex_extra x + 1\<rparr>
           in if MAX_EXTRA_OBS \<le> ex_extra x1 then x1 else add_rows is x1)"

fun add_batches :: "relation_row list \<Rightarrow> nat \<Rightarrow> string list list \<Rightarrow> expansion \<Rightarrow> expansion" where
  "add_batches t width [] x = x"
| "add_batches t width (b # bs) x =
     (if MAX_EXTRA_OBS \<le> ex_extra x then x
      else add_batches t width bs (add_rows (batch_rows t b (MAX_EXTRA_OBS - ex_extra x + width)) x))"

text \<open>\<open>hops\<close> is the number of rounds that are left.\<close>

fun expand_hops :: "relation_row list \<Rightarrow> nat \<Rightarrow> expansion \<Rightarrow> expansion" where
  "expand_hops t 0 x = x"
| "expand_hops t (Suc hops) x =
     (if ex_frontier x = [] \<or> MAX_EXTRA_OBS \<le> ex_extra x then x
      else let newEntities = frontier_entities t x in
        if newEntities = [] then x
        else expand_hops t hops
          (add_batches t (length (ex_frontier x)) (batches newEntities)
            (x\<lparr>ex_entities := ex_entities x @ newEntities, ex_frontier := []\<rparr>)))"

definition expandObservationsViaGraph :: "relation_row list \<Rightarrow> string list \<Rightarrow> int \<Rightarrow> string list" where
  "expandObservationsViaGraph t seedObsIds depth =
     (let seeds = distinct_first seedObsIds in
      if seedObsIds = [] \<or> depth \<le> 0 then seeds
      else ex_result (expand_hops t (nat (min depth MAX_DEPTH_BOUND))
             \<lparr>ex_result = seeds, ex_frontier = seeds, ex_entities = [], ex_extra = 0\<rparr>))"

subsection \<open>Proximity to the entities of a query\<close>

definition MAX_PROXIMITY_HOPS :: nat where
  "MAX_PROXIMITY_HOPS = 3"

record proximity =
  px_distances :: "(string \<times> nat) list"
  px_frontier :: "string list"
  px_visited :: "string list"

definition discover :: "string \<Rightarrow> proximity \<Rightarrow> proximity" where
  "discover e x =
     (if e \<in> set (px_visited x) then x
      else x\<lparr>px_frontier := px_frontier x @ [e], px_visited := px_visited x @ [e]\<rparr>)"

text \<open>The body of the loop over rows; \<open>px_frontier\<close> is \<open>newEntities\<close> here.\<close>

definition visit_row :: "string list \<Rightarrow> nat \<Rightarrow> relation_row \<Rightarrow> proximity \<Rightarrow> proximity" where
  "visit_row candidateIds hop r x =
     (let i = rl_observation_id r;
          x1 = (if i \<in> set candidateIds \<and> i \<notin> fst ` set (px_distances x)
                then x\<lparr>px_distances := px_distances x @ [(i, hop)]\<rparr> else x)
      in discover (rl_dst r) (discover (rl_src r) x1))"

definition visit_batch :: "relation_row list \<Rightarrow> string list \<Rightarrow> nat \<Rightarrow> string list \<Rightarrow> proximity \<Rightarrow> proximity" where
  "visit_batch t candidateIds hop batch x =
     fold (visit_row candidateIds hop) (sql_where (\<lambda>r. rl_src r \<in> set batch \<or> rl_dst r \<in> set batch) t) x"

fun proximity_hops :: "relation_row list \<Rightarrow> string list \<Rightarrow> nat list \<Rightarrow> proximity \<Rightarrow> proximity" where
  "proximity_hops t candidateIds [] x = x"
| "proximity_hops t candidateIds (hop # hops) x =
     (if px_frontier x = [] then x
      else proximity_hops t candidateIds hops
        (fold (visit_batch t candidateIds hop) (batches (px_frontier x)) (x\<lparr>px_frontier := []\<rparr>)))"

definition computeQueryEntityProximity ::
  "(string \<Rightarrow> string list) \<Rightarrow> relation_row list \<Rightarrow> string \<Rightarrow> string list \<Rightarrow> (string \<times> rat) list" where
  "computeQueryEntityProximity extract t queryText candidateIds =
     (if candidateIds = [] then []
      else let queryEntityIds = extract queryText in
        if queryEntityIds = [] then []
        else map (\<lambda>(i, hop). (i, 1 / (1 + of_nat hop)))
          (px_distances (proximity_hops t candidateIds [1 ..< MAX_PROXIMITY_HOPS + 1]
             \<lparr>px_distances = [], px_frontier = distinct_first queryEntityIds,
              px_visited = distinct_first queryEntityIds\<rparr>)))"

subsection \<open>Reachability\<close>

definition ents :: "relation_row list \<Rightarrow> string set \<Rightarrow> string set" where
  "ents t I = {e. \<exists>r \<in> set t. rl_observation_id r \<in> I \<and> (e = rl_src r \<or> e = rl_dst r)}"

definition touching :: "relation_row list \<Rightarrow> string set \<Rightarrow> string set" where
  "touching t E = {rl_observation_id r | r. r \<in> set t \<and> (rl_src r \<in> E \<or> rl_dst r \<in> E)}"

text \<open>The observations within a number of hops: two observations are neighbours when they share an entity.\<close>

fun within_hops :: "relation_row list \<Rightarrow> string set \<Rightarrow> nat \<Rightarrow> string set" where
  "within_hops t S 0 = S"
| "within_hops t S (Suc k) = within_hops t S k \<union> touching t (ents t (within_hops t S k))"

lemma set_obs_entities: "(\<Union>i\<in>I. set (obs_entities t i)) = ents t I"
  by (auto simp: obs_entities_def ents_def)

lemma set_frontier_entities:
  "set (frontier_entities t x) = ents t (set (ex_frontier x)) - set (ex_entities x)"
  using set_obs_entities [of t "set (ex_frontier x)"] by (auto simp: frontier_entities_def)

lemma ents_Un: "ents t (I \<union> J) = ents t I \<union> ents t J" and touching_Un: "touching t (E \<union> F) = touching t E \<union> touching t F"
  by (auto simp: ents_def touching_def)

lemma ents_mono: "I \<subseteq> J \<Longrightarrow> ents t I \<subseteq> ents t J" and touching_mono: "E \<subseteq> F \<Longrightarrow> touching t E \<subseteq> touching t F"
  by (auto simp: ents_def touching_def)

lemma finite_ents: "finite (ents t I)"
proof (rule finite_subset)
  show "ents t I \<subseteq> rl_src ` set t \<union> rl_dst ` set t" by (auto simp: ents_def)
qed simp

lemma within_hops_mono: "k \<le> l \<Longrightarrow> within_hops t S k \<subseteq> within_hops t S l"
  by (induction l) (auto simp: le_Suc_eq)

lemma within_hops_add: "within_hops t (within_hops t S k) l = within_hops t S (k + l)"
  by (induction l) simp_all

lemma within_hops_fixed: "touching t (ents t S) \<subseteq> S \<Longrightarrow> within_hops t S k = S"
  by (induction k) auto

lemma within_hops_start: "S \<subseteq> T \<Longrightarrow> within_hops t S k \<subseteq> within_hops t T k"
proof (induction k)
  case (Suc k)
  with touching_mono [OF ents_mono, of "within_hops t S k" "within_hops t T k" t] show ?case by auto
qed simp

lemma batch_rows_set: "set (batch_rows t b limit) \<subseteq> touching t (set b)"
proof -
  have "set (distinct_first (map rl_observation_id (sql_where (\<lambda>r. rl_src r \<in> set b \<or> rl_dst r \<in> set b) t))) = touching t (set b)"
    by (auto simp: touching_def)
  then show ?thesis unfolding batch_rows_def by (metis set_take_subset)
qed

text \<open>What a sequence of insertions does to a state of the search.\<close>

definition extends_by :: "string list \<Rightarrow> expansion \<Rightarrow> expansion \<Rightarrow> bool" where
  "extends_by new x x' \<longleftrightarrow> ex_result x' = ex_result x @ new \<and> ex_frontier x' = ex_frontier x @ new \<and>
     ex_extra x' = ex_extra x + length new \<and> ex_entities x' = ex_entities x \<and>
     distinct new \<and> set new \<inter> set (ex_result x) = {}"

lemma extends_refl: "extends_by [] x x"
  by (simp add: extends_by_def)

lemma extends_trans: "extends_by new x y \<Longrightarrow> extends_by new' y z \<Longrightarrow> extends_by (new @ new') x z"
  by (auto simp: extends_by_def)

lemma add_rows_effect:
  assumes "ex_extra x < 20"
  shows "\<exists>new. extends_by new x (add_rows is x) \<and> set new \<subseteq> set is \<and> ex_extra (add_rows is x) \<le> 20 \<and>
    (ex_extra (add_rows is x) < 20 \<longrightarrow> set is \<subseteq> set (ex_result (add_rows is x)))"
  using assms
proof (induction "is" arbitrary: x)
  case (Cons i "is")
  show ?case
  proof (cases "i \<in> set (ex_result x)")
    case True
    from Cons.IH [OF Cons.prems] obtain new where new: "extends_by new x (add_rows is x)" "set new \<subseteq> set is"
      "ex_extra (add_rows is x) \<le> 20" "ex_extra (add_rows is x) < 20 \<longrightarrow> set is \<subseteq> set (ex_result (add_rows is x))" by blast
    with True show ?thesis by (intro exI [of _ new]) (auto simp: extends_by_def)
  next
    case False
    let ?x1 = "x\<lparr>ex_result := ex_result x @ [i], ex_frontier := ex_frontier x @ [i], ex_extra := ex_extra x + 1\<rparr>"
    have x1: "extends_by [i] x ?x1" using False by (simp add: extends_by_def)
    show ?thesis
    proof (cases "20 \<le> ex_extra ?x1")
      case True
      then have "add_rows (i # is) x = ?x1" using False by (simp add: MAX_EXTRA_OBS_def)
      with x1 True Cons.prems show ?thesis by (intro exI [of _ "[i]"]) simp
    next
      case F: False
      then have r: "add_rows (i # is) x = add_rows is ?x1" using False by (simp add: MAX_EXTRA_OBS_def)
      from Cons.IH [of ?x1] F obtain new where new: "extends_by new ?x1 (add_rows is ?x1)" "set new \<subseteq> set is"
        "ex_extra (add_rows is ?x1) \<le> 20" "ex_extra (add_rows is ?x1) < 20 \<longrightarrow> set is \<subseteq> set (ex_result (add_rows is ?x1))"
        by auto
      have "i \<in> set (ex_result (add_rows is ?x1))" using new(1) by (simp add: extends_by_def)
      with extends_trans [OF x1 new(1)] new(2-4) show ?thesis
        unfolding r by (intro exI [of _ "[i] @ new"]) auto
    qed
  qed
qed (auto intro: exI [of _ "[]"] extends_refl)

lemma add_batches_effect:
  assumes "ex_extra x \<le> 20"
  shows "\<exists>new. extends_by new x (add_batches t width bs x) \<and> set new \<subseteq> touching t (set (concat bs)) \<and>
    ex_extra (add_batches t width bs x) \<le> 20"
  using assms
proof (induction bs arbitrary: x)
  case (Cons b bs)
  show ?case
  proof (cases "20 \<le> ex_extra x")
    case True
    with Cons.prems show ?thesis by (intro exI [of _ "[]"]) (simp add: MAX_EXTRA_OBS_def extends_refl)
  next
    case False
    let ?rows = "batch_rows t b (MAX_EXTRA_OBS - ex_extra x + width)"
    from add_rows_effect [of x ?rows] False obtain new where new: "extends_by new x (add_rows ?rows x)"
      "set new \<subseteq> set ?rows" "ex_extra (add_rows ?rows x) \<le> 20" by auto
    from Cons.IH [OF new(3)] obtain new' where new': "extends_by new' (add_rows ?rows x) (add_batches t width bs (add_rows ?rows x))"
      "set new' \<subseteq> touching t (set (concat bs))" "ex_extra (add_batches t width bs (add_rows ?rows x)) \<le> 20" by blast
    have "set (new @ new') \<subseteq> touching t (set (concat (b # bs)))"
      using new(2) new'(2) batch_rows_set [of t b] by (auto simp: touching_Un)
    with extends_trans [OF new(1) new'(1)] new'(3) False show ?thesis
      by (intro exI [of _ "new @ new'"]) (simp add: MAX_EXTRA_OBS_def)
  qed
qed (auto intro: exI [of _ "[]"] extends_refl)

lemma single_batch_complete:
  assumes "ex_extra x < 20" "newE \<noteq> []" "length newE \<le> 50"
    and "touching t (set newE) \<inter> set (ex_result x) \<subseteq> set F" "length F \<le> width"
    and "ex_extra (add_batches t width (batches newE) x) < 20"
  shows "touching t (set newE) \<subseteq> set (ex_result (add_batches t width (batches newE) x))"
proof -
  define D where "D = distinct_first (map rl_observation_id (sql_where (\<lambda>r. rl_src r \<in> set newE \<or> rl_dst r \<in> set newE) t))"
  have D: "set D = touching t (set newE)" "distinct D" by (auto simp: D_def touching_def)
  define n where "n = 20 - ex_extra x + width"
  have x': "add_batches t width (batches newE) x = add_rows (take n D) x"
    using assms(1-3) by (simp add: batches_single batch_rows_def D_def n_def MAX_EXTRA_OBS_def)
  from add_rows_effect [OF assms(1), of "take n D"] assms(6) obtain new where
    new: "extends_by new x (add_rows (take n D) x)" "set (take n D) \<subseteq> set (ex_result (add_rows (take n D) x))"
    unfolding x' by blast
  show ?thesis
  proof (cases "length D \<le> n")
    case True
    with new(2) D(1) show ?thesis by (simp add: x')
  next
    case False
    have "set (take n D) \<subseteq> set F \<union> set new"
      using new assms(4) D(1) set_take_subset [of n D] by (auto simp: extends_by_def)
    then have "card (set (take n D)) \<le> card (set F \<union> set new)" by (intro card_mono) simp_all
    also have "\<dots> \<le> card (set F) + card (set new)" by (rule card_Un_le)
    also have "\<dots> \<le> width + length new" using assms(5) card_length [of F] card_length [of new] by linarith
    finally have "n \<le> width + length new" using False D(2) by (simp add: distinct_card)
    then have "20 \<le> ex_extra (add_rows (take n D) x)"
      using new(1) assms(1) by (simp add: extends_by_def n_def)
    with assms(6) show ?thesis by (simp add: x')
  qed
qed

lemma expand_hops_sound:
  assumes "ex_extra x \<le> 20" "distinct (ex_result x)" "set (ex_frontier x) \<subseteq> set (ex_result x)"
  shows "set (ex_result x) \<subseteq> set (ex_result (expand_hops t hops x)) \<and>
    set (ex_result (expand_hops t hops x)) \<subseteq> within_hops t (set (ex_result x)) hops \<and>
    distinct (ex_result (expand_hops t hops x)) \<and> ex_extra (expand_hops t hops x) \<le> 20 \<and>
    ex_extra x \<le> ex_extra (expand_hops t hops x) \<and>
    length (ex_result (expand_hops t hops x)) + ex_extra x = length (ex_result x) + ex_extra (expand_hops t hops x)"
  using assms
proof (induction hops arbitrary: x)
  case (Suc hops)
  let ?newE = "frontier_entities t x"
  let ?x0 = "x\<lparr>ex_entities := ex_entities x @ ?newE, ex_frontier := []\<rparr>"
  let ?x1 = "add_batches t (length (ex_frontier x)) (batches ?newE) ?x0"
  show ?case
  proof (cases "ex_frontier x = [] \<or> 20 \<le> ex_extra x \<or> ?newE = []")
    case True
    then have "expand_hops t (Suc hops) x = x" by (auto simp: MAX_EXTRA_OBS_def Let_def)
    with Suc.prems within_hops_mono [of 0 "Suc hops" t "set (ex_result x)"] show ?thesis by simp
  next
    case False
    then have e: "expand_hops t (Suc hops) x = expand_hops t hops ?x1" by (simp add: MAX_EXTRA_OBS_def Let_def)
    from add_batches_effect [of ?x0 t "length (ex_frontier x)" "batches ?newE"] Suc.prems(1) obtain new where
      new: "extends_by new ?x0 ?x1" "set new \<subseteq> touching t (set ?newE)" "ex_extra ?x1 \<le> 20" by auto
    have "set ?newE \<subseteq> ents t (set (ex_result x))"
      unfolding set_frontier_entities using ents_mono [OF Suc.prems(3), of t] by blast
    then have sub: "set (ex_result ?x1) \<subseteq> within_hops t (set (ex_result x)) 1"
      using new(1,2) touching_mono [of "set ?newE" "ents t (set (ex_result x))" t] by (auto simp: extends_by_def)
    have d: "distinct (ex_result ?x1)" "set (ex_frontier ?x1) \<subseteq> set (ex_result ?x1)"
      using new(1) Suc.prems(2) by (auto simp: extends_by_def)
    note ih = Suc.IH [OF new(3) d]
    have "within_hops t (set (ex_result ?x1)) hops \<subseteq> within_hops t (set (ex_result x)) (Suc hops)"
      using within_hops_start [OF sub, of t hops] within_hops_add [of t "set (ex_result x)" 1 hops] by simp
    with ih new(1) show ?thesis unfolding e by (auto simp: extends_by_def)
  qed
qed simp

lemma expand_hops_complete:
  assumes "ex_extra x < 20" "distinct (ex_frontier x)" "set (ex_frontier x) \<subseteq> set (ex_result x)"
    and "ents t (set (ex_result x) - set (ex_frontier x)) \<subseteq> set (ex_entities x)"
    and "touching t (set (ex_entities x)) \<subseteq> set (ex_result x)"
    and "card (ents t UNIV) \<le> 50" "distinct (ex_result x)"
    and "ex_extra (expand_hops t hops x) < 20"
  shows "within_hops t (set (ex_result x)) hops \<subseteq> set (ex_result (expand_hops t hops x))"
  using assms
proof (induction hops arbitrary: x)
  case (Suc hops)
  let ?F = "set (ex_frontier x)" and ?R = "set (ex_result x)" and ?E = "set (ex_entities x)"
  let ?newE = "frontier_entities t x"
  let ?x0 = "x\<lparr>ex_entities := ex_entities x @ ?newE, ex_frontier := []\<rparr>"
  let ?x1 = "add_batches t (length (ex_frontier x)) (batches ?newE) ?x0"
  have R: "?R = (?R - ?F) \<union> ?F" using Suc.prems(3) by auto
  have "ents t ?R = ents t (?R - ?F) \<union> ents t ?F" using R ents_Un by metis
  then have entsR: "ents t ?R \<subseteq> ?E \<union> set ?newE"
    using Suc.prems(4) unfolding set_frontier_entities by blast
  show ?case
  proof (cases "?newE = []")
    case True
    then have e: "expand_hops t (Suc hops) x = x" by (auto simp: Let_def)
    have "touching t (ents t ?R) \<subseteq> ?R"
      using touching_mono [OF entsR, of t] True Suc.prems(5) by auto
    then show ?thesis unfolding e by (simp only: within_hops_fixed)
  next
    case False
    then have F: "ex_frontier x \<noteq> []" by (auto simp: frontier_entities_def distinct_first_def)
    have e: "expand_hops t (Suc hops) x = expand_hops t hops ?x1"
      using False F Suc.prems(1) by (simp add: MAX_EXTRA_OBS_def Let_def)
    from add_batches_effect [of ?x0 t "length (ex_frontier x)" "batches ?newE"] Suc.prems(1) obtain new where
      new: "extends_by new ?x0 ?x1" "set new \<subseteq> touching t (set ?newE)" "ex_extra ?x1 \<le> 20" by auto
    have d1: "distinct (ex_result ?x1)" "distinct (ex_frontier ?x1)" "set (ex_frontier ?x1) \<subseteq> set (ex_result ?x1)"
      using new(1) Suc.prems(7) by (auto simp: extends_by_def)
    have "ex_extra ?x1 < 20"
      using expand_hops_sound [OF new(3) d1(1,3), of t hops] Suc.prems(8) unfolding e by linarith
    have len: "length ?newE \<le> 50"
    proof -
      have "set ?newE \<subseteq> ents t UNIV" unfolding set_frontier_entities using ents_mono [of ?F UNIV t] by blast
      then have "card (set ?newE) \<le> 50" using card_mono [OF finite_ents] Suc.prems(6) le_trans by blast
      moreover have "distinct ?newE" by (simp add: frontier_entities_def)
      ultimately show ?thesis by (simp add: distinct_card)
    qed
    have old: "touching t (set ?newE) \<inter> ?R \<subseteq> ?F"
    proof
      fix i assume i: "i \<in> touching t (set ?newE) \<inter> ?R"
      show "i \<in> ?F"
      proof (rule ccontr)
        assume "i \<notin> ?F"
        with i have "ents t {i} \<subseteq> ?E" using ents_mono [of "{i}" "?R - ?F" t] Suc.prems(4) by blast
        moreover have "ents t {i} \<inter> set ?newE \<noteq> {}" using i by (auto simp: touching_def ents_def)
        moreover have "set ?newE \<inter> ?E = {}" by (auto simp: set_frontier_entities)
        ultimately show False by blast
      qed
    qed
    have all: "touching t (set ?newE) \<subseteq> set (ex_result ?x1)"
      using single_batch_complete [of ?x0 ?newE t "ex_frontier x" "length (ex_frontier x)"]
        \<open>ex_extra ?x1 < 20\<close> Suc.prems(1) False len old by simp
    have A: "ents t (set (ex_result ?x1) - set (ex_frontier ?x1)) \<subseteq> set (ex_entities ?x1)"
    proof -
      have "set (ex_result ?x1) - set (ex_frontier ?x1) \<subseteq> ?R" using new(1) by (auto simp: extends_by_def)
      with ents_mono [OF this, of t] entsR new(1) show ?thesis by (auto simp: extends_by_def)
    qed
    have B: "touching t (set (ex_entities ?x1)) \<subseteq> set (ex_result ?x1)"
      using all Suc.prems(5) new(1) by (auto simp: extends_by_def touching_Un)
    have one: "within_hops t ?R 1 \<subseteq> set (ex_result ?x1)"
      using touching_mono [OF entsR, of t] Suc.prems(5) all new(1) by (auto simp: touching_Un extends_by_def)
    have "within_hops t ?R (Suc hops) \<subseteq> within_hops t (set (ex_result ?x1)) hops"
      using within_hops_start [OF one, of t hops] within_hops_add [of t ?R 1 hops] by simp
    also have "\<dots> \<subseteq> set (ex_result (expand_hops t hops ?x1))"
      by (rule Suc.IH [OF \<open>ex_extra ?x1 < 20\<close> d1(2,3) A B Suc.prems(6) d1(1)]) (use Suc.prems(8) in \<open>simp only: e\<close>)
    finally show ?thesis unfolding e .
  qed
qed simp

text \<open>
  C39. The expansion of search results is a bounded breadth-first search: it keeps the seeds, adds at most
  20 observations, each within the depth (at most five hops) over shared entities; and when at most 50
  entities are known it adds 20 or finds every observation within that depth.
\<close>

theorem expansion_is_bounded_reachability:
  "distinct (expandObservationsViaGraph t seeds depth) \<and> set seeds \<subseteq> set (expandObservationsViaGraph t seeds depth) \<and>
   set (expandObservationsViaGraph t seeds depth) \<subseteq> within_hops t (set seeds) (nat (min depth 5)) \<and>
   length (expandObservationsViaGraph t seeds depth) \<le> card (set seeds) + 20 \<and>
   (card (rl_src ` set t \<union> rl_dst ` set t) \<le> 50 \<longrightarrow>
      length (expandObservationsViaGraph t seeds depth) = card (set seeds) + 20 \<or>
      set (expandObservationsViaGraph t seeds depth) = within_hops t (set seeds) (nat (min depth 5)))"
proof (cases "seeds = [] \<or> depth \<le> 0")
  case True
  have "within_hops t {} k = {}" for k by (rule within_hops_fixed) (simp add: ents_def touching_def)
  with True show ?thesis
    by (auto simp: expandObservationsViaGraph_def length_distinct_first)
next
  case False
  let ?x = "\<lparr>ex_result = distinct_first seeds, ex_frontier = distinct_first seeds, ex_entities = [], ex_extra = 0\<rparr>"
  let ?n = "nat (min depth 5)"
  have r: "expandObservationsViaGraph t seeds depth = ex_result (expand_hops t ?n ?x)"
    using False by (simp add: expandObservationsViaGraph_def MAX_DEPTH_BOUND_def Let_def)
  have all: "ents t UNIV = rl_src ` set t \<union> rl_dst ` set t" by (auto simp: ents_def)
  have sound: "set seeds \<subseteq> set (ex_result (expand_hops t ?n ?x))"
    "set (ex_result (expand_hops t ?n ?x)) \<subseteq> within_hops t (set seeds) ?n" "distinct (ex_result (expand_hops t ?n ?x))"
    "ex_extra (expand_hops t ?n ?x) \<le> 20"
    "length (ex_result (expand_hops t ?n ?x)) = card (set seeds) + ex_extra (expand_hops t ?n ?x)"
    using expand_hops_sound [of ?x t ?n] by (simp_all add: length_distinct_first)
  have "within_hops t (set seeds) ?n \<subseteq> set (ex_result (expand_hops t ?n ?x))"
    if "card (ents t UNIV) \<le> 50" "ex_extra (expand_hops t ?n ?x) < 20"
    using expand_hops_complete [of ?x t ?n] that by (simp add: ents_def touching_def)
  then have "length (ex_result (expand_hops t ?n ?x)) = card (set seeds) + 20 \<or>
      set (ex_result (expand_hops t ?n ?x)) = within_hops t (set seeds) ?n"
    if "card (ents t UNIV) \<le> 50"
    using that sound(2,4,5) by (cases "ex_extra (expand_hops t ?n ?x) < 20") auto
  with sound show ?thesis unfolding r all [symmetric] by (intro conjI impI) simp_all
qed

definition sample_relation :: "string \<Rightarrow> string \<Rightarrow> string \<Rightarrow> relation_row" where
  "sample_relation i a b = \<lparr>rl_src = a, rl_dst = b, rl_kind = ''co'', rl_strength = 1, rl_observation_id = i,
     rl_created_at = ''t''\<rparr>"

definition sample_relations :: "relation_row list" where
  "sample_relations = [sample_relation ''o1'' ''a'' ''b'', sample_relation ''o2'' ''b'' ''c'', sample_relation ''o3'' ''c'' ''d'']"

theorem expansion_is_bounded_reachability_witness:
  "set (expandObservationsViaGraph sample_relations [''o1''] 2) = within_hops sample_relations {''o1''} 2 \<and>
   expandObservationsViaGraph sample_relations [''o1''] 2 = [''o1'', ''o2'', ''o3'']"
proof -
  have e: "expandObservationsViaGraph sample_relations [''o1''] 2 = [''o1'', ''o2'', ''o3'']" by code_simp
  have "card (rl_src ` set sample_relations \<union> rl_dst ` set sample_relations) \<le> 50"
    by (simp add: sample_relations_def sample_relation_def card_insert_if)
  with expansion_is_bounded_reachability [of sample_relations "[''o1'']" 2] e show ?thesis by simp
qed

subsection \<open>Distances\<close>

definition row_ents :: "relation_row list \<Rightarrow> string set \<Rightarrow> string set" where
  "row_ents t E = {e. \<exists>r \<in> set t. (rl_src r \<in> E \<or> rl_dst r \<in> E) \<and> (e = rl_src r \<or> e = rl_dst r)}"

text \<open>The entities within a number of relations of the entities of the query.\<close>

fun entity_level :: "relation_row list \<Rightarrow> string set \<Rightarrow> nat \<Rightarrow> string set" where
  "entity_level t Q 0 = Q"
| "entity_level t Q (Suc k) = entity_level t Q k \<union> row_ents t (entity_level t Q k)"

definition first_met :: "relation_row list \<Rightarrow> string set \<Rightarrow> string \<Rightarrow> nat \<Rightarrow> bool" where
  "first_met t Q i k \<longleftrightarrow> i \<in> touching t (entity_level t Q k) \<and> (\<forall>l < k. i \<notin> touching t (entity_level t Q l))"

lemma entity_level_mono: "k \<le> l \<Longrightarrow> entity_level t Q k \<subseteq> entity_level t Q l"
  by (induction l) (auto simp: le_Suc_eq)

definition rows_ents :: "relation_row list \<Rightarrow> string set" where
  "rows_ents rows = rl_src ` set rows \<union> rl_dst ` set rows"

text \<open>From \<open>x\<close> to \<open>x'\<close> the entities \<open>E\<close> and the observations \<open>I\<close> were seen at a hop.\<close>

definition visits :: "string list \<Rightarrow> nat \<Rightarrow> string set \<Rightarrow> string set \<Rightarrow> proximity \<Rightarrow> proximity \<Rightarrow> bool" where
  "visits C hop E I x x' \<longleftrightarrow> (\<exists>new met. px_visited x' = px_visited x @ new \<and> px_frontier x' = px_frontier x @ new \<and>
     set new = E - set (px_visited x) \<and> px_distances x' = px_distances x @ map (\<lambda>i. (i, hop)) met \<and>
     set met = (set C \<inter> I) - fst ` set (px_distances x))"

lemma visits_trans:
  assumes "visits C hop E I x y" "visits C hop F J y z"
  shows "visits C hop (E \<union> F) (I \<union> J) x z"
proof -
  obtain n1 m1 where 1: "px_visited y = px_visited x @ n1" "px_frontier y = px_frontier x @ n1" "set n1 = E - set (px_visited x)"
    "px_distances y = px_distances x @ map (\<lambda>i. (i, hop)) m1" "set m1 = (set C \<inter> I) - fst ` set (px_distances x)"
    using assms(1) unfolding visits_def by blast
  obtain n2 m2 where 2: "px_visited z = px_visited y @ n2" "px_frontier z = px_frontier y @ n2" "set n2 = F - set (px_visited y)"
    "px_distances z = px_distances y @ map (\<lambda>i. (i, hop)) m2" "set m2 = (set C \<inter> J) - fst ` set (px_distances y)"
    using assms(2) unfolding visits_def by blast
  have "fst ` set (px_distances y) = fst ` set (px_distances x) \<union> set m1"
    unfolding 1(4) by (simp add: image_Un image_image)
  with 1(5) 2(5) have "set (m1 @ m2) = (set C \<inter> (I \<union> J)) - fst ` set (px_distances x)" by auto
  moreover have "set (n1 @ n2) = (E \<union> F) - set (px_visited x)" using 1(1,3) 2(3) by auto
  ultimately show ?thesis
    unfolding visits_def using 1(1,2,4) 2(1,2,4) by (intro exI [of _ "n1 @ n2"] exI [of _ "m1 @ m2"]) simp
qed

lemma visits_discover: "visits C hop {e} {} x (discover e x)"
  by (auto simp: visits_def discover_def intro: exI [of _ "[]"] exI [of _ "[e]"])

lemma visits_meet: "visits C hop {} {i} x (if i \<in> set C \<and> i \<notin> fst ` set (px_distances x)
    then x\<lparr>px_distances := px_distances x @ [(i, hop)]\<rparr> else x)"
  unfolding visits_def
  by (intro exI [of _ "[]"] exI [of _ "if i \<in> set C \<and> i \<notin> fst ` set (px_distances x) then [i] else []"]) auto

lemma visits_row: "visits C hop {rl_src r, rl_dst r} {rl_observation_id r} x (visit_row C hop r x)"
proof -
  have sets: "{} \<union> {rl_src r} \<union> {rl_dst r} = {rl_src r, rl_dst r}" "{rl_observation_id r} \<union> {} \<union> {} = {rl_observation_id r}"
    by auto
  show ?thesis
    unfolding visit_row_def Let_def
    using visits_trans [OF visits_trans [OF visits_meet [of C hop "rl_observation_id r" x] visits_discover [of C hop "rl_src r"]]
        visits_discover [of C hop "rl_dst r"]]
    unfolding sets .
qed

lemma visits_rows: "visits C hop (rows_ents rows) (rl_observation_id ` set rows) x (fold (visit_row C hop) rows x)"
proof (induction rows arbitrary: x)
  case Nil
  then show ?case by (simp add: visits_def rows_ents_def)
next
  case (Cons r rows)
  have "rows_ents (r # rows) = {rl_src r, rl_dst r} \<union> rows_ents rows" by (auto simp: rows_ents_def)
  with visits_trans [OF visits_row Cons.IH] show ?case by simp
qed

lemma visit_batches: "fold (visit_batch t C hop) bs x =
    fold (visit_row C hop) (concat (map (\<lambda>b. sql_where (\<lambda>r. rl_src r \<in> set b \<or> rl_dst r \<in> set b) t) bs)) x"
  by (induction bs arbitrary: x) (simp_all add: visit_batch_def)

lemma batches_rows: "set (concat (map (\<lambda>b. sql_where (\<lambda>r. rl_src r \<in> set b \<or> rl_dst r \<in> set b) t) (batches es))) =
    {r \<in> set t. rl_src r \<in> set es \<or> rl_dst r \<in> set es}"
proof -
  have "set (concat (map (\<lambda>b. sql_where (\<lambda>r. rl_src r \<in> set b \<or> rl_dst r \<in> set b) t) bs)) =
    {r \<in> set t. rl_src r \<in> set (concat bs) \<or> rl_dst r \<in> set (concat bs)}" for bs
    by (induction bs) auto
  from this [of "batches es"] show ?thesis by simp
qed

definition proximity_inv :: "relation_row list \<Rightarrow> string set \<Rightarrow> string list \<Rightarrow> nat \<Rightarrow> proximity \<Rightarrow> bool" where
  "proximity_inv t Q C k x \<longleftrightarrow> set (px_visited x) = entity_level t Q k \<and>
     (\<forall>i hop. (i, hop) \<in> set (px_distances x) \<longleftrightarrow> i \<in> set C \<and> (\<exists>l < k. hop = Suc l \<and> first_met t Q i l))"

definition frontier_ok :: "relation_row list \<Rightarrow> string set \<Rightarrow> nat \<Rightarrow> proximity \<Rightarrow> bool" where
  "frontier_ok t Q k x \<longleftrightarrow> set (px_frontier x) \<subseteq> entity_level t Q k \<and>
     entity_level t Q k \<subseteq> set (px_frontier x) \<union> (case k of 0 \<Rightarrow> {} | Suc l \<Rightarrow> entity_level t Q l)"

definition hop_state :: "relation_row list \<Rightarrow> string list \<Rightarrow> nat \<Rightarrow> proximity \<Rightarrow> proximity" where
  "hop_state t C k x = fold (visit_batch t C (Suc k)) (batches (px_frontier x)) (x\<lparr>px_frontier := []\<rparr>)"

lemma touched_frontier:
  assumes "frontier_ok t Q k x"
  shows "touching t (set (px_frontier x)) \<subseteq> touching t (entity_level t Q k)"
    and "i \<in> touching t (entity_level t Q k) \<Longrightarrow> i \<in> touching t (set (px_frontier x)) \<or> (\<exists>l < k. i \<in> touching t (entity_level t Q l))"
    and "row_ents t (set (px_frontier x)) \<union> entity_level t Q k = entity_level t Q (Suc k)"
proof -
  show "touching t (set (px_frontier x)) \<subseteq> touching t (entity_level t Q k)"
    using assms by (intro touching_mono) (simp add: frontier_ok_def)
  show "i \<in> touching t (entity_level t Q k) \<Longrightarrow> i \<in> touching t (set (px_frontier x)) \<or> (\<exists>l < k. i \<in> touching t (entity_level t Q l))"
  proof (cases k)
    case 0
    assume "i \<in> touching t (entity_level t Q k)"
    with 0 assms touching_mono [of "entity_level t Q k" "set (px_frontier x)" t] show ?thesis by (auto simp: frontier_ok_def)
  next
    case (Suc l)
    assume "i \<in> touching t (entity_level t Q k)"
    moreover have "entity_level t Q k \<subseteq> set (px_frontier x) \<union> entity_level t Q l"
      using assms unfolding frontier_ok_def Suc nat.case by blast
    ultimately have "i \<in> touching t (set (px_frontier x) \<union> entity_level t Q l)" using touching_mono by blast
    then show ?thesis unfolding Suc by (auto simp: touching_Un)
  qed
  have "row_ents t (entity_level t Q k) \<subseteq> row_ents t (set (px_frontier x)) \<union> entity_level t Q k"
  proof (cases k)
    case (Suc l)
    have "row_ents t (entity_level t Q k) \<subseteq> row_ents t (set (px_frontier x)) \<union> row_ents t (entity_level t Q l)"
    proof
      fix e assume "e \<in> row_ents t (entity_level t Q k)"
      then obtain r where r: "r \<in> set t" "rl_src r \<in> entity_level t Q k \<or> rl_dst r \<in> entity_level t Q k" "e = rl_src r \<or> e = rl_dst r"
        unfolding row_ents_def by blast
      moreover have "entity_level t Q k \<subseteq> set (px_frontier x) \<union> entity_level t Q l"
        using assms unfolding frontier_ok_def Suc nat.case by blast
      ultimately have "(rl_src r \<in> set (px_frontier x) \<or> rl_dst r \<in> set (px_frontier x)) \<or>
          (rl_src r \<in> entity_level t Q l \<or> rl_dst r \<in> entity_level t Q l)" by blast
      with r(1,3) show "e \<in> row_ents t (set (px_frontier x)) \<union> row_ents t (entity_level t Q l)"
        unfolding row_ents_def by blast
    qed
    then show ?thesis unfolding Suc by auto
  qed (use assms in \<open>auto simp: frontier_ok_def row_ents_def\<close>)
  moreover have "row_ents t (set (px_frontier x)) \<subseteq> row_ents t (entity_level t Q k)"
    using assms by (auto simp: frontier_ok_def row_ents_def)
  ultimately show "row_ents t (set (px_frontier x)) \<union> entity_level t Q k = entity_level t Q (Suc k)" by auto
qed

lemma hop_visits: "visits C (Suc k) (row_ents t (set (px_frontier x))) (touching t (set (px_frontier x)))
    (x\<lparr>px_frontier := []\<rparr>) (hop_state t C k x)"
proof -
  let ?rows = "concat (map (\<lambda>b. sql_where (\<lambda>r. rl_src r \<in> set b \<or> rl_dst r \<in> set b) t) (batches (px_frontier x)))"
  have "rows_ents ?rows = row_ents t (set (px_frontier x))" "rl_observation_id ` set ?rows = touching t (set (px_frontier x))"
    unfolding rows_ents_def batches_rows by (auto simp: row_ents_def touching_def)
  then show ?thesis
    unfolding hop_state_def visit_batches using visits_rows [of C "Suc k" ?rows "x\<lparr>px_frontier := []\<rparr>"] by simp
qed

lemma hop_inv:
  assumes "proximity_inv t Q C k x" "frontier_ok t Q k x"
  shows "proximity_inv t Q C (Suc k) (hop_state t C k x) \<and> frontier_ok t Q (Suc k) (hop_state t C k x)"
proof -
  note T = touched_frontier [OF assms(2)]
  obtain new met where h: "px_visited (hop_state t C k x) = px_visited x @ new" "px_frontier (hop_state t C k x) = new"
    "set new = row_ents t (set (px_frontier x)) - set (px_visited x)"
    "px_distances (hop_state t C k x) = px_distances x @ map (\<lambda>i. (i, Suc k)) met"
    "set met = (set C \<inter> touching t (set (px_frontier x))) - fst ` set (px_distances x)"
    using hop_visits [of C k t x] by (auto simp: visits_def)
  have v: "set (px_visited x) = entity_level t Q k" using assms(1) by (simp add: proximity_inv_def)
  have keys: "i \<in> fst ` set (px_distances x) \<longleftrightarrow> i \<in> set C \<and> (\<exists>l < k. first_met t Q i l)" for i
    using assms(1) by (force simp: proximity_inv_def image_iff)
  have some: "(\<exists>l < k. first_met t Q i l) \<longleftrightarrow> (\<exists>l < k. i \<in> touching t (entity_level t Q l))" for i
  proof
    assume "\<exists>l < k. i \<in> touching t (entity_level t Q l)"
    then obtain l where "l < k" "i \<in> touching t (entity_level t Q l)" by blast
    then have "first_met t Q i (LEAST l. i \<in> touching t (entity_level t Q l)) \<and> (LEAST l. i \<in> touching t (entity_level t Q l)) < k"
      unfolding first_met_def by (metis LeastI Least_le not_less_Least order_le_less_trans)
    then show "\<exists>l < k. first_met t Q i l" by blast
  qed (auto simp: first_met_def)
  have met: "i \<in> set met \<longleftrightarrow> i \<in> set C \<and> first_met t Q i k" for i
    unfolding h(5) using T(1) T(2) [of i] keys [of i] some [of i] by (auto simp: first_met_def)
  have "proximity_inv t Q C (Suc k) (hop_state t C k x)"
    unfolding proximity_inv_def h(1,4) using T(3) h(3) v met assms(1)
    by (auto simp: proximity_inv_def less_Suc_eq)
  moreover have "frontier_ok t Q (Suc k) (hop_state t C k x)"
    using T(3) h(2,3) v by (auto simp: frontier_ok_def)
  ultimately show ?thesis ..
qed

lemma entity_level_fixed:
  assumes "entity_level t Q (Suc j) = entity_level t Q j" "j \<le> l"
  shows "entity_level t Q l = entity_level t Q j"
  using assms(2)
proof (induction l)
  case (Suc l)
  show ?case
  proof (cases "Suc l = j")
    case False
    with Suc have "entity_level t Q l = entity_level t Q j" by simp
    with assms(1) show ?thesis by simp
  qed simp
qed simp

lemma empty_frontier:
  assumes "frontier_ok t Q k x" "px_frontier x = []" "k \<le> l"
  shows "\<not> first_met t Q i l"
proof (cases k)
  case 0
  then have "Q = {}" using assms(1,2) by (simp add: frontier_ok_def)
  then have "entity_level t Q m = {}" for m by (induction m) (auto simp: row_ents_def)
  then show ?thesis by (simp add: first_met_def touching_def)
next
  case (Suc j)
  then have "entity_level t Q (Suc j) \<subseteq> entity_level t Q j" using assms(1,2) by (simp add: frontier_ok_def)
  with entity_level_mono [of j "Suc j" t Q] have "entity_level t Q (Suc j) = entity_level t Q j" by auto
  from entity_level_fixed [OF this, of l] Suc assms(3) have "entity_level t Q l = entity_level t Q j" "j < l" by simp_all
  then show ?thesis unfolding first_met_def by metis
qed

lemma proximity_hops_effect:
  assumes "proximity_inv t Q C k x" "frontier_ok t Q k x" "k \<le> m"
  shows "(i, hop) \<in> set (px_distances (proximity_hops t C [Suc k ..< Suc m] x)) \<longleftrightarrow>
    i \<in> set C \<and> (\<exists>l < m. hop = Suc l \<and> first_met t Q i l)"
  using assms
proof (induction "m - k" arbitrary: k x)
  case 0
  then show ?case by (simp add: proximity_inv_def)
next
  case (Suc d)
  then have upt: "[Suc k ..< Suc m] = Suc k # [Suc (Suc k) ..< Suc m]" by (simp add: upt_rec)
  show ?case
  proof (cases "px_frontier x = []")
    case True
    have "l < k" if "first_met t Q i l" for l
      using that empty_frontier [OF Suc.prems(2) True, of l i] by (cases "l < k") auto
    then have "(\<exists>l < m. hop = Suc l \<and> first_met t Q i l) \<longleftrightarrow> (\<exists>l < k. hop = Suc l \<and> first_met t Q i l)"
      using Suc.prems(3) by (blast intro: order_less_le_trans)
    moreover have "proximity_hops t C [Suc k ..< Suc m] x = x" unfolding upt using True by simp
    ultimately show ?thesis using Suc.prems(1) by (simp only: proximity_inv_def)
  next
    case False
    have m: "d = m - Suc k" "Suc k \<le> m" using Suc.hyps(2) by simp_all
    have "proximity_hops t C [Suc k ..< Suc m] x = proximity_hops t C [Suc (Suc k) ..< Suc m] (hop_state t C k x)"
      unfolding upt using False by (simp add: hop_state_def del: upt_Suc)
    with Suc.hyps(1) [OF m(1) _ _ m(2)] hop_inv [OF Suc.prems(1,2)] show ?thesis by simp
  qed
qed

text \<open>
  C40. The proximity of a candidate to a query is its distance in the graph of entities: a candidate gets
  the score 1 / (1 + hops) for the least number of hops, at most three, at which one of its relations
  touches an entity reached from the entities of the query, and no score when there is none.
\<close>

theorem proximity_is_shortest_distance:
  "(i, s) \<in> set (computeQueryEntityProximity extract t queryText candidateIds) \<longleftrightarrow>
     i \<in> set candidateIds \<and> (\<exists>k < 3. s = 1 / (2 + of_nat k) \<and> first_met t (set (extract queryText)) i k)"
proof (cases "candidateIds = [] \<or> extract queryText = []")
  case True
  have "entity_level t {} m = {}" for m by (induction m) (auto simp: row_ents_def)
  with True show ?thesis by (auto simp: computeQueryEntityProximity_def first_met_def touching_def)
next
  case False
  let ?Q = "set (extract queryText)"
  let ?x = "\<lparr>px_distances = [], px_frontier = distinct_first (extract queryText), px_visited = distinct_first (extract queryText)\<rparr>"
  have "proximity_inv t ?Q candidateIds 0 ?x" "frontier_ok t ?Q 0 ?x"
    by (simp_all add: proximity_inv_def frontier_ok_def)
  from proximity_hops_effect [OF this, of 3] have
    "(i, hop) \<in> set (px_distances (proximity_hops t candidateIds [1 ..< 4] ?x)) \<longleftrightarrow>
       i \<in> set candidateIds \<and> (\<exists>l < 3. hop = Suc l \<and> first_met t ?Q i l)" for hop by simp
  moreover have "computeQueryEntityProximity extract t queryText candidateIds =
      map (\<lambda>(i, hop). (i, 1 / (1 + of_nat hop))) (px_distances (proximity_hops t candidateIds [1 ..< 4] ?x))"
    using False by (simp add: computeQueryEntityProximity_def MAX_PROXIMITY_HOPS_def Let_def)
  ultimately show ?thesis by (force simp: image_iff)
qed

end
