(* ===== verification/Feed_Cursor.thy ===== *)
theory Feed_Cursor
  imports Json_Parse Auth
begin

text \<open>
  The cursor of the feed: \<open>encodeFeedCursor\<close> and \<open>decodeFeedCursor\<close> of
  \<open>memory-server/src/core/observation-store.ts\<close>, with the parts of the runtime they use, the UTF-8 and
  base64url conversions of \<open>Buffer\<close>. Decoding skips what is not in an alphabet and ends at a padding sign;
  a byte sequence that is not the encoding of a character below 256 stands as question marks.
\<close>

subsection \<open>Bytes and characters\<close>

fun utf8_text :: "nat list \<Rightarrow> string" where
  "utf8_text [] = []"
| "utf8_text (b # bs) =
     (if b < 128 then char_of b # utf8_text bs
      else (case bs of
              c # cs \<Rightarrow>
                if 194 \<le> b \<and> b < 224 \<and> 128 \<le> c \<and> c < 192
                then code_unit ((b - 192) * 64 + (c - 128)) # utf8_text cs
                else CHR ''?'' # utf8_text bs
            | [] \<Rightarrow> ''?''))"

lemma utf8_text_char:
  "utf8_text (utf8_bytes [c] @ bs) = c # utf8_text bs"
proof -
  let ?n = "of_char c :: nat"
  have n: "?n < 256" by (rule nat_of_char_less_256)
  have q: "?n div 64 < 4" by (rule less_mult_imp_div_less) simp
  show ?thesis
  proof (cases "?n < 128")
    case True
    then show ?thesis by (simp add: utf8_bytes_def Let_def)
  next
    case False
    have "2 \<le> ?n div 64" "?n div 64 < 4" "?n mod 64 < 64" using False q by auto
    moreover have "code_unit (?n div 64 * 64 + ?n mod 64) = c" using n by (simp add: code_unit_def)
    ultimately show ?thesis using False by (simp add: utf8_bytes_def Let_def)
  qed
qed

lemma utf8_round_trip: "utf8_text (utf8_bytes s) = s"
proof (induction s)
  case (Cons c s)
  have "utf8_bytes (c # s) = utf8_bytes [c] @ utf8_bytes s" by (simp add: utf8_bytes_def)
  then show ?case using Cons utf8_text_char [of c "utf8_bytes s"] by simp
qed (simp add: utf8_bytes_def)

lemma utf8_bytes_small: "\<forall>b \<in> set (utf8_bytes s). b < 256"
proof -
  have "b < 256" if "b \<in> set (utf8_bytes [c])" for b c
  proof -
    have "(of_char c :: nat) div 64 < 4" by (rule less_mult_imp_div_less) simp
    then show ?thesis using that by (auto simp: utf8_bytes_def Let_def split: if_splits)
  qed
  then show ?thesis by (auto simp: utf8_bytes_def)
qed

subsection \<open>base64url\<close>

definition base64_char :: "nat \<Rightarrow> char" where
  "base64_char k =
     (if k < 26 then char_of (65 + k) else if k < 52 then char_of (71 + k)
      else if k < 62 then char_of (k - 4) else if k = 62 then CHR ''-'' else CHR ''_'')"

definition base64_value :: "char \<Rightarrow> nat option" where
  "base64_value c =
     (let n = (of_char c :: nat) in
      if 65 \<le> n \<and> n \<le> 90 then Some (n - 65)
      else if 97 \<le> n \<and> n \<le> 122 then Some (n - 71)
      else if 48 \<le> n \<and> n \<le> 57 then Some (n + 4)
      else if c = CHR ''-'' \<or> c = CHR ''+'' then Some 62
      else if c = CHR ''_'' \<or> c = CHR ''/'' then Some 63
      else None)"

fun sextets :: "nat list \<Rightarrow> nat list" where
  "sextets [] = []"
| "sextets [a] = [a div 4, a mod 4 * 16]"
| "sextets [a, b] = [a div 4, a mod 4 * 16 + b div 16, b mod 16 * 4]"
| "sextets (a # b # c # bs) =
     [a div 4, a mod 4 * 16 + b div 16, b mod 16 * 4 + c div 64, c mod 64] @ sextets bs"

fun octets :: "nat list \<Rightarrow> nat list" where
  "octets [] = []"
| "octets [w] = []"
| "octets [w, x] = [w * 4 + x div 16]"
| "octets [w, x, y] = [w * 4 + x div 16, x mod 16 * 16 + y div 4]"
| "octets (w # x # y # z # ks) = [w * 4 + x div 16, x mod 16 * 16 + y div 4, y mod 4 * 64 + z] @ octets ks"

definition base64url :: "nat list \<Rightarrow> string" where
  "base64url bs = map base64_char (sextets bs)"

definition from_base64url :: "string \<Rightarrow> nat list" where
  "from_base64url s = octets (List.map_filter base64_value (takeWhile (\<lambda>c. c \<noteq> CHR ''='') s))"

lemma base64_value_char: "k < 64 \<Longrightarrow> base64_value (base64_char k) = Some k"
  by (auto simp: base64_value_def base64_char_def Let_def of_char_of)

lemma base64_char_no_pad: "k < 64 \<Longrightarrow> base64_char k \<noteq> CHR ''=''"
proof
  assume "k < 64" "base64_char k = CHR ''=''"
  then have "base64_value CHR ''='' = Some k" using base64_value_char by metis
  then show False by (simp add: base64_value_def)
qed

lemma sextets_small: "\<forall>b \<in> set bs. b < 256 \<Longrightarrow> \<forall>k \<in> set (sextets bs). k < 64"
  by (induction bs rule: sextets.induct) auto

lemma octets_sextets: "\<forall>b \<in> set bs. b < 256 \<Longrightarrow> octets (sextets bs) = bs"
  by (induction bs rule: sextets.induct) auto

lemma base64_values:
  "\<forall>k \<in> set ks. k < 64 \<Longrightarrow>
     List.map_filter base64_value (takeWhile (\<lambda>c. c \<noteq> CHR ''='') (map base64_char ks)) = ks"
  by (induction ks) (simp_all add: map_filter_simps base64_value_char base64_char_no_pad)

lemma base64_round_trip: "\<forall>b \<in> set bs. b < 256 \<Longrightarrow> from_base64url (base64url bs) = bs"
  by (simp add: from_base64url_def base64url_def base64_values sextets_small octets_sextets)

lemma base64url_Nil [simp]: "base64url bs = [] \<longleftrightarrow> bs = []"
  by (cases bs rule: sextets.cases) (simp_all add: base64url_def)

subsection \<open>The cursor\<close>

record feed_cursor =
  fc_created_at :: string
  fc_id :: string

definition encodeFeedCursor :: "feed_cursor \<Rightarrow> string" where
  "encodeFeedCursor cursor = base64url (utf8_bytes (stringify (JObj
     [(''created_at'', JStr (fc_created_at cursor)), (''id'', JStr (fc_id cursor))])))"

definition decodeFeedCursor :: "string option \<Rightarrow> feed_cursor option" where
  "decodeFeedCursor input =
     (if \<not> truthy input then None
      else (let parsed = parse_text (utf8_text (from_base64url (or_else input [])));
                created_at = as_string (jget parsed ''created_at''); id = as_string (jget parsed ''id'')
            in if is_object parsed \<and> created_at \<noteq> None \<and> id \<noteq> None
               then Some \<lparr>fc_created_at = the created_at, fc_id = the id\<rparr> else None))"

lemma decode_encode: "decodeFeedCursor (Some (encodeFeedCursor cursor)) = Some cursor"
proof -
  let ?j = "JObj [(''created_at'', JStr (fc_created_at cursor)), (''id'', JStr (fc_id cursor))]"
  have "utf8_bytes (stringify ?j) \<noteq> []" by (simp add: utf8_bytes_def)
  then have "encodeFeedCursor cursor \<noteq> []" by (simp add: encodeFeedCursor_def)
  moreover have "utf8_text (from_base64url (encodeFeedCursor cursor)) = stringify ?j"
    by (simp only: encodeFeedCursor_def base64_round_trip [OF utf8_bytes_small] utf8_round_trip)
  moreover have "parse_text (stringify ?j) = Some ?j"
    by (rule parse_stringify) simp
  ultimately show ?thesis
    by (simp add: decodeFeedCursor_def is_object_def as_string_def)
qed

text \<open>
  C26. A cursor the server hands out is read back exactly, whatever time and id it holds: quotes,
  backslashes, control characters and non-ASCII characters included.
\<close>

theorem cursor_comes_back: "decodeFeedCursor (Some (encodeFeedCursor cursor)) = Some cursor"
  by (rule decode_encode)

end
