(* ===== verification/Read_Filters.thy ===== *)
theory Read_Filters
  imports Memory_Db Feed_Cursor Stream_Ring Text_Rules
begin

text \<open>
  What every read of observations applies: the filters on private, archived and expired rows
  (\<open>memory-server/src/core/core-utils.ts\<close>), on projects, tenants and platforms, \<open>loadObservations\<close>,
  and the temporal contract of an observation (\<open>observation-store.ts\<close>). A filter that the code adds to
  the text of a query is a predicate on rows here. A value of type \<open>read_env\<close> holds what the store is
  constructed with and one reading of the clock; the lookup of projects is a parameter.
\<close>

record read_env =
  re_retrievalEnabled :: bool
  re_antigravityIngestEnabled :: bool
  re_expandProjectSelection :: "string \<Rightarrow> string list"
  re_normalizeProject :: "string \<Rightarrow> string option"
  re_canonicalizeProject :: "string \<Rightarrow> string"
  re_accessFilter :: "access_filter option"
  re_date_parse :: "string \<Rightarrow> int option"
  re_now :: string
  re_now_ms :: int

subsection \<open>JSON columns\<close>

text \<open>\<open>parseArrayJson\<close> of a column: the strings of an array, nothing when it does not parse.\<close>

definition toArraySafe :: "json option \<Rightarrow> string list" where
  "toArraySafe v = List.map_filter (\<lambda>x. as_string (Some x)) (or_else (as_array v) [])"

definition parseArrayJson :: "string \<Rightarrow> string list" where
  "parseArrayJson value = (if value = [] then [] else toArraySafe (parse_text value))"

definition hasPrivateVisibilityTag :: "string list \<Rightarrow> bool" where
  "hasPrivateVisibilityTag tags \<longleftrightarrow> (\<exists>t \<in> set tags. js_lower t = ''private'' \<or> js_lower t = ''sensitive'')"

subsection \<open>Filters of queries\<close>

text \<open>SQLite's \<open>lower\<close> changes ASCII letters only.\<close>

definition sql_lower :: "string \<Rightarrow> string" where
  "sql_lower s = map (\<lambda>c. let n = (of_char c :: nat) in if 65 \<le> n \<and> n \<le> 90 then char_of (n + 32) else c) s"

text \<open>The values \<open>json_each\<close> lists; a column that is no JSON counts as private.\<close>

definition json_each :: "string \<Rightarrow> json list" where
  "json_each column =
     (case parse_text column of
        None \<Rightarrow> [JStr ''private'']
      | Some v \<Rightarrow> (case v of JArr xs \<Rightarrow> xs | JObj kvs \<Rightarrow> map snd kvs | _ \<Rightarrow> [v]))"

definition marks_private :: "json \<Rightarrow> bool" where
  "marks_private v \<longleftrightarrow>
     (case v of JStr s \<Rightarrow> sql_lower s = ''private'' \<or> sql_lower s = ''sensitive'' | _ \<Rightarrow> False)"

definition visibilityFilter :: "bool \<Rightarrow> obs_row \<Rightarrow> bool" where
  "visibilityFilter includePrivate r \<longleftrightarrow>
     includePrivate \<or> \<not> (\<exists>v \<in> set (json_each (ob_privacy_tags_json r)). marks_private v)"

definition expiredFilter :: "string \<Rightarrow> obs_row \<Rightarrow> bool" where
  "expiredFilter now r \<longleftrightarrow> (case ob_expires_at r of None \<Rightarrow> True | Some e \<Rightarrow> now < e)"

definition archivedFilter :: "string \<Rightarrow> bool \<Rightarrow> obs_row \<Rightarrow> bool" where
  "archivedFilter now includeArchived r \<longleftrightarrow>
     includeArchived \<or> (ob_archived_at r = None \<and> expiredFilter now r)"

definition platformVisibilityFilter :: "read_env \<Rightarrow> obs_row \<Rightarrow> bool" where
  "platformVisibilityFilter env r \<longleftrightarrow> re_antigravityIngestEnabled env \<or> ob_platform r \<noteq> ''antigravity''"

definition projectFilter :: "string list \<Rightarrow> obs_row \<Rightarrow> bool" where
  "projectFilter projects r \<longleftrightarrow> projects = [] \<or> ob_project r \<in> set projects"

text \<open>The user or, when a team is given, the team owns the row; without a user everything passes.\<close>

definition tenantFilter :: "string option \<Rightarrow> string option \<Rightarrow> obs_row \<Rightarrow> bool" where
  "tenantFilter user team r \<longleftrightarrow>
     (if \<not> truthy user then True
      else if truthy team then Some (ob_user_id r) = user \<or> ob_team_id r = team
      else Some (ob_user_id r) = user)"

text \<open>The SQL of an access filter as \<open>buildAccessFilter\<close> writes it.\<close>

definition accessFilter :: "read_env \<Rightarrow> obs_row \<Rightarrow> bool" where
  "accessFilter env r \<longleftrightarrow>
     (case re_accessFilter env of
        None \<Rightarrow> True
      | Some f \<Rightarrow> af_sql f = [] \<or> Some (ob_user_id r) = af_user_id f \<or>
                  (truthy (af_team_id f) \<and> ob_team_id r = af_team_id f))"

text \<open>\<open>None\<close>: the project cannot be normalised and the exception leaves the handler.\<close>

definition resolveProjectMembers :: "read_env \<Rightarrow> string option \<Rightarrow> string list option" where
  "resolveProjectMembers env project =
     (case project of
        None \<Rightarrow> Some []
      | Some p \<Rightarrow>
          if js_trim p = [] then Some []
          else (let expanded = filter (\<lambda>s. s \<noteq> []) (map js_trim (re_expandProjectSelection env p)) in
                if expanded \<noteq> [] then Some (remdups expanded)
                else (case re_normalizeProject env p of None \<Rightarrow> None | Some q \<Rightarrow> Some [q])))"

subsection \<open>Loading by id\<close>

definition LOAD_BATCH :: nat where
  "LOAD_BATCH = 500"

function id_batches :: "string list \<Rightarrow> string list list" where
  "id_batches ids = (if ids = [] then [] else take LOAD_BATCH ids # id_batches (drop LOAD_BATCH ids))"
  by pat_completeness auto
termination by (relation "measure length") (auto simp: LOAD_BATCH_def)

declare id_batches.simps [simp del]

definition loadObservations :: "read_env \<Rightarrow> mem_db \<Rightarrow> string list \<Rightarrow> string \<Rightarrow> obs_row option" where
  "loadObservations env db ids =
     fold (\<lambda>batch mapped. fold (\<lambda>r m. if ob_id r \<noteq> [] then m(ob_id r \<mapsto> r) else m)
        (sql_where (\<lambda>r. ob_id r \<in> set batch \<and> archivedFilter (re_now env) False r) (db_observations db)) mapped)
       (id_batches ids) Map.empty"

subsection \<open>The temporal contract\<close>

text \<open>The cue patterns: one of the phrases between word boundaries. The text is in lower case.\<close>

definition is_word_char :: "char \<Rightarrow> bool" where
  "is_word_char c =
     (let n = (of_char c :: nat) in (48 \<le> n \<and> n \<le> 57) \<or> (65 \<le> n \<and> n \<le> 90) \<or> n = 95 \<or> (97 \<le> n \<and> n \<le> 122))"

definition cue_here :: "string list \<Rightarrow> string \<Rightarrow> bool" where
  "cue_here phrases s \<longleftrightarrow>
     list_ex (\<lambda>p. prefix p s \<and> (drop (length p) s = [] \<or> \<not> is_word_char (hd (drop (length p) s)))) phrases"

fun cue_after :: "string list \<Rightarrow> bool \<Rightarrow> string \<Rightarrow> bool" where
  "cue_after phrases in_word [] = False"
| "cue_after phrases in_word (c # s) =
     ((\<not> in_word \<and> cue_here phrases (c # s)) \<or> cue_after phrases (is_word_char c) s)"

definition has_cue :: "string list \<Rightarrow> string \<Rightarrow> bool" where
  "has_cue phrases text = cue_after phrases False text"

definition CURRENT_CUE :: "string list" where
  "CURRENT_CUE = [''current'', ''currently'', ''now'', ''latest'', ''active'', ''in use'', ''used now'']"

definition STILL_CUE :: "string list" where
  "STILL_CUE = [''still'', ''continue'', ''continues'', ''remaining'', ''active'', ''in use'', ''used now'']"

definition NO_LONGER_CUE :: "string list" where
  "NO_LONGER_CUE = [''no longer'', ''not used'', ''not in use'', ''deprecated'', ''removed'', ''inactive'',
     ''disabled'', ''superseded'']"

definition FIRST_CUE :: "string list" where
  "FIRST_CUE = [''first'', ''earliest'', ''initial'', ''initially'', ''at launch'', ''launch'']"

definition AFTER_CUE :: "string list" where
  "AFTER_CUE = [''after'', ''right after'', ''following'', ''since'']"

definition BEFORE_CUE :: "string list" where
  "BEFORE_CUE = [''before'', ''prior to'', ''until'']"

definition PREVIOUS_CUE :: "string list" where
  "PREVIOUS_CUE = [''previously'', ''formerly'', ''used to'', ''prior'', ''earlier'', ''before'']"

datatype temporal_state = Current | Historical | Superseded | UnknownState

record temporal_contract =
  tc_state :: temporal_state
  tc_anchor :: "string option"
  tc_anchor_kind :: string

definition filled :: "string option \<Rightarrow> bool" where
  "filled v \<longleftrightarrow> (case v of None \<Rightarrow> False | Some s \<Rightarrow> js_trim s \<noteq> [])"

fun first_anchor :: "(string \<times> string option) list \<Rightarrow> string option \<times> string" where
  "first_anchor [] = (None, ''unknown'')"
| "first_anchor ((k, v) # kvs) = (if filled v then (v, k) else first_anchor kvs)"

definition observation_anchor :: "obs_row \<Rightarrow> string option \<times> string" where
  "observation_anchor r = first_anchor
     [(''event_time'', ob_event_time r), (''valid_from'', ob_valid_from r),
      (''observed_at'', ob_observed_at r), (''created_at'', Some (ob_created_at r))]"

definition observationTemporalText :: "obs_row \<Rightarrow> string" where
  "observationTemporalText r = js_lower (or_else (ob_title r) [] @ '' '' @ ob_content_redacted r)"

definition temporalContractForObservation :: "read_env \<Rightarrow> string set \<Rightarrow> obs_row \<Rightarrow> temporal_contract" where
  "temporalContractForObservation env supersededIds r =
     (let anchor = observation_anchor r; text = observationTemporalText r;
          valid_to = (if filled (ob_valid_to r) then re_date_parse env (or_else (ob_valid_to r) []) else None);
          state =
            (if (ob_id r \<noteq> [] \<and> ob_id r \<in> supersededIds) \<or> truthy (ob_invalidated_at r) \<or> has_cue NO_LONGER_CUE text
             then Superseded
             else if (case valid_to of None \<Rightarrow> False | Some v \<Rightarrow> v \<le> re_now_ms env) then Historical
             else if has_cue CURRENT_CUE text \<or> has_cue STILL_CUE text then Current
             else if has_cue PREVIOUS_CUE text \<or> has_cue FIRST_CUE text \<or> has_cue BEFORE_CUE text \<or>
                     has_cue AFTER_CUE text \<or> snd anchor = ''event_time'' \<or> snd anchor = ''valid_from''
             then Historical else UnknownState)
      in \<lparr>tc_state = state, tc_anchor = fst anchor, tc_anchor_kind = snd anchor\<rparr>)"

definition loadSupersededObservationIds :: "mem_db \<Rightarrow> string list \<Rightarrow> string set" where
  "loadSupersededObservationIds db ids =
     {i \<in> li_to ` set (sql_where (\<lambda>l. li_relation l = ''supersedes'' \<and> li_to l \<in> set ids) (db_links db)). i \<noteq> []}"

subsection \<open>What loading finds\<close>

lemma fold_load:
  "fold (\<lambda>r m. if ob_id r \<noteq> [] then m(ob_id r \<mapsto> r) else m) rows m i = Some r \<Longrightarrow>
     (r \<in> set rows \<and> ob_id r = i \<and> i \<noteq> []) \<or> m i = Some r"
proof (induction rows arbitrary: m)
  case (Cons x rows)
  from Cons.prems have "fold (\<lambda>r m. if ob_id r \<noteq> [] then m(ob_id r \<mapsto> r) else m) rows
      (if ob_id x \<noteq> [] then m(ob_id x \<mapsto> x) else m) i = Some r" by simp
  from Cons.IH [OF this] show ?case by (auto split: if_splits)
qed simp

lemma id_batches_mem: "b \<in> set (id_batches ids) \<Longrightarrow> set b \<subseteq> set ids"
proof (induction ids rule: id_batches.induct)
  case (1 ids)
  have ne: "ids \<noteq> []" using 1(2) by (auto simp: id_batches.simps [of ids])
  then have "b = take LOAD_BATCH ids \<or> b \<in> set (id_batches (drop LOAD_BATCH ids))"
    using 1(2) by (simp add: id_batches.simps [of ids])
  then show ?case
    using 1(1) [OF ne] set_take_subset [of LOAD_BATCH ids] set_drop_subset [of LOAD_BATCH ids] by blast
qed

lemma loadObservations_found:
  assumes "loadObservations env db ids i = Some r"
  shows "r \<in> set (db_observations db)" "ob_id r = i" "i \<in> set ids" "archivedFilter (re_now env) False r"
proof -
  have "r \<in> set (db_observations db) \<and> ob_id r = i \<and> i \<in> set ids \<and> archivedFilter (re_now env) False r"
    if "fold (\<lambda>batch mapped. fold (\<lambda>r m. if ob_id r \<noteq> [] then m(ob_id r \<mapsto> r) else m)
        (sql_where (\<lambda>r. ob_id r \<in> set batch \<and> archivedFilter (re_now env) False r) (db_observations db)) mapped)
       bs m i = Some r" "m i \<noteq> Some r" "\<forall>b \<in> set bs. set b \<subseteq> set ids" for bs m
    using that
  proof (induction bs arbitrary: m)
    case (Cons b bs)
    let ?m = "fold (\<lambda>r m. if ob_id r \<noteq> [] then m(ob_id r \<mapsto> r) else m)
      (sql_where (\<lambda>r. ob_id r \<in> set b \<and> archivedFilter (re_now env) False r) (db_observations db)) m"
    show ?case
    proof (cases "?m i = Some r")
      case True
      then show ?thesis using Cons.prems(2,3) by (auto dest!: fold_load)
    next
      case False
      then show ?thesis using Cons.IH [of ?m] Cons.prems by simp
    qed
  qed simp
  from this [of "id_batches ids" Map.empty] assms id_batches_mem
  show "r \<in> set (db_observations db)" "ob_id r = i" "i \<in> set ids" "archivedFilter (re_now env) False r"
    unfolding loadObservations_def by blast+
qed

subsection \<open>Both privacy tests\<close>

lemma lower_ascii:
  assumes "\<forall>c \<in> set w. 97 \<le> (of_char c :: nat) \<and> (of_char c :: nat) \<le> 122"
  shows "sql_lower s = w \<longleftrightarrow> js_lower s = w"
proof -
  have c: "(let n = (of_char c :: nat) in if 65 \<le> n \<and> n \<le> 90 then char_of (n + 32) else c) = d \<longleftrightarrow> js_lower_char c = d"
    if "97 \<le> (of_char d :: nat)" "(of_char d :: nat) \<le> 122" for c d
    using that by (auto simp: js_lower_char_def Let_def of_char_of)
  show ?thesis
    using assms
  proof (induction w arbitrary: s)
    case (Cons d w)
    then show ?case
      using c [of d] by (cases s) (auto simp: sql_lower_def js_lower_def)
  qed (auto simp: sql_lower_def js_lower_def)
qed

lemma marks_private_string: "marks_private (JStr s) \<longleftrightarrow> js_lower s = ''private'' \<or> js_lower s = ''sensitive''"
  using lower_ascii [of "''private''" s] lower_ascii [of "''sensitive''" s] by (simp add: marks_private_def)

text \<open>On a column that holds an array the filter of the queries and the test on the tags agree.\<close>

lemma as_string_JStr: "as_string (Some v) = Some s \<longleftrightarrow> v = JStr s"
  by (simp add: as_string_Some)

lemma visibility_tags:
  assumes "parse_text (ob_privacy_tags_json r) = Some (JArr xs)"
  shows "visibilityFilter False r \<longleftrightarrow> \<not> hasPrivateVisibilityTag (parseArrayJson (ob_privacy_tags_json r))"
proof -
  have ne: "ob_privacy_tags_json r \<noteq> []"
  proof
    assume "ob_privacy_tags_json r = []"
    then show False using assms by (simp add: parse_text_def parse_with_def parse_value.simps skip_space_def)
  qed
  have "(\<exists>v \<in> set xs. marks_private v) \<longleftrightarrow> hasPrivateVisibilityTag (List.map_filter (\<lambda>x. as_string (Some x)) xs)"
  proof (induction xs)
    case (Cons v xs)
    then show ?case
      by (cases v) (auto simp: map_filter_simps hasPrivateVisibilityTag_def as_string_def
          marks_private_string marks_private_def [of JNull] marks_private_def [of "JBool _"]
          marks_private_def [of "JNum _"] marks_private_def [of "JArr _"] marks_private_def [of "JObj _"])
  qed (simp add: map_filter_simps hasPrivateVisibilityTag_def)
  then show ?thesis
    using assms ne by (simp add: visibilityFilter_def json_each_def parseArrayJson_def toArraySafe_def as_array_def)
qed

lemma private_tags_are_hidden:
  "isPrivateTag tags \<Longrightarrow> hasPrivateVisibilityTag tags"
  unfolding isPrivateTag_def hasPrivateVisibilityTag_def
  by (elim disjE) (rule bexI [of _ "''private''"] bexI [of _ "''sensitive''"];
    simp add: js_lower_def js_lower_char_def)+

end
