(* ===== verification/Feed.thy ===== *)
theory Feed
  imports Read_Filters "HOL-Library.Product_Lexorder"
begin

text \<open>
  \<open>feed\<close> of \<open>memory-server/src/core/observation-store.ts\<close>: the observations a request may see, newest
  first, page by page with a cursor. A client walks the feed by sending the cursor of one page with the
  request for the next; between two requests the database and the clock may have moved on.
\<close>

record feed_request =
  fq_cursor :: "string option"
  fq_limit :: "rat option"
  fq_project :: "string option"
  fq_project_members :: "string list option"
  fq_type :: "string option"
  fq_include_private :: bool
  fq_include_archived :: bool
  fq_user_id :: "string option"
  fq_team_id :: "string option"
  fq_member_scope :: bool
  fq_memory_type :: "string list option"

record feed_item =
  fi_id :: string
  fi_event_id :: "string option"
  fi_platform :: string
  fi_project :: string
  fi_canonical_project :: string
  fi_session_id :: string
  fi_event_type :: string
  fi_card_type :: string
  fi_title :: string
  fi_content :: string
  fi_memory_type :: string
  fi_created_at :: string
  fi_tags :: "string list"
  fi_privacy_tags :: "string list"
  fi_user_id :: string
  fi_team_id :: "string option"

datatype feed_reply = FeedOff | FeedRaised | FeedPage "feed_item list" "string option" bool

text \<open>\<open>LEFT JOIN mem_events e ON e.event_id = o.event_id\<close>\<close>

definition with_events :: "mem_db \<Rightarrow> (obs_row \<times> event_row option) list" where
  "with_events db = concat (map (\<lambda>r.
     (case sql_where (\<lambda>e. sql_eq (Some (ev_event_id e)) (ob_event_id r)) (db_events db) of
        [] \<Rightarrow> [(r, None)] | es \<Rightarrow> map (\<lambda>e. (r, Some e)) es)) (db_observations db))"

definition joined_type :: "event_row option \<Rightarrow> string" where
  "joined_type e = (case e of None \<Rightarrow> [] | Some ev \<Rightarrow> ev_event_type ev)"

definition trimmed_filter :: "string option \<Rightarrow> string option" where
  "trimmed_filter v = (case v of None \<Rightarrow> None | Some s \<Rightarrow> if js_trim s = [] then None else Some (js_trim s))"

text \<open>A member sees what it or its team owns; otherwise each given filter must hold.\<close>

definition feed_tenants :: "feed_request \<Rightarrow> obs_row \<Rightarrow> bool" where
  "feed_tenants req r \<longleftrightarrow>
     (let user = trimmed_filter (fq_user_id req); team = trimmed_filter (fq_team_id req) in
      if fq_member_scope req \<and> user \<noteq> None \<and> team \<noteq> None
      then Some (ob_user_id r) = user \<or> ob_team_id r = team
      else if fq_member_scope req \<and> user \<noteq> None then Some (ob_user_id r) = user
      else (user = None \<or> Some (ob_user_id r) = user) \<and> (team = None \<or> ob_team_id r = team))"

definition memory_type_filter :: "string list option \<Rightarrow> obs_row \<Rightarrow> bool" where
  "memory_type_filter types r \<longleftrightarrow>
     (case types of None \<Rightarrow> True | Some ts \<Rightarrow> ts = [] \<or> ob_memory_type r \<in> set ts)"

definition feed_where :: "read_env \<Rightarrow> feed_request \<Rightarrow> string list \<Rightarrow> obs_row \<times> event_row option \<Rightarrow> bool" where
  "feed_where env req members re \<longleftrightarrow>
     (case re of (r, e) \<Rightarrow>
        projectFilter members r \<and>
        (case trimmed_filter (fq_type req) of None \<Rightarrow> True | Some t \<Rightarrow> joined_type e = t) \<and>
        platformVisibilityFilter env r \<and> visibilityFilter (fq_include_private req) r \<and>
        archivedFilter (re_now env) (fq_include_archived req) r \<and> accessFilter env r \<and>
        feed_tenants req r \<and> memory_type_filter (fq_memory_type req) r)"

definition row_key :: "obs_row \<times> event_row option \<Rightarrow> string \<times> string" where
  "row_key re = (ob_created_at (fst re), ob_id (fst re))"

definition after_cursor :: "feed_cursor option \<Rightarrow> obs_row \<times> event_row option \<Rightarrow> bool" where
  "after_cursor cursor re \<longleftrightarrow>
     (case cursor of
        None \<Rightarrow> True
      | Some c \<Rightarrow> ob_created_at (fst re) < fc_created_at c \<or>
                  (ob_created_at (fst re) = fc_created_at c \<and> ob_id (fst re) < fc_id c))"

definition feed_item_of :: "read_env \<Rightarrow> obs_row \<times> event_row option \<Rightarrow> feed_item" where
  "feed_item_of env re =
     (case re of (r, e) \<Rightarrow>
        let eventType = (if joined_type e = [] then ''unknown'' else joined_type e) in
        \<lparr>fi_id = ob_id r, fi_event_id = ob_event_id r, fi_platform = ob_platform r,
         fi_project = ob_project r, fi_canonical_project = re_canonicalizeProject env (ob_project r),
         fi_session_id = ob_session_id r, fi_event_type = eventType,
         fi_card_type = (if eventType = ''session_end'' then ''session_summary'' else eventType),
         fi_title = (if truthy (ob_title r) then or_else (ob_title r) [] else eventType),
         fi_content = take 1200 (ob_content_redacted r),
         fi_memory_type = (if ob_memory_type r = [] then ''semantic'' else ob_memory_type r),
         fi_created_at = ob_created_at r, fi_tags = parseArrayJson (ob_tags_json r),
         fi_privacy_tags = parseArrayJson (ob_privacy_tags_json r),
         fi_user_id = ob_user_id r, fi_team_id = ob_team_id r\<rparr>)"

definition feed_limit :: "feed_request \<Rightarrow> nat" where
  "feed_limit req = nat (clampLimit (fq_limit req) 40 1 200)"

definition feed_members :: "read_env \<Rightarrow> feed_request \<Rightarrow> string list option" where
  "feed_members env req =
     (case fq_project_members req of Some ms \<Rightarrow> Some ms | None \<Rightarrow> resolveProjectMembers env (fq_project req))"

definition next_cursor :: "(obs_row \<times> event_row option) list \<Rightarrow> string option" where
  "next_cursor page =
     (if page = [] then None
      else (let r = fst (last page) in
            if ob_created_at r \<noteq> [] \<and> ob_id r \<noteq> []
            then Some (encodeFeedCursor \<lparr>fc_created_at = ob_created_at r, fc_id = ob_id r\<rparr>) else None))"

definition feed :: "read_env \<Rightarrow> feed_request \<Rightarrow> mem_db \<Rightarrow> feed_reply" where
  "feed env req db =
     (if \<not> re_retrievalEnabled env then FeedOff
      else (case feed_members env req of
              None \<Rightarrow> FeedRaised
            | Some members \<Rightarrow>
                (let limit = feed_limit req; cursor = decodeFeedCursor (fq_cursor req);
                     rows = take (limit + 1) (order_desc row_key
                       (sql_where (\<lambda>re. feed_where env req members re \<and> after_cursor cursor re) (with_events db)));
                     hasMore = limit < length rows;
                     page = (if hasMore then take limit rows else rows)
                 in FeedPage (map (feed_item_of env) page) (if hasMore then next_cursor page else None) hasMore)))"

subsection \<open>Walking the feed\<close>

text \<open>
  The items a client collects that follows the cursors, one request after the other, each answered with
  the environment and the database of its time; and whether it came to the end.
\<close>

fun feed_walk :: "feed_request \<Rightarrow> (read_env \<times> mem_db) list \<Rightarrow> feed_item list \<times> bool" where
  "feed_walk req [] = ([], False)"
| "feed_walk req ((env, db) # calls) =
     (case feed env req db of
        FeedPage items next hasMore \<Rightarrow>
          (case next of
             None \<Rightarrow> (items, True)
           | Some c \<Rightarrow> (let (more_items, ended) = feed_walk (req\<lparr>fq_cursor := Some c\<rparr>) calls
                         in (items @ more_items, ended)))
      | _ \<Rightarrow> ([], False))"

text \<open>The rows a request may see, in the order of the feed.\<close>

definition feed_rows :: "read_env \<Rightarrow> feed_request \<Rightarrow> mem_db \<Rightarrow> (obs_row \<times> event_row option) list" where
  "feed_rows env req db =
     order_desc row_key (sql_where (feed_where env req (or_else (feed_members env req) [])) (with_events db))"

definition feed_shows :: "read_env \<Rightarrow> feed_request \<Rightarrow> mem_db \<Rightarrow> string \<Rightarrow> string \<Rightarrow> bool" where
  "feed_shows env req db oid created_at \<longleftrightarrow> (created_at, oid) \<in> row_key ` set (feed_rows env req db)"

definition feed_ready :: "mem_db \<Rightarrow> bool" where
  "feed_ready db \<longleftrightarrow> core_ok db \<and> (\<forall>r \<in> set (db_observations db). ob_id r \<noteq> [] \<and> ob_created_at r \<noteq> [])"

subsection \<open>The order of the rows\<close>

lemma at_most_one:
  "distinct (map f t) \<Longrightarrow> filter (\<lambda>e. sql_eq (Some (f e)) x) t = [] \<or>
     (\<exists>e. filter (\<lambda>e. sql_eq (Some (f e)) x) t = [e])"
proof (induction t)
  case (Cons a t)
  show ?case
  proof (cases "sql_eq (Some (f a)) x")
    case True
    then have "filter (\<lambda>e. sql_eq (Some (f e)) x) t = []"
      using Cons.prems by (cases x) (auto simp: filter_empty_conv image_iff)
    then show ?thesis using True by simp
  qed (use Cons in simp)
qed simp

definition event_of :: "mem_db \<Rightarrow> obs_row \<Rightarrow> event_row option" where
  "event_of db r = sql_get (sql_where (\<lambda>e. sql_eq (Some (ev_event_id e)) (ob_event_id r)) (db_events db))"

lemma with_events_map:
  assumes "distinct (map ev_event_id (db_events db))"
  shows "with_events db = map (\<lambda>r. (r, event_of db r)) (db_observations db)"
proof -
  have 1: "(case sql_where (\<lambda>e. sql_eq (Some (ev_event_id e)) x) (db_events db) of
      [] \<Rightarrow> [(r, None)] | es \<Rightarrow> map (\<lambda>e. (r, Some e)) es) =
      [(r, sql_get (sql_where (\<lambda>e. sql_eq (Some (ev_event_id e)) x) (db_events db)))]" for x r
    using at_most_one [OF assms, of x] by (auto simp: sql_where_def)
  show ?thesis
    unfolding with_events_def event_of_def 1 by (induction "db_observations db") simp_all
qed

lemma with_events_keys:
  assumes "core_ok db"
  shows "distinct (map row_key (with_events db))"
proof -
  have e: "distinct (map ev_event_id (db_events db))" and o: "distinct (map ob_id (db_observations db))"
    using assms by (simp_all add: core_ok_def)
  have "distinct (map (\<lambda>r. (ob_created_at r, ob_id r)) (db_observations db))"
    using o by (induction "db_observations db") (auto simp: distinct_map inj_on_def)
  then show ?thesis by (simp add: with_events_map [OF e] row_key_def comp_def)
qed

lemma with_events_rows: "re \<in> set (with_events db) \<Longrightarrow> fst re \<in> set (db_observations db)"
  by (auto simp: with_events_def neq_Nil_conv split: list.splits)

lemma order_desc_filter: "order_desc k (filter p t) = filter p (order_desc k t)"
  by (simp add: order_desc_def filter_sort rev_filter [symmetric])

lemma order_desc_strictly:
  assumes "distinct (map k t)"
  shows "sorted_wrt (\<lambda>a b. k b < k a) (order_desc k t)"
proof -
  have d: "distinct (map k (sort_key k (rev t)))"
    using assms by (simp add: distinct_map)
  have "sorted (map k (sort_key k (rev t)))" by simp
  then have "sorted_wrt (<) (map k (sort_key k (rev t)))"
    using d by (simp add: strict_sorted_iff)
  then show ?thesis by (simp add: order_desc_def sorted_wrt_rev sorted_wrt_map)
qed

lemma feed_rows_sorted: "feed_ready db \<Longrightarrow> sorted_wrt (\<lambda>a b. row_key b < row_key a) (feed_rows env req db)"
  unfolding feed_rows_def feed_ready_def
  by (rule order_desc_strictly) (auto simp: sql_where_def distinct_map_filter with_events_keys)

lemma after_cursor_key:
  "after_cursor (Some c) re \<longleftrightarrow> row_key re < (fc_created_at c, fc_id c)"
  by (auto simp: after_cursor_def row_key_def less_prod_simp)

subsection \<open>One page\<close>

definition before_cursor :: "(string \<times> string) option \<Rightarrow> obs_row \<times> event_row option \<Rightarrow> bool" where
  "before_cursor k re \<longleftrightarrow> (case k of None \<Rightarrow> True | Some key \<Rightarrow> row_key re < key)"

definition cursor_key :: "string option \<Rightarrow> (string \<times> string) option" where
  "cursor_key c = map_option (\<lambda>f. (fc_created_at f, fc_id f)) (decodeFeedCursor c)"

lemma after_cursor_before: "after_cursor (decodeFeedCursor c) = before_cursor (cursor_key c)"
proof -
  have "after_cursor (decodeFeedCursor c) re = before_cursor (cursor_key c) re" for re
    by (cases "decodeFeedCursor c")
      (simp_all only: before_cursor_def cursor_key_def after_cursor_key option.map option.case,
       simp add: after_cursor_def)
  then show ?thesis by blast
qed

lemma feed_limit_pos: "1 \<le> feed_limit req" "feed_limit req \<le> 200"
  by (auto simp: feed_limit_def clampLimit_def split: option.splits)

lemma feed_members_cursor [simp]: "feed_members env (req\<lparr>fq_cursor := c\<rparr>) = feed_members env req"
  by (simp add: feed_members_def split: option.split)

lemma feed_limit_cursor [simp]: "feed_limit (req\<lparr>fq_cursor := c\<rparr>) = feed_limit req"
  by (simp add: feed_limit_def)

lemma feed_tenants_cursor [simp]: "feed_tenants (req\<lparr>fq_cursor := c\<rparr>) r = feed_tenants req r"
proof -
  have "fq_user_id (req\<lparr>fq_cursor := c\<rparr>) = fq_user_id req" "fq_team_id (req\<lparr>fq_cursor := c\<rparr>) = fq_team_id req"
    "fq_member_scope (req\<lparr>fq_cursor := c\<rparr>) = fq_member_scope req" by simp_all
  then show ?thesis by (simp only: feed_tenants_def)
qed

lemma feed_where_cursor [simp]: "feed_where env (req\<lparr>fq_cursor := c\<rparr>) = feed_where env req"
proof (intro ext)
  fix ms re
  show "feed_where env (req\<lparr>fq_cursor := c\<rparr>) ms re = feed_where env req ms re"
    by (cases re) (simp only: feed_where_def prod.case feed_tenants_cursor, simp)
qed

lemma feed_rows_cursor [simp]: "feed_rows env (req\<lparr>fq_cursor := c\<rparr>) db = feed_rows env req db"
  by (simp add: feed_rows_def)

text \<open>The rows left for a page, its items and the cursor it hands out.\<close>

definition feed_rest :: "read_env \<Rightarrow> feed_request \<Rightarrow> mem_db \<Rightarrow> (obs_row \<times> event_row option) list" where
  "feed_rest env req db = filter (before_cursor (cursor_key (fq_cursor req))) (feed_rows env req db)"

lemma feed_page:
  assumes "re_retrievalEnabled env" "feed_members env req = Some members"
  shows "feed env req db =
    FeedPage (map (feed_item_of env) (take (feed_limit req) (feed_rest env req db)))
      (if feed_limit req < length (feed_rest env req db)
       then next_cursor (take (feed_limit req) (feed_rest env req db)) else None)
      (feed_limit req < length (feed_rest env req db))"
proof -
  let ?rest = "feed_rest env req db" and ?n = "feed_limit req"
  have rows: "order_desc row_key
      (sql_where (\<lambda>re. feed_where env req members re \<and> after_cursor (decodeFeedCursor (fq_cursor req)) re) (with_events db)) =
      feed_rest env req db"
    using assms(2)
    by (simp add: feed_rest_def feed_rows_def sql_where_def order_desc_filter [symmetric] filter_filter
        after_cursor_before conj_commute)
  have more: "?n < length (take (?n + 1) ?rest) \<longleftrightarrow> ?n < length ?rest" by auto
  have page: "(if ?n < length ?rest then take ?n (take (?n + 1) ?rest) else take (?n + 1) ?rest) = take ?n ?rest"
    by (simp add: min_def)
  have "feed env req db = FeedPage (map (feed_item_of env)
      (if ?n < length ?rest then take ?n (take (?n + 1) ?rest) else take (?n + 1) ?rest))
      (if ?n < length ?rest then next_cursor (if ?n < length ?rest then take ?n (take (?n + 1) ?rest)
        else take (?n + 1) ?rest) else None) (?n < length ?rest)"
    using assms unfolding feed_def Let_def by (simp only: rows more option.case if_False not_True_eq_False)
  then show ?thesis by (simp only: page)
qed

lemma page_split:
  assumes "sorted_wrt (\<lambda>a b. f b < (f a :: 'k :: linorder)) xs" "0 < n" "n < length xs"
  shows "\<forall>x \<in> set (take n xs). f (last (take n xs)) \<le> f x" "\<forall>x \<in> set (drop n xs). f x < f (last (take n xs))"
proof -
  obtain ys z where p: "take n xs = ys @ [z]" using assms(2,3) by (cases "take n xs" rule: rev_cases) auto
  have "sorted_wrt (\<lambda>a b. f b < f a) ((ys @ [z]) @ drop n xs)"
    using assms(1) p by (metis append_take_drop_id)
  then show "\<forall>x \<in> set (take n xs). f (last (take n xs)) \<le> f x" "\<forall>x \<in> set (drop n xs). f x < f (last (take n xs))"
    unfolding p by (auto simp: sorted_wrt_append less_imp_le)
qed

definition item_key :: "feed_item \<Rightarrow> string \<times> string" where
  "item_key i = (fi_created_at i, fi_id i)"

lemma item_key_row [simp]: "item_key (feed_item_of env re) = row_key re"
  by (cases re) (simp add: item_key_def feed_item_of_def row_key_def Let_def)

lemma next_cursor_key:
  assumes "feed_ready db" "page \<noteq> []" "set page \<subseteq> set (feed_rows env req db)"
  obtains c where "next_cursor page = Some c" "cursor_key (Some c) = Some (row_key (last page))"
proof -
  have "last page \<in> set (with_events db)"
    using assms(3) last_in_set [OF assms(2)] by (auto simp: feed_rows_def)
  then have "ob_id (fst (last page)) \<noteq> []" "ob_created_at (fst (last page)) \<noteq> []"
    using with_events_rows assms(1) by (auto simp: feed_ready_def)
  then show thesis
    using that assms(2)
    by (simp add: next_cursor_def Let_def cursor_key_def decode_encode row_key_def)
qed

subsection \<open>The whole walk\<close>

definition key_before :: "string \<times> string \<Rightarrow> (string \<times> string) option \<Rightarrow> bool" where
  "key_before key k \<longleftrightarrow> (case k of None \<Rightarrow> True | Some j \<Rightarrow> key < j)"

lemma before_cursor_key_before: "before_cursor k re = key_before (row_key re) k"
  by (simp add: before_cursor_def key_before_def)

text \<open>What a call contributes, and where the next one starts.\<close>

lemma feed_call:
  assumes "feed_ready db" "re_retrievalEnabled env" "feed_members env req = Some members"
  defines "page \<equiv> take (feed_limit req) (feed_rest env req db)"
  obtains (ends) "feed env req db = FeedPage (map (feed_item_of env) page) None False" "page = feed_rest env req db"
  | (continues) c where "feed env req db = FeedPage (map (feed_item_of env) page) (Some c) True"
      "cursor_key (Some c) = Some (row_key (last page))" "length page = feed_limit req"
      "\<forall>re \<in> set page. row_key (last page) \<le> row_key re"
      "\<forall>re \<in> set (feed_rest env req db). row_key re < row_key (last page) \<or> re \<in> set page"
      "key_before (row_key (last page)) (cursor_key (fq_cursor req))"
proof (cases "feed_limit req < length (feed_rest env req db)")
  case False
  then show thesis using ends feed_page [OF assms(2,3)] page_def by simp
next
  case True
  have pos: "0 < feed_limit req" using feed_limit_pos(1) [of req] by simp
  have ne: "page \<noteq> []" using True pos by (auto simp: page_def)
  have sub: "set page \<subseteq> set (feed_rest env req db)" by (simp add: page_def set_take_subset)
  have srt: "sorted_wrt (\<lambda>a b. row_key b < row_key a) (feed_rest env req db)"
    unfolding feed_rest_def by (rule sorted_wrt_filter [OF feed_rows_sorted [OF assms(1)]])
  note split = page_split [OF srt pos True, folded page_def]
  have "set page \<subseteq> set (feed_rows env req db)" using sub by (auto simp: feed_rest_def)
  then obtain c where c: "next_cursor page = Some c" "cursor_key (Some c) = Some (row_key (last page))"
    using next_cursor_key [OF assms(1) ne] by blast
  have "feed env req db = FeedPage (map (feed_item_of env) page) (Some c) True"
    using feed_page [OF assms(2,3), of db] True c(1) by (simp add: page_def)
  moreover have "set (feed_rest env req db) = set page \<union> set (drop (feed_limit req) (feed_rest env req db))"
    unfolding page_def by (metis append_take_drop_id set_append)
  then have "\<forall>re \<in> set (feed_rest env req db). row_key re < row_key (last page) \<or> re \<in> set page"
    using split(2) by blast
  moreover have "length page = feed_limit req" using True by (simp add: page_def)
  moreover have "key_before (row_key (last page)) (cursor_key (fq_cursor req))"
    using sub last_in_set [OF ne] by (auto simp: feed_rest_def before_cursor_key_before)
  ultimately show thesis
    using continues [of c] c(2) split(1) by blast
qed

lemma feed_call_items:
  "re \<in> set (take n (feed_rest env req db)) \<Longrightarrow> re \<in> set (feed_rows env req db) \<and>
     key_before (row_key re) (cursor_key (fq_cursor req))"
  by (auto dest!: in_set_takeD simp: feed_rest_def before_cursor_key_before)

definition calls_ready :: "(read_env \<times> mem_db) list \<Rightarrow> bool" where
  "calls_ready calls \<longleftrightarrow> (\<forall>(env, db) \<in> set calls. re_retrievalEnabled env \<and> feed_ready db)"

lemma calls_ready_Cons [simp]:
  "calls_ready ((env, db) # calls) \<longleftrightarrow> re_retrievalEnabled env \<and> feed_ready db \<and> calls_ready calls"
  by (simp add: calls_ready_def)

lemma feed_shows_cursor [simp]: "feed_shows env (req\<lparr>fq_cursor := c\<rparr>) db = feed_shows env req db"
  by (intro ext) (simp add: feed_shows_def)

lemma walk_sound:
  assumes "calls_ready calls" "feed_walk req calls = (items, ended)"
  shows "sorted_wrt (\<lambda>a b. item_key b < item_key a) items"
    "\<forall>i \<in> set items. key_before (item_key i) (cursor_key (fq_cursor req)) \<and>
       (\<exists>(env, db) \<in> set calls. i \<in> feed_item_of env ` set (feed_rows env req db))"
proof -
  have "sorted_wrt (\<lambda>a b. item_key b < item_key a) items \<and>
    (\<forall>i \<in> set items. key_before (item_key i) (cursor_key (fq_cursor req)) \<and>
       (\<exists>(env, db) \<in> set calls. i \<in> feed_item_of env ` set (feed_rows env req db)))"
    using assms
  proof (induction req calls arbitrary: items ended rule: feed_walk.induct)
    case (2 req env db calls)
    have ok: "feed_ready db" "re_retrievalEnabled env" using 2(2) by simp_all
    show ?case
    proof (cases "feed_members env req")
      case None
      then show ?thesis using 2(3) ok by (simp add: feed_def)
    next
      case (Some members)
      let ?page = "take (feed_limit req) (feed_rest env req db)"
      have srt: "sorted_wrt (\<lambda>a b. row_key b < row_key a) ?page"
        unfolding feed_rest_def by (intro sorted_wrt_take sorted_wrt_filter feed_rows_sorted ok(1))
      have here: "i \<in> set (map (feed_item_of env) ?page) \<Longrightarrow> key_before (item_key i) (cursor_key (fq_cursor req)) \<and>
          i \<in> feed_item_of env ` set (feed_rows env req db)" for i
        using feed_call_items by fastforce
      show ?thesis
        using ok Some
      proof (cases rule: feed_call)
        case ends
        then have "items = map (feed_item_of env) ?page" using 2(3) by simp
        then show ?thesis using srt here by (simp add: sorted_wrt_map)
      next
        case (continues c)
        obtain rest_items e where rest: "feed_walk (req\<lparr>fq_cursor := Some c\<rparr>) calls = (rest_items, e)"
          by (cases "feed_walk (req\<lparr>fq_cursor := Some c\<rparr>) calls")
        have items: "items = map (feed_item_of env) ?page @ rest_items"
          using 2(3) continues(1) rest by simp
        have IH: "sorted_wrt (\<lambda>a b. item_key b < item_key a) rest_items"
          "\<forall>i \<in> set rest_items. item_key i < row_key (last ?page) \<and>
             (\<exists>(env, db) \<in> set calls. i \<in> feed_item_of env ` set (feed_rows env req db))"
          using 2(1) [OF continues(1) refl _ rest] 2(2) continues(2)
          by (simp_all add: key_before_def)
        have late: "key_before (item_key i) (cursor_key (fq_cursor req))" if "i \<in> set rest_items" for i
          using IH(2) that continues(6) by (auto simp: key_before_def split: option.splits dest: less_trans)
        have "\<forall>x \<in> set ?page. \<forall>i \<in> set rest_items. item_key i < row_key x"
          using IH(2) continues(4) by (meson less_le_trans)
        then have 1: "sorted_wrt (\<lambda>a b. item_key b < item_key a) items"
          using items srt IH(1) by (auto simp: sorted_wrt_append sorted_wrt_map)
        have "key_before (item_key i) (cursor_key (fq_cursor req)) \<and>
            (\<exists>(env, db) \<in> set ((env, db) # calls). i \<in> feed_item_of env ` set (feed_rows env req db))"
          if "i \<in> set items" for i
        proof (cases "i \<in> set rest_items")
          case True
          then show ?thesis using late IH(2) by (meson list.set_intros(2))
        next
          case False
          then show ?thesis using that here [of i] unfolding items by (auto simp del: set_map)
        qed
        with 1 show ?thesis by blast
      qed
    qed
  qed simp
  then show "sorted_wrt (\<lambda>a b. item_key b < item_key a) items"
    "\<forall>i \<in> set items. key_before (item_key i) (cursor_key (fq_cursor req)) \<and>
       (\<exists>(env, db) \<in> set calls. i \<in> feed_item_of env ` set (feed_rows env req db))" by simp_all
qed

lemma walk_complete:
  assumes "calls_ready calls" "feed_walk req calls = (items, True)"
    and "\<forall>(env, db) \<in> set calls. feed_shows env req db oid t"
    and "key_before (t, oid) (cursor_key (fq_cursor req))"
  shows "(t, oid) \<in> item_key ` set items"
  using assms
proof (induction req calls arbitrary: items rule: feed_walk.induct)
  case (2 req env db calls)
  have ok: "feed_ready db" "re_retrievalEnabled env" using 2(2) by simp_all
  obtain members where members: "feed_members env req = Some members"
    using 2(3) ok by (cases "feed_members env req") (auto simp: feed_def)
  obtain re where re: "re \<in> set (feed_rows env req db)" "row_key re = (t, oid)"
    using 2(4) by (auto simp: feed_shows_def)
  then have rest: "re \<in> set (feed_rest env req db)"
    using 2(5) by (simp add: feed_rest_def before_cursor_key_before)
  have here: "(t, oid) \<in> item_key ` set (map (feed_item_of env) xs)" if "re \<in> set xs" for xs
    using that re(2) by (metis image_eqI item_key_row list.set_map)
  show ?case
    using ok members
  proof (cases rule: feed_call)
    case ends
    then have "items = map (feed_item_of env) (feed_rest env req db)" using 2(3) by simp
    then show ?thesis using here [OF rest] by simp
  next
    case (continues c)
    obtain rest_items e where walk: "feed_walk (req\<lparr>fq_cursor := Some c\<rparr>) calls = (rest_items, e)"
      by (cases "feed_walk (req\<lparr>fq_cursor := Some c\<rparr>) calls")
    have items: "items = map (feed_item_of env) (take (feed_limit req) (feed_rest env req db)) @ rest_items" "e"
      using 2(3) continues(1) walk by simp_all
    show ?thesis
    proof (cases "re \<in> set (take (feed_limit req) (feed_rest env req db))")
      case True
      then show ?thesis using here items(1) by (auto simp del: set_map)
    next
      case False
      then have "key_before (t, oid) (cursor_key (fq_cursor (req\<lparr>fq_cursor := Some c\<rparr>)))"
        using continues(2,5) rest re(2) by (auto simp: key_before_def)
      then have "(t, oid) \<in> item_key ` set rest_items"
        using 2(1) [OF continues(1) refl, of rest_items] 2(2,4) walk items(2) by simp
      then show ?thesis using items(1) by auto
    qed
  qed
qed simp

lemma walk_still:
  assumes "feed_ready db" "re_retrievalEnabled env" "feed_members env req \<noteq> None"
    and "0 < k" "length (feed_rest env req db) \<le> k * feed_limit req"
  shows "feed_walk req (replicate k (env, db)) = (map (feed_item_of env) (feed_rest env req db), True)"
  using assms(3-5)
proof (induction k arbitrary: req)
  case (Suc k)
  let ?rest = "feed_rest env req db" and ?n = "feed_limit req"
  obtain members where members: "feed_members env req = Some members" using Suc.prems(1) by blast
  show ?case
    using assms(1,2) members
  proof (cases rule: feed_call)
    case ends
    then show ?thesis by simp
  next
    case (continues c)
    let ?req = "req\<lparr>fq_cursor := Some c\<rparr>" and ?last = "row_key (last (take ?n ?rest))"
    have more: "?n < length ?rest"
      using continues(1) feed_page [OF assms(2) members, of db] by simp
    have srt: "sorted_wrt (\<lambda>a b. row_key b < row_key a) ?rest"
      unfolding feed_rest_def by (rule sorted_wrt_filter [OF feed_rows_sorted [OF assms(1)]])
    have pos: "0 < ?n" using feed_limit_pos(1) [of req] by simp
    note split = page_split [OF srt pos more]
    have early: "key_before key (cursor_key (fq_cursor req))" if "key < ?last" for key
      using that continues(6) by (auto simp: key_before_def split: option.splits dest: less_trans)
    have "before_cursor (cursor_key (fq_cursor ?req)) = (\<lambda>re. row_key re < ?last)"
      using continues(2) by (intro ext) (simp add: before_cursor_def)
    moreover have "(before_cursor (cursor_key (fq_cursor req)) re \<and> row_key re < ?last) = (row_key re < ?last)" for re
      using early unfolding before_cursor_key_before by blast
    ultimately have "feed_rest env ?req db = filter (\<lambda>re. row_key re < ?last) ?rest"
      unfolding feed_rest_def feed_rows_cursor filter_filter by (simp only:)
    also have "\<dots> = filter (\<lambda>re. row_key re < ?last) (take ?n ?rest) @ filter (\<lambda>re. row_key re < ?last) (drop ?n ?rest)"
      by (metis append_take_drop_id filter_append)
    also have "\<dots> = drop ?n ?rest"
    proof -
      have "filter (\<lambda>re. row_key re < ?last) (take ?n ?rest) = []"
        using split(1) by (simp only: filter_empty_conv not_less)
      moreover have "filter (\<lambda>re. row_key re < ?last) (drop ?n ?rest) = drop ?n ?rest"
        using split(2) by (simp only: filter_id_conv)
      ultimately show ?thesis by simp
    qed
    finally have rest: "feed_rest env ?req db = drop ?n ?rest" .
    have "0 < k" using Suc.prems(3) more by (cases k) auto
    moreover have "length (feed_rest env ?req db) \<le> k * feed_limit ?req" using rest Suc.prems(3) by simp
    ultimately have "feed_walk ?req (replicate k (env, db)) = (map (feed_item_of env) (drop ?n ?rest), True)"
      using Suc.IH [of ?req] members rest by simp
    moreover have "map (feed_item_of env) (take ?n ?rest) @ map (feed_item_of env) (drop ?n ?rest) =
        map (feed_item_of env) ?rest"
      by (metis append_take_drop_id map_append)
    ultimately show ?thesis using continues(1) by simp
  qed
qed simp

subsection \<open>Samples\<close>

definition sample_obs :: "string \<Rightarrow> string \<Rightarrow> string \<Rightarrow> obs_row" where
  "sample_obs oid t user =
     \<lparr>ob_id = oid, ob_event_id = None, ob_platform = ''claude'', ob_project = ''p'', ob_session_id = ''s'',
      ob_title = None, ob_content = [], ob_content_redacted = ''text'', ob_content_dedupe_hash = None,
      ob_raw_text = None, ob_observation_type = ''context'', ob_memory_type = ''semantic'',
      ob_tags_json = ''[]'', ob_privacy_tags_json = ''[]'', ob_signal_score = None, ob_access_count = None,
      ob_user_id = user, ob_team_id = None, ob_event_time = None, ob_observed_at = None,
      ob_valid_from = None, ob_valid_to = None, ob_supersedes = None, ob_invalidated_at = None,
      ob_archived_at = None, ob_expires_at = None, ob_thread_id = None, ob_topic = None,
      ob_branch = None, ob_created_at = t, ob_updated_at = t\<rparr>"

definition sample_db :: "obs_row list \<Rightarrow> mem_db" where
  "sample_db rows = empty_db\<lparr>db_sessions := [\<lparr>ss_session_id = ''s'', ss_platform = ''claude'', ss_project = ''p'',
     ss_started_at = ''2026'', ss_ended_at = None, ss_summary = None, ss_summary_mode = None, ss_correlation_id = None, ss_user_id = ''u'',
     ss_team_id = None, ss_created_at = ''2026'', ss_updated_at = ''2026''\<rparr>], db_observations := rows\<rparr>"

definition sample_reader :: read_env where
  "sample_reader = \<lparr>re_retrievalEnabled = True, re_antigravityIngestEnabled = True,
     re_expandProjectSelection = (\<lambda>p. [p]), re_normalizeProject = Some, re_canonicalizeProject = (\<lambda>p. p),
     re_accessFilter = None, re_date_parse = (\<lambda>s. None), re_now = ''2026-06'', re_now_ms = 0\<rparr>"

definition sample_feed_request :: feed_request where
  "sample_feed_request = \<lparr>fq_cursor = None, fq_limit = Some 1, fq_project = None, fq_project_members = None,
     fq_type = None, fq_include_private = False, fq_include_archived = False, fq_user_id = None,
     fq_team_id = None, fq_member_scope = False, fq_memory_type = None\<rparr>"

text \<open>Two calls; between them a newer observation is stored.\<close>

definition sample_calls :: "(read_env \<times> mem_db) list" where
  "sample_calls =
     (let a = sample_obs ''a'' ''2026-01'' ''u''; b = sample_obs ''b'' ''2026-02'' ''u'';
          c = sample_obs ''c'' ''2026-03'' ''u''
      in [(sample_reader, sample_db [a, b]), (sample_reader, sample_db [a, b, c])])"

lemma feed_ready_sample:
  assumes "distinct (map ob_id rows)"
    and "\<forall>r \<in> set rows. ob_id r \<noteq> [] \<and> ob_created_at r \<noteq> [] \<and> ob_session_id r = ''s'' \<and>
      ob_event_id r = None \<and> ob_content_dedupe_hash r = None"
  shows "feed_ready (sample_db rows)"
  using assms
  by (auto simp: feed_ready_def core_ok_def sample_db_def empty_db_def session_ids_def event_ids_def)

lemma sample_calls_ready: "calls_ready sample_calls"
  by (simp add: sample_calls_def Let_def sample_reader_def calls_ready_def)
    (intro conjI feed_ready_sample; simp add: sample_obs_def)

lemma sample_walk: "map fi_id (fst (feed_walk sample_feed_request sample_calls)) = [''b'', ''a'']"
   "snd (feed_walk sample_feed_request sample_calls)"
  by code_simp+

subsection \<open>The properties\<close>

text \<open>
  C7. A client that walks the feed while the database changes gets every observation once, newest first
  and only observations its request may see at the time; and when the walk comes to its end, it has got
  every observation that was there to be seen in all of its calls.
\<close>

theorem feed_walk_is_complete:
  assumes "calls_ready calls" "fq_cursor req = None" "feed_walk req calls = (items, ended)"
  shows "sorted_wrt (\<lambda>a b. (fi_created_at b, fi_id b) < (fi_created_at a, fi_id a)) items \<and>
    (\<forall>i \<in> set items. \<exists>(env, db) \<in> set calls. i \<in> feed_item_of env ` set (feed_rows env req db)) \<and>
    (ended \<longrightarrow> (\<forall>oid t. (\<forall>(env, db) \<in> set calls. feed_shows env req db oid t) \<longrightarrow>
       (\<exists>i \<in> set items. fi_id i = oid \<and> fi_created_at i = t)))"
proof (intro conjI impI allI)
  show "sorted_wrt (\<lambda>a b. (fi_created_at b, fi_id b) < (fi_created_at a, fi_id a)) items"
    using walk_sound(1) [OF assms(1,3)] by (simp add: item_key_def)
  show "\<forall>i \<in> set items. \<exists>(env, db) \<in> set calls. i \<in> feed_item_of env ` set (feed_rows env req db)"
    using walk_sound(2) [OF assms(1,3)] by blast
  fix oid t
  assume "ended" and all: "\<forall>(env, db) \<in> set calls. feed_shows env req db oid t"
  have "key_before (t, oid) (cursor_key (fq_cursor req))"
    using assms(2) by (simp add: key_before_def cursor_key_def decodeFeedCursor_def)
  then have "(t, oid) \<in> item_key ` set items"
    using walk_complete [OF assms(1) _ all] assms(3) \<open>ended\<close> by simp
  then show "\<exists>i \<in> set items. fi_id i = oid \<and> fi_created_at i = t"
    by (auto simp: item_key_def)
qed

theorem feed_walk_is_complete_witness:
  "map fi_id (fst (feed_walk sample_feed_request sample_calls)) = [''b'', ''a''] \<and>
   (\<exists>i \<in> set (fst (feed_walk sample_feed_request sample_calls)). fi_id i = ''a'' \<and> fi_created_at i = ''2026-01'')"
proof
  obtain items ended where w: "feed_walk sample_feed_request sample_calls = (items, ended)"
    by (cases "feed_walk sample_feed_request sample_calls")
  have "ended" using sample_walk(2) w by simp
  moreover have "\<forall>(env, db) \<in> set sample_calls. feed_shows env sample_feed_request db ''a'' ''2026-01''"
    by code_simp
  moreover have "fq_cursor sample_feed_request = None" by (simp add: sample_feed_request_def)
  ultimately show "\<exists>i \<in> set (fst (feed_walk sample_feed_request sample_calls)).
      fi_id i = ''a'' \<and> fi_created_at i = ''2026-01''"
    using feed_walk_is_complete [OF sample_calls_ready _ w] w by simp
qed (rule sample_walk(1))

text \<open>
  C27. On a database that stays as it is, as many requests as it takes pages reach the end, and the items
  of the pages together are exactly the rows the request may see, in the order of the feed.
\<close>

theorem feed_walk_ends:
  assumes "feed_ready db" "re_retrievalEnabled env" "feed_members env req = Some members"
    and "fq_cursor req = None" "0 < k" "length (feed_rows env req db) \<le> k * feed_limit req"
  shows "feed_walk req (replicate k (env, db)) = (map (feed_item_of env) (feed_rows env req db), True)"
proof -
  have "feed_rest env req db = feed_rows env req db"
    using assms(4)
    by (simp add: feed_rest_def before_cursor_def cursor_key_def decodeFeedCursor_def)
  then show ?thesis using walk_still [OF assms(1,2) _ assms(5)] assms(3,6) by simp
qed

theorem feed_walk_ends_witness:
  "map fi_id (fst (feed_walk sample_feed_request (replicate 2 (sample_reader,
     sample_db [sample_obs ''a'' ''2026-01'' ''u'', sample_obs ''b'' ''2026-02'' ''u''])))) = [''b'', ''a'']"
proof -
  let ?db = "sample_db [sample_obs ''a'' ''2026-01'' ''u'', sample_obs ''b'' ''2026-02'' ''u'']"
  have "feed_ready ?db" by (rule feed_ready_sample) (simp_all add: sample_obs_def)
  moreover have "length (feed_rows sample_reader sample_feed_request ?db) \<le> 2 * feed_limit sample_feed_request"
    by code_simp
  moreover have "feed_members sample_reader sample_feed_request = Some []" by code_simp
  ultimately have "feed_walk sample_feed_request (replicate 2 (sample_reader, ?db)) =
      (map (feed_item_of sample_reader) (feed_rows sample_reader sample_feed_request ?db), True)"
    by (intro feed_walk_ends) (simp_all add: sample_reader_def sample_feed_request_def)
  moreover have "map fi_id (map (feed_item_of sample_reader) (feed_rows sample_reader sample_feed_request ?db)) = [''b'', ''a'']"
    by code_simp
  ultimately show ?thesis by simp
qed

end
