(* ===== verification/Detail_Reads.thy ===== *)
theory Detail_Reads
  imports Read_Filters
begin

text \<open>
  The reads of single observations of \<open>memory-server/src/core/observation-store.ts\<close>: \<open>timeline\<close>, the
  neighbours of an observation in its session, and \<open>getObservations\<close>, the details of a list of ids. Both
  write a row to the audit log. One type of item serves both: \<open>di_position\<close> is empty in details, \<open>di_raw_text\<close>
  is \<open>None\<close> in a timeline, and the columns that only details copy as they are (event id, platform, project,
  session and update time) are left out, as are the counts and token estimates of the response.
\<close>

record detail_item =
  di_id :: string
  di_position :: string
  di_title :: "string option"
  di_content :: string
  di_raw_text :: "string option"
  di_created_at :: string
  di_event_time :: "string option"
  di_observed_at :: "string option"
  di_valid_from :: "string option"
  di_valid_to :: "string option"
  di_supersedes :: "string option"
  di_invalidated_at :: "string option"
  di_temporal :: temporal_contract
  di_tags :: "string list"
  di_privacy_tags :: "string list"

datatype detail_reply = NoObservation string | Details "detail_item list" "string list"

definition read_audit :: "read_env \<Rightarrow> string \<Rightarrow> string \<Rightarrow> (string \<times> json) list \<Rightarrow> mem_db \<Rightarrow> mem_db" where
  "read_audit env action tid details db =
     db\<lparr>db_audit := write_plain \<lparr>aw_action = action, aw_target_type = ''observation'', aw_target_id = tid,
        aw_details_json = stringify (JObj details), aw_actor = ''system'', aw_created_at = re_now env\<rparr> (db_audit db)\<rparr>"

definition item_of_row :: "string \<Rightarrow> string \<Rightarrow> string option \<Rightarrow> temporal_contract \<Rightarrow> obs_row \<Rightarrow> detail_item" where
  "item_of_row position content raw contract r =
     \<lparr>di_id = ob_id r, di_position = position, di_title = ob_title r, di_content = content, di_raw_text = raw,
      di_created_at = ob_created_at r, di_event_time = ob_event_time r, di_observed_at = ob_observed_at r,
      di_valid_from = ob_valid_from r, di_valid_to = ob_valid_to r, di_supersedes = ob_supersedes r,
      di_invalidated_at = ob_invalidated_at r, di_temporal = contract,
      di_tags = parseArrayJson (ob_tags_json r), di_privacy_tags = parseArrayJson (ob_privacy_tags_json r)\<rparr>"

subsection \<open>timeline\<close>

record timeline_request =
  tq_id :: string
  tq_before :: "rat option"
  tq_after :: "rat option"
  tq_include_private :: bool
  tq_include_archived :: bool
  tq_user_id :: "string option"
  tq_team_id :: "string option"

text \<open>The lookup by id applies no filter on archived or expired rows.\<close>

definition findById :: "string \<Rightarrow> mem_db \<Rightarrow> obs_row option" where
  "findById oid db = sql_get (sql_where (\<lambda>r. ob_id r = oid) (db_observations db))"

definition owns_center :: "timeline_request \<Rightarrow> obs_row \<Rightarrow> bool" where
  "owns_center req center \<longleftrightarrow>
     (if \<not> truthy (tq_user_id req) then True
      else Some (ob_user_id center) = tq_user_id req \<or>
           (if truthy (tq_team_id req) then Some (or_else (ob_team_id center) []) = tq_team_id req else False))"

definition neighbour :: "read_env \<Rightarrow> timeline_request \<Rightarrow> obs_row \<Rightarrow> obs_row \<Rightarrow> bool" where
  "neighbour env req center r \<longleftrightarrow>
     ob_project r = ob_project center \<and> ob_session_id r = ob_session_id center \<and>
     tenantFilter (tq_user_id req) (tq_team_id req) r \<and> visibilityFilter (tq_include_private req) r \<and>
     archivedFilter (re_now env) (tq_include_archived req) r"

definition before_rows :: "read_env \<Rightarrow> timeline_request \<Rightarrow> obs_row \<Rightarrow> mem_db \<Rightarrow> obs_row list" where
  "before_rows env req center db =
     take (nat (clampLimit (tq_before req) 5 0 50)) (order_desc ob_created_at
       (sql_where (\<lambda>r. neighbour env req center r \<and> ob_created_at r < ob_created_at center) (db_observations db)))"

definition after_rows :: "read_env \<Rightarrow> timeline_request \<Rightarrow> obs_row \<Rightarrow> mem_db \<Rightarrow> obs_row list" where
  "after_rows env req center db =
     take (nat (clampLimit (tq_after req) 5 0 50)) (order_asc ob_created_at
       (sql_where (\<lambda>r. neighbour env req center r \<and> ob_created_at center < ob_created_at r) (db_observations db)))"

definition timeline_item :: "read_env \<Rightarrow> string set \<Rightarrow> string \<Rightarrow> obs_row \<Rightarrow> detail_item" where
  "timeline_item env superseded position r =
     item_of_row position (take 1200 (ob_content_redacted r)) None (temporalContractForObservation env superseded r) r"

definition timeline :: "read_env \<Rightarrow> timeline_request \<Rightarrow> mem_db \<Rightarrow> detail_reply \<times> mem_db" where
  "timeline env req db =
     (case findById (tq_id req) db of
        None \<Rightarrow> (NoObservation (tq_id req), db)
      | Some center \<Rightarrow>
          if \<not> owns_center req center then (NoObservation (tq_id req), db)
          else if \<not> tq_include_private req \<and> isPrivateTag (parseArrayJson (ob_privacy_tags_json center))
          then (NoObservation (tq_id req), db)
          else (let earlier = before_rows env req center db; later = after_rows env req center db;
                    superseded = loadSupersededObservationIds db
                      (filter (\<lambda>i. i \<noteq> []) (map ob_id (earlier @ [center] @ later)));
                    items = map (timeline_item env superseded ''before'') (rev earlier) @
                      [timeline_item env superseded ''center'' center] @
                      map (timeline_item env superseded ''after'') later
                in (Details items [],
                    read_audit env ''read.timeline'' (tq_id req)
                      [(''before'', JNum (clampLimit (tq_before req) 5 0 50)),
                       (''after'', JNum (clampLimit (tq_after req) 5 0 50)),
                       (''include_private'', JBool (tq_include_private req)),
                       (''count'', JNum (int (length items)))] db)))"

subsection \<open>getObservations\<close>

record details_request =
  dq_ids :: "string list"
  dq_include_private :: bool
  dq_compact :: "bool option"
  dq_user_id :: "string option"
  dq_team_id :: "string option"

definition nullish :: "'a option \<Rightarrow> 'a option \<Rightarrow> 'a option" where
  "nullish a b = (case a of None \<Rightarrow> b | Some x \<Rightarrow> Some x)"

definition details_allowed :: "read_env \<Rightarrow> details_request \<Rightarrow> obs_row \<Rightarrow> bool" where
  "details_allowed env req r \<longleftrightarrow>
     (let user = nullish (dq_user_id req) (case re_accessFilter env of None \<Rightarrow> None | Some f \<Rightarrow> af_user_id f);
          team = nullish (dq_team_id req) (case re_accessFilter env of None \<Rightarrow> None | Some f \<Rightarrow> af_team_id f)
      in \<not> truthy user \<or> Some (ob_user_id r) = user \<or> (team \<noteq> None \<and> ob_team_id r = team))"

definition details_item :: "read_env \<Rightarrow> bool \<Rightarrow> obs_row \<Rightarrow> detail_item" where
  "details_item env short r =
     item_of_row [] (if short then take 800 (ob_content_redacted r) else ob_content_redacted r)
       (ob_raw_text r) (temporalContractForObservation env {} r) r"

definition details_of :: "read_env \<Rightarrow> details_request \<Rightarrow> (string \<Rightarrow> obs_row option) \<Rightarrow> string \<Rightarrow> detail_item option" where
  "details_of env req loaded oid =
     (case loaded oid of
        None \<Rightarrow> None
      | Some r \<Rightarrow>
          if \<not> details_allowed env req r then None
          else if \<not> dq_include_private req \<and> isPrivateTag (parseArrayJson (ob_privacy_tags_json r)) then None
          else Some (details_item env (dq_compact req \<noteq> Some False) r))"

definition large_request_warning :: "string" where
  "large_request_warning = ''Large details request detected. Prefer 3-layer workflow: search -> timeline -> get_observations (targeted IDs).''"

definition getObservations :: "read_env \<Rightarrow> details_request \<Rightarrow> mem_db \<Rightarrow> detail_reply \<times> mem_db" where
  "getObservations env req db =
     (let ids = dq_ids req in
      if ids = [] then (Details [] [], db)
      else (let items = List.map_filter (details_of env req (loadObservations env db ids)) ids
            in (Details items (if 20 \<le> length ids then [large_request_warning] else []),
                read_audit env ''read.get_observations'' (hd ids)
                  [(''requested_ids'', JNum (int (length ids))), (''returned_ids'', JNum (int (length items))),
                   (''include_private'', JBool (dq_include_private req)),
                   (''compact'', JBool (dq_compact req \<noteq> Some False))] db)))"

subsection \<open>What the reads show\<close>

text \<open>An item made of a row with a property.\<close>

definition shows_row :: "mem_db \<Rightarrow> (obs_row \<Rightarrow> bool) \<Rightarrow> detail_item \<Rightarrow> bool" where
  "shows_row db p i \<longleftrightarrow>
     (\<exists>r position content raw contract. r \<in> set (db_observations db) \<and> p r \<and>
        i = item_of_row position content raw contract r)"

lemma shows_rowI:
  "r \<in> set (db_observations db) \<Longrightarrow> p r \<Longrightarrow> shows_row db p (item_of_row pos content raw contract r)"
  unfolding shows_row_def by blast

lemma shows_row_mono: "shows_row db p i \<Longrightarrow> (\<And>r. p r \<Longrightarrow> q r) \<Longrightarrow> shows_row db q i"
  unfolding shows_row_def by blast

definition unmarked :: "bool \<Rightarrow> obs_row \<Rightarrow> bool" where
  "unmarked includePrivate r \<longleftrightarrow> includePrivate \<or> \<not> isPrivateTag (parseArrayJson (ob_privacy_tags_json r))"

lemma getObservations_shows:
  assumes "getObservations env req db = (Details items warnings, db')" "i \<in> set items"
  shows "di_id i \<in> set (dq_ids req)"
    "shows_row db (\<lambda>r. ob_id r = di_id i \<and> details_allowed env req r \<and> unmarked (dq_include_private req) r \<and>
       archivedFilter (re_now env) False r) i"
proof -
  have "items = List.map_filter (details_of env req (loadObservations env db (dq_ids req))) (dq_ids req)"
    using assms by (auto simp: getObservations_def Let_def split: if_splits)
  then obtain oid where oid: "oid \<in> set (dq_ids req)"
      "details_of env req (loadObservations env db (dq_ids req)) oid = Some i"
    using assms(2) by (auto simp: List.map_filter_def)
  then obtain r where r: "loadObservations env db (dq_ids req) oid = Some r" "details_allowed env req r"
      "unmarked (dq_include_private req) r" "i = details_item env (dq_compact req \<noteq> Some False) r"
    by (auto simp: details_of_def unmarked_def split: option.splits if_splits)
  note found = loadObservations_found [OF r(1)]
  have id: "di_id i = ob_id r" using r(4) by (simp add: details_item_def item_of_row_def)
  show "di_id i \<in> set (dq_ids req)" using id found(2) oid(1) by simp
  show "shows_row db (\<lambda>r. ob_id r = di_id i \<and> details_allowed env req r \<and> unmarked (dq_include_private req) r \<and>
       archivedFilter (re_now env) False r) i"
    unfolding id unfolding r(4) details_item_def by (rule shows_rowI) (use r found in simp_all)
qed

lemma getObservations_replies: "fst (getObservations env req db) \<noteq> NoObservation x"
  by (simp add: getObservations_def Let_def)

lemma findById_found: "findById oid db = Some r \<Longrightarrow> r \<in> set (db_observations db) \<and> ob_id r = oid"
  by (auto simp: findById_def dest!: sql_get_in)

lemma timeline_shows:
  assumes "timeline env req db = (Details items warnings, db')" "i \<in> set items"
  obtains (center) r where "findById (tq_id req) db = Some r" "owns_center req r"
      "unmarked (tq_include_private req) r"
      "\<exists>superseded. i = timeline_item env superseded ''center'' r"
  | (near) r c where "findById (tq_id req) db = Some c" "r \<in> set (db_observations db)" "neighbour env req c r"
      "\<exists>superseded position. i = timeline_item env superseded position r"
proof -
  obtain c where c: "findById (tq_id req) db = Some c"
    using assms(1) by (cases "findById (tq_id req) db") (auto simp: timeline_def)
  let ?s = "loadSupersededObservationIds db
      (filter (\<lambda>i. i \<noteq> []) (map ob_id (before_rows env req c db @ [c] @ after_rows env req c db)))"
  have own: "owns_center req c" "unmarked (tq_include_private req) c"
    using assms(1) c by (auto simp: timeline_def unmarked_def split: if_splits)
  have items: "items = map (timeline_item env ?s ''before'') (rev (before_rows env req c db)) @
      [timeline_item env ?s ''center'' c] @ map (timeline_item env ?s ''after'') (after_rows env req c db)"
    using assms(1) c by (auto simp: timeline_def Let_def split: if_splits)
  have near': "r \<in> set (db_observations db) \<and> neighbour env req c r"
    if "r \<in> set (before_rows env req c db) \<or> r \<in> set (after_rows env req c db)" for r
    using that by (auto simp: before_rows_def after_rows_def dest!: in_set_takeD)
  from assms(2) consider "i = timeline_item env ?s ''center'' c"
    | r where "r \<in> set (before_rows env req c db)" "i = timeline_item env ?s ''before'' r"
    | r where "r \<in> set (after_rows env req c db)" "i = timeline_item env ?s ''after'' r"
    unfolding items by auto
  then show thesis
    by cases (use center near c own near' in blast)+
qed

end
