(* ===== verification/Read_Endpoints.thy ===== *)
theory Read_Endpoints
  imports Feed Detail_Reads Coordination_Api
begin

text \<open>
  The HTTP endpoints of \<open>memory-server/src/server.ts\<close> that read observations: \<open>GET /v1/feed\<close>,
  \<open>POST /v1/timeline\<close> and \<open>POST /v1/observations/get\<close>, from the request to the call of the store. A value
  of type \<open>read_server\<close> holds the authentication environment, what the store was constructed with, and
  \<open>Number\<close> of a text (\<open>None\<close> when it is not finite). Query parameters are a function of their name.
\<close>

record read_server =
  rs_auth :: server_env
  rs_reader :: read_env
  rs_number :: "string \<Rightarrow> rat option"

datatype read_reply =
    ReadRaised
  | NoToken
  | BadBody string
  | FeedReply feed_reply
  | DetailReply detail_reply

definition parseBoolean :: "string option \<Rightarrow> bool \<Rightarrow> bool" where
  "parseBoolean value fallback =
     (case value of
        None \<Rightarrow> fallback
      | Some v \<Rightarrow>
          (let normalized = js_lower (js_trim v) in
           if normalized \<in> {''1'', ''true'', ''yes'', ''on''} then True
           else if normalized \<in> {''0'', ''false'', ''no'', ''off''} then False
           else fallback))"

definition parseBooleanLike :: "json option \<Rightarrow> bool \<Rightarrow> bool" where
  "parseBooleanLike value fallback =
     (case value of
        Some (JBool b) \<Rightarrow> b
      | Some (JStr s) \<Rightarrow> parseBoolean (Some s) fallback
      | _ \<Rightarrow> fallback)"

definition js_trunc :: "rat \<Rightarrow> rat" where
  "js_trunc x = of_int (if x < 0 then \<lceil>x\<rceil> else \<lfloor>x\<rfloor>)"

definition parseInteger :: "read_server \<Rightarrow> string option \<Rightarrow> rat \<Rightarrow> rat" where
  "parseInteger srv value fallback =
     (case value of
        None \<Rightarrow> fallback
      | Some v \<Rightarrow>
          if js_trim v = [] then fallback
          else (case rs_number srv v of None \<Rightarrow> fallback | Some n \<Rightarrow> js_trunc n))"

definition toStringArray :: "json option \<Rightarrow> string list" where
  "toStringArray value = List.map_filter (\<lambda>v. as_string (Some v)) (or_else (as_array value) [])"

text \<open>\<open>get(k) || undefined\<close>\<close>

definition query_text :: "(string \<Rightarrow> string option) \<Rightarrow> string \<Rightarrow> string option" where
  "query_text query k = (if truthy (query k) then query k else None)"

subsection \<open>GET /v1/feed\<close>

definition feed_request_of ::
  "read_server \<Rightarrow> identity option \<Rightarrow> (string \<Rightarrow> string option) \<Rightarrow> feed_request" where
  "feed_request_of srv who query =
     (let config = en_auth_config (rs_auth srv) \<noteq> None;
          access = map_option (\<lambda>ctx. buildAccessFilter ''o'' ctx False) who;
          given = (\<lambda>k. if config then query_text query k else None);
          memory_type = query_text query ''memory_type''
      in \<lparr>fq_cursor = query_text query ''cursor'',
          fq_limit = Some (parseInteger srv (query ''limit'') 40),
          fq_project = query_text query ''project'', fq_project_members = None,
          fq_type = query_text query ''type'',
          fq_include_private = parseBoolean (query ''include_private'') False,
          fq_include_archived = False,
          fq_user_id = nullish (case access of None \<Rightarrow> None | Some f \<Rightarrow> af_user_id f) (given ''user_id''),
          fq_team_id = nullish (case access of None \<Rightarrow> None | Some f \<Rightarrow> af_team_id f) (given ''team_id''),
          fq_member_scope = (case who of None \<Rightarrow> False | Some ctx \<Rightarrow> id_role ctx = Member),
          fq_memory_type = (if memory_type \<in> Some ` {''episodic'', ''semantic'', ''procedural''}
                            then Some [or_else memory_type []] else None)\<rparr>)"

definition feed_endpoint ::
  "read_server \<Rightarrow> request \<Rightarrow> (string \<Rightarrow> string option) \<Rightarrow> mem_db \<Rightarrow> read_reply" where
  "feed_endpoint srv rq query db =
     (case resolveRequestIdentity (rs_auth srv) rq of
        Inl _ \<Rightarrow> ReadRaised
      | Inr who \<Rightarrow> FeedReply (feed (rs_reader srv) (feed_request_of srv who query) db))"

subsection \<open>POST /v1/timeline and POST /v1/observations/get\<close>

definition timeline_endpoint ::
  "read_server \<Rightarrow> request \<Rightarrow> json option \<Rightarrow> mem_db \<Rightarrow> read_reply \<times> mem_db" where
  "timeline_endpoint srv rq raw db =
     (let body = parseRequestJson raw; tid = string_or_empty (jget body ''id'') in
      if js_trim tid = [] then (BadBody ''id is required'', db)
      else (case resolveAccess (rs_auth srv) rq of
              Inl _ \<Rightarrow> (ReadRaised, db)
            | Inr Unauthorized \<Rightarrow> (NoToken, db)
            | Inr (Access user team) \<Rightarrow>
                (let (reply, db1) = timeline (rs_reader srv)
                   \<lparr>tq_id = tid, tq_before = map_option of_int (as_number (jget body ''before'')),
                    tq_after = map_option of_int (as_number (jget body ''after'')),
                    tq_include_private = parseBooleanLike (jget body ''include_private'') False,
                    tq_include_archived = False, tq_user_id = user, tq_team_id = team\<rparr> db
                 in (DetailReply reply, db1))))"

definition details_endpoint ::
  "read_server \<Rightarrow> request \<Rightarrow> json option \<Rightarrow> mem_db \<Rightarrow> read_reply \<times> mem_db" where
  "details_endpoint srv rq raw db =
     (let body = parseRequestJson raw in
      case resolveAccess (rs_auth srv) rq of
        Inl _ \<Rightarrow> (ReadRaised, db)
      | Inr Unauthorized \<Rightarrow> (NoToken, db)
      | Inr (Access user team) \<Rightarrow>
          (let (reply, db1) = getObservations (rs_reader srv)
             \<lparr>dq_ids = toStringArray (jget body ''ids''),
              dq_include_private = parseBooleanLike (jget body ''include_private'') False,
              dq_compact = Some (jget body ''compact'' \<noteq> Some (JBool False)),
              dq_user_id = user, dq_team_id = team\<rparr> db
           in (DetailReply reply, db1)))"

subsection \<open>Details\<close>

text \<open>
  C18. The details of observations go out only for ids that were asked for, and only for rows that are in
  force at that moment, carry no private tag unless private rows were asked for, and belong to the user or
  its team when the request names a user; the database changes in its audit log only.
\<close>

theorem details_are_guarded:
  assumes "getObservations env req db = (Details items warnings, db')"
  shows "(\<forall>i \<in> set items. di_id i \<in> set (dq_ids req) \<and>
      (\<exists>r \<in> set (db_observations db). ob_id r = di_id i \<and> ob_archived_at r = None \<and>
         (\<forall>e. ob_expires_at r = Some e \<longrightarrow> re_now env < e) \<and>
         (dq_include_private req \<or> \<not> isPrivateTag (di_privacy_tags i)) \<and> details_allowed env req r)) \<and>
    db_observations db' = db_observations db"
proof (intro conjI ballI)
  fix i assume i: "i \<in> set items"
  show "di_id i \<in> set (dq_ids req)" by (rule getObservations_shows(1) [OF assms i])
  obtain r where r: "r \<in> set (db_observations db)" "ob_id r = di_id i" "details_allowed env req r"
      "unmarked (dq_include_private req) r" "archivedFilter (re_now env) False r"
      "\<exists>position content raw contract. i = item_of_row position content raw contract r"
    using getObservations_shows(2) [OF assms i] unfolding shows_row_def by blast
  have "di_privacy_tags i = parseArrayJson (ob_privacy_tags_json r)" using r(6) by (auto simp: item_of_row_def)
  then show "\<exists>r \<in> set (db_observations db). ob_id r = di_id i \<and> ob_archived_at r = None \<and>
       (\<forall>e. ob_expires_at r = Some e \<longrightarrow> re_now env < e) \<and>
       (dq_include_private req \<or> \<not> isPrivateTag (di_privacy_tags i)) \<and> details_allowed env req r"
    using r(1-5) by (intro bexI [of _ r]) (auto simp: unmarked_def archivedFilter_def expiredFilter_def)
next
  show "db_observations db' = db_observations db"
    using assms by (auto simp: getObservations_def Let_def read_audit_def split: if_splits)
qed

subsection \<open>Tenancy\<close>

text \<open>A member of a team, with a user id and a team id that are texts without blanks around.\<close>

definition team_member :: "identity \<Rightarrow> string \<Rightarrow> bool" where
  "team_member ctx team \<longleftrightarrow> id_role ctx = Member \<and> id_user_id ctx \<noteq> [] \<and> js_trim (id_user_id ctx) = id_user_id ctx \<and>
     id_team_id ctx = Some team \<and> team \<noteq> [] \<and> js_trim team = team"

definition owned_by :: "identity \<Rightarrow> string \<Rightarrow> string option \<Rightarrow> bool" where
  "owned_by ctx user team \<longleftrightarrow> user = id_user_id ctx \<or> (team \<noteq> None \<and> team = id_team_id ctx)"

lemma member_filter:
  "id_role ctx = Member \<Longrightarrow> af_user_id (buildAccessFilter a ctx False) = Some (id_user_id ctx) \<and>
     af_team_id (buildAccessFilter a ctx False) = id_team_id ctx"
  by (simp add: buildAccessFilter_def Let_def)

lemma feed_items_owned:
  assumes "team_member ctx team" "feed env req db = FeedPage items next hasMore" "i \<in> set items"
    and "fq_member_scope req" "fq_user_id req = Some (id_user_id ctx)" "fq_team_id req = Some team"
  shows "owned_by ctx (fi_user_id i) (fi_team_id i)"
proof -
  obtain members re where re: "i = feed_item_of env re" "feed_where env req members re"
    using assms(2,3) by (auto simp: feed_def Let_def split: if_splits option.splits dest!: in_set_takeD)
  obtain r e where p: "re = (r, e)" by (cases re)
  have "feed_tenants req r" using re(2) p by (simp add: feed_where_def)
  then have "owned_by ctx (ob_user_id r) (ob_team_id r)"
    using assms by (auto simp: feed_tenants_def trimmed_filter_def team_member_def owned_by_def)
  then show ?thesis using re(1) p by (simp add: feed_item_of_def Let_def)
qed

lemma member_access_resolved:
  "resolveRequestIdentity env rq = Inr (Some ctx) \<Longrightarrow> id_role ctx = Member \<Longrightarrow>
     resolveAccess env rq = Inr (Access (Some (id_user_id ctx)) (id_team_id ctx))"
  using member_filter [of ctx "''o''"] by (simp add: resolveAccess_def Let_def)

definition item_owned :: "mem_db \<Rightarrow> identity \<Rightarrow> detail_item \<Rightarrow> bool" where
  "item_owned db ctx i \<longleftrightarrow> shows_row db (\<lambda>r. owned_by ctx (ob_user_id r) (ob_team_id r)) i"

lemma timeline_items_owned:
  assumes "team_member ctx team" "timeline env req db = (Details items warnings, db')" "i \<in> set items"
    and "tq_user_id req = Some (id_user_id ctx)" "tq_team_id req = Some team"
  shows "item_owned db ctx i"
  using assms(2,3)
proof (cases rule: timeline_shows)
  case (center r)
  have "owned_by ctx (ob_user_id r) (ob_team_id r)"
    using center(2) assms(1,4,5) by (cases "ob_team_id r") (auto simp: owns_center_def team_member_def owned_by_def)
  then show ?thesis
    using center(4) findById_found [OF center(1)] unfolding item_owned_def timeline_item_def by (auto intro: shows_rowI)
next
  case (near r c)
  have "owned_by ctx (ob_user_id r) (ob_team_id r)"
    using near(3) assms(1,4,5) by (auto simp: neighbour_def tenantFilter_def team_member_def owned_by_def)
  then show ?thesis
    using near(2,4) unfolding item_owned_def timeline_item_def by (auto intro: shows_rowI)
qed

lemma details_items_owned:
  assumes "team_member ctx team" "getObservations env req db = (Details items warnings, db')" "i \<in> set items"
    and "dq_user_id req = Some (id_user_id ctx)" "dq_team_id req = Some team"
  shows "item_owned db ctx i"
proof -
  have "owned_by ctx (ob_user_id r) (ob_team_id r)" if "details_allowed env req r" for r
    using that assms(1,4,5) by (auto simp: details_allowed_def nullish_def team_member_def owned_by_def Let_def)
  then show ?thesis
    unfolding item_owned_def using getObservations_shows(2) [OF assms(2,3)] by (auto elim: shows_row_mono)
qed

text \<open>
  C6. Over HTTP a member of a team reads nothing of other tenants: every observation in the feed, in a
  timeline, the one at its centre included, and among requested details belongs to the user or its team,
  whatever the query and the body ask for; and reading leaves the observations as they were.
\<close>

theorem members_read_their_tenancy:
  assumes "resolveRequestIdentity (rs_auth srv) rq = Inr (Some ctx)" "team_member ctx team"
  shows "(feed_endpoint srv rq query db = FeedReply (FeedPage fs next hasMore) \<longrightarrow>
      (\<forall>i \<in> set fs. owned_by ctx (fi_user_id i) (fi_team_id i))) \<and>
    (timeline_endpoint srv rq raw db = (DetailReply (Details ts warnings), db1) \<longrightarrow>
      (\<forall>i \<in> set ts. item_owned db ctx i) \<and> db_observations db1 = db_observations db) \<and>
    (details_endpoint srv rq raw db = (DetailReply (Details ds warnings), db2) \<longrightarrow>
      (\<forall>i \<in> set ds. item_owned db ctx i) \<and> db_observations db2 = db_observations db)"
proof (intro conjI impI ballI)
  have m: "id_role ctx = Member" "id_team_id ctx = Some team" using assms(2) by (simp_all add: team_member_def)
  note access = member_access_resolved [OF assms(1) m(1)]
  { fix i assume f: "feed_endpoint srv rq query db = FeedReply (FeedPage fs next hasMore)" and i: "i \<in> set fs"
    show "owned_by ctx (fi_user_id i) (fi_team_id i)"
    proof (rule feed_items_owned [OF assms(2) _ i])
      show "feed (rs_reader srv) (feed_request_of srv (Some ctx) query) db = FeedPage fs next hasMore"
        using f assms(1) by (simp add: feed_endpoint_def)
    qed (use m member_filter [of ctx "''o''"] in \<open>simp_all add: feed_request_of_def Let_def nullish_def\<close>)
  }
  { fix i assume t: "timeline_endpoint srv rq raw db = (DetailReply (Details ts warnings), db1)" and i: "i \<in> set ts"
    then show "item_owned db ctx i"
      using access m
      by (auto simp: timeline_endpoint_def Let_def split: if_splits prod.splits
          intro: timeline_items_owned [OF assms(2)])
  }
  { fix i assume d: "details_endpoint srv rq raw db = (DetailReply (Details ds warnings), db2)" and i: "i \<in> set ds"
    then show "item_owned db ctx i"
      using access m
      by (auto simp: details_endpoint_def Let_def split: if_splits prod.splits
          intro: details_items_owned [OF assms(2)])
  }
  show "db_observations db1 = db_observations db"
    if "timeline_endpoint srv rq raw db = (DetailReply (Details ts warnings), db1)"
    using that access
    by (auto simp: timeline_endpoint_def timeline_def read_audit_def Let_def split: if_splits prod.splits option.splits)
  show "db_observations db2 = db_observations db"
    if "details_endpoint srv rq raw db = (DetailReply (Details ds warnings), db2)"
    using that access
    by (auto simp: details_endpoint_def getObservations_def read_audit_def Let_def split: if_splits prod.splits)
qed


subsection \<open>Instances\<close>

definition sample_server :: read_server where
  "sample_server = \<lparr>rs_auth = auth_env, rs_reader = sample_reader, rs_number = (\<lambda>s. None)\<rparr>"

definition no_query :: "string \<Rightarrow> string option" where
  "no_query k = None"

definition unknown_request :: request where
  "unknown_request = member_request\<lparr>rq_authorization := Some ''Bearer guess''\<rparr>"

definition details_body :: "json option" where
  "details_body = Some (JObj [(''ids'', JArr [JStr ''a'', JStr ''b''])])"

definition two_tenants :: mem_db where
  "two_tenants = sample_db [sample_obs ''a'' ''2026-01'' ''u1'', sample_obs ''b'' ''2026-02'' ''u2'']"

theorem details_are_guarded_witness:
  "\<exists>items warnings db'. getObservations sample_reader
     \<lparr>dq_ids = [''a'', ''b''], dq_include_private = False, dq_compact = None, dq_user_id = Some ''u1'',
      dq_team_id = None\<rparr> two_tenants = (Details items warnings, db') \<and>
     map di_id items = [''a''] \<and> db_observations db' = db_observations two_tenants"
proof -
  let ?req = "\<lparr>dq_ids = [''a'', ''b''], dq_include_private = False, dq_compact = None, dq_user_id = Some ''u1'',
      dq_team_id = None\<rparr>"
  obtain items warnings db' where g: "getObservations sample_reader ?req two_tenants = (Details items warnings, db')"
    by (metis detail_reply.exhaust fstI getObservations_replies prod.exhaust)
  have "(case fst (getObservations sample_reader ?req two_tenants) of Details xs _ \<Rightarrow> map di_id xs | _ \<Rightarrow> []) = [''a'']"
    by code_simp
  then show ?thesis using g details_are_guarded [OF g] by auto
qed

lemma sample_member: "resolveRequestIdentity (rs_auth sample_server) member_request =
    Inr (Some \<lparr>id_user_id = ''u1'', id_team_id = Some ''t1'', id_role = Member\<rparr>)"
  by code_simp

lemma sample_replies:
  "\<exists>fs next hasMore. feed_endpoint sample_server member_request no_query two_tenants = FeedReply (FeedPage fs next hasMore) \<and>
     map fi_id fs = [''a'']"
  "\<exists>fs next hasMore. feed_endpoint sample_server unknown_request no_query two_tenants = FeedReply (FeedPage fs next hasMore) \<and>
     map fi_id fs = [''b'', ''a'']"
proof -
  have "(case feed_endpoint sample_server member_request no_query two_tenants of
      FeedReply (FeedPage fs next hasMore) \<Rightarrow> map fi_id fs | _ \<Rightarrow> []) = [''a'']" by code_simp
  then show "\<exists>fs next hasMore. feed_endpoint sample_server member_request no_query two_tenants = FeedReply (FeedPage fs next hasMore) \<and>
     map fi_id fs = [''a'']"
    by (auto split: read_reply.splits feed_reply.splits)
  have "(case feed_endpoint sample_server unknown_request no_query two_tenants of
      FeedReply (FeedPage fs next hasMore) \<Rightarrow> map fi_id fs | _ \<Rightarrow> []) = [''b'', ''a'']" by code_simp
  then show "\<exists>fs next hasMore. feed_endpoint sample_server unknown_request no_query two_tenants = FeedReply (FeedPage fs next hasMore) \<and>
     map fi_id fs = [''b'', ''a'']"
    by (auto split: read_reply.splits feed_reply.splits)
qed

theorem members_read_their_tenancy_witness:
  "\<exists>fs next hasMore. feed_endpoint sample_server member_request no_query two_tenants = FeedReply (FeedPage fs next hasMore) \<and>
     fs \<noteq> [] \<and> (\<forall>i \<in> set fs. fi_user_id i = ''u1'' \<or> fi_team_id i = Some ''t1'')"
proof -
  let ?ctx = "\<lparr>id_user_id = ''u1'', id_team_id = Some ''t1'', id_role = Member\<rparr>"
  have "team_member ?ctx ''t1''" by code_simp
  from members_read_their_tenancy [OF sample_member this]
  have "feed_endpoint sample_server member_request no_query two_tenants = FeedReply (FeedPage fs c hasMore) \<Longrightarrow>
      \<forall>i \<in> set fs. fi_user_id i = ''u1'' \<or> fi_team_id i = Some ''t1''" for fs c hasMore
    by (fastforce simp: owned_by_def)
  then show ?thesis using sample_replies(1) by fastforce
qed


end
