(* ===== verification/Grouping.thy ===== *)
theory Grouping
  imports Prelude
begin

text \<open>
  Rows put into the buckets of a \<open>Map\<close> by a key, in the order the keys first occur, as
  \<open>groups.get(key) ?? []\<close>, \<open>push\<close> and \<open>groups.set\<close> do it in \<open>config-manager.ts\<close> and in the
  consolidation modules; the pairs two nested loops visit; and splitting a text at runs of characters.
\<close>

fun add_to_group :: "'k \<Rightarrow> 'r \<Rightarrow> ('k \<times> 'r list) list \<Rightarrow> ('k \<times> 'r list) list" where
  "add_to_group k r [] = [(k, [r])]"
| "add_to_group k r ((j, rs) # gs) = (if j = k then (j, rs @ [r]) # gs else (j, rs) # add_to_group k r gs)"

text \<open>A row without a key is passed over.\<close>

definition group_by :: "('r \<Rightarrow> 'k option) \<Rightarrow> 'r list \<Rightarrow> ('k \<times> 'r list) list" where
  "group_by f rows = fold (\<lambda>r gs. case f r of None \<Rightarrow> gs | Some k \<Rightarrow> add_to_group k r gs) rows []"

lemma add_to_group_keys: "fst ` set (add_to_group k r gs) = insert k (fst ` set gs)"
  by (induction k r gs rule: add_to_group.induct) auto

lemma add_to_group_distinct: "distinct (map fst gs) \<Longrightarrow> distinct (map fst (add_to_group k r gs))"
  by (induction k r gs rule: add_to_group.induct) (auto simp: add_to_group_keys)

lemma add_to_group_map_of:
  "map_of (add_to_group k r gs) = (map_of gs)(k \<mapsto> (case map_of gs k of None \<Rightarrow> [r] | Some rs \<Rightarrow> rs @ [r]))"
  by (induction k r gs rule: add_to_group.induct) (auto split: option.splits)

text \<open>The bucket of a key holds the rows with the key, in their order.\<close>

lemma group_by_snoc:
  "group_by f (rows @ [r]) = (case f r of None \<Rightarrow> group_by f rows | Some k \<Rightarrow> add_to_group k r (group_by f rows))"
  by (simp add: group_by_def split: option.split)

lemma group_by_keys: "distinct (map fst (group_by f rows))"
proof (induction rows rule: rev_induct)
  case (snoc r rows)
  then show ?case by (simp add: group_by_snoc add_to_group_distinct split: option.split)
qed (simp add: group_by_def)

lemma group_by_map_of:
  "map_of (group_by f rows) k =
     (let rs = filter (\<lambda>r. f r = Some k) rows in if rs = [] then None else Some rs)"
proof (induction rows rule: rev_induct)
  case (snoc r rows)
  show ?case
  proof (cases "f r")
    case None
    then show ?thesis using snoc by (simp add: group_by_snoc Let_def)
  next
    case (Some j)
    then show ?thesis using snoc
      by (cases "j = k") (auto simp: group_by_snoc add_to_group_map_of Let_def split: option.splits if_splits)
  qed
qed (simp add: group_by_def)

lemma group_by_mem: "(k, rs) \<in> set (group_by f rows) \<longleftrightarrow> rs \<noteq> [] \<and> rs = filter (\<lambda>r. f r = Some k) rows"
  using map_of_eq_Some_iff [OF group_by_keys, of f rows k rs] unfolding group_by_map_of Let_def
  by (auto split: if_splits)

text \<open>The pairs of a list, an earlier element first, in the order of the two loops.\<close>

fun all_pairs :: "'a list \<Rightarrow> ('a \<times> 'a) list" where
  "all_pairs [] = []"
| "all_pairs (x # xs) = map (Pair x) xs @ all_pairs xs"

lemma all_pairs_mem: "(x, y) \<in> set (all_pairs xs) \<Longrightarrow> x \<in> set xs \<and> y \<in> set xs"
  by (induction xs) auto

subsection \<open>Splitting a text\<close>

text \<open>\<open>s.split(/[...]+/)\<close>: the parts between maximal runs of separators.\<close>

function split_runs :: "(char \<Rightarrow> bool) \<Rightarrow> string \<Rightarrow> string \<Rightarrow> string list" where
  "split_runs p acc [] = [rev acc]"
| "split_runs p acc (c # s) =
     (if p c then rev acc # split_runs p [] (dropWhile p s) else split_runs p (c # acc) s)"
  by pat_completeness auto
termination
  by (relation "measure (length \<circ> snd \<circ> snd)") (auto simp: le_imp_less_Suc length_dropWhile_le)

end
