(* ===== verification/Admin_Ops.thy ===== *)
theory Admin_Ops
  imports Feed Detail_Reads Event_Build Grouping
begin

text \<open>
  The operations on stored observations of \<open>memory-server/src/core/harness-mem-core.ts\<close>
  (\<open>bulkDeleteObservations\<close>, \<open>shareObservationToTeam\<close>, \<open>exportObservations\<close>) and of
  \<open>config-manager.ts\<close> (\<open>cleanupDuplicateObservations\<close>). A statement that names a column the table does
  not have raises; the columns are those of \<open>db/schema.ts\<close> after its migrations. The table of teams is the
  list of its ids, and \<open>localeCompare\<close> stands for the order of code units.
\<close>

definition obs_columns :: "string list" where
  "obs_columns =
     [''id'', ''event_id'', ''platform'', ''project'', ''session_id'', ''title'', ''content'', ''content_redacted'',
      ''content_dedupe_hash'', ''raw_text'', ''observation_type'', ''memory_type'', ''tags_json'',
      ''privacy_tags_json'', ''user_id'', ''team_id'', ''event_time'', ''observed_at'', ''valid_from'', ''valid_to'',
      ''supersedes'', ''invalidated_at'', ''archived_at'', ''expires_at'', ''created_at'', ''updated_at'',
      ''signal_score'', ''access_count'', ''last_accessed_at'', ''cognitive_sector'', ''workspace_uid'',
      ''title_fts'', ''content_fts'', ''thread_id'', ''topic'', ''branch'']"

text \<open>A statement that reads these columns of \<open>mem_observations\<close> can be prepared.\<close>

definition prepares :: "string list \<Rightarrow> bool" where
  "prepares cols \<longleftrightarrow> set cols \<subseteq> set obs_columns"

text \<open>The JSON columns by name.\<close>

definition json_column :: "string \<Rightarrow> obs_row \<Rightarrow> string option" where
  "json_column c r =
     (if c = ''tags_json'' then Some (ob_tags_json r)
      else if c = ''privacy_tags_json'' then Some (ob_privacy_tags_json r) else None)"

definition set_json_column :: "string \<Rightarrow> string \<Rightarrow> obs_row \<Rightarrow> obs_row" where
  "set_json_column c v r =
     (if c = ''tags_json'' then r\<lparr>ob_tags_json := v\<rparr>
      else if c = ''privacy_tags_json'' then r\<lparr>ob_privacy_tags_json := v\<rparr> else r)"

subsection \<open>bulkDeleteObservations\<close>

record bulk_request =
  bk_ids :: "string list"
  bk_user_id :: "string option"
  bk_team_id :: "string option"

datatype bulk_reply = NoIds | TooManyIds nat | BulkDone "string list" "string list"

definition bulk_owner :: "bulk_request \<Rightarrow> obs_row \<Rightarrow> bool" where
  "bulk_owner req r \<longleftrightarrow>
     \<not> truthy (bk_user_id req) \<or> Some (ob_user_id r) = bk_user_id req \<or>
     (truthy (bk_team_id req) \<and> ob_team_id r = bk_team_id req)"

text \<open>The JSON array of a column with the mark added; \<open>None\<close> when the column does not parse to an array.\<close>

definition with_deleted :: "string \<Rightarrow> string option" where
  "with_deleted column =
     (if column = [] then Some (stringify (JArr [JStr ''deleted'']))
      else (case parse_text column of
              Some (JArr xs) \<Rightarrow>
                Some (stringify (JArr (if JStr ''deleted'' \<in> set xs then xs else xs @ [JStr ''deleted''])))
            | _ \<Rightarrow> None))"

text \<open>One round of the loop; \<open>None\<close> is an id that is skipped, an exception included.\<close>

definition bulk_delete_one :: "bulk_request \<Rightarrow> string \<Rightarrow> mem_db \<Rightarrow> mem_db option" where
  "bulk_delete_one req oid db =
     (let column = ''privacy_tags'' in
      if \<not> prepares [''id'', column, ''user_id'', ''team_id''] then None
      else (case sql_get (sql_where (\<lambda>r. ob_id r = oid) (db_observations db)) of
              None \<Rightarrow> None
            | Some r \<Rightarrow>
                if \<not> bulk_owner req r then None
                else (case with_deleted (or_else (json_column column r) []) of
                        None \<Rightarrow> None
                      | Some v \<Rightarrow> Some (db\<lparr>db_observations :=
                          sql_update (\<lambda>r. ob_id r = oid) (set_json_column column v) (db_observations db)\<rparr>))))"

fun bulk_loop :: "bulk_request \<Rightarrow> string list \<Rightarrow> mem_db \<Rightarrow> (string list \<times> string list) \<times> mem_db" where
  "bulk_loop req [] db = (([], []), db)"
| "bulk_loop req (oid # ids) db =
     (case bulk_delete_one req oid db of
        None \<Rightarrow> (let ((deleted, skipped), db1) = bulk_loop req ids db in ((deleted, oid # skipped), db1))
      | Some db1 \<Rightarrow> (let ((deleted, skipped), db2) = bulk_loop req ids db1 in ((oid # deleted, skipped), db2)))"

definition bulkDeleteObservations :: "bulk_request \<Rightarrow> mem_db \<Rightarrow> bulk_reply \<times> mem_db" where
  "bulkDeleteObservations req db =
     (if bk_ids req = [] then (NoIds, db)
      else if 500 < length (bk_ids req) then (TooManyIds (length (bk_ids req)), db)
      else (let ((deleted, skipped), db1) = bulk_loop req (bk_ids req) db in (BulkDone deleted skipped, db1)))"

subsection \<open>exportObservations\<close>

record export_request =
  ex_project :: "string option"
  ex_limit :: int
  ex_include_private :: bool
  ex_user_id :: "string option"
  ex_team_id :: "string option"

datatype export_reply = ExportFailed | Exported "obs_row list"

definition exportObservations :: "export_request \<Rightarrow> mem_db \<Rightarrow> export_reply" where
  "exportObservations req db =
     (let cols = [''id'', ''platform'', ''project'', ''session_id'', ''event_type'', ''title'', ''content'',
                  ''created_at'', ''tags'', ''privacy_tags''] in
      if \<not> prepares cols then ExportFailed
      else (let rows = order_desc ob_created_at (sql_where (\<lambda>r.
                  (\<not> truthy (ex_project req) \<or> Some (ob_project r) = ex_project req) \<and>
                  (ex_include_private req \<or> \<not> sublist (CHR 0x22 # ''deleted'' @ [CHR 0x22]) (ob_privacy_tags_json r)) \<and>
                  tenantFilter (ex_user_id req) (ex_team_id req) r) (db_observations db))
            in Exported (if ex_limit req < 0 then rows else take (nat (ex_limit req)) rows)))"

subsection \<open>shareObservationToTeam\<close>

record share_request =
  sh_observation_id :: string
  sh_team_id :: string
  sh_user_id :: "string option"

datatype share_reply = ShareRefused string | ShareRaised | Shared bool

definition mentions_deleted :: "obs_row \<Rightarrow> bool option" where
  "mentions_deleted r =
     (if ob_privacy_tags_json r = [] then Some False
      else (case parse_text (ob_privacy_tags_json r) of
              Some (JArr xs) \<Rightarrow> Some (JStr ''deleted'' \<in> set xs)
            | Some (JStr s) \<Rightarrow> Some (sublist ''deleted'' s)
            | _ \<Rightarrow> None))"

definition may_share :: "share_request \<Rightarrow> obs_row \<Rightarrow> bool" where
  "may_share req r \<longleftrightarrow>
     \<not> truthy (sh_user_id req) \<or> ob_user_id r = [] \<or> ob_user_id r = ''default'' \<or> Some (ob_user_id r) = sh_user_id req"

definition share_audit :: "read_env \<Rightarrow> share_request \<Rightarrow> (string \<times> json) list \<Rightarrow> mem_db \<Rightarrow> mem_db" where
  "share_audit env req extra db =
     read_audit env ''write.share_to_team'' (sh_observation_id req)
       ((''team_id'', JStr (sh_team_id req)) # extra @ [(''user_id'', JStr (or_else (sh_user_id req) ''system''))]) db"

definition shareObservationToTeam ::
  "read_env \<Rightarrow> string list \<Rightarrow> share_request \<Rightarrow> mem_db \<Rightarrow> share_reply \<times> mem_db" where
  "shareObservationToTeam env teams req db =
     (let oid = sh_observation_id req; team = sh_team_id req in
      if js_trim oid = [] then (ShareRefused ''observation_id is required'', db)
      else if js_trim team = [] then (ShareRefused ''team_id is required'', db)
      else (case findById oid db of
              None \<Rightarrow> (ShareRefused (''Observation '' @ [CHR 0x27] @ oid @ [CHR 0x27] @ '' not found''), db)
            | Some r \<Rightarrow>
                (case mentions_deleted r of
                   None \<Rightarrow> (ShareRaised, db)
                 | Some True \<Rightarrow> (ShareRefused (''Observation '' @ [CHR 0x27] @ oid @ [CHR 0x27] @ '' has been deleted''), db)
                 | Some False \<Rightarrow>
                     if \<not> may_share req r
                     then (ShareRefused ''Permission denied: you can only share your own observations'', db)
                     else if team \<notin> set teams
                     then (ShareRefused (''Team '' @ [CHR 0x27] @ team @ [CHR 0x27] @ '' not found''), db)
                     else if ob_team_id r = Some team
                     then (Shared True, share_audit env req [(''idempotent'', JBool True)] db)
                     else (Shared False,
                       share_audit env req
                         [(''previous_team_id'', (case ob_team_id r of None \<Rightarrow> JNull | Some t \<Rightarrow> JStr t))]
                         (db\<lparr>db_observations := sql_update (\<lambda>r. ob_id r = oid)
                            (\<lambda>r. r\<lparr>ob_team_id := Some team, ob_updated_at := re_now env\<rparr>) (db_observations db)\<rparr>)))))"

subsection \<open>cleanupDuplicateObservations\<close>

text \<open>The bucket a row falls into; \<open>None\<close> when its text is blank.\<close>

definition duplicate_key :: "obs_row \<Rightarrow> string option" where
  "duplicate_key r =
     (let normalized = normalizeDedupeText (ob_content_redacted r) in
      if normalized = [] then None
      else if truthy (ob_content_dedupe_hash r) then Some (''hash:'' @ or_else (ob_content_dedupe_hash r) [])
      else Some (''legacy:'' @ ob_session_id r @ '':'' @ ob_observation_type r @ '':'' @ normalized))"

definition group_rows :: "obs_row list \<Rightarrow> (string \<times> obs_row list) list" where
  "group_rows rows = group_by duplicate_key rows"

text \<open>Newest first, by id where the time is the same.\<close>

definition newest_first :: "obs_row list \<Rightarrow> obs_row list" where
  "newest_first rows = order_desc ob_created_at (order_desc ob_id rows)"

record cleanup_item =
  ci_group_key :: string
  ci_kept_id :: string
  ci_archived_ids :: "string list"

definition archive_ids :: "string \<Rightarrow> string list \<Rightarrow> obs_row list \<Rightarrow> obs_row list" where
  "archive_ids now ids t =
     sql_update (\<lambda>r. ob_id r \<in> set ids \<and> ob_archived_at r = None)
       (\<lambda>r. r\<lparr>ob_archived_at := Some now, ob_updated_at := now\<rparr>) t"

definition cleanup_audit :: "read_env \<Rightarrow> bool \<Rightarrow> cleanup_item \<Rightarrow> mem_db \<Rightarrow> mem_db" where
  "cleanup_audit env execute it db =
     db\<lparr>db_audit := write_plain
        \<lparr>aw_action = (if execute then ''admin.cleanup_duplicates'' else ''admin.cleanup_duplicates.plan''),
         aw_target_type = ''observation_group'', aw_target_id = take 255 (ci_group_key it),
         aw_details_json = stringify (JObj [(''dry_run'', JBool (\<not> execute)), (''kept_id'', JStr (ci_kept_id it)),
           (''archived_ids'', js_strings (ci_archived_ids it))]),
         aw_actor = ''system'', aw_created_at = re_now env\<rparr> (db_audit db)\<rparr>"

text \<open>The loop over the groups: a group of one is passed over, and the loop ends with \<open>limit\<close> items.\<close>

fun cleanup_groups ::
  "read_env \<Rightarrow> bool \<Rightarrow> nat \<Rightarrow> (string \<times> obs_row list) list \<Rightarrow> cleanup_item list \<Rightarrow> mem_db \<Rightarrow>
     cleanup_item list \<times> mem_db" where
  "cleanup_groups env execute limit [] items db = (items, db)"
| "cleanup_groups env execute limit ((k, rows) # gs) items db =
     (if length rows < 2 then cleanup_groups env execute limit gs items db
      else (let sorted_rows = newest_first rows;
                it = \<lparr>ci_group_key = k, ci_kept_id = ob_id (hd sorted_rows), ci_archived_ids = map ob_id (tl sorted_rows)\<rparr>;
                db1 = (if execute
                       then db\<lparr>db_observations := archive_ids (re_now env) (ci_archived_ids it) (db_observations db)\<rparr>
                       else db);
                db2 = cleanup_audit env execute it db1
            in if limit \<le> length (items @ [it]) then (items @ [it], db2)
               else cleanup_groups env execute limit gs (items @ [it]) db2))"

definition cleanup_limit :: "rat option \<Rightarrow> nat" where
  "cleanup_limit limit = nat (clampLimit limit 100 1 10000)"

definition cleanupDuplicateObservations ::
  "read_env \<Rightarrow> bool \<Rightarrow> rat option \<Rightarrow> mem_db \<Rightarrow> cleanup_item list \<times> mem_db" where
  "cleanupDuplicateObservations env execute limit db =
     (let n = cleanup_limit limit; scanLimit = min (n * 10) 10000;
          rows = take scanLimit (order_desc ob_created_at
            (sql_where (\<lambda>r. ob_archived_at r = None \<and> expiredFilter (re_now env) r) (db_observations db)))
      in cleanup_groups env execute n (group_rows rows) [] db)"

subsection \<open>Cleaning up keeps one of each\<close>

definition groups_ok :: "obs_row list \<Rightarrow> (string \<times> obs_row list) list \<Rightarrow> bool" where
  "groups_ok rows gs \<longleftrightarrow> distinct (map fst gs) \<and>
     (\<forall>(k, rs) \<in> set gs. set rs \<subseteq> set rows \<and> (distinct rows \<longrightarrow> distinct rs) \<and> (\<forall>r \<in> set rs. duplicate_key r = Some k))"

lemma groups_ok: "groups_ok rows (group_rows rows)"
  by (auto simp: groups_ok_def group_rows_def group_by_keys group_by_mem)

lemma set_newest_first [simp]: "set (newest_first rows) = set rows"
  by (simp add: newest_first_def)

lemma length_newest_first [simp]: "length (newest_first rows) = length rows"
  by (simp add: newest_first_def)

lemma distinct_newest_first: "distinct rows \<Longrightarrow> distinct (newest_first rows)"
  by (simp add: newest_first_def order_desc_def)

lemma newest_first_hd: "r \<in> set rows \<Longrightarrow> ob_created_at r \<le> ob_created_at (hd (newest_first rows))"
proof -
  assume r: "r \<in> set rows"
  have "newest_first rows \<noteq> []" using r by (metis empty_iff list.set(1) set_newest_first)
  then obtain x xs where l: "newest_first rows = x # xs" by (cases "newest_first rows") simp_all
  have "sorted (map ob_created_at (rev (newest_first rows)))"
    by (simp add: newest_first_def order_desc_def)
  then have "\<forall>y \<in> set xs. ob_created_at y \<le> ob_created_at x" by (simp add: l sorted_append)
  then show ?thesis using r l set_newest_first [of rows] by auto
qed

definition archived_row :: "string \<Rightarrow> obs_row \<Rightarrow> obs_row" where
  "archived_row now r = r\<lparr>ob_archived_at := Some now, ob_updated_at := now\<rparr>"

lemma archived_row_simps [simp]:
  "ob_id (archived_row now r) = ob_id r" "ob_archived_at (archived_row now r) = Some now"
  "ob_session_id (archived_row now r) = ob_session_id r" "ob_event_id (archived_row now r) = ob_event_id r"
  "ob_content_dedupe_hash (archived_row now r) = ob_content_dedupe_hash r"
  "ob_tags_json (archived_row now r) = ob_tags_json r"
  "ob_privacy_tags_json (archived_row now r) = ob_privacy_tags_json r"
  "ob_created_at (archived_row now r) = ob_created_at r"
  by (simp_all add: archived_row_def)

lemma archive_ids_map:
  "archive_ids now ids t = map (\<lambda>r. if ob_id r \<in> set ids \<and> ob_archived_at r = None then archived_row now r else r) t"
  by (simp add: archive_ids_def sql_update_def archived_row_def)

lemma archive_twice: "archive_ids now b (archive_ids now a t) = archive_ids now (a @ b) t"
proof -
  have "(let s = (if ob_id r \<in> set a \<and> ob_archived_at r = None then archived_row now r else r) in
      if ob_id s \<in> set b \<and> ob_archived_at s = None then archived_row now s else s) =
      (if ob_id r \<in> set (a @ b) \<and> ob_archived_at r = None then archived_row now r else r)" for r
    by (cases "ob_id r \<in> set a \<and> ob_archived_at r = None") (simp_all add: Let_def, auto)
  then show ?thesis by (simp add: archive_ids_map Let_def)
qed

lemma archive_none [simp]: "archive_ids now [] t = t"
  by (simp add: archive_ids_map)

text \<open>What the loop over the groups adds.\<close>

definition from_group :: "(string \<times> obs_row list) list \<Rightarrow> cleanup_item \<Rightarrow> bool" where
  "from_group gs it \<longleftrightarrow> (\<exists>rows. (ci_group_key it, rows) \<in> set gs \<and> 2 \<le> length rows \<and>
     ci_kept_id it = ob_id (hd (newest_first rows)) \<and> ci_archived_ids it = map ob_id (tl (newest_first rows)))"

definition cleaned :: "read_env \<Rightarrow> bool \<Rightarrow> cleanup_item list \<Rightarrow> mem_db \<Rightarrow> mem_db \<Rightarrow> bool" where
  "cleaned env execute its db db' \<longleftrightarrow> (\<exists>l. db' = db\<lparr>db_observations :=
      (if execute then archive_ids (re_now env) (concat (map ci_archived_ids its)) (db_observations db)
       else db_observations db), db_audit := l\<rparr>)"

lemma cleaned_step:
  assumes "cleaned env execute its
      (cleanup_audit env execute it (if execute
        then db\<lparr>db_observations := archive_ids (re_now env) (ci_archived_ids it) (db_observations db)\<rparr> else db)) db'"
  shows "cleaned env execute (it # its) db db'"
  using assms by (cases execute) (auto simp: cleaned_def cleanup_audit_def archive_twice)

lemma cleanup_groups_effect:
  "cleanup_groups env execute n gs items db = (items', db') \<Longrightarrow>
     \<exists>new. items' = items @ new \<and> cleaned env execute new db db' \<and> (\<forall>it \<in> set new. from_group gs it)"
proof (induction env execute n gs items db arbitrary: items' db' rule: cleanup_groups.induct)
  case (1 env execute n items db)
  have "cleaned env execute [] db db"
    by (cases execute; auto simp: cleaned_def intro: exI [of _ "db_audit db"])
  then show ?case using 1 by auto
next
  case (2 env execute n k rows gs items db)
  have more: "from_group gs it \<Longrightarrow> from_group ((k, rows) # gs) it" for it
    by (auto simp: from_group_def)
  show ?case
  proof (cases "length rows < 2")
    case True
    then have "cleanup_groups env execute n gs items db = (items', db')" using 2(3) by simp
    from 2(1) [OF True this] show ?thesis using more by blast
  next
    case False
    define it where "it = \<lparr>ci_group_key = k, ci_kept_id = ob_id (hd (newest_first rows)),
      ci_archived_ids = map ob_id (tl (newest_first rows))\<rparr>"
    define db2 where "db2 = cleanup_audit env execute it (if execute
        then db\<lparr>db_observations := archive_ids (re_now env) (ci_archived_ids it) (db_observations db)\<rparr> else db)"
    have here: "from_group ((k, rows) # gs) it" using False by (auto simp: from_group_def it_def)
    have step: "(if n \<le> length (items @ [it]) then (items @ [it], db2)
        else cleanup_groups env execute n gs (items @ [it]) db2) = (items', db')"
      using 2(3) unfolding cleanup_groups.simps Let_def it_def db2_def by (simp only: False if_False)
    show ?thesis
    proof (cases "n \<le> length (items @ [it])")
      case True
      have "cleaned env execute [it] db db2"
        unfolding db2_def
        by (rule cleaned_step) (cases execute; auto simp: cleaned_def cleanup_audit_def)
      then show ?thesis using True step here by auto
    next
      case go: False
      then have "cleanup_groups env execute n gs (items @ [it]) db2 = (items', db')" using step by simp
      then obtain new where "items' = (items @ [it]) @ new" "cleaned env execute new db2 db'" "\<forall>it \<in> set new. from_group gs it"
        using 2(2) [OF False refl refl refl refl, folded it_def, folded db2_def, OF go] by blast
      then show ?thesis
        using here more cleaned_step [of env execute new it db db'] unfolding db2_def
        by (intro exI [of _ "it # new"]) auto
    qed
  qed
qed

lemma hd_not_in_tl: "distinct xs \<Longrightarrow> xs \<noteq> [] \<Longrightarrow> hd xs \<notin> set (tl xs)"
  by (cases xs) auto

definition scanned_rows_of :: "read_env \<Rightarrow> rat option \<Rightarrow> mem_db \<Rightarrow> obs_row list" where
  "scanned_rows_of env limit db =
     take (min (cleanup_limit limit * 10) 10000) (order_desc ob_created_at
       (sql_where (\<lambda>r. ob_archived_at r = None \<and> expiredFilter (re_now env) r) (db_observations db)))"

lemma scanned_rows_of:
  assumes "core_ok db"
  shows "set (scanned_rows_of env limit db) \<subseteq> {r \<in> set (db_observations db). live r \<and> expiredFilter (re_now env) r}"
    "distinct (scanned_rows_of env limit db)"
  using assms
  by (auto simp: scanned_rows_of_def live_def core_ok_def order_desc_def sql_where_def distinct_map
      dest!: in_set_takeD)

lemma same_id_same_row:
  "core_ok db \<Longrightarrow> x \<in> set (db_observations db) \<Longrightarrow> y \<in> set (db_observations db) \<Longrightarrow> ob_id x = ob_id y \<Longrightarrow> x = y"
  unfolding core_ok_def distinct_map inj_on_def by blast

lemma tl_newest_in: "x \<in> set (tl (newest_first rs)) \<Longrightarrow> x \<in> set rs"
  by (metis list.set_sel(2) set_newest_first tl_Nil)

lemma from_group_hit:
  assumes "from_group gs it" "i \<in> set (ci_archived_ids it)"
  obtains k rs y where "(k, rs) \<in> set gs" "2 \<le> length rs" "y \<in> set (tl (newest_first rs))" "ob_id y = i"
  using assms unfolding from_group_def by fastforce

text \<open>A row whose id is archived is one of its group, and not the first.\<close>

lemma archived_in_group:
  assumes "core_ok db" "\<forall>it \<in> set items. from_group (group_rows (scanned_rows_of env limit db)) it"
    and "x \<in> set (db_observations db)" "ob_id x \<in> set (concat (map ci_archived_ids items))"
  obtains k rs where "(k, rs) \<in> set (group_rows (scanned_rows_of env limit db))" "2 \<le> length rs"
    "x \<in> set (tl (newest_first rs))"
proof -
  let ?rows = "scanned_rows_of env limit db"
  obtain it where it: "it \<in> set items" "ob_id x \<in> set (ci_archived_ids it)" using assms(4) by auto
  have "from_group (group_rows ?rows) it" using assms(2) it(1) by blast
  then obtain k rs y where y: "(k, rs) \<in> set (group_rows ?rows)" "2 \<le> length rs"
      "y \<in> set (tl (newest_first rs))" "ob_id y = ob_id x"
    using it(2) by (elim from_group_hit)
  have "y \<in> set ?rows" using groups_ok [of ?rows] y(1) tl_newest_in [OF y(3)] by (auto simp: groups_ok_def)
  then have "y = x"
    using scanned_rows_of(1) [OF assms(1), of env limit] same_id_same_row [OF assms(1) _ assms(3) y(4)] by blast
  then show thesis using that y by blast
qed

text \<open>The first of a group stays: it is in no other group, and no member of its own archives it.\<close>

lemma first_is_kept:
  assumes "core_ok db" "\<forall>it \<in> set items. from_group (group_rows (scanned_rows_of env limit db)) it"
    and "(k, rs) \<in> set (group_rows (scanned_rows_of env limit db))" "rs \<noteq> []"
  shows "ob_id (hd (newest_first rs)) \<notin> set (concat (map ci_archived_ids items))"
proof
  let ?rows = "scanned_rows_of env limit db" and ?s = "hd (newest_first rs)"
  assume archived: "ob_id ?s \<in> set (concat (map ci_archived_ids items))"
  have g: "distinct (map fst (group_rows ?rows))" "set rs \<subseteq> set ?rows" "distinct rs"
      "\<forall>r \<in> set rs. duplicate_key r = Some k"
    using groups_ok [of ?rows] scanned_rows_of(2) [OF assms(1), of env limit] assms(3) by (auto simp: groups_ok_def)
  have ne: "newest_first rs \<noteq> []" using assms(4) by (metis length_0_conv length_newest_first)
  have s: "?s \<in> set rs" using ne by (metis hd_in_set set_newest_first)
  then have "?s \<in> set (db_observations db)" using g(2) scanned_rows_of(1) [OF assms(1), of env limit] by blast
  then obtain j qs where qs: "(j, qs) \<in> set (group_rows ?rows)" "?s \<in> set (tl (newest_first qs))"
    using archived_in_group [OF assms(1,2) _ archived] by blast
  have "duplicate_key ?s = Some j" using groups_ok [of ?rows] qs(1) tl_newest_in [OF qs(2)] by (auto simp: groups_ok_def)
  then have "j = k" using g(4) s by simp
  then have "qs = rs" using g(1) qs(1) assms(3) by (metis eq_key_imp_eq_value)
  then show False using hd_not_in_tl [OF distinct_newest_first [OF g(3)] ne] qs(2) by simp
qed

text \<open>
  C19. Cleaning up duplicates archives a row only when a row with the same text key, at least as new, in
  force and not expired, stays in force; every other row stays as it is, and without \<open>execute\<close> no row
  changes.
\<close>

theorem cleanup_keeps_one:
  assumes "core_ok db" "cleanupDuplicateObservations env execute limit db = (items, db')" "r \<in> set (db_observations db)"
  shows "r \<in> set (db_observations db') \<or>
    (execute \<and> live r \<and> archived_row (re_now env) r \<in> set (db_observations db') \<and>
     (\<exists>s \<in> set (db_observations db) \<inter> set (db_observations db'). s \<noteq> r \<and> live s \<and> expiredFilter (re_now env) s \<and>
        duplicate_key s = duplicate_key r \<and> duplicate_key r \<noteq> None \<and> ob_created_at r \<le> ob_created_at s))"
proof -
  let ?rows = "scanned_rows_of env limit db" and ?gone = "set (concat (map ci_archived_ids items))"
  have "cleanup_groups env execute (cleanup_limit limit) (group_rows ?rows) [] db = (items, db')"
    using assms(2) by (simp add: cleanupDuplicateObservations_def scanned_rows_of_def Let_def)
  then obtain l where its: "\<forall>it \<in> set items. from_group (group_rows ?rows) it"
    and db': "db' = db\<lparr>db_observations := (if execute then
        archive_ids (re_now env) (concat (map ci_archived_ids items)) (db_observations db) else db_observations db),
        db_audit := l\<rparr>"
    using cleanup_groups_effect [of env execute "cleanup_limit limit" "group_rows ?rows" "[]" db items db']
    unfolding cleaned_def by auto
  have stays: "x \<in> set (db_observations db')"
    if "x \<in> set (db_observations db)" "\<not> (execute \<and> ob_id x \<in> ?gone \<and> ob_archived_at x = None)" for x
    using that unfolding db' by (cases execute) (force simp: archive_ids_map)+
  show ?thesis
  proof (cases "execute \<and> ob_id r \<in> ?gone \<and> ob_archived_at r = None")
    case False
    then show ?thesis using stays assms(3) by blast
  next
    case True
    then obtain k rs where rs: "(k, rs) \<in> set (group_rows ?rows)" "2 \<le> length rs" "r \<in> set (tl (newest_first rs))"
      using archived_in_group [OF assms(1) its assms(3)] by blast
    let ?s = "hd (newest_first rs)"
    have g: "set rs \<subseteq> set ?rows" "distinct rs" "\<forall>r \<in> set rs. duplicate_key r = Some k"
      using groups_ok [of ?rows] scanned_rows_of(2) [OF assms(1), of env limit] rs(1) by (auto simp: groups_ok_def)
    have ne: "newest_first rs \<noteq> []" "rs \<noteq> []" using rs(2,3) by auto
    have s: "?s \<in> set rs" using ne(1) by (metis hd_in_set set_newest_first)
    have "?s \<noteq> r" using hd_not_in_tl [OF distinct_newest_first [OF g(2)] ne(1)] rs(3) by auto
    moreover have "?s \<in> set (db_observations db)" "live ?s" "expiredFilter (re_now env) ?s"
      using s g(1) scanned_rows_of(1) [OF assms(1), of env limit] by auto
    moreover have "?s \<in> set (db_observations db')"
      using stays calculation(2) first_is_kept [OF assms(1) its rs(1) ne(2)] by blast
    moreover have "archived_row (re_now env) r \<in> set (db_observations db')"
      using True assms(3) unfolding db' by (force simp: archive_ids_map)
    moreover have "duplicate_key ?s = duplicate_key r" "duplicate_key r \<noteq> None"
      using s g(3) tl_newest_in [OF rs(3)] by auto
    ultimately show ?thesis
      using True newest_first_hd [OF tl_newest_in [OF rs(3)]] by (auto simp: live_def)
  qed
qed

subsection \<open>Deleting in bulk and exporting\<close>

lemma bulk_delete_one_fails: "bulk_delete_one req oid db = None"
  by (simp add: bulk_delete_one_def prepares_def obs_columns_def)

lemma bulk_loop_skips: "bulk_loop req ids db = (([], ids), db)"
  by (induction ids) (simp_all add: bulk_delete_one_fails)

text \<open>
  C29. Deleting in bulk refuses an empty list and one of more than 500 ids, and otherwise reports every id
  as skipped and changes no row, as exporting always fails: their statements name columns the table of
  observations does not have.
\<close>

theorem bulk_delete_deletes_nothing:
  "bulkDeleteObservations req db =
     (if bk_ids req = [] then NoIds
      else if 500 < length (bk_ids req) then TooManyIds (length (bk_ids req))
      else BulkDone [] (bk_ids req), db) \<and>
   exportObservations ex db = ExportFailed"
  by (simp add: bulkDeleteObservations_def bulk_loop_skips exportObservations_def prepares_def obs_columns_def)

subsection \<open>Instances\<close>

definition twice_stored :: mem_db where
  "twice_stored = sample_db [sample_obs ''a'' ''2026-01'' ''u1'', sample_obs ''b'' ''2026-02'' ''u1'']"

lemma twice_stored_ok: "core_ok twice_stored"
proof -
  have "feed_ready twice_stored" unfolding twice_stored_def by (rule feed_ready_sample) (simp_all add: sample_obs_def)
  then show ?thesis by (simp add: feed_ready_def)
qed

lemma twice_stored_cleaned:
  "map (\<lambda>r. (ob_id r, ob_archived_at r))
     (db_observations (snd (cleanupDuplicateObservations sample_reader True None twice_stored))) =
   [(''a'', Some ''2026-06''), (''b'', None)]"
  by code_simp

theorem cleanup_keeps_one_witness:
  "\<exists>items db' r s. cleanupDuplicateObservations sample_reader True None twice_stored = (items, db') \<and>
     r \<in> set (db_observations twice_stored) \<and> r \<notin> set (db_observations db') \<and>
     s \<in> set (db_observations twice_stored) \<inter> set (db_observations db') \<and> duplicate_key s = duplicate_key r"
proof -
  let ?r = "sample_obs ''a'' ''2026-01'' ''u1''"
  obtain items db' where c: "cleanupDuplicateObservations sample_reader True None twice_stored = (items, db')"
    by (cases "cleanupDuplicateObservations sample_reader True None twice_stored")
  have r: "?r \<in> set (db_observations twice_stored)" by (simp add: twice_stored_def sample_db_def)
  have "?r \<notin> set (db_observations db')"
  proof
    assume "?r \<in> set (db_observations db')"
    then have "(''a'', None) \<in> (\<lambda>r. (ob_id r, ob_archived_at r)) ` set (db_observations db')"
      by (force simp: sample_obs_def)
    also have "\<dots> = set [(''a'', Some ''2026-06''), (''b'', None)]"
      using twice_stored_cleaned unfolding c snd_conv by (metis list.set_map)
    finally show False by simp
  qed
  then show ?thesis using cleanup_keeps_one [OF twice_stored_ok c r] c r by blast
qed

end
