(* ===== verification/Facts.thy ===== *)
theory Facts
  imports Json_Parse Observation_Links Grouping "HOL-Library.Product_Lexorder"
begin

text \<open>
  Facts and their extraction from observations (\<open>memory-server/src/consolidation/extractor.ts\<close>), by
  patterns or by a language model that is shown the facts there are. What a language model answers is a parameter: a function from provider, model, system prompt and prompt to the
  text of the reply, \<open>None\<close> when the call fails. Patterns for Japanese text cannot match characters below
  256 and are left out; confidences are rationals.
\<close>

subsection \<open>extractor.ts\<close>

record fact_candidate =
  fc_fact_type :: string
  fc_fact_key :: string
  fc_fact_value :: string
  fc_confidence :: rat
  fc_auto_tags :: "string list"

record extract_input =
  xi_title :: string
  xi_content :: string
  xi_observation_type :: string

record existing_fact =
  xf_fact_id :: string
  xf_fact_type :: string
  xf_fact_key :: string
  xf_fact_value :: string

record fact_diff =
  fd_new_facts :: "fact_candidate list"
  fd_supersedes :: "string option list"
  fd_deleted :: "string list"

text \<open>Lower case, with every character that is no letter, digit or blank replaced by a blank.\<close>

definition plain_text :: "string \<Rightarrow> string" where
  "plain_text s =
     map (\<lambda>c. let n = (of_char c :: nat) in
        if (97 \<le> n \<and> n \<le> 122) \<or> (48 \<le> n \<and> n \<le> 57) \<or> is_js_space c then c else CHR '' '') (js_lower s)"

definition normalizeFactKey :: "string \<Rightarrow> string" where
  "normalizeFactKey v =
     take 120 (join_with ''_'' (take 12 (filter (\<lambda>t. 1 < length t) (split_words [] (plain_text v)))))"

definition splitSentences :: "string \<Rightarrow> string list" where
  "splitSentences text =
     take 20 (filter (\<lambda>l. 10 < length l)
       (map js_trim (split_runs (\<lambda>c. c \<in> {CHR 0x0A, CHR ''.'', CHR ''!'', CHR ''?''}) [] text)))"

definition or_text :: "string \<Rightarrow> string \<Rightarrow> string" where
  "or_text a b = (if a = [] then b else a)"

definition inferType :: "string \<Rightarrow> string \<Rightarrow> string" where
  "inferType sentence fallback =
     (let t = js_lower sentence in
      if has_any [''decide'', ''decision'', ''choose''] t then ''decision''
      else if has_any [''prefer'', ''preference'', ''avoid''] t then ''preference''
      else if has_any [''learned'', ''lesson''] t then ''lesson''
      else if has_any [''pattern''] t then ''pattern''
      else if has_any [''todo'', ''next'', ''action''] t then ''action''
      else or_text fallback ''context'')"

definition FACT_TYPES :: "string list" where
  "FACT_TYPES = [''decision'', ''preference'', ''lesson'', ''pattern'', ''action'']"

definition TECH_KEYWORDS :: "string list" where
  "TECH_KEYWORDS =
     [''typescript'', ''javascript'', ''python'', ''rust'', ''go'', ''java'', ''ruby'',
      ''react'', ''nextjs'', ''vue'', ''angular'', ''svelte'', ''node'', ''bun'', ''deno'',
      ''sqlite'', ''postgres'', ''mysql'', ''redis'', ''mongodb'',
      ''docker'', ''kubernetes'', ''aws'', ''gcp'', ''azure'', ''git'', ''github'', ''ci'', ''cd'',
      ''api'', ''rest'', ''graphql'', ''grpc'', ''auth'', ''security'', ''performance'', ''testing'']"

definition inferAutoTags :: "string \<Rightarrow> string \<Rightarrow> string list" where
  "inferAutoTags ftype key =
     keep_first {} ((if ftype \<noteq> [] \<and> ftype \<noteq> ''context'' then [ftype] else []) @
       filter (\<lambda>k. sublist k (js_lower key)) TECH_KEYWORDS)"

definition candidate_fact :: "string \<Rightarrow> string \<Rightarrow> rat \<Rightarrow> fact_candidate" where
  "candidate_fact ftype text confidence =
     (let key = ftype @ '':'' @ normalizeFactKey text in
      \<lparr>fc_fact_type = ftype, fc_fact_key = key, fc_fact_value = take 500 text, fc_confidence = confidence,
       fc_auto_tags = inferAutoTags ftype key\<rparr>)"

fun heuristic_lines :: "string \<Rightarrow> string set \<Rightarrow> string list \<Rightarrow> fact_candidate list" where
  "heuristic_lines otype seen [] = []"
| "heuristic_lines otype seen (line # lines) =
     (let ftype = inferType line otype; key = ftype @ '':'' @ normalizeFactKey line in
      if ftype \<notin> set FACT_TYPES then heuristic_lines otype seen lines
      else if key \<in> seen then heuristic_lines otype seen lines
      else candidate_fact ftype line (if ftype = otype then 9 / 10 else 7 / 10) #
           heuristic_lines otype (insert key seen) lines)"

definition heuristicExtract :: "extract_input \<Rightarrow> fact_candidate list" where
  "heuristicExtract input =
     (let otype = xi_observation_type input;
          combined = join_with [CHR 0x0A] (filter (\<lambda>s. s \<noteq> []) [xi_title input, xi_content input]);
          facts = heuristic_lines otype {} (splitSentences combined);
          seed = take 500 (or_text (js_trim combined) (xi_title input))
      in take 8 (if facts = [] \<and> otype \<noteq> ''context'' \<and> seed \<noteq> []
                 then [candidate_fact otype seed (6 / 10)] else facts))"

text \<open>The facts of a reply; \<open>None\<close> when it is no JSON or has null among the facts, which raises.\<close>

definition parsed_fact :: "rat json_value \<Rightarrow> fact_candidate option" where
  "parsed_fact v =
     (if v = JNull then None
      else (let ftype = or_else (as_string (jget (Some v) ''fact_type'')) ''context'';
                key = or_else (as_string (jget (Some v) ''fact_key'')) []
            in Some \<lparr>fc_fact_type = ftype, fc_fact_key = key,
                 fc_fact_value = take 500 (or_else (as_string (jget (Some v) ''fact_value'')) []),
                 fc_confidence = (case as_number (jget (Some v) ''confidence'') of None \<Rightarrow> 1 / 2 | Some n \<Rightarrow> n),
                 fc_auto_tags = inferAutoTags ftype key\<rparr>))"

definition kept_fact :: "fact_candidate \<Rightarrow> bool" where
  "kept_fact f \<longleftrightarrow> fc_fact_key f \<noteq> [] \<and> fc_fact_value f \<noteq> [] \<and> fc_fact_type f \<in> set FACT_TYPES"

definition parseFactsFromContent :: "string \<Rightarrow> fact_candidate list option" where
  "parseFactsFromContent content =
     (case parse_decimals content of
        None \<Rightarrow> None
      | Some j \<Rightarrow>
          (let facts = (case as_array (jget (Some j) ''facts'') of
                          Some vs \<Rightarrow> vs | None \<Rightarrow> or_else (as_array (Some j)) [])
           in if JNull \<in> set facts then None
              else Some (take 5 (filter kept_fact (List.map_filter parsed_fact facts)))))"

definition known_fact :: "existing_fact list \<Rightarrow> string \<Rightarrow> bool" where
  "known_fact existing fid \<longleftrightarrow> fid \<in> xf_fact_id ` set existing"

definition parseDiffFromContent ::
  "string \<Rightarrow> fact_candidate list \<Rightarrow> existing_fact list \<Rightarrow> string option list \<times> string list" where
  "parseDiffFromContent content newFacts existing =
     (let j = parse_decimals content; superseded = jget j ''supersedes'';
          replaced = (\<lambda>f. case as_string (jget superseded (fc_fact_key f)) of
             None \<Rightarrow> None
           | Some old \<Rightarrow> if old \<noteq> [] \<and> known_fact existing old then Some old else None);
          deleted = List.map_filter (\<lambda>v. as_string (Some v)) (or_else (as_array (jget j ''deleted'')) [])
      in (map replaced newFacts, filter (known_fact existing) deleted))"

subsection \<open>Language models\<close>

record llm_host =
  lh_mode :: "string option"
  lh_provider :: "string option"
  lh_model :: "string option"
  lh_anthropic_key :: "string option"
  lh_gemini_key :: "string option"
  lh_openai_key :: "string option"
  lh_call :: "string \<Rightarrow> string \<Rightarrow> string \<Rightarrow> string \<Rightarrow> string option"

text \<open>\<open>(process.env.X || d).trim()\<close>\<close>

definition env_text :: "string option \<Rightarrow> string \<Rightarrow> string" where
  "env_text v d = js_trim (or_text (or_else v []) d)"

definition llm_reply :: "llm_host \<Rightarrow> string \<Rightarrow> string \<Rightarrow> string option" where
  "llm_reply h system prompt =
     (let provider = js_lower (env_text (lh_provider h) ''openai'');
          call = (\<lambda>model. lh_call h provider (env_text (lh_model h) model) system prompt);
          keyed = (\<lambda>key model. if env_text key [] = [] then None else call model)
      in if provider = ''ollama'' then call ''llama3.2''
         else if provider = ''anthropic'' then keyed (lh_anthropic_key h) ''claude-haiku-4-5-20251001''
         else if provider = ''gemini'' then keyed (lh_gemini_key h) ''gemini-2.0-flash''
         else if provider = ''openai'' then keyed (lh_openai_key h) ''gpt-4o-mini''
         else None)"

definition text_lines :: "string list \<Rightarrow> string" where
  "text_lines = join_with [CHR 0x0A]"

definition extract_prompt :: "extract_input \<Rightarrow> string" where
  "extract_prompt input = text_lines
     [''Extract up to 5 stable memory facts as compact JSON array.'',
      ''Each item must include fact_type, fact_key, fact_value, confidence.'',
      ''Allowed fact_type: decision, preference, lesson, pattern, action.'',
      ''title: '' @ xi_title input, ''content: '' @ take 2000 (xi_content input)]"

definition llmExtract :: "llm_host \<Rightarrow> extract_input \<Rightarrow> fact_candidate list" where
  "llmExtract h input =
     (case llm_reply h ''Return JSON object only.'' (extract_prompt input) of
        None \<Rightarrow> []
      | Some content \<Rightarrow> if content = [] then [] else or_else (parseFactsFromContent content) [])"

definition existing_json :: "existing_fact list \<Rightarrow> string" where
  "existing_json existing =
     stringify (JArr (map (\<lambda>f. JObj [(''fact_id'', JStr (xf_fact_id f)), (''fact_type'', JStr (xf_fact_type f)),
       (''fact_key'', JStr (xf_fact_key f)), (''fact_value'', JStr (take 200 (xf_fact_value f)))]) existing))"

definition diff_system_prompt :: string where
  "diff_system_prompt = text_lines
     [''You are a memory fact extractor. Return JSON object only.'',
      ''Your response must be a JSON object with keys: facts, supersedes, deleted.'',
      ''  facts: array of {fact_type, fact_key, fact_value, confidence}'',
      ''  supersedes: object mapping new fact_key to the old fact_id it replaces (if any)'',
      ''  deleted: array of fact_ids that are now invalid/contradicted by new information'',
      ''Allowed fact_type values: decision, preference, lesson, pattern, action'']"

definition diff_prompt :: "extract_input \<Rightarrow> existing_fact list \<Rightarrow> string" where
  "diff_prompt input existing = text_lines
     [''Extract up to 5 stable memory facts from the input.'',
      ''Compare with the existing facts below. If a new fact contradicts or updates an existing one, record it in '' @
        [CHR 0x27] @ ''supersedes'' @ [CHR 0x27] @ ''.'',
      ''If an existing fact is now completely invalid, add its fact_id to '' @ [CHR 0x27] @ ''deleted'' @ [CHR 0x27] @ ''.'',
      [], ''title: '' @ xi_title input, ''content: '' @ take 2000 (xi_content input),
      [], ''existing_facts: '' @ existing_json existing]"

definition no_diff :: fact_diff where
  "no_diff = \<lparr>fd_new_facts = [], fd_supersedes = [], fd_deleted = []\<rparr>"

definition llmExtractWithDiff :: "llm_host \<Rightarrow> extract_input \<Rightarrow> existing_fact list \<Rightarrow> fact_diff" where
  "llmExtractWithDiff h input existing =
     (case llm_reply h diff_system_prompt (diff_prompt input existing) of
        None \<Rightarrow> no_diff
      | Some content \<Rightarrow>
          if content = [] then no_diff
          else (case parseFactsFromContent content of
                  None \<Rightarrow> no_diff
                | Some newFacts \<Rightarrow>
                    (let (supersedes, deleted) = parseDiffFromContent content newFacts existing
                     in \<lparr>fd_new_facts = newFacts, fd_supersedes = supersedes, fd_deleted = deleted\<rparr>)))"

definition isLlmModeEnabled :: "llm_host \<Rightarrow> bool" where
  "isLlmModeEnabled h \<longleftrightarrow> js_lower (env_text (lh_mode h) ''heuristic'') = ''llm''"

definition extractFacts :: "llm_host \<Rightarrow> extract_input \<Rightarrow> fact_candidate list" where
  "extractFacts h input =
     (let facts = (if isLlmModeEnabled h then llmExtract h input else [])
      in if facts \<noteq> [] then facts else heuristicExtract input)"

subsection \<open>What extraction gives\<close>

definition well_formed_fact :: "fact_candidate \<Rightarrow> bool" where
  "well_formed_fact f \<longleftrightarrow> fc_fact_key f \<noteq> [] \<and> fc_fact_value f \<noteq> [] \<and> length (fc_fact_value f) \<le> 500 \<and>
     distinct (fc_auto_tags f) \<and> (fc_fact_type f \<noteq> ''context'' \<longrightarrow> fc_fact_type f = [] \<or> fc_fact_type f \<in> set (fc_auto_tags f))"

lemma distinct_auto_tags [simp]: "distinct (inferAutoTags t k)"
  by (simp add: inferAutoTags_def distinct_keep_first)

lemma type_in_auto_tags: "t \<notin> set (inferAutoTags t k) \<Longrightarrow> t \<noteq> ''context'' \<Longrightarrow> t = []"
  by (auto simp: inferAutoTags_def set_keep_first)

lemma candidate_fact_simps [simp]:
  "fc_fact_type (candidate_fact t s c) = t" "fc_fact_key (candidate_fact t s c) = t @ '':'' @ normalizeFactKey s"
  "fc_confidence (candidate_fact t s c) = c"
  by (simp_all add: candidate_fact_def Let_def)

lemma candidate_well_formed: "s \<noteq> [] \<Longrightarrow> well_formed_fact (candidate_fact t s c)"
  by (auto simp: well_formed_fact_def candidate_fact_def Let_def dest: type_in_auto_tags)

lemma heuristic_lines_facts:
  assumes "\<forall>l \<in> set lines. l \<noteq> []"
  shows "distinct (map fc_fact_key (heuristic_lines otype seen lines))"
    "fc_fact_key ` set (heuristic_lines otype seen lines) \<inter> seen = {}"
    "\<forall>f \<in> set (heuristic_lines otype seen lines). well_formed_fact f \<and> fc_fact_type f \<in> set FACT_TYPES \<and>
       fc_confidence f = (if fc_fact_type f = otype then 9 / 10 else 7 / 10)"
proof -
  let ?ok = "\<lambda>seen fs. distinct (map fc_fact_key fs) \<and> fc_fact_key ` set fs \<inter> seen = {} \<and>
    (\<forall>f \<in> set fs. well_formed_fact f \<and> fc_fact_type f \<in> set FACT_TYPES \<and>
       fc_confidence f = (if fc_fact_type f = otype then 9 / 10 else 7 / 10))"
  have "?ok seen (heuristic_lines otype seen lines)"
    using assms
  proof (induction lines arbitrary: seen)
    case (Cons line lines)
    let ?t = "inferType line otype"
    let ?k = "?t @ '':'' @ normalizeFactKey line"
    let ?c = "candidate_fact ?t line (if ?t = otype then 9 / 10 else 7 / 10)"
    have tail: "?ok s (heuristic_lines otype s lines)" for s using Cons by simp
    show ?case
    proof (cases "?t \<notin> set FACT_TYPES \<or> ?k \<in> seen")
      case True
      then have "heuristic_lines otype seen (line # lines) = heuristic_lines otype seen lines"
        unfolding heuristic_lines.simps Let_def by presburger
      then show ?thesis using tail by simp
    next
      case False
      then have eq: "heuristic_lines otype seen (line # lines) = ?c # heuristic_lines otype (insert ?k seen) lines"
        unfolding heuristic_lines.simps Let_def by presburger
      have c: "well_formed_fact ?c" using Cons.prems by (simp add: candidate_well_formed)
      show ?thesis unfolding eq using tail [of "insert ?k seen"] False c by auto
    qed
  qed simp
  then show "distinct (map fc_fact_key (heuristic_lines otype seen lines))"
    "fc_fact_key ` set (heuristic_lines otype seen lines) \<inter> seen = {}"
    "\<forall>f \<in> set (heuristic_lines otype seen lines). well_formed_fact f \<and> fc_fact_type f \<in> set FACT_TYPES \<and>
       fc_confidence f = (if fc_fact_type f = otype then 9 / 10 else 7 / 10)"
    by blast+
qed

lemma long_sentences: "\<forall>l \<in> set (splitSentences text). l \<noteq> []"
  by (auto simp: splitSentences_def dest!: in_set_takeD)

lemma parsed_fact_type: "parsed_fact v = Some f \<Longrightarrow> fc_fact_key f \<noteq> [] \<Longrightarrow> fc_fact_value f \<noteq> [] \<Longrightarrow> well_formed_fact f"
  by (auto simp: parsed_fact_def well_formed_fact_def Let_def dest: type_in_auto_tags split: if_splits)

lemma parsed_facts:
  assumes "parseFactsFromContent content = Some fs"
  shows "length fs \<le> 5" "\<forall>f \<in> set fs. well_formed_fact f \<and> fc_fact_type f \<in> set FACT_TYPES"
proof -
  obtain vs where fs: "fs = take 5 (filter kept_fact (List.map_filter parsed_fact vs))"
    using assms by (auto simp: parseFactsFromContent_def Let_def split: option.splits if_splits)
  show "length fs \<le> 5" by (simp add: fs)
  show "\<forall>f \<in> set fs. well_formed_fact f \<and> fc_fact_type f \<in> set FACT_TYPES"
  proof
    fix f assume "f \<in> set fs"
    then have f: "f \<in> set (List.map_filter parsed_fact vs)" "kept_fact f"
      unfolding fs by (auto dest: in_set_takeD)
    then obtain v where "parsed_fact v = Some f" by (auto simp: List.map_filter_def)
    then show "well_formed_fact f \<and> fc_fact_type f \<in> set FACT_TYPES"
      using f(2) parsed_fact_type [of v f] by (simp add: kept_fact_def)
  qed
qed

lemma diff_facts:
  "length (fd_new_facts (llmExtractWithDiff h input existing)) \<le> 5"
  "\<forall>f \<in> set (fd_new_facts (llmExtractWithDiff h input existing)). well_formed_fact f \<and> fc_fact_type f \<in> set FACT_TYPES"
  "length (fd_supersedes (llmExtractWithDiff h input existing)) = length (fd_new_facts (llmExtractWithDiff h input existing))"
  "Some ` xf_fact_id ` set existing \<supseteq> set (fd_supersedes (llmExtractWithDiff h input existing)) - {None}"
  "set (fd_deleted (llmExtractWithDiff h input existing)) \<subseteq> xf_fact_id ` set existing"
  by (auto simp: llmExtractWithDiff_def no_diff_def parseDiffFromContent_def known_fact_def Let_def
      dest: parsed_facts split: option.splits if_splits prod.splits)

text \<open>
  C24. Without a language model an observation yields at most eight facts, no two with one key, each of a
  known type or of the type of the observation, with a text of 1 to 500 characters and its type among its
  tags; a language model yields at most five of a known type, and can only supersede or delete facts it
  was shown.
\<close>

theorem extracted_facts_are_well_formed:
  shows "length (heuristicExtract input) \<le> 8 \<and> distinct (map fc_fact_key (heuristicExtract input)) \<and>
    (\<forall>f \<in> set (heuristicExtract input). well_formed_fact f \<and>
       (fc_fact_type f \<in> set FACT_TYPES \<or> fc_fact_type f = xi_observation_type input)) \<and>
    (let d = llmExtractWithDiff h input existing in
       length (fd_new_facts d) \<le> 5 \<and> length (fd_supersedes d) = length (fd_new_facts d) \<and>
       (\<forall>f \<in> set (fd_new_facts d). well_formed_fact f \<and> fc_fact_type f \<in> set FACT_TYPES) \<and>
       set (fd_supersedes d) - {None} \<subseteq> Some ` xf_fact_id ` set existing \<and>
       set (fd_deleted d) \<subseteq> xf_fact_id ` set existing)"
proof -
  note lines = heuristic_lines_facts [OF long_sentences]
  have "distinct (map fc_fact_key (heuristicExtract input)) \<and>
    (\<forall>f \<in> set (heuristicExtract input). well_formed_fact f \<and>
       (fc_fact_type f \<in> set FACT_TYPES \<or> fc_fact_type f = xi_observation_type input))"
    using lines(1,3)
    by (auto simp: heuristicExtract_def Let_def candidate_well_formed take_map [symmetric] simp del: FACT_TYPES_def
        dest!: in_set_takeD)
  then show ?thesis
    using diff_facts [of h input existing] by (simp add: heuristicExtract_def Let_def)
qed

definition sample_input :: extract_input where
  "sample_input = \<lparr>xi_title = ''Storage'', xi_content = ''We decide to use sqlite. It is next to the code'',
     xi_observation_type = ''decision''\<rparr>"

definition silent_host :: llm_host where
  "silent_host = \<lparr>lh_mode = None, lh_provider = None, lh_model = None, lh_anthropic_key = None,
     lh_gemini_key = None, lh_openai_key = None, lh_call = (\<lambda>p m s t. None)\<rparr>"

lemma sample_facts: "map (\<lambda>f. (fc_fact_type f, fc_auto_tags f)) (heuristicExtract sample_input) =
    [(''decision'', [''decision'', ''sqlite'', ''ci'']), (''action'', [''action''])]"
  by code_simp

theorem extracted_facts_are_well_formed_witness:
  "map fc_fact_type (heuristicExtract sample_input) = [''decision'', ''action''] \<and>
   list_all well_formed_fact (heuristicExtract sample_input)"
proof
  have "map fst (map (\<lambda>f. (fc_fact_type f, fc_auto_tags f)) (heuristicExtract sample_input)) = [''decision'', ''action'']"
    by (simp add: sample_facts)
  then show "map fc_fact_type (heuristicExtract sample_input) = [''decision'', ''action'']" by (simp add: comp_def)
  show "list_all well_formed_fact (heuristicExtract sample_input)"
    using extracted_facts_are_well_formed [of sample_input silent_host "[]"] unfolding list_all_iff by blast
qed

text \<open>A reply whose confidence is a fraction.\<close>

lemma sample_reply:
  "map_option (map fc_confidence) (parseFactsFromContent (''{'' @ [CHR 0x22] @ ''facts'' @ [CHR 0x22] @ '':[{'' @
     [CHR 0x22] @ ''fact_type'' @ [CHR 0x22] @ '':'' @ [CHR 0x22] @ ''lesson'' @ [CHR 0x22] @ '','' @
     [CHR 0x22] @ ''fact_key'' @ [CHR 0x22] @ '':'' @ [CHR 0x22] @ ''k'' @ [CHR 0x22] @ '','' @
     [CHR 0x22] @ ''fact_value'' @ [CHR 0x22] @ '':'' @ [CHR 0x22] @ ''v'' @ [CHR 0x22] @ '','' @
     [CHR 0x22] @ ''confidence'' @ [CHR 0x22] @ '':0.85}]}'')) = Some [85 / 100]"
  by code_simp

end
