(* ===== verification/Fact_Merging.thy ===== *)
theory Fact_Merging
  imports Facts "HOL-Library.Multiset"
begin

text \<open>
  Which facts are one: \<open>dedupeFacts\<close> and \<open>buildSupersededDecisions\<close> of
  \<open>memory-server/src/consolidation/deduper.ts\<close>, and the conflicts between facts of one key in
  \<open>auto-reflection.ts\<close>. \<open>localeCompare\<close> stands for the order of code units, similarities are rationals.
\<close>

record fact_row =
  fa_fact_id :: string
  fa_observation_id :: "string option"
  fa_project :: string
  fa_session_id :: string
  fa_fact_type :: string
  fa_fact_key :: string
  fa_fact_value :: string
  fa_confidence :: rat
  fa_superseded_by :: "string option"
  fa_event_time :: "string option"
  fa_observed_at :: "string option"
  fa_valid_from :: "string option"
  fa_valid_to :: "string option"
  fa_supersedes :: "string option"
  fa_invalidated_at :: "string option"
  fa_merged_into :: "string option"
  fa_created_at :: string
  fa_updated_at :: string

subsection \<open>deduper.ts\<close>

definition fact_tokens :: "string \<Rightarrow> string list" where
  "fact_tokens text = keep_first {} (take 64 (filter (\<lambda>t. 1 < length t) (split_words [] (plain_text text))))"

definition token_similarity :: "string list \<Rightarrow> string list \<Rightarrow> rat" where
  "token_similarity lhs rhs =
     (if lhs = [] \<or> rhs = [] then 0
      else (let inter = length (filter (\<lambda>t. t \<in> set rhs) lhs); union = length lhs + length rhs - inter
            in if union = 0 then 0 else of_nat inter / of_nat union))"

definition fact_text :: "fact_row \<Rightarrow> string" where
  "fact_text f = fa_fact_key f @ '' '' @ fa_fact_value f"

definition fact_similarity :: "fact_row \<Rightarrow> fact_row \<Rightarrow> rat" where
  "fact_similarity f g = token_similarity (fact_tokens (fact_text f)) (fact_tokens (fact_text g))"

definition same_kind :: "fact_row \<Rightarrow> fact_row \<Rightarrow> bool" where
  "same_kind f g \<longleftrightarrow> fa_project f = fa_project g \<and> fa_fact_type f = fa_fact_type g"

record fact_merge =
  fm_from :: string
  fm_into :: string
  fm_similarity :: rat

definition to_fixed :: "nat \<Rightarrow> rat \<Rightarrow> rat" where
  "to_fixed n x = of_int \<lfloor>x * 10 ^ n + 1 / 2\<rfloor> / 10 ^ n"

definition fact_order :: "fact_row \<Rightarrow> string \<times> string" where
  "fact_order f = (fa_created_at f, fa_fact_id f)"

text \<open>The search for the most similar fact that is still active.\<close>

definition dedupe_best :: "rat \<Rightarrow> fact_row \<Rightarrow> fact_row list \<Rightarrow> fact_row option \<times> rat" where
  "dedupe_best threshold c active =
     fold (\<lambda>e (into, best).
        if \<not> same_kind e c then (into, best)
        else if threshold \<le> fact_similarity c e \<and> best < fact_similarity c e then (Some e, fact_similarity c e)
        else (into, best)) active (None, 0)"

fun dedupe_loop :: "rat \<Rightarrow> fact_row list \<Rightarrow> fact_row list \<Rightarrow> fact_merge list \<times> fact_row list" where
  "dedupe_loop threshold [] active = ([], active)"
| "dedupe_loop threshold (c # cs) active =
     (case dedupe_best threshold c active of
        (Some e, s) \<Rightarrow>
          (let (merges, rest) = dedupe_loop threshold cs active
           in (\<lparr>fm_from = fa_fact_id c, fm_into = fa_fact_id e, fm_similarity = to_fixed 6 s\<rparr> # merges, rest))
      | (None, s) \<Rightarrow> dedupe_loop threshold cs (active @ [c]))"

definition dedupe_run :: "rat \<Rightarrow> fact_row list \<Rightarrow> fact_merge list \<times> fact_row list" where
  "dedupe_run threshold facts = dedupe_loop threshold (order_asc fact_order facts) []"

definition dedupeFacts :: "rat \<Rightarrow> fact_row list \<Rightarrow> fact_merge list" where
  "dedupeFacts threshold facts = fst (dedupe_run threshold facts)"

definition buildSupersededDecisions :: "string \<Rightarrow> string list \<Rightarrow> (string \<times> string) list" where
  "buildSupersededDecisions newFactId oldFactIds =
     map (\<lambda>i. (i, newFactId)) (filter (\<lambda>i. i \<noteq> [] \<and> i \<noteq> newFactId) oldFactIds)"

subsection \<open>auto-reflection.ts\<close>

record fact_conflict =
  fk_older :: string
  fk_newer :: string
  fk_key :: string

fun neighbour_conflicts :: "fact_row list \<Rightarrow> fact_conflict list" where
  "neighbour_conflicts (f # g # fs) =
     (if fa_fact_value f \<noteq> fa_fact_value g
      then [\<lparr>fk_older = fa_fact_id f, fk_newer = fa_fact_id g, fk_key = fa_fact_key f\<rparr>] else []) @
     neighbour_conflicts (g # fs)"
| "neighbour_conflicts fs = []"

definition detectConflictingFacts :: "fact_row list \<Rightarrow> fact_conflict list" where
  "detectConflictingFacts facts =
     concat (map (\<lambda>(k, group).
        if length group < 2 then []
        else (let fs = order_asc fact_order group
              in if length (remdups (map fa_fact_value fs)) \<le> 1 then [] else neighbour_conflicts fs))
       (group_by (\<lambda>f. Some (fa_fact_type f @ ''::'' @ fa_fact_key f)) facts))"

definition resolveConflicts :: "fact_conflict list \<Rightarrow> (string \<times> string) list" where
  "resolveConflicts conflicts = map (\<lambda>c. (fk_older c, fk_newer c)) conflicts"

subsection \<open>What merging leaves\<close>

text \<open>Two facts the deduper takes for one.\<close>

definition duplicates :: "rat \<Rightarrow> fact_row \<Rightarrow> fact_row \<Rightarrow> bool" where
  "duplicates threshold c e \<longleftrightarrow>
     same_kind e c \<and> threshold \<le> fact_similarity c e \<and> 0 < fact_similarity c e"

lemma token_similarity_nonneg: "0 \<le> token_similarity xs ys"
  by (simp add: token_similarity_def Let_def)

lemma dedupe_best_cases:
  "case dedupe_best threshold c active of
     (None, s) \<Rightarrow> s = 0 \<and> (\<forall>e \<in> set active. \<not> duplicates threshold c e)
   | (Some e, s) \<Rightarrow> e \<in> set active \<and> duplicates threshold c e \<and> s = fact_similarity c e \<and>
       (\<forall>x \<in> set active. same_kind x c \<longrightarrow> fact_similarity c x \<le> s \<or> fact_similarity c x < threshold)"
proof (induction active rule: rev_induct)
  case (snoc e active)
  have step: "dedupe_best threshold c (active @ [e]) =
     (case dedupe_best threshold c active of (into, best) \<Rightarrow>
        if \<not> same_kind e c then (into, best)
        else if threshold \<le> fact_similarity c e \<and> best < fact_similarity c e then (Some e, fact_similarity c e)
        else (into, best))"
    by (simp add: dedupe_best_def)
  obtain into best where b: "dedupe_best threshold c active = (into, best)" by (cases "dedupe_best threshold c active")
  show ?case
    using snoc unfolding step b by (cases into) (auto simp: duplicates_def not_less not_le)
qed (simp add: dedupe_best_def)

lemma dedupe_bestE:
  obtains (none) "dedupe_best threshold c active = (None, 0)" "\<forall>e \<in> set active. \<not> duplicates threshold c e"
  | (some) e where "dedupe_best threshold c active = (Some e, fact_similarity c e)" "e \<in> set active"
      "duplicates threshold c e" "\<forall>x \<in> set active. duplicates threshold c x \<longrightarrow> fact_similarity c x \<le> fact_similarity c e"
proof (cases "dedupe_best threshold c active")
  case (Pair into s)
  note cases = dedupe_best_cases [where threshold = threshold and c = c and active = active, unfolded Pair]
  show thesis
  proof (cases into)
    case None
    then show thesis using none Pair cases by simp
  next
    case (Some e)
    have "\<forall>x \<in> set active. duplicates threshold c x \<longrightarrow> fact_similarity c x \<le> fact_similarity c e"
      using cases Some by (auto simp: duplicates_def)
    then show thesis using some [of e] Pair cases Some by simp
  qed
qed

text \<open>No fact of a list is a duplicate of an earlier one.\<close>

definition no_duplicates :: "rat \<Rightarrow> fact_row list \<Rightarrow> bool" where
  "no_duplicates threshold fs \<longleftrightarrow> sorted_wrt (\<lambda>e c. \<not> duplicates threshold c e) fs"

definition sound_merge :: "rat \<Rightarrow> fact_row set \<Rightarrow> fact_row set \<Rightarrow> fact_merge \<Rightarrow> bool" where
  "sound_merge threshold C R m \<longleftrightarrow>
     (\<exists>c e. c \<in> C \<and> e \<in> R \<and> fm_from m = fa_fact_id c \<and> fm_into m = fa_fact_id e \<and>
        fact_order e \<le> fact_order c \<and> duplicates threshold c e \<and>
        fm_similarity m = to_fixed 6 (fact_similarity c e))"

lemma sound_merge_mono: "sound_merge threshold C R m \<Longrightarrow> C \<subseteq> D \<Longrightarrow> R \<subseteq> S \<Longrightarrow> sound_merge threshold D S m"
  unfolding sound_merge_def by blast

text \<open>What the loop gives: the facts are split into those kept and those merged into a kept one.\<close>

definition deduped :: "rat \<Rightarrow> fact_row list \<Rightarrow> fact_row list \<Rightarrow> fact_merge list \<Rightarrow> fact_row list \<Rightarrow> fact_row list \<Rightarrow> bool" where
  "deduped threshold cs active merges rest kept \<longleftrightarrow>
     rest = active @ kept \<and> set kept \<subseteq> set cs \<and>
     (distinct (map fa_fact_id cs) \<longrightarrow> kept = filter (\<lambda>f. fa_fact_id f \<notin> fm_from ` set merges) cs) \<and>
     mset (map fm_from merges) + mset (map fa_fact_id kept) = mset (map fa_fact_id cs) \<and>
     (no_duplicates threshold active \<longrightarrow> no_duplicates threshold rest) \<and>
     (sorted (map fact_order (active @ cs)) \<longrightarrow> (\<forall>m \<in> set merges. sound_merge threshold (set cs) (set rest) m)) \<and>
     (\<forall>m \<in> set merges. fm_from m \<in> fa_fact_id ` set cs)"

lemma dedupe_loop_effect:
  "dedupe_loop threshold cs active = (merges, rest) \<Longrightarrow> \<exists>kept. deduped threshold cs active merges rest kept"
proof (induction threshold cs active arbitrary: merges rest rule: dedupe_loop.induct)
  case (2 threshold c cs active)
  show ?case
  proof (cases rule: dedupe_bestE [of threshold c active])
    case none
    then have "dedupe_loop threshold cs (active @ [c]) = (merges, rest)" using 2(3) by simp
    from 2(1) [OF none(1) [symmetric] refl this]
    obtain kept where kept: "deduped threshold cs (active @ [c]) merges rest kept" by blast
    have "no_duplicates threshold active \<Longrightarrow> no_duplicates threshold (active @ [c])"
      using none(2) by (simp add: no_duplicates_def sorted_wrt_append)
    moreover have "sorted (map fact_order (active @ c # cs)) \<Longrightarrow>
        \<forall>m \<in> set merges. sound_merge threshold (set (c # cs)) (set rest) m"
      using kept by (auto simp: deduped_def intro: sound_merge_mono)
    moreover have "fa_fact_id c \<notin> fa_fact_id ` set cs \<Longrightarrow> fa_fact_id c \<notin> fm_from ` set merges"
      using kept by (auto simp: deduped_def)
    ultimately have "deduped threshold (c # cs) active merges rest (c # kept)"
      using kept by (auto simp: deduped_def)
    then show ?thesis by blast
  next
    case (some e)
    obtain ms where ms: "dedupe_loop threshold cs active = (ms, rest)"
        "merges = \<lparr>fm_from = fa_fact_id c, fm_into = fa_fact_id e, fm_similarity = to_fixed 6 (fact_similarity c e)\<rparr> # ms"
      using 2(3) some(1) by (auto split: prod.splits)
    from 2(2) [OF some(1) [symmetric] refl ms(1)]
    obtain kept where kept: "deduped threshold cs active ms rest kept" by blast
    have "e \<in> set rest" using kept some(2) by (simp add: deduped_def)
    then have "sorted (map fact_order (active @ c # cs)) \<Longrightarrow> sound_merge threshold (set (c # cs)) (set rest) (hd merges)"
      unfolding sound_merge_def ms(2) using some(2,3) by (auto simp: sorted_append)
    moreover have "sorted (map fact_order (active @ c # cs)) \<Longrightarrow>
        \<forall>m \<in> set ms. sound_merge threshold (set (c # cs)) (set rest) m"
      using kept by (auto simp: deduped_def sorted_append intro: sound_merge_mono)
    moreover have "fa_fact_id c \<notin> fa_fact_id ` set cs \<Longrightarrow>
        filter (\<lambda>f. fa_fact_id f \<notin> fm_from ` set merges) (c # cs) = filter (\<lambda>f. fa_fact_id f \<notin> fm_from ` set ms) cs"
      unfolding ms(2) by (auto intro!: filter_cong) (metis imageI)
    ultimately have "deduped threshold (c # cs) active merges rest kept"
      using kept ms(2) by (auto simp: deduped_def)
    then show ?thesis by blast
  qed
qed (auto simp: deduped_def)

text \<open>The survivors of a run are not merged by another one.\<close>

lemma dedupe_loop_stable: "no_duplicates threshold (active @ cs) \<Longrightarrow> dedupe_loop threshold cs active = ([], active @ cs)"
proof (induction cs arbitrary: active)
  case (Cons c cs)
  have "\<forall>e \<in> set active. \<not> duplicates threshold c e"
    using Cons.prems by (auto simp: no_duplicates_def sorted_wrt_append)
  then have "dedupe_best threshold c active = (None, 0)" by (auto intro: dedupe_bestE [of threshold c active])
  then show ?case using Cons by simp
qed simp

lemma deduped_run:
  assumes "dedupe_run threshold facts = (merges, kept)"
  shows "set kept \<subseteq> set facts" "no_duplicates threshold kept"
    "mset (map fm_from merges) + mset (map fa_fact_id kept) = mset (map fa_fact_id facts)"
    "\<forall>m \<in> set merges. sound_merge threshold (set facts) (set kept) m"
    "distinct (map fa_fact_id facts) \<Longrightarrow>
       kept = filter (\<lambda>f. fa_fact_id f \<notin> fm_from ` set merges) (order_asc fact_order facts)"
proof -
  let ?s = "order_asc fact_order facts"
  obtain k where k: "deduped threshold ?s [] merges kept k"
    using assms dedupe_loop_effect unfolding dedupe_run_def by blast
  then show "set kept \<subseteq> set facts" "no_duplicates threshold kept"
    "\<forall>m \<in> set merges. sound_merge threshold (set facts) (set kept) m"
    using sorted_order_asc [of fact_order facts] unfolding deduped_def by (auto simp: no_duplicates_def)
  show "mset (map fm_from merges) + mset (map fa_fact_id kept) = mset (map fa_fact_id facts)"
    using k by (simp add: deduped_def order_asc_def)
  have "distinct (map fa_fact_id ?s) = distinct (map fa_fact_id facts)"
    by (metis mset_eq_imp_distinct_iff mset_map mset_sort order_asc_def)
  then show "distinct (map fa_fact_id facts) \<Longrightarrow>
       kept = filter (\<lambda>f. fa_fact_id f \<notin> fm_from ` set merges) ?s"
    using k by (simp add: deduped_def)
qed


definition sample_fact :: "string \<Rightarrow> string \<Rightarrow> string \<Rightarrow> fact_row" where
  "sample_fact fid v t =
     \<lparr>fa_fact_id = fid, fa_observation_id = Some ''o1'', fa_project = ''p'', fa_session_id = ''s'',
      fa_fact_type = ''decision'', fa_fact_key = ''decision:db'', fa_fact_value = v, fa_confidence = 1,
      fa_superseded_by = None, fa_event_time = None, fa_observed_at = None, fa_valid_from = None,
      fa_valid_to = None, fa_supersedes = None, fa_invalidated_at = None, fa_merged_into = None,
      fa_created_at = t, fa_updated_at = t\<rparr>"


subsection \<open>Conflicts\<close>

text \<open>
  Of three facts with one key, where the two older ones agree, only the second is superseded: the first
  stays active with the stale value.
\<close>

lemma agreeing_facts_hide_a_conflict:
  assumes "fa_fact_type f = fa_fact_type g" "fa_fact_type g = fa_fact_type h"
    and "fa_fact_key f = fa_fact_key g" "fa_fact_key g = fa_fact_key h"
    and "fact_order f < fact_order g" "fact_order g < fact_order h"
    and "fa_fact_value f = fa_fact_value g" "fa_fact_value g \<noteq> fa_fact_value h"
  shows "resolveConflicts (detectConflictingFacts [f, g, h]) = [(fa_fact_id g, fa_fact_id h)]"
proof -
  have "order_asc fact_order [f, g, h] = [f, g, h]"
    using assms(5,6) less_trans [OF assms(5,6)] by (intro order_asc_sorted) (simp add: less_imp_le)
  moreover have "group_by (\<lambda>f. Some (fa_fact_type f @ ''::'' @ fa_fact_key f)) [f, g, h] =
      [(fa_fact_type f @ ''::'' @ fa_fact_key f, [f, g, h])]"
    using assms(1-4) by (simp add: group_by_def)
  ultimately show ?thesis
    using assms(7,8) by (simp add: detectConflictingFacts_def resolveConflicts_def)
qed

end
