(* ===== verification/Consolidation.thy ===== *)
theory Consolidation
  imports Fact_Merging
begin

text \<open>
  The consolidation worker, \<open>memory-server/src/consolidation/worker.ts\<close>: facts are extracted from the
  observations of a session, merged, and joined by links; and \<open>compressMemory\<close> of
  \<open>core/harness-mem-core.ts\<close>, which prunes and merges facts. The state is the database of the recorder
  with the tables of facts and of jobs. The clock is read once for a run, sha1 is a parameter.
\<close>

record job_row =
  jb_id :: nat
  jb_project :: string
  jb_session_id :: string
  jb_reason :: string
  jb_status :: string
  jb_requested_at :: string
  jb_started_at :: "string option"
  jb_finished_at :: "string option"
  jb_error :: "string option"

record fact_db =
  fx_mem :: mem_db
  fx_facts :: "fact_row list"
  fx_queue :: "job_row list"
  fx_queue_next :: nat

record run_env =
  rn_llm :: llm_host
  rn_now :: string
  rn_sha1 :: "string \<Rightarrow> string"

record run_options =
  ro_reason :: "string option"
  ro_project :: "string option"
  ro_session_id :: "string option"
  ro_limit :: "rat option"

record run_stats =
  rs_jobs_processed :: nat
  rs_facts_extracted :: nat
  rs_facts_merged :: nat
  rs_pending_jobs :: nat
  rs_derives_links :: nat

definition createFactId :: "run_env \<Rightarrow> string \<Rightarrow> string \<Rightarrow> string \<Rightarrow> string \<Rightarrow> string" where
  "createFactId env project sid key oid =
     ''fact_'' @ take 24 (rn_sha1 env (project @ '':'' @ sid @ '':'' @ key @ '':'' @ oid))"

definition worker_audit :: "run_env \<Rightarrow> string \<Rightarrow> (string \<times> json) list \<Rightarrow> string \<Rightarrow> string \<Rightarrow> fact_db \<Rightarrow> fact_db" where
  "worker_audit env action details ttype tid x =
     x\<lparr>fx_mem := fx_mem x\<lparr>db_audit := write_plain \<lparr>aw_action = action, aw_target_type = ttype, aw_target_id = tid,
        aw_details_json = stringify (JObj details), aw_actor = ''system'', aw_created_at = rn_now env\<rparr>
        (db_audit (fx_mem x))\<rparr>\<rparr>"

text \<open>A job of the queue, or one without a row for a session.\<close>

record job =
  jo_row :: "nat option"
  jo_project :: string
  jo_session_id :: string

definition job_limit :: "rat option \<Rightarrow> nat" where
  "job_limit limit =
     nat (max 1 (min 200 (case limit of None \<Rightarrow> 20 | Some l \<Rightarrow> if l = 0 then 20 else \<lfloor>l\<rfloor>)))"

definition loadPendingJobs :: "run_options \<Rightarrow> fact_db \<Rightarrow> job list" where
  "loadPendingJobs opts x =
     (if truthy (ro_project opts) \<and> truthy (ro_session_id opts)
      then [\<lparr>jo_row = None, jo_project = or_else (ro_project opts) [], jo_session_id = or_else (ro_session_id opts) []\<rparr>]
      else (let queued = take (job_limit (ro_limit opts)) (order_asc (\<lambda>j. (jb_requested_at j, jb_id j))
                  (sql_where (\<lambda>j. jb_status j = ''pending'') (fx_queue x)))
            in if queued \<noteq> []
               then map (\<lambda>j. \<lparr>jo_row = Some (jb_id j), jo_project = jb_project j, jo_session_id = jb_session_id j\<rparr>) queued
               else map (\<lambda>s. \<lparr>jo_row = None, jo_project = ss_project s, jo_session_id = ss_session_id s\<rparr>)
                      (take (job_limit (ro_limit opts)) (order_desc ss_updated_at (db_sessions (fx_mem x))))))"

text \<open>A fact that is in force.\<close>

definition active_fact :: "fact_row \<Rightarrow> bool" where
  "active_fact f \<longleftrightarrow> fa_merged_into f = None \<and> fa_superseded_by f = None \<and> fa_valid_to f = None"

definition loadExistingFacts :: "string \<Rightarrow> fact_db \<Rightarrow> existing_fact list" where
  "loadExistingFacts project x =
     map (\<lambda>f. \<lparr>xf_fact_id = fa_fact_id f, xf_fact_type = fa_fact_type f, xf_fact_key = fa_fact_key f,
           xf_fact_value = fa_fact_value f\<rparr>)
       (order_asc fa_created_at (sql_where (\<lambda>f. fa_project f = project \<and> active_fact f) (fx_facts x)))"

subsection \<open>upsertFactsForSession\<close>

definition session_observations :: "string \<Rightarrow> string \<Rightarrow> mem_db \<Rightarrow> obs_row list" where
  "session_observations project sid db =
     order_asc ob_created_at (sql_where (\<lambda>r. ob_project r = project \<and> ob_session_id r = sid) (db_observations db))"

definition input_of :: "obs_row \<Rightarrow> extract_input" where
  "input_of r = \<lparr>xi_title = or_else (ob_title r) [], xi_content = ob_content_redacted r,
     xi_observation_type = or_text (ob_observation_type r) ''context''\<rparr>"

definition first_some :: "'a option \<Rightarrow> 'a option \<Rightarrow> 'a option" where
  "first_some a b = (case a of None \<Rightarrow> b | Some v \<Rightarrow> Some v)"

definition fact_of :: "run_env \<Rightarrow> string \<Rightarrow> string \<Rightarrow> obs_row \<Rightarrow> fact_candidate \<Rightarrow> string option \<Rightarrow> fact_row" where
  "fact_of env project sid r f superseded =
     \<lparr>fa_fact_id = createFactId env project sid (fc_fact_key f) (ob_id r), fa_observation_id = Some (ob_id r),
      fa_project = project, fa_session_id = sid, fa_fact_type = fc_fact_type f, fa_fact_key = fc_fact_key f,
      fa_fact_value = fc_fact_value f, fa_confidence = fc_confidence f, fa_superseded_by = None,
      fa_event_time = ob_event_time r, fa_observed_at = first_some (ob_observed_at r) (Some (rn_now env)),
      fa_valid_from = first_some (ob_valid_from r) (first_some (ob_event_time r) (Some (rn_now env))),
      fa_valid_to = ob_valid_to r, fa_supersedes = first_some superseded (ob_supersedes r),
      fa_invalidated_at = ob_invalidated_at r, fa_merged_into = None, fa_created_at = rn_now env,
      fa_updated_at = rn_now env\<rparr>"

definition auto_tag_rows :: "run_env \<Rightarrow> obs_row \<Rightarrow> fact_candidate \<Rightarrow> tag_row list" where
  "auto_tag_rows env r f =
     map (\<lambda>t. \<lparr>tg_observation_id = ob_id r, tg_tag = t, tg_tag_type = ''auto'', tg_created_at = rn_now env\<rparr>)
       (fc_auto_tags f)"

text \<open>INSERT OR IGNORE of a fact and of its tags; the number says whether the fact was inserted.\<close>

definition store_fact :: "run_env \<Rightarrow> obs_row \<Rightarrow> fact_candidate \<Rightarrow> fact_row \<Rightarrow> nat \<times> fact_db \<Rightarrow> nat \<times> fact_db" where
  "store_fact env r f row st =
     (let (inserted, x) = st
      in (if fa_fact_id row \<in> fa_fact_id ` set (fx_facts x) then inserted else inserted + 1,
          x\<lparr>fx_facts := insert_or_ignore fa_fact_id row (fx_facts x),
            fx_mem := add_tags (auto_tag_rows env r f) (fx_mem x)\<rparr>))"

definition heuristic_observation :: "run_env \<Rightarrow> string \<Rightarrow> string \<Rightarrow> obs_row \<Rightarrow> nat \<times> fact_db \<Rightarrow> nat \<times> fact_db" where
  "heuristic_observation env project sid r =
     fold (\<lambda>f. store_fact env r f (fact_of env project sid r f None)) (extractFacts (rn_llm env) (input_of r))"

text \<open>The update of superseded facts: one that is superseded already stays as it is.\<close>

definition supersede :: "run_env \<Rightarrow> (string \<times> string) list \<Rightarrow> fact_db \<Rightarrow> fact_db" where
  "supersede env decisions x =
     x\<lparr>fx_facts := fold (\<lambda>(old, new). sql_update (\<lambda>f. fa_fact_id f = old \<and> fa_superseded_by f = None)
          (\<lambda>f. f\<lparr>fa_superseded_by := Some new, fa_valid_to := Some (rn_now env),
                 fa_invalidated_at := Some (rn_now env), fa_updated_at := rn_now env\<rparr>)) decisions (fx_facts x)\<rparr>"

fun drop_existing :: "string \<Rightarrow> existing_fact list \<Rightarrow> existing_fact list" where
  "drop_existing fid [] = []"
| "drop_existing fid (e # es) = (if xf_fact_id e = fid then es else e # drop_existing fid es)"

record diff_state =
  df_inserted :: nat
  df_existing :: "existing_fact list"
  df_new_ids :: "string list"
  df_db :: fact_db

text \<open>A new fact of a reply with the id of the fact it replaces, if any.\<close>

definition diff_fact :: "run_env \<Rightarrow> string \<Rightarrow> string \<Rightarrow> obs_row \<Rightarrow> fact_candidate \<times> string option \<Rightarrow> diff_state \<Rightarrow> diff_state" where
  "diff_fact env project sid r = (\<lambda>(f, old) d.
     (let row = fact_of env project sid r f old;
          (inserted, x) = store_fact env r f row (df_inserted d, df_db d);
          d1 = d\<lparr>df_inserted := inserted, df_new_ids := df_new_ids d @ [fa_fact_id row], df_db := x\<rparr>
      in if truthy old
         then d1\<lparr>df_existing := drop_existing (or_else old []) (df_existing d1),
                 df_db := supersede env (buildSupersededDecisions (fa_fact_id row) [or_else old []]) x\<rparr>
         else d1))"

definition diff_observation :: "run_env \<Rightarrow> string \<Rightarrow> string \<Rightarrow> obs_row \<Rightarrow> diff_state \<Rightarrow> diff_state" where
  "diff_observation env project sid r d =
     (let diff = llmExtractWithDiff (rn_llm env) (input_of r) (df_existing d);
          d1 = fold (diff_fact env project sid r) (zip (fd_new_facts diff) (fd_supersedes diff)) (d\<lparr>df_new_ids := []\<rparr>);
          representative = (if df_new_ids d1 = [] \<or> last (df_new_ids d1) = []
                            then ''invalidated_by_'' @ ob_id r else last (df_new_ids d1));
          decisions = buildSupersededDecisions representative (fd_deleted diff);
          added = map (\<lambda>(f, i). \<lparr>xf_fact_id = i, xf_fact_type = fc_fact_type f, xf_fact_key = fc_fact_key f,
                      xf_fact_value = fc_fact_value f\<rparr>) (zip (fd_new_facts diff) (df_new_ids d1))
      in d1\<lparr>df_db := supersede env decisions (df_db d1),
            df_existing := fold (\<lambda>(old, new). drop_existing old) decisions (df_existing d1) @ added\<rparr>)"

definition upsertFactsForSession :: "run_env \<Rightarrow> string \<Rightarrow> string \<Rightarrow> fact_db \<Rightarrow> nat \<times> fact_db" where
  "upsertFactsForSession env project sid x =
     (let observations = session_observations project sid (fx_mem x) in
      if isLlmModeEnabled (rn_llm env)
      then (let d = fold (diff_observation env project sid) observations
              \<lparr>df_inserted = 0, df_existing = loadExistingFacts project x, df_new_ids = [], df_db = x\<rparr>
            in (df_inserted d, df_db d))
      else fold (heuristic_observation env project sid) observations (0, x))"

subsection \<open>Links and merging\<close>

definition derives_pair :: "run_env \<Rightarrow> fact_row \<times> fact_row \<Rightarrow> link_row list" where
  "derives_pair env = (\<lambda>(f, g).
     (let s = fact_similarity f g in
      if fa_observation_id f = fa_observation_id g \<or> fa_fact_type f \<noteq> fa_fact_type g \<or> s < 5 / 100 \<or> 35 / 100 < s then []
      else (case (fa_observation_id f, fa_observation_id g) of
              (Some a, Some b) \<Rightarrow>
                [link a b ''derives'' (to_fixed 4 (1 / 2 + s)) (rn_now env),
                 link b a ''derives'' (to_fixed 4 (1 / 2 + s)) (rn_now env)]
            | _ \<Rightarrow> [])))"

definition derived_from :: "string \<Rightarrow> fact_db \<Rightarrow> fact_row list" where
  "derived_from project x =
     take 200 (order_asc fa_created_at (sql_where (\<lambda>f. fa_project f = project \<and> active_fact f) (fx_facts x)))"

text \<open>The number of links is what the inserts change: a row whose key is taken does not count.\<close>

definition generateDerivesLinks :: "run_env \<Rightarrow> string \<Rightarrow> fact_db \<Rightarrow> nat \<times> fact_db" where
  "generateDerivesLinks env project x =
     (let mem = add_links (concat (map (derives_pair env) (all_pairs (derived_from project x)))) (fx_mem x)
      in (length (db_links mem) - length (db_links (fx_mem x)), x\<lparr>fx_mem := mem\<rparr>))"

definition merge_facts :: "string \<Rightarrow> (string \<times> string) list \<Rightarrow> fact_row list \<Rightarrow> fact_row list" where
  "merge_facts now merges t =
     fold (\<lambda>(from, into). sql_update (\<lambda>f. fa_fact_id f = from)
        (\<lambda>f. f\<lparr>fa_merged_into := Some into, fa_updated_at := now\<rparr>)) merges t"

definition session_facts :: "string \<Rightarrow> string \<Rightarrow> fact_db \<Rightarrow> fact_row list" where
  "session_facts project sid x =
     order_asc fa_created_at (sql_where (\<lambda>f. fa_project f = project \<and> fa_session_id f = sid \<and> fa_merged_into f = None)
       (fx_facts x))"

definition dedupeSessionFacts :: "run_env \<Rightarrow> string \<Rightarrow> string \<Rightarrow> fact_db \<Rightarrow> nat \<times> fact_db" where
  "dedupeSessionFacts env project sid x =
     (let merges = dedupeFacts (3 / 10) (session_facts project sid x)
      in (length merges,
          x\<lparr>fx_facts := merge_facts (rn_now env) (map (\<lambda>m. (fm_from m, fm_into m)) merges) (fx_facts x)\<rparr>))"

subsection \<open>Runs\<close>

definition job_status :: "nat option \<Rightarrow> (job_row \<Rightarrow> job_row) \<Rightarrow> fact_db \<Rightarrow> fact_db" where
  "job_status row f x =
     (case row of None \<Rightarrow> x | Some i \<Rightarrow> x\<lparr>fx_queue := sql_update (\<lambda>j. jb_id j = i) f (fx_queue x)\<rparr>)"

definition run_job :: "run_env \<Rightarrow> run_options \<Rightarrow> job \<Rightarrow> run_stats \<times> fact_db \<Rightarrow> run_stats \<times> fact_db" where
  "run_job env opts j st =
     (let (stats, x) = st; project = jo_project j; sid = jo_session_id j;
          x1 = job_status (jo_row j) (\<lambda>r. r\<lparr>jb_status := ''running'', jb_started_at := Some (rn_now env)\<rparr>) x;
          (extracted, x2) = upsertFactsForSession env project sid x1;
          (merged, x3) = dedupeSessionFacts env project sid x2;
          (derived, x4) = generateDerivesLinks env project x3;
          x5 = worker_audit env ''consolidation.run''
            [(''project'', JStr project), (''session_id'', JStr sid), (''facts_extracted'', JNum (int extracted)),
             (''facts_merged'', JNum (int merged)), (''derives_links_created'', JNum (int derived)),
             (''reason'', JStr (or_text (or_else (ro_reason opts) []) ''manual''))] ''session'' (project @ '':'' @ sid) x4;
          x6 = job_status (jo_row j)
            (\<lambda>r. r\<lparr>jb_status := ''completed'', jb_finished_at := Some (rn_now env), jb_error := None\<rparr>) x5
      in (stats\<lparr>rs_jobs_processed := rs_jobs_processed stats + 1,
                rs_facts_extracted := rs_facts_extracted stats + extracted,
                rs_facts_merged := rs_facts_merged stats + merged,
                rs_derives_links := rs_derives_links stats + derived\<rparr>, x6))"

definition pending_jobs :: "fact_db \<Rightarrow> nat" where
  "pending_jobs x = length (sql_where (\<lambda>j. jb_status j = ''pending'') (fx_queue x))"

definition runConsolidationOnce :: "run_env \<Rightarrow> run_options \<Rightarrow> fact_db \<Rightarrow> run_stats \<times> fact_db" where
  "runConsolidationOnce env opts x =
     (let (stats, y) = fold (run_job env opts) (loadPendingJobs opts x)
            (\<lparr>rs_jobs_processed = 0, rs_facts_extracted = 0, rs_facts_merged = 0, rs_pending_jobs = 0,
              rs_derives_links = 0\<rparr>, x)
      in (stats\<lparr>rs_pending_jobs := pending_jobs y\<rparr>, y))"

definition enqueueConsolidationJob :: "string \<Rightarrow> string \<Rightarrow> string \<Rightarrow> string \<Rightarrow> fact_db \<Rightarrow> fact_db" where
  "enqueueConsolidationJob now project sid reason x =
     x\<lparr>fx_queue := fx_queue x @ [\<lparr>jb_id = fx_queue_next x, jb_project = project, jb_session_id = sid,
          jb_reason = take 255 reason, jb_status = ''pending'', jb_requested_at = now, jb_started_at = None,
          jb_finished_at = None, jb_error = None\<rparr>],
       fx_queue_next := Suc (fx_queue_next x)\<rparr>"

subsection \<open>compressMemory\<close>

datatype strategy = Prune | MergeFacts | NoStrategy

record compress_request =
  cm_strategy :: strategy
  cm_project :: "string option"
  cm_dry_run :: bool

record compress_reply =
  cr_before :: nat
  cr_after :: nat
  cr_pruned :: nat
  cr_merged :: nat

definition in_project :: "string option \<Rightarrow> fact_row \<Rightarrow> bool" where
  "in_project project f \<longleftrightarrow> \<not> truthy project \<or> Some (fa_project f) = project"

definition active_in :: "string option \<Rightarrow> fact_db \<Rightarrow> fact_row list" where
  "active_in project x = sql_where (\<lambda>f. active_fact f \<and> in_project project f) (fx_facts x)"

definition pruned_fact :: "string option \<Rightarrow> fact_row \<Rightarrow> bool" where
  "pruned_fact project f \<longleftrightarrow> fa_confidence f < 1 / 2 \<and> active_fact f \<and> in_project project f"

text \<open>
  The keys that more than one active fact has, in the order of the keys, and for each the time of its
  newest fact; of a group SQLite orders by the key it groups by.
\<close>

definition duplicate_keys :: "string option \<Rightarrow> fact_db \<Rightarrow> (string \<times> string) list" where
  "duplicate_keys project x =
     take 200 (map (\<lambda>(k, fs). (k, Max (set (map fa_created_at fs))))
       (filter (\<lambda>(k, fs). 1 < length fs) (order_asc fst (group_by (\<lambda>f. Some (fa_fact_key f)) (active_in project x)))))"

definition merge_key :: "string \<Rightarrow> string option \<Rightarrow> string \<times> string \<Rightarrow> nat \<times> fact_db \<Rightarrow> nat \<times> fact_db" where
  "merge_key now project = (\<lambda>(key, latest) (merged, x).
     (let candidates = sql_where (\<lambda>f. fa_fact_key f = key) (active_in project x) in
      case sql_get (sql_where (\<lambda>f. fa_created_at f = latest) candidates) of
        None \<Rightarrow> (merged, x)
      | Some keep \<Rightarrow>
          (let gone = map fa_fact_id (sql_where (\<lambda>f. fa_fact_id f \<noteq> fa_fact_id keep) candidates)
           in (merged + length gone,
               x\<lparr>fx_facts := merge_facts now (map (\<lambda>i. (i, fa_fact_id keep)) gone) (fx_facts x)\<rparr>))))"

definition prune_facts :: "string \<Rightarrow> string option \<Rightarrow> fact_db \<Rightarrow> nat \<times> fact_db" where
  "prune_facts now project x =
     (length (sql_where (pruned_fact project) (fx_facts x)),
      x\<lparr>fx_facts := sql_update (pruned_fact project)
         (\<lambda>f. f\<lparr>fa_valid_to := Some now, fa_invalidated_at := Some now, fa_updated_at := now\<rparr>) (fx_facts x)\<rparr>)"

definition compressMemory :: "run_env \<Rightarrow> compress_request \<Rightarrow> fact_db \<Rightarrow> compress_reply \<times> fact_db" where
  "compressMemory env req x =
     (let project = cm_project req; before_count = length (active_in project x) in
      if cm_strategy req = NoStrategy \<or> cm_dry_run req
      then (\<lparr>cr_before = before_count, cr_after = before_count, cr_pruned = 0, cr_merged = 0\<rparr>, x)
      else (let (pruned, x1) = (if cm_strategy req = Prune then prune_facts (rn_now env) project x else (0, x));
                (merged, x2) = (if cm_strategy req = MergeFacts
                   then fold (merge_key (rn_now env) project) (duplicate_keys project x1) (0, x1) else (0, x1));
                after_count = length (active_in project x2);
                x3 = worker_audit env ''admin.compress''
                  [(''strategy'', JStr (case cm_strategy req of Prune \<Rightarrow> ''prune'' | MergeFacts \<Rightarrow> ''merge'' | NoStrategy \<Rightarrow> ''none'')),
                   (''project'', JStr (or_text (or_else project []) ''*'')), (''observations_before'', JNum (int before_count)),
                   (''observations_after'', JNum (int after_count)), (''pruned_count'', JNum (int pruned)),
                   (''merged_count'', JNum (int merged))] ''facts'' [] x2
            in (\<lparr>cr_before = before_count, cr_after = after_count, cr_pruned = pruned, cr_merged = merged\<rparr>, x3)))"

end
