(* ===== verification/Consolidation_Safety.thy ===== *)
theory Consolidation_Safety
  imports Consolidation
begin

text \<open>
  What consolidation keeps. Facts stay a forest: whoever follows the merges from any fact ends at one
  that is not merged. Facts belong to stored observations, the queue's rows have keys of their own, and
  the tables the recorder fills stay whole; observations are not touched and the only tags that are
  added are automatic ones.
\<close>

subsection \<open>Chains of merges\<close>

inductive survivor :: "fact_row list \<Rightarrow> string \<Rightarrow> string \<Rightarrow> bool" for t where
  stays: "f \<in> set t \<Longrightarrow> fa_merged_into f = None \<Longrightarrow> survivor t (fa_fact_id f) (fa_fact_id f)"
| moves: "f \<in> set t \<Longrightarrow> fa_merged_into f = Some j \<Longrightarrow> survivor t j k \<Longrightarrow> survivor t (fa_fact_id f) k"

definition forest :: "fact_row list \<Rightarrow> bool" where
  "forest t \<longleftrightarrow> distinct (map fa_fact_id t) \<and> (\<forall>f \<in> set t. \<exists>k. survivor t (fa_fact_id f) k)"

definition unmerged_ids :: "fact_row list \<Rightarrow> string set" where
  "unmerged_ids t = {fa_fact_id f | f. f \<in> set t \<and> fa_merged_into f = None}"

lemma survivor_unmerged: "survivor t i k \<Longrightarrow> k \<in> unmerged_ids t"
  by (induction rule: survivor.induct) (auto simp: unmerged_ids_def)

lemma same_fact:
  "distinct (map fa_fact_id t) \<Longrightarrow> f \<in> set t \<Longrightarrow> g \<in> set t \<Longrightarrow> fa_fact_id f = fa_fact_id g \<Longrightarrow> f = g"
  unfolding distinct_map inj_on_def by blast

lemma survivor_fun:
  assumes "distinct (map fa_fact_id t)"
  shows "survivor t i k \<Longrightarrow> survivor t i l \<Longrightarrow> k = l"
proof (induction arbitrary: l rule: survivor.induct)
  case (stays f)
  from stays.prems show ?case
  proof (cases rule: survivor.cases)
    case (moves g j)
    then have "g = f" using same_fact [OF assms] \<open>f \<in> set t\<close> by metis
    then show ?thesis using moves \<open>fa_merged_into f = None\<close> by simp
  qed simp
next
  case (moves f j k)
  from moves.prems show ?case
  proof (cases rule: survivor.cases)
    case (stays g)
    then have "g = f" using same_fact [OF assms] moves.hyps(1) by metis
    then show ?thesis using stays moves.hyps(2) by simp
  next
    case (moves g j')
    then have "g = f" using same_fact [OF assms] \<open>f \<in> set t\<close> by metis
    then have "j' = j" using moves(3) \<open>fa_merged_into f = Some j\<close> by simp
    then show ?thesis using moves moves.IH by simp
  qed
qed

text \<open>Only ids and merges count.\<close>

definition tree_of :: "fact_row list \<Rightarrow> (string \<times> string option) list" where
  "tree_of t = map (\<lambda>f. (fa_fact_id f, fa_merged_into f)) t"

lemma survivor_tree:
  assumes "set (tree_of t) \<subseteq> set (tree_of u)" "survivor t i k"
  shows "survivor u i k"
  using assms(2)
proof (induction rule: survivor.induct)
  case (stays f)
  then have "(fa_fact_id f, None) \<in> set (tree_of u)" using assms(1) by (force simp: tree_of_def)
  then obtain g where "g \<in> set u" "fa_fact_id g = fa_fact_id f" "fa_merged_into g = None" by (auto simp: tree_of_def)
  then show ?case using survivor.stays [of g u] by simp
next
  case (moves f j k)
  then have "(fa_fact_id f, Some j) \<in> set (tree_of u)" using assms(1) by (force simp: tree_of_def)
  then obtain g where "g \<in> set u" "fa_fact_id g = fa_fact_id f" "fa_merged_into g = Some j" by (auto simp: tree_of_def)
  then show ?case using survivor.moves [of g u j k] moves.IH by simp
qed

lemma map_fst_tree: "map fst (tree_of t) = map fa_fact_id t"
  by (simp add: tree_of_def comp_def)

lemma forest_cong: "tree_of t = tree_of u \<Longrightarrow> forest t \<Longrightarrow> forest u"
proof -
  assume eq: "tree_of t = tree_of u" and f: "forest t"
  have ids: "map fa_fact_id t = map fa_fact_id u" using eq map_fst_tree by metis
  have "\<exists>k. survivor u (fa_fact_id g) k" if "g \<in> set u" for g
  proof -
    have "fa_fact_id g \<in> fa_fact_id ` set t" using that ids by (metis image_eqI list.set_map)
    then obtain k where "survivor t (fa_fact_id g) k" using f by (auto simp: forest_def)
    then have "survivor u (fa_fact_id g) k" by (rule survivor_tree [rotated]) (simp add: eq)
    then show ?thesis by blast
  qed
  then show "forest u" using f ids by (simp add: forest_def)
qed

lemma forest_Nil [simp]: "forest []"
  by (simp add: forest_def)

lemma forest_insert:
  assumes "forest t" "fa_merged_into f = None"
  shows "forest (insert_or_ignore fa_fact_id f t)"
proof (cases "fa_fact_id f \<in> fa_fact_id ` set t")
  case False
  have grow: "survivor t i k \<Longrightarrow> survivor (t @ [f]) i k" for i k
    by (rule survivor_tree) (auto simp: tree_of_def)
  then show ?thesis
    using assms False survivor.stays [of f "t @ [f]"] by (fastforce simp: insert_or_ignore_def forest_def)
qed (use assms in \<open>simp add: insert_or_ignore_def\<close>)

text \<open>A fact that is merged into another one that is not merged takes those merged into it along.\<close>

lemma forest_merge:
  assumes "forest t" "into \<in> unmerged_ids t" "from \<noteq> into"
    and u: "u = sql_update (\<lambda>f. fa_fact_id f = from) (\<lambda>f. f\<lparr>fa_merged_into := Some into, fa_updated_at := now\<rparr>) t"
  shows "forest u"
proof -
  have ids: "map fa_fact_id u = map fa_fact_id t" unfolding u by (rule map_sql_update) simp
  have mem: "g \<in> set u" if "g \<in> set t" "fa_fact_id g \<noteq> from" for g
    using that unfolding u sql_update_def set_map by (intro image_eqI [of _ _ g]) simp_all
  have moved: "\<exists>h \<in> set u. fa_fact_id h = from \<and> fa_merged_into h = Some into" if "g \<in> set t" "fa_fact_id g = from" for g
    using that unfolding u sql_update_def set_map
    by (intro bexI [of _ "g\<lparr>fa_merged_into := Some into, fa_updated_at := now\<rparr>"] image_eqI [of _ _ g]) simp_all
  obtain g where g: "g \<in> set t" "fa_fact_id g = into" "fa_merged_into g = None"
    using assms(2) by (auto simp: unmerged_ids_def)
  have into: "survivor u into into" using survivor.stays [OF mem [OF g(1)] g(3)] g(2) assms(3) by auto
  have via: "\<exists>l. survivor u from l" if v: "g \<in> set t" "fa_fact_id g = from" for g
  proof -
    obtain h where h: "h \<in> set u" "fa_fact_id h = from" "fa_merged_into h = Some into" using moved [OF v] by blast
    then show ?thesis using survivor.moves [OF h(1,3) into] by auto
  qed
  have "survivor t i k \<Longrightarrow> \<exists>l. survivor u i l" for i k
  proof (induction rule: survivor.induct)
    case (stays f)
    show ?case
    proof (cases "fa_fact_id f = from")
      case False
      then show ?thesis using survivor.stays [OF mem [OF stays(1) False] stays(2)] by blast
    qed (use via stays(1) in blast)
  next
    case (moves f j k)
    show ?case
    proof (cases "fa_fact_id f = from")
      case False
      obtain l where "survivor u j l" using moves.IH by blast
      then show ?thesis using survivor.moves [OF mem [OF moves(1) False] moves(2)] by blast
    qed (use via moves(1) in blast)
  qed
  moreover have "fa_fact_id ` set u = fa_fact_id ` set t" using ids by (metis list.set_map)
  ultimately show ?thesis
    using assms(1) ids unfolding forest_def by (metis imageE imageI)
qed

lemma unmerged_update:
  "into \<in> unmerged_ids t \<Longrightarrow> into \<noteq> from \<Longrightarrow> into \<in> unmerged_ids
     (sql_update (\<lambda>f. fa_fact_id f = from) (\<lambda>f. f\<lparr>fa_merged_into := Some j, fa_updated_at := now\<rparr>) t)"
  by (force simp: unmerged_ids_def sql_update_def)

lemma merge_facts_Cons:
  "merge_facts now (m # ms) t = merge_facts now ms
     (sql_update (\<lambda>f. fa_fact_id f = fst m) (\<lambda>f. f\<lparr>fa_merged_into := Some (snd m), fa_updated_at := now\<rparr>) t)"
  by (simp add: merge_facts_def split: prod.split)

lemma merge_facts_Nil [simp]: "merge_facts now [] t = t"
  by (simp add: merge_facts_def)

lemma forest_merges:
  assumes "forest t" "snd ` set ms \<subseteq> unmerged_ids t" "snd ` set ms \<inter> fst ` set ms = {}"
  shows "forest (merge_facts now ms t)"
  using assms
proof (induction ms arbitrary: t)
  case (Cons m ms)
  let ?u = "sql_update (\<lambda>f. fa_fact_id f = fst m) (\<lambda>f. f\<lparr>fa_merged_into := Some (snd m), fa_updated_at := now\<rparr>) t"
  have "forest ?u" using Cons.prems by (intro forest_merge [OF _ _ _ refl]) auto
  moreover have "snd ` set ms \<subseteq> unmerged_ids ?u"
    using Cons.prems(2,3) by (force intro!: unmerged_update)
  ultimately show ?case using Cons.IH [of ?u] Cons.prems(3) unfolding merge_facts_Cons by auto
qed simp

lemma merge_facts_ids [simp]: "map fa_fact_id (merge_facts now ms t) = map fa_fact_id t"
proof (induction ms arbitrary: t)
  case (Cons m ms)
  have "map fa_fact_id (sql_update (\<lambda>f. fa_fact_id f = fst m) (\<lambda>f. f\<lparr>fa_merged_into := Some (snd m), fa_updated_at := now\<rparr>) t) =
      map fa_fact_id t" by (rule map_sql_update) simp
  then show ?case using Cons unfolding merge_facts_Cons by simp
qed simp

subsection \<open>The invariant\<close>

definition owned_facts :: "fact_db \<Rightarrow> bool" where
  "owned_facts x \<longleftrightarrow> fa_observation_id ` set (fx_facts x) \<subseteq> insert None (Some ` obs_ids (fx_mem x))"

definition queue_rows_ok :: "fact_db \<Rightarrow> bool" where
  "queue_rows_ok x \<longleftrightarrow> distinct (map jb_id (fx_queue x)) \<and> jb_id ` set (fx_queue x) \<subseteq> {..<fx_queue_next x}"

definition facts_ok :: "fact_db \<Rightarrow> bool" where
  "facts_ok x \<longleftrightarrow> core_ok (fx_mem x) \<and> refs_ok (fx_mem x) \<and> forest (fx_facts x) \<and> owned_facts x \<and> queue_rows_ok x"

text \<open>The invariant holds, the observations are those of \<open>x\<close>, and tags that are new are automatic ones.\<close>

definition tag_types :: "mem_db \<Rightarrow> string set" where
  "tag_types db = tg_tag_type ` set (db_tags db)"

lemma tag_types_frame [simp]:
  "tag_types (add_links ls db) = tag_types db" "tag_types (db\<lparr>db_audit := l\<rparr>) = tag_types db"
  "tag_types (db\<lparr>db_observations := rs\<rparr>) = tag_types db"
  by (simp_all add: tag_types_def)

lemma tag_types_add: "tag_types (add_tags gs db) \<subseteq> tg_tag_type ` set gs \<union> tag_types db"
  using fold_insert_set [of tag_key gs "db_tags db"] by (auto simp: tag_types_def add_tags_def)

definition upholds :: "fact_db \<Rightarrow> fact_db \<Rightarrow> bool" where
  "upholds x y \<longleftrightarrow> facts_ok y \<and> db_observations (fx_mem y) = db_observations (fx_mem x) \<and>
     tag_types (fx_mem y) \<subseteq> insert ''auto'' (tag_types (fx_mem x))"

lemma upholds_refl: "facts_ok x \<Longrightarrow> upholds x x"
  by (auto simp: upholds_def)

lemma upholds_obs: "upholds x y \<Longrightarrow> obs_ids (fx_mem y) = obs_ids (fx_mem x)"
  by (simp add: upholds_def obs_ids_def)

text \<open>Changes of columns other than the id, the merge and the observation.\<close>

lemma upholds_update:
  assumes "upholds x y" "\<And>f. fa_fact_id (g f) = fa_fact_id f" "\<And>f. fa_merged_into (g f) = fa_merged_into f"
    "\<And>f. fa_observation_id (g f) = fa_observation_id f"
  shows "upholds x (y\<lparr>fx_facts := sql_update p g (fx_facts y)\<rparr>)"
proof -
  have "tree_of (sql_update p g (fx_facts y)) = tree_of (fx_facts y)"
    unfolding tree_of_def by (rule map_sql_update) (simp add: assms(2,3))
  then have "forest (sql_update p g (fx_facts y))"
    using assms(1) forest_cong [of "fx_facts y" "sql_update p g (fx_facts y)"] by (simp add: upholds_def facts_ok_def)
  moreover have "map fa_observation_id (sql_update p g (fx_facts y)) = map fa_observation_id (fx_facts y)"
    by (rule map_sql_update) (simp add: assms(4))
  then have "fa_observation_id ` set (sql_update p g (fx_facts y)) = fa_observation_id ` set (fx_facts y)"
    by (metis list.set_map)
  then have "owned_facts (y\<lparr>fx_facts := sql_update p g (fx_facts y)\<rparr>) = owned_facts y"
    by (simp add: owned_facts_def)
  ultimately show ?thesis using assms(1) by (simp add: upholds_def facts_ok_def queue_rows_ok_def)
qed

lemma upholds_supersede: "upholds x y \<Longrightarrow> upholds x (supersede env ds y)"
proof (induction ds arbitrary: y)
  case (Cons d ds)
  let ?u = "sql_update (\<lambda>f. fa_fact_id f = fst d \<and> fa_superseded_by f = None)
      (\<lambda>f. f\<lparr>fa_superseded_by := Some (snd d), fa_valid_to := Some (rn_now env),
             fa_invalidated_at := Some (rn_now env), fa_updated_at := rn_now env\<rparr>) (fx_facts y)"
  have "upholds x (y\<lparr>fx_facts := ?u\<rparr>)" by (rule upholds_update [OF Cons.prems]) simp_all
  from Cons.IH [OF this] show ?case by (cases d) (simp add: supersede_def)
qed (simp add: supersede_def)

lemma upholds_store:
  assumes "upholds x y" "r \<in> set (db_observations (fx_mem x))"
    and "fa_merged_into row = None" "fa_observation_id row = Some (ob_id r)"
  shows "upholds x (snd (store_fact env r f row (n, y)))"
proof -
  let ?z = "snd (store_fact env r f row (n, y))"
  have z: "fx_facts ?z = insert_or_ignore fa_fact_id row (fx_facts y)" "fx_mem ?z = add_tags (auto_tag_rows env r f) (fx_mem y)"
    "fx_queue ?z = fx_queue y" "fx_queue_next ?z = fx_queue_next y"
    by (simp_all add: store_fact_def)
  have r: "ob_id r \<in> obs_ids (fx_mem y)"
    using assms(1,2) by (simp add: upholds_def obs_ids_def)
  have ok: "core_ok (fx_mem y)" "refs_ok (fx_mem y)" "forest (fx_facts y)" "owned_facts y" "queue_rows_ok y"
    "db_observations (fx_mem y) = db_observations (fx_mem x)"
    using assms(1) by (simp_all add: upholds_def facts_ok_def)
  have "core_ok (fx_mem ?z)" using ok(1) unfolding z by (rule core_cong) simp_all
  moreover have "refs_ok (fx_mem ?z)"
    unfolding z by (rule refs_tags [OF ok(2)]) (use r in \<open>auto simp: auto_tag_rows_def\<close>)
  moreover have "forest (fx_facts ?z)" unfolding z by (rule forest_insert [OF ok(3) assms(3)])
  moreover have "owned_facts ?z"
    using ok(4) r set_insert_or_ignore(2) [of fa_fact_id row "fx_facts y"] assms(4) unfolding owned_facts_def z by auto
  moreover have "queue_rows_ok ?z" using ok(5) by (simp add: queue_rows_ok_def z)
  moreover have "tag_types (fx_mem ?z) \<subseteq> insert ''auto'' (tag_types (fx_mem x))"
    using tag_types_add [of "auto_tag_rows env r f" "fx_mem y"] assms(1)
    unfolding z upholds_def by (fastforce simp: auto_tag_rows_def)
  ultimately show ?thesis using ok(6) by (simp add: upholds_def facts_ok_def z)
qed

lemma fact_of_simps [simp]:
  "fa_merged_into (fact_of env p s r f old) = None" "fa_observation_id (fact_of env p s r f old) = Some (ob_id r)"
  "fa_fact_id (fact_of env p s r f old) = createFactId env p s (fc_fact_key f) (ob_id r)"
  by (simp_all add: fact_of_def)

lemma upholds_heuristic:
  assumes "upholds x (snd st)" "r \<in> set (db_observations (fx_mem x))"
  shows "upholds x (snd (heuristic_observation env p s r st))"
proof -
  have "upholds x (snd (fold (\<lambda>f. store_fact env r f (fact_of env p s r f None)) fs st))" for fs
    using assms(1)
  proof (induction fs arbitrary: st)
    case (Cons f fs)
    then show ?case using upholds_store [OF _ assms(2), of "snd st" "fact_of env p s r f None" env f "fst st"] by simp
  qed simp
  then show ?thesis by (simp add: heuristic_observation_def)
qed

lemma upholds_diff_fact:
  assumes "upholds x (df_db d)" "r \<in> set (db_observations (fx_mem x))"
  shows "upholds x (df_db (diff_fact env p s r fo d))"
proof -
  obtain f old where fo: "fo = (f, old)" by (cases fo)
  let ?row = "fact_of env p s r f old"
  have "upholds x (snd (store_fact env r f ?row (df_inserted d, df_db d)))"
    by (rule upholds_store [OF assms]) simp_all
  then show ?thesis
    by (cases "store_fact env r f ?row (df_inserted d, df_db d)")
      (simp add: diff_fact_def fo Let_def upholds_supersede)
qed

lemma upholds_diff:
  assumes "upholds x (df_db d)" "r \<in> set (db_observations (fx_mem x))"
  shows "upholds x (df_db (diff_observation env p s r d))"
proof -
  have "upholds x (df_db (fold (diff_fact env p s r) fos e))" if "upholds x (df_db e)" for fos e
    using that by (induction fos arbitrary: e) (simp_all add: upholds_diff_fact assms(2))
  then show ?thesis
    using assms(1) by (simp add: diff_observation_def Let_def upholds_supersede)
qed

lemma upholds_upsert:
  assumes "facts_ok x"
  shows "upholds x (snd (upsertFactsForSession env p s x))"
proof -
  have obs: "set (session_observations p s (fx_mem x)) \<subseteq> set (db_observations (fx_mem x))"
    by (auto simp: session_observations_def)
  have 1: "upholds x (snd (fold (heuristic_observation env p s) rs st))"
    if "upholds x (snd st)" "set rs \<subseteq> set (db_observations (fx_mem x))" for rs st
    using that by (induction rs arbitrary: st) (simp_all add: upholds_heuristic)
  have 2: "upholds x (df_db (fold (diff_observation env p s) rs d))"
    if "upholds x (df_db d)" "set rs \<subseteq> set (db_observations (fx_mem x))" for rs d
    using that by (induction rs arbitrary: d) (simp_all add: upholds_diff)
  show ?thesis
    using 1 [OF _ obs] 2 [OF _ obs] upholds_refl [OF assms] by (simp add: upsertFactsForSession_def Let_def)
qed

lemma upholds_merge:
  assumes "upholds x y" "snd ` set ms \<subseteq> unmerged_ids (fx_facts y)" "snd ` set ms \<inter> fst ` set ms = {}"
  shows "upholds x (y\<lparr>fx_facts := merge_facts now ms (fx_facts y)\<rparr>)"
proof -
  have "map fa_observation_id (merge_facts now ms t) = map fa_observation_id t" for t
  proof (induction ms arbitrary: t)
    case (Cons m ms)
    have "map fa_observation_id (sql_update (\<lambda>f. fa_fact_id f = fst m)
        (\<lambda>f. f\<lparr>fa_merged_into := Some (snd m), fa_updated_at := now\<rparr>) t) = map fa_observation_id t"
      by (rule map_sql_update) simp
    then show ?case using Cons unfolding merge_facts_Cons by simp
  qed simp
  then have "fa_observation_id ` set (merge_facts now ms (fx_facts y)) = fa_observation_id ` set (fx_facts y)"
    by (metis list.set_map)
  moreover have "forest (merge_facts now ms (fx_facts y))"
    using assms by (intro forest_merges) (simp_all add: upholds_def facts_ok_def)
  ultimately show ?thesis using assms(1) by (simp add: upholds_def facts_ok_def owned_facts_def queue_rows_ok_def)
qed

lemma distinct_map_order: "distinct (map f (order_asc k t)) = distinct (map f t)"
  by (simp add: order_asc_def distinct_map)

lemma session_facts_distinct: "forest (fx_facts x) \<Longrightarrow> distinct (map fa_fact_id (session_facts p s x))"
  by (simp add: session_facts_def sql_where_def forest_def distinct_map_order distinct_map_filter)

lemma session_facts_unmerged: "f \<in> set (session_facts p s x) \<Longrightarrow> fa_fact_id f \<in> unmerged_ids (fx_facts x)"
  by (auto simp: session_facts_def unmerged_ids_def)

lemma dedupe_merges:
  assumes "distinct (map fa_fact_id facts)" "ms = map (\<lambda>m. (fm_from m, fm_into m)) (dedupeFacts threshold facts)"
  shows "snd ` set ms \<subseteq> fa_fact_id ` set facts" "snd ` set ms \<inter> fst ` set ms = {}" "distinct (map fst ms)"
    "fst ` set ms \<subseteq> fa_fact_id ` set facts"
proof -
  obtain merges kept where run: "dedupe_run threshold facts = (merges, kept)" by (cases "dedupe_run threshold facts")
  note d = deduped_run [OF run]
  have eq: "snd ` set ms = fm_into ` set merges" "fst ` set ms = fm_from ` set merges" "map fst ms = map fm_from merges"
    using assms(2) run by (auto simp: dedupeFacts_def image_image)
  have into: "fm_into ` set merges \<subseteq> fa_fact_id ` set kept"
    using d(4) by (auto simp: sound_merge_def)
  then show "snd ` set ms \<subseteq> fa_fact_id ` set facts" using image_mono [OF d(1), of fa_fact_id] eq by simp
  have "mset (map fm_from merges @ map fa_fact_id kept) = mset (map fa_fact_id facts)" using d(3) by simp
  then have "distinct (map fm_from merges @ map fa_fact_id kept)"
      "set (map fm_from merges @ map fa_fact_id kept) = set (map fa_fact_id facts)"
    using assms(1) mset_eq_imp_distinct_iff mset_eq_setD by blast+
  then have parts: "distinct (map fm_from merges)" "fm_from ` set merges \<inter> fa_fact_id ` set kept = {}"
      "fm_from ` set merges \<union> fa_fact_id ` set kept = fa_fact_id ` set facts"
    by simp_all
  then show "distinct (map fst ms)" "fst ` set ms \<subseteq> fa_fact_id ` set facts" using eq by auto
  show "snd ` set ms \<inter> fst ` set ms = {}" unfolding eq using into parts(2) by blast
qed

lemma upholds_dedupe:
  assumes "upholds x y"
  shows "upholds x (snd (dedupeSessionFacts env p s y))"
proof -
  have "distinct (map fa_fact_id (session_facts p s y))"
    using assms by (intro session_facts_distinct) (simp add: upholds_def facts_ok_def)
  note d = dedupe_merges [OF this refl, of "3 / 10"]
  have "snd ` set (map (\<lambda>m. (fm_from m, fm_into m)) (dedupeFacts (3 / 10) (session_facts p s y))) \<subseteq> unmerged_ids (fx_facts y)"
    by (rule subset_trans [OF d(1)]) (auto dest: session_facts_unmerged)
  from upholds_merge [OF assms this d(2), of "rn_now env"] show ?thesis
    by (simp add: dedupeSessionFacts_def Let_def)
qed

lemma upholds_derive:
  assumes "upholds x y"
  shows "upholds x (snd (generateDerivesLinks env p y))"
proof -
  let ?fs = "derived_from p y" let ?ls = "concat (map (derives_pair env) (all_pairs ?fs))"
  have ok: "core_ok (fx_mem y)" "refs_ok (fx_mem y)" "owned_facts y" using assms by (simp_all add: upholds_def facts_ok_def)
  have "set (all_pairs fs) \<subseteq> set fs \<times> set fs" for fs :: "fact_row list" by (induction fs) auto
  then have "set (all_pairs ?fs) \<subseteq> set (fx_facts y) \<times> set (fx_facts y)"
    by (fastforce simp: derived_from_def dest!: in_set_takeD)
  then have "\<forall>l \<in> set ?ls. li_from l \<in> obs_ids (fx_mem y) \<and> li_to l \<in> obs_ids (fx_mem y) \<and> li_from l \<noteq> li_to l"
    using ok(3) by (fastforce simp: derives_pair_def owned_facts_def link_def Let_def split: if_splits option.splits)
  then have "refs_ok (add_links ?ls (fx_mem y))" by (intro refs_links [OF ok(2)]) auto
  moreover have "core_ok (add_links ?ls (fx_mem y))" using ok(1) by (rule core_cong) simp_all
  ultimately show ?thesis
    using assms by (simp add: generateDerivesLinks_def Let_def upholds_def facts_ok_def owned_facts_def queue_rows_ok_def)
qed

lemma upholds_audit: "upholds x y \<Longrightarrow> upholds x (worker_audit env a ds ty i y)"
proof -
  assume y: "upholds x y"
  have "obs_ids (fx_mem y\<lparr>db_audit := l\<rparr>) = obs_ids (fx_mem y)" for l by (simp add: obs_ids_def)
  with y show ?thesis
    by (simp add: worker_audit_def upholds_def facts_ok_def refs_audit core_audit owned_facts_def queue_rows_ok_def)
qed

lemma upholds_job:
  assumes "upholds x y" "\<And>j. jb_id (f j) = jb_id j"
  shows "upholds x (job_status row f y)"
proof (cases row)
  case (Some i)
  have "map jb_id (sql_update (\<lambda>j. jb_id j = i) f (fx_queue y)) = map jb_id (fx_queue y)"
    by (rule map_sql_update) (simp add: assms(2))
  moreover from this have "jb_id ` set (sql_update (\<lambda>j. jb_id j = i) f (fx_queue y)) = jb_id ` set (fx_queue y)"
    by (metis list.set_map)
  ultimately show ?thesis
    using assms(1) Some by (simp add: job_status_def upholds_def facts_ok_def owned_facts_def queue_rows_ok_def)
qed (use assms(1) in \<open>simp add: job_status_def\<close>)

lemma upholds_trans: "upholds x y \<Longrightarrow> upholds y z \<Longrightarrow> upholds x z"
  by (auto simp: upholds_def)

definition started :: "run_env \<Rightarrow> job \<Rightarrow> fact_db \<Rightarrow> fact_db" where
  "started env j = job_status (jo_row j) (\<lambda>r. r\<lparr>jb_status := ''running'', jb_started_at := Some (rn_now env)\<rparr>)"

definition completed :: "run_env \<Rightarrow> job \<Rightarrow> fact_db \<Rightarrow> fact_db" where
  "completed env j = job_status (jo_row j)
     (\<lambda>r. r\<lparr>jb_status := ''completed'', jb_finished_at := Some (rn_now env), jb_error := None\<rparr>)"

text \<open>The steps of a job.\<close>

lemma run_job_steps:
  obtains n2 x2 n3 x3 n4 x4 ds where
    "upsertFactsForSession env (jo_project j) (jo_session_id j) (started env j y) = (n2, x2)"
    "dedupeSessionFacts env (jo_project j) (jo_session_id j) x2 = (n3, x3)"
    "generateDerivesLinks env (jo_project j) x3 = (n4, x4)"
    "run_job env opts j (stats, y) =
       (stats\<lparr>rs_jobs_processed := rs_jobs_processed stats + 1, rs_facts_extracted := rs_facts_extracted stats + n2,
              rs_facts_merged := rs_facts_merged stats + n3, rs_derives_links := rs_derives_links stats + n4\<rparr>,
        completed env j (worker_audit env ''consolidation.run'' ds ''session'' (jo_project j @ '':'' @ jo_session_id j) x4))"
proof -
  obtain n2 x2 where 2: "upsertFactsForSession env (jo_project j) (jo_session_id j) (started env j y) = (n2, x2)" by fastforce
  obtain n3 x3 where 3: "dedupeSessionFacts env (jo_project j) (jo_session_id j) x2 = (n3, x3)" by fastforce
  obtain n4 x4 where 4: "generateDerivesLinks env (jo_project j) x3 = (n4, x4)" by fastforce
  show thesis
    by (rule that [OF 2 3 4])
      (use 2 3 4 in \<open>simp add: run_job_def Let_def started_def completed_def\<close>)
qed

lemma upholds_run_job:
  assumes "upholds x y"
  shows "upholds x (snd (run_job env opts j (stats, y)))"
proof (rule run_job_steps [of env j y opts stats])
  fix n2 x2 n3 x3 n4 x4 ds
  assume 2: "upsertFactsForSession env (jo_project j) (jo_session_id j) (started env j y) = (n2, x2)"
    and 3: "dedupeSessionFacts env (jo_project j) (jo_session_id j) x2 = (n3, x3)"
    and 4: "generateDerivesLinks env (jo_project j) x3 = (n4, x4)"
    and run: "run_job env opts j (stats, y) =
       (stats\<lparr>rs_jobs_processed := rs_jobs_processed stats + 1, rs_facts_extracted := rs_facts_extracted stats + n2,
              rs_facts_merged := rs_facts_merged stats + n3, rs_derives_links := rs_derives_links stats + n4\<rparr>,
        completed env j (worker_audit env ''consolidation.run'' ds ''session'' (jo_project j @ '':'' @ jo_session_id j) x4))"
  have x1: "upholds x (started env j y)" unfolding started_def by (rule upholds_job [OF assms]) simp
  have "upholds (started env j y) x2"
    using upholds_upsert [of "started env j y" env "jo_project j" "jo_session_id j"] x1 2 by (simp add: upholds_def)
  with x1 have "upholds x x2" by (rule upholds_trans)
  then have "upholds x x3" using upholds_dedupe [of x x2 env "jo_project j" "jo_session_id j"] 3 by simp
  then have "upholds x x4" using upholds_derive [of x x3 env "jo_project j"] 4 by simp
  then show ?thesis unfolding run snd_conv completed_def by (intro upholds_job upholds_audit) simp_all
qed

lemma consolidation_upholds:
  assumes "facts_ok x"
  shows "upholds x (snd (runConsolidationOnce env opts x))"
proof -
  have "upholds x (snd (fold (run_job env opts) js st))" if "upholds x (snd st)" for js st
    using that by (induction js arbitrary: st) (simp_all add: upholds_run_job, metis prod.collapse upholds_run_job)
  from this [of "(\<lparr>rs_jobs_processed = 0, rs_facts_extracted = 0, rs_facts_merged = 0, rs_pending_jobs = 0,
      rs_derives_links = 0\<rparr>, x)" "loadPendingJobs opts x"]
  show ?thesis
    using upholds_refl [OF assms] by (simp add: runConsolidationOnce_def split_beta)
qed

lemma upholds_merge_key:
  assumes "upholds x (snd st)"
  shows "upholds x (snd (merge_key now project kl st))"
proof -
  obtain key latest where kl: "kl = (key, latest)" by (cases kl)
  obtain n y where st: "st = (n, y)" by (cases st)
  let ?c = "sql_where (\<lambda>f. fa_fact_key f = key) (active_in project y)"
  show ?thesis
  proof (cases "sql_get (sql_where (\<lambda>f. fa_created_at f = latest) ?c)")
    case None
    then show ?thesis using assms by (simp add: merge_key_def kl st Let_def)
  next
    case (Some keep)
    let ?gone = "map fa_fact_id (sql_where (\<lambda>f. fa_fact_id f \<noteq> fa_fact_id keep) ?c)"
    have "fa_fact_id keep \<in> unmerged_ids (fx_facts y)"
      using sql_get_in [OF Some] by (auto simp: active_in_def active_fact_def unmerged_ids_def)
    then have "upholds x (y\<lparr>fx_facts := merge_facts now (map (\<lambda>i. (i, fa_fact_id keep)) ?gone) (fx_facts y)\<rparr>)"
      using assms st by (intro upholds_merge) auto
    then show ?thesis using Some by (simp add: merge_key_def kl st Let_def)
  qed
qed

lemma compression_upholds:
  assumes "facts_ok x"
  shows "upholds x (snd (compressMemory env req x))"
proof -
  let ?p = "cm_project req"
  have folded: "upholds x (snd (fold (merge_key now p) ks st))" if "upholds x (snd st)" for now p ks st
    using that by (induction ks arbitrary: st) (simp_all add: upholds_merge_key)
  have "upholds x (snd (prune_facts now ?p x))" for now
    unfolding prune_facts_def snd_conv by (rule upholds_update [OF upholds_refl [OF assms]]) simp_all
  then show ?thesis
    using folded upholds_refl [OF assms] unfolding compressMemory_def Let_def
    by (cases "cm_strategy req") (auto intro!: upholds_audit simp: split_beta)
qed

lemma enqueue_upholds: "facts_ok x \<Longrightarrow> upholds x (enqueueConsolidationJob now p s reason x)"
  by (auto simp: enqueueConsolidationJob_def upholds_def facts_ok_def owned_facts_def queue_rows_ok_def)

end
