(* ===== verification/Consolidation_Again.thy ===== *)
theory Consolidation_Again
  imports Consolidation_Safety
begin

text \<open>
  Consolidating a session twice: without a language model the second run extracts, merges and links
  nothing. Queued jobs and their completion. And how a value that is current can get lost.
\<close>

subsection \<open>Inserts of rows that are there\<close>

lemma fold_insert_known: "k ` set rs \<subseteq> k ` set t \<Longrightarrow> fold (insert_or_ignore k) rs t = t"
  by (induction rs) (simp_all add: insert_or_ignore_def)

definition session_candidates :: "run_env \<Rightarrow> obs_row list \<Rightarrow> (obs_row \<times> fact_candidate) list" where
  "session_candidates env rs = concat (map (\<lambda>r. map (Pair r) (extractFacts (rn_llm env) (input_of r))) rs)"

definition store_candidate :: "run_env \<Rightarrow> string \<Rightarrow> string \<Rightarrow> obs_row \<times> fact_candidate \<Rightarrow> nat \<times> fact_db \<Rightarrow> nat \<times> fact_db" where
  "store_candidate env p s = (\<lambda>(r, f). store_fact env r f (fact_of env p s r f None))"

lemma heuristic_fold:
  "fold (heuristic_observation env p s) rs st = fold (store_candidate env p s) (session_candidates env rs) st"
proof (induction rs arbitrary: st)
  case (Cons r rs)
  have "heuristic_observation env p s r st =
      fold (store_candidate env p s) (map (Pair r) (extractFacts (rn_llm env) (input_of r))) st"
    by (simp add: heuristic_observation_def store_candidate_def fold_map comp_def)
  then show ?case using Cons by (simp add: session_candidates_def)
qed (simp add: session_candidates_def)

text \<open>The fact and the tags of a candidate are stored.\<close>

definition covers :: "run_env \<Rightarrow> string \<Rightarrow> string \<Rightarrow> fact_db \<Rightarrow> obs_row \<times> fact_candidate \<Rightarrow> bool" where
  "covers env p s x = (\<lambda>(r, f).
     createFactId env p s (fc_fact_key f) (ob_id r) \<in> fa_fact_id ` set (fx_facts x) \<and>
     tag_key ` set (auto_tag_rows env r f) \<subseteq> tag_key ` set (db_tags (fx_mem x)))"

lemma covers_mono:
  "covers env p s x rf \<Longrightarrow> fa_fact_id ` set (fx_facts x) \<subseteq> fa_fact_id ` set (fx_facts y) \<Longrightarrow>
     tag_key ` set (db_tags (fx_mem x)) \<subseteq> tag_key ` set (db_tags (fx_mem y)) \<Longrightarrow> covers env p s y rf"
  by (cases rf) (simp add: covers_def, blast)

lemma covers_env:
  "rn_llm env' = rn_llm env \<Longrightarrow> rn_sha1 env' = rn_sha1 env \<Longrightarrow> covers env' p s x rf = covers env p s x rf"
proof -
  assume "rn_llm env' = rn_llm env" "rn_sha1 env' = rn_sha1 env"
  moreover have "tag_key ` set (auto_tag_rows env' r f) = tag_key ` set (auto_tag_rows env r f)" for r f
    by (simp add: auto_tag_rows_def tag_key_def image_image)
  ultimately show ?thesis by (cases rf) (simp add: covers_def createFactId_def)
qed

lemma store_candidate_effect:
  "fa_fact_id ` set (fx_facts (snd (store_candidate env p s (r, f) (n, x)))) =
     insert (createFactId env p s (fc_fact_key f) (ob_id r)) (fa_fact_id ` set (fx_facts x))"
  "tag_key ` set (db_tags (fx_mem (snd (store_candidate env p s (r, f) (n, x))))) =
     tag_key ` set (db_tags (fx_mem x)) \<union> tag_key ` set (auto_tag_rows env r f)"
  by (auto simp: store_candidate_def store_fact_def insert_or_ignore_def add_tags_def fold_insert_keys)

lemma store_candidates_cover:
  assumes "fold (store_candidate env p s) rfs st = st'"
  shows "(\<forall>rf \<in> set rfs. covers env p s (snd st') rf) \<and>
    fa_fact_id ` set (fx_facts (snd st)) \<subseteq> fa_fact_id ` set (fx_facts (snd st')) \<and>
    tag_key ` set (db_tags (fx_mem (snd st))) \<subseteq> tag_key ` set (db_tags (fx_mem (snd st')))"
  using assms
proof (induction rfs arbitrary: st)
  case (Cons rf rfs)
  obtain r f where rf: "rf = (r, f)" by (cases rf)
  obtain n x where st: "st = (n, x)" by (cases st)
  let ?mid = "store_candidate env p s rf st"
  note mid = store_candidate_effect [of env p s r f n x, folded rf st]
  have IH: "(\<forall>rf \<in> set rfs. covers env p s (snd st') rf)"
    "fa_fact_id ` set (fx_facts (snd ?mid)) \<subseteq> fa_fact_id ` set (fx_facts (snd st'))"
    "tag_key ` set (db_tags (fx_mem (snd ?mid))) \<subseteq> tag_key ` set (db_tags (fx_mem (snd st')))"
    using Cons.IH [of ?mid] Cons.prems by simp_all
  have "covers env p s (snd ?mid) rf" unfolding covers_def rf prod.case mid [unfolded rf] by blast
  then have "covers env p s (snd st') rf" by (rule covers_mono [OF _ IH(2,3)])
  then show ?case using IH mid st by auto
qed simp

lemma store_candidates_known:
  assumes "\<forall>rf \<in> set rfs. covers env p s x rf"
  shows "fold (store_candidate env p s) rfs (n, x) = (n, x)"
proof -
  have "store_candidate env p s rf (n, x) = (n, x)" if "covers env p s x rf" for rf
    using that by (cases rf) (auto simp: covers_def store_candidate_def store_fact_def insert_or_ignore_def
        add_tags_def fold_insert_known)
  with assms show ?thesis by (induction rfs) auto
qed

subsection \<open>Merging and linking again\<close>

lemma dedupe_again:
  assumes "distinct (map fa_fact_id facts)"
  shows "dedupeFacts threshold (filter (\<lambda>f. fa_fact_id f \<notin> fm_from ` set (dedupeFacts threshold facts)) facts) = []"
proof -
  obtain merges kept where run: "dedupe_run threshold facts = (merges, kept)" by (cases "dedupe_run threshold facts")
  note d = deduped_run [OF run]
  have m: "dedupeFacts threshold facts = merges" by (simp add: dedupeFacts_def run)
  have "order_asc fact_order (filter (\<lambda>f. fa_fact_id f \<notin> fm_from ` set merges) facts) = kept"
    unfolding d(5) [OF assms] by (simp add: order_asc_def filter_sort)
  then have "dedupe_run threshold (filter (\<lambda>f. fa_fact_id f \<notin> fm_from ` set merges) facts) = ([], kept)"
    using dedupe_loop_stable [of threshold "[]" kept] d(2) by (simp add: dedupe_run_def)
  then show ?thesis unfolding m by (simp add: dedupeFacts_def)
qed

lemma merge_facts_unmerged:
  assumes "\<And>f m u. P (f\<lparr>fa_merged_into := m, fa_updated_at := u\<rparr>) = P f"
  shows "filter (\<lambda>f. P f \<and> fa_merged_into f = None) (merge_facts now ms t) =
    filter (\<lambda>f. fa_fact_id f \<notin> fst ` set ms) (filter (\<lambda>f. P f \<and> fa_merged_into f = None) t)"
proof (induction ms arbitrary: t)
  case (Cons m ms)
  have "filter (\<lambda>f. P f \<and> fa_merged_into f = None) (sql_update (\<lambda>f. fa_fact_id f = fst m)
      (\<lambda>f. f\<lparr>fa_merged_into := Some (snd m), fa_updated_at := now\<rparr>) t) =
      filter (\<lambda>f. fa_fact_id f \<noteq> fst m) (filter (\<lambda>f. P f \<and> fa_merged_into f = None) t)"
    by (induction t) (auto simp: sql_update_def assms)
  then show ?case unfolding merge_facts_Cons Cons.IH by (auto intro: filter_cong)
qed (auto simp: merge_facts_def intro: filter_cong)

lemma dedupe_session_again:
  assumes "forest (fx_facts x)" "dedupeSessionFacts env p s x = (n, y)" "fx_facts z = fx_facts y"
  shows "dedupeSessionFacts env' p s z = (0, z)"
proof -
  let ?ms = "dedupeFacts (3 / 10) (session_facts p s x)"
  let ?P = "\<lambda>f. fa_project f = p \<and> fa_session_id f = s"
  have y: "fx_facts y = merge_facts (rn_now env) (map (\<lambda>m. (fm_from m, fm_into m)) ?ms) (fx_facts x)"
    using assms(2) by (auto simp: dedupeSessionFacts_def Let_def)
  have select: "session_facts p s v = order_asc fa_created_at (filter (\<lambda>f. ?P f \<and> fa_merged_into f = None) (fx_facts v))" for v
    unfolding session_facts_def sql_where_def by (simp add: conj_assoc)
  have "filter (\<lambda>f. ?P f \<and> fa_merged_into f = None) (fx_facts z) =
      filter (\<lambda>f. fa_fact_id f \<notin> fm_from ` set ?ms) (filter (\<lambda>f. ?P f \<and> fa_merged_into f = None) (fx_facts x))"
    unfolding assms(3) y by (subst merge_facts_unmerged) (simp_all add: image_image)
  then have "session_facts p s z = filter (\<lambda>f. fa_fact_id f \<notin> fm_from ` set ?ms) (session_facts p s x)"
    unfolding select order_asc_def by (simp only: filter_sort)
  then have "dedupeFacts (3 / 10) (session_facts p s z) = []"
    using dedupe_again [OF session_facts_distinct [OF assms(1), of p s], of "3 / 10"] by simp
  then show ?thesis by (simp add: dedupeSessionFacts_def)
qed

lemma derive_again:
  assumes "generateDerivesLinks env p x = (n, y)" "fx_facts z = fx_facts x" "db_links (fx_mem z) = db_links (fx_mem y)"
  shows "generateDerivesLinks env' p z = (0, z)"
proof -
  have keys1: "map link_key (derives_pair env' fg) = map link_key (derives_pair env fg)" for fg
    by (cases fg) (simp add: derives_pair_def link_def link_key_def Let_def split: option.split)
  have "map link_key (concat (map (derives_pair env') gs)) = map link_key (concat (map (derives_pair env) gs))" for gs
    by (simp add: map_concat comp_def keys1)
  then have keys: "link_key ` set (concat (map (derives_pair env') gs)) = link_key ` set (concat (map (derives_pair env) gs))" for gs
    by (metis list.set_map)
  let ?gs = "all_pairs (derived_from p x)"
  have links: "db_links (fx_mem y) =
      fold (insert_or_ignore link_key) (concat (map (derives_pair env) ?gs)) (db_links (fx_mem x))"
    using assms(1) by (auto simp: generateDerivesLinks_def Let_def add_links_def)
  have "fold (insert_or_ignore link_key) (concat (map (derives_pair env') ?gs)) (db_links (fx_mem z)) = db_links (fx_mem z)"
    by (rule fold_insert_known) (simp only: keys assms(3) links fold_insert_keys, blast)
  then have "add_links (concat (map (derives_pair env') ?gs)) (fx_mem z) = fx_mem z"
    by (simp add: add_links_def)
  moreover have "derived_from p z = derived_from p x" by (simp add: derived_from_def assms(2))
  ultimately have "add_links (concat (map (derives_pair env') (all_pairs (derived_from p z)))) (fx_mem z) = fx_mem z"
    by simp
  then show ?thesis by (simp add: generateDerivesLinks_def)
qed

subsection \<open>A session without a row in the queue\<close>

lemma no_row [simp]: "jo_row j = None \<Longrightarrow> started env j = (\<lambda>x. x)" "jo_row j = None \<Longrightarrow> completed env j = (\<lambda>x. x)"
  by (simp_all add: started_def completed_def job_status_def fun_eq_iff)

lemma worker_audit_simps [simp]:
  "fx_facts (worker_audit env a ds ty i x) = fx_facts x" "fx_queue (worker_audit env a ds ty i x) = fx_queue x"
  "fx_queue_next (worker_audit env a ds ty i x) = fx_queue_next x"
  "db_observations (fx_mem (worker_audit env a ds ty i x)) = db_observations (fx_mem x)"
  "db_tags (fx_mem (worker_audit env a ds ty i x)) = db_tags (fx_mem x)"
  "db_links (fx_mem (worker_audit env a ds ty i x)) = db_links (fx_mem x)"
  by (simp_all add: worker_audit_def)

lemma upsert_heuristic:
  "\<not> isLlmModeEnabled (rn_llm env) \<Longrightarrow> upsertFactsForSession env p s x =
     fold (store_candidate env p s) (session_candidates env (session_observations p s (fx_mem x))) (0, x)"
  by (simp add: upsertFactsForSession_def heuristic_fold)

text \<open>A state in which consolidating the session leaves all as it is.\<close>

definition settled_session :: "run_env \<Rightarrow> string \<Rightarrow> string \<Rightarrow> fact_db \<Rightarrow> bool" where
  "settled_session env p s x \<longleftrightarrow>
     (\<forall>rf \<in> set (session_candidates env (session_observations p s (fx_mem x))). covers env p s x rf) \<and>
     dedupeSessionFacts env p s x = (0, x) \<and> generateDerivesLinks env p x = (0, x)"

lemma settled_job:
  assumes "settled_session env p s x" "\<not> isLlmModeEnabled (rn_llm env)" "jo_project j = p" "jo_session_id j = s" "jo_row j = None"
  shows "\<exists>ds. run_job env opts j (stats, x) = (stats\<lparr>rs_jobs_processed := rs_jobs_processed stats + 1\<rparr>,
     worker_audit env ''consolidation.run'' ds ''session'' (p @ '':'' @ s) x)"
proof (rule run_job_steps [of env j x opts stats])
  fix n2 x2 n3 x3 n4 x4 ds
  assume 2: "upsertFactsForSession env (jo_project j) (jo_session_id j) (started env j x) = (n2, x2)"
    and 3: "dedupeSessionFacts env (jo_project j) (jo_session_id j) x2 = (n3, x3)"
    and 4: "generateDerivesLinks env (jo_project j) x3 = (n4, x4)"
    and run: "run_job env opts j (stats, x) =
       (stats\<lparr>rs_jobs_processed := rs_jobs_processed stats + 1, rs_facts_extracted := rs_facts_extracted stats + n2,
              rs_facts_merged := rs_facts_merged stats + n3, rs_derives_links := rs_derives_links stats + n4\<rparr>,
        completed env j (worker_audit env ''consolidation.run'' ds ''session'' (jo_project j @ '':'' @ jo_session_id j) x4))"
  have "(n2, x2) = (0, x)"
    using 2 assms by (simp add: upsert_heuristic store_candidates_known settled_session_def)
  moreover have "(n3, x3) = (0, x)" using 3 assms calculation by (simp add: settled_session_def)
  moreover have "(n4, x4) = (0, x)" using 4 assms calculation by (simp add: settled_session_def)
  ultimately show ?thesis using run assms(3-5) by (intro exI [of _ ds]) simp
qed

lemma job_settles:
  assumes "facts_ok x" "\<not> isLlmModeEnabled (rn_llm env)" "jo_row j = None"
    and "rn_llm env' = rn_llm env" "rn_sha1 env' = rn_sha1 env"
  shows "settled_session env' (jo_project j) (jo_session_id j) (snd (run_job env opts j (stats, x)))"
proof (rule run_job_steps [of env j x opts stats])
  let ?p = "jo_project j" and ?s = "jo_session_id j"
  fix n2 x2 n3 x3 n4 x4 ds
  assume 2: "upsertFactsForSession env ?p ?s (started env j x) = (n2, x2)"
    and 3: "dedupeSessionFacts env ?p ?s x2 = (n3, x3)" and 4: "generateDerivesLinks env ?p x3 = (n4, x4)"
    and run: "run_job env opts j (stats, x) =
       (stats\<lparr>rs_jobs_processed := rs_jobs_processed stats + 1, rs_facts_extracted := rs_facts_extracted stats + n2,
              rs_facts_merged := rs_facts_merged stats + n3, rs_derives_links := rs_derives_links stats + n4\<rparr>,
        completed env j (worker_audit env ''consolidation.run'' ds ''session'' (?p @ '':'' @ ?s) x4))"
  let ?z = "worker_audit env ''consolidation.run'' ds ''session'' (?p @ '':'' @ ?s) x4"
  have z: "snd (run_job env opts j (stats, x)) = ?z" using run assms(3) by simp
  have up2: "upholds x x2" using upholds_upsert [OF assms(1), of env ?p ?s] 2 assms(3) by simp
  have mem3: "fx_mem x3 = fx_mem x2" using 3 by (auto simp: dedupeSessionFacts_def Let_def)
  have ids3: "fa_fact_id ` set (fx_facts x3) = fa_fact_id ` set (fx_facts x2)"
  proof -
    have "map fa_fact_id (fx_facts x3) = map fa_fact_id (fx_facts x2)"
      using 3 by (auto simp: dedupeSessionFacts_def Let_def)
    then show ?thesis by (metis list.set_map)
  qed
  have x4: "fx_facts x4 = fx_facts x3" "db_tags (fx_mem x4) = db_tags (fx_mem x3)"
      "db_observations (fx_mem x4) = db_observations (fx_mem x3)"
    using 4 by (auto simp: generateDerivesLinks_def Let_def)
  have obs: "session_observations ?p ?s (fx_mem ?z) = session_observations ?p ?s (fx_mem x)"
    using up2 mem3 x4 by (simp add: session_observations_def upholds_def)
  have cand: "session_candidates env' rs = session_candidates env rs" for rs
    by (simp add: session_candidates_def assms(4))
  have "\<forall>rf \<in> set (session_candidates env (session_observations ?p ?s (fx_mem x))). covers env ?p ?s x2 rf"
    using store_candidates_cover [of env ?p ?s _ "(0, x)" "(n2, x2)"] 2 assms(2,3) by (simp add: upsert_heuristic)
  then have "\<forall>rf \<in> set (session_candidates env' (session_observations ?p ?s (fx_mem ?z))). covers env' ?p ?s ?z rf"
    unfolding obs cand covers_env [OF assms(4,5)] using ids3 mem3 x4 by (auto intro: covers_mono)
  moreover have "dedupeSessionFacts env' ?p ?s ?z = (0, ?z)"
    by (rule dedupe_session_again [OF _ 3]) (use up2 x4 in \<open>simp_all add: upholds_def facts_ok_def\<close>)
  moreover have "generateDerivesLinks env' ?p ?z = (0, ?z)"
    by (rule derive_again [OF 4]) (simp_all add: x4)
  ultimately show ?thesis unfolding z settled_session_def by blast
qed

text \<open>
  C9. Without a language model, consolidating a session a second time, at any later time, extracts no fact,
  merges none and makes no link: facts, queue and database stay as they are but for the audit row.
\<close>

theorem consolidating_again_adds_nothing:
  assumes "facts_ok x" "\<not> isLlmModeEnabled (rn_llm env)" "rn_llm env' = rn_llm env" "rn_sha1 env' = rn_sha1 env"
    and "ro_project opts = Some p" "p \<noteq> []" "ro_session_id opts = Some s" "s \<noteq> []"
    and "runConsolidationOnce env opts x = (stats, y)" "runConsolidationOnce env' opts y = (stats', z)"
  shows "rs_facts_extracted stats' = 0 \<and> rs_facts_merged stats' = 0 \<and> rs_derives_links stats' = 0 \<and>
    (\<exists>ds. z = worker_audit env' ''consolidation.run'' ds ''session'' (p @ '':'' @ s) y)"
proof -
  let ?j = "\<lparr>jo_row = None, jo_project = p, jo_session_id = s\<rparr>"
  let ?zero = "\<lparr>rs_jobs_processed = 0, rs_facts_extracted = 0, rs_facts_merged = 0, rs_pending_jobs = 0, rs_derives_links = 0\<rparr>"
  have run: "runConsolidationOnce e opts v = (let (st, w) = run_job e opts ?j (?zero, v) in (st\<lparr>rs_pending_jobs := pending_jobs w\<rparr>, w))" for e v
    using assms(5-8) by (simp add: runConsolidationOnce_def loadPendingJobs_def)
  have "y = snd (run_job env opts ?j (?zero, x))" using assms(9) run by (simp add: split_beta Let_def)
  then have settled: "settled_session env' p s y"
    using job_settles [OF assms(1,2), of ?j env' opts ?zero] assms(3,4) by simp
  obtain ds where "run_job env' opts ?j (?zero, y) = (?zero\<lparr>rs_jobs_processed := 1\<rparr>,
      worker_audit env' ''consolidation.run'' ds ''session'' (p @ '':'' @ s) y)"
    using settled_job [OF settled, of ?j opts ?zero] assms(2,3) by auto
  then show ?thesis using assms(10) run by (auto simp: Let_def)
qed

subsection \<open>The queue\<close>

lemma supersede_queue [simp]: "fx_queue (supersede env ds x) = fx_queue x"
  by (simp add: supersede_def)

lemma store_fact_queue [simp]: "fx_queue (snd (store_fact env r f row st)) = fx_queue (snd st)"
  by (simp add: store_fact_def split_beta)

lemma diff_fact_queue: "fx_queue (df_db (diff_fact env p s r fo d)) = fx_queue (df_db d)"
proof -
  obtain f old where fo: "fo = (f, old)" by (cases fo)
  obtain n x where st: "store_fact env r f (fact_of env p s r f old) (df_inserted d, df_db d) = (n, x)" by fastforce
  have "fx_queue x = fx_queue (df_db d)"
    using store_fact_queue [of env r f "fact_of env p s r f old" "(df_inserted d, df_db d)"] unfolding st by simp
  then show ?thesis by (simp add: diff_fact_def fo st Let_def)
qed

lemma diff_observation_queue: "fx_queue (df_db (diff_observation env p s r d)) = fx_queue (df_db d)"
proof -
  have "fx_queue (df_db (fold (diff_fact env p s r) fos e)) = fx_queue (df_db e)" for fos e
    by (induction fos arbitrary: e) (simp_all add: diff_fact_queue)
  then show ?thesis by (simp add: diff_observation_def Let_def)
qed

lemma upsert_queue: "fx_queue (snd (upsertFactsForSession env p s x)) = fx_queue x"
proof -
  have 1: "fx_queue (df_db (fold (diff_observation env p s) rs d)) = fx_queue (df_db d)" for rs d
    by (induction rs arbitrary: d) (simp_all add: diff_observation_queue)
  have "fx_queue (snd (store_candidate env p s rf st)) = fx_queue (snd st)" for rf st
    by (cases rf) (simp add: store_candidate_def)
  then have 2: "fx_queue (snd (fold (store_candidate env p s) rfs st)) = fx_queue (snd st)" for rfs st
    by (induction rfs arbitrary: st) simp_all
  show ?thesis by (simp add: upsertFactsForSession_def heuristic_fold Let_def 1 2)
qed

definition finished_job :: "run_env \<Rightarrow> job_row \<Rightarrow> job_row" where
  "finished_job env r = r\<lparr>jb_status := ''completed'', jb_started_at := Some (rn_now env),
     jb_finished_at := Some (rn_now env), jb_error := None\<rparr>"

definition queued_job :: "job_row \<Rightarrow> job" where
  "queued_job j = \<lparr>jo_row = Some (jb_id j), jo_project = jb_project j, jo_session_id = jb_session_id j\<rparr>"

lemma run_job_queue:
  assumes "jo_row j = Some i"
  shows "fx_queue (snd (run_job env opts j st)) = map (\<lambda>r. if jb_id r = i then finished_job env r else r) (fx_queue (snd st))"
proof -
  obtain stats y where st: "st = (stats, y)" by (cases st)
  show ?thesis
  proof (rule run_job_steps [of env j y opts stats])
    fix n2 x2 n3 x3 n4 x4 ds
    assume 2: "upsertFactsForSession env (jo_project j) (jo_session_id j) (started env j y) = (n2, x2)"
      and 3: "dedupeSessionFacts env (jo_project j) (jo_session_id j) x2 = (n3, x3)"
      and 4: "generateDerivesLinks env (jo_project j) x3 = (n4, x4)"
      and run: "run_job env opts j (stats, y) =
       (stats\<lparr>rs_jobs_processed := rs_jobs_processed stats + 1, rs_facts_extracted := rs_facts_extracted stats + n2,
              rs_facts_merged := rs_facts_merged stats + n3, rs_derives_links := rs_derives_links stats + n4\<rparr>,
        completed env j (worker_audit env ''consolidation.run'' ds ''session'' (jo_project j @ '':'' @ jo_session_id j) x4))"
    have "fx_queue x4 = fx_queue (started env j y)"
      using 2 3 4 upsert_queue [of env "jo_project j" "jo_session_id j" "started env j y"]
      by (auto simp: dedupeSessionFacts_def generateDerivesLinks_def Let_def)
    then show ?thesis
      using assms run by (simp add: st completed_def started_def job_status_def sql_update_def finished_job_def)
  qed
qed

lemma jobs_queue:
  "fx_queue (snd (fold (run_job env opts) (map queued_job qs) st)) =
     map (\<lambda>r. if jb_id r \<in> jb_id ` set qs then finished_job env r else r) (fx_queue (snd st))"
proof (induction qs arbitrary: st)
  case (Cons q qs)
  have "fx_queue (snd (run_job env opts (queued_job q) st)) =
      map (\<lambda>r. if jb_id r = jb_id q then finished_job env r else r) (fx_queue (snd st))"
    by (rule run_job_queue) (simp add: queued_job_def)
  then show ?case by (simp add: Cons) (auto simp: finished_job_def)
qed simp

definition next_jobs :: "run_options \<Rightarrow> fact_db \<Rightarrow> job_row list" where
  "next_jobs opts x = take (job_limit (ro_limit opts))
     (order_asc (\<lambda>j. (jb_requested_at j, jb_id j)) (sql_where (\<lambda>j. jb_status j = ''pending'') (fx_queue x)))"

lemma run_queue:
  assumes "\<not> (truthy (ro_project opts) \<and> truthy (ro_session_id opts))"
  shows "fx_queue (snd (runConsolidationOnce env opts x)) =
    map (\<lambda>r. if jb_id r \<in> jb_id ` set (next_jobs opts x) then finished_job env r else r) (fx_queue x)"
proof (cases "next_jobs opts x = []")
  case False
  then have "loadPendingJobs opts x = map queued_job (next_jobs opts x)"
    unfolding loadPendingJobs_def next_jobs_def [symmetric] Let_def if_not_P [OF assms]
    by (simp add: queued_job_def [abs_def])
  then show ?thesis by (simp add: runConsolidationOnce_def split_beta jobs_queue)
next
  case True
  then have rows: "\<forall>j \<in> set (loadPendingJobs opts x). jo_row j = None"
    using assms unfolding loadPendingJobs_def next_jobs_def by (simp add: Let_def)
  have "fx_queue (snd (run_job env opts j st)) = fx_queue (snd st)" if "jo_row j = None" for j st
  proof -
    obtain stats y where st: "st = (stats, y)" by (cases st)
    show ?thesis
      using that upsert_queue [of env "jo_project j" "jo_session_id j" y] unfolding st
      by (rule_tac run_job_steps [of env j y opts stats])
        (auto simp: dedupeSessionFacts_def generateDerivesLinks_def Let_def)
  qed
  then have "fx_queue (snd (fold (run_job env opts) js st)) = fx_queue (snd st)" if "\<forall>j \<in> set js. jo_row j = None" for js st
    using that by (induction js arbitrary: st) simp_all
  then show ?thesis using rows True by (simp add: runConsolidationOnce_def split_beta)
qed

lemma run_pending:
  assumes "\<not> (truthy (ro_project opts) \<and> truthy (ro_session_id opts))" "distinct (map jb_id (fx_queue x))"
  shows "pending_jobs (snd (runConsolidationOnce env opts x)) = pending_jobs x - job_limit (ro_limit opts)"
proof -
  let ?p = "filter (\<lambda>j. jb_status j = ''pending'') (fx_queue x)" and ?n = "next_jobs opts x"
  have sub: "set ?n \<subseteq> set ?p" by (auto simp: next_jobs_def sql_where_def dest!: in_set_takeD)
  have dq: "distinct ?p" "distinct ?n"
    using assms(2) by (simp_all add: distinct_map next_jobs_def order_asc_def sql_where_def)
  have inj: "j \<in> set ?n" if "j \<in> set (fx_queue x)" "jb_id j \<in> jb_id ` set ?n" for j
    using that sub assms(2) by (auto simp: distinct_map inj_on_def)
  have "filter (\<lambda>j. jb_status j = ''pending'') (fx_queue (snd (runConsolidationOnce env opts x))) = filter (\<lambda>j. j \<notin> set ?n) ?p"
    unfolding run_queue [OF assms(1)] filter_map comp_def
    by (rule map_idI [THEN trans]) (auto simp: finished_job_def dest: inj split: if_splits intro!: filter_cong)
  then have "pending_jobs (snd (runConsolidationOnce env opts x)) = length (filter (\<lambda>j. j \<notin> set ?n) ?p)"
    by (simp add: pending_jobs_def sql_where_def)
  also have "\<dots> = card (set ?p - set ?n)"
    using distinct_card [OF distinct_filter [OF dq(1)], of "\<lambda>j. j \<notin> set ?n"]
    by (simp add: set_diff_eq)
  also have "\<dots> = length ?p - length ?n"
    by (simp only: card_Diff_subset [OF finite_set sub] distinct_card [OF dq(1)] distinct_card [OF dq(2)])
  finally show ?thesis by (simp add: pending_jobs_def sql_where_def next_jobs_def min_def)
qed

text \<open>
  C28. Runs without a session of their own work through the queue: each completes as many pending jobs as
  its limit allows, the oldest first, and k runs leave what k limits do not cover; a completed job stays
  completed.
\<close>

theorem queued_jobs_get_done:
  assumes "facts_ok x" "\<not> (truthy (ro_project opts) \<and> truthy (ro_session_id opts))"
  shows "pending_jobs (((\<lambda>v. snd (runConsolidationOnce env opts v)) ^^ k) x) = pending_jobs x - k * job_limit (ro_limit opts) \<and>
    1 \<le> job_limit (ro_limit opts) \<and>
    fx_queue (snd (runConsolidationOnce env opts x)) =
      map (\<lambda>r. if jb_id r \<in> jb_id ` set (next_jobs opts x) then finished_job env r else r) (fx_queue x)"
proof -
  have ok: "facts_ok (((\<lambda>v. snd (runConsolidationOnce env opts v)) ^^ k) x)" for k
    by (induction k) (use assms(1) consolidation_upholds in \<open>auto simp: upholds_def\<close>)
  have "pending_jobs (((\<lambda>v. snd (runConsolidationOnce env opts v)) ^^ k) x) = pending_jobs x - k * job_limit (ro_limit opts)"
  proof (induction k)
    case (Suc k)
    have "distinct (map jb_id (fx_queue (((\<lambda>v. snd (runConsolidationOnce env opts v)) ^^ k) x)))"
      using ok [of k] by (simp add: facts_ok_def queue_rows_ok_def)
    then show ?case using run_pending [OF assms(2)] Suc by simp
  qed simp
  then show ?thesis using run_queue [OF assms(2)] by (simp add: job_limit_def)
qed

subsection \<open>A value that gets lost\<close>

text \<open>
  C20. A fact that supersedes an older one of its session is lost when the two are similar enough to be
  merged: merging looks at superseded facts too, so the new fact is merged into the one it superseded, and
  neither is active any more.
\<close>

theorem superseding_fact_can_be_lost:
  assumes "forest (fx_facts x)" "session_facts p s x = [old, new]" "fact_order old < fact_order new"
    and "fa_superseded_by old = Some (fa_fact_id new)" "duplicates (3 / 10) new old"
  shows "\<forall>f \<in> set (fx_facts (snd (dedupeSessionFacts env p s x))). fa_fact_id f \<in> {fa_fact_id old, fa_fact_id new} \<longrightarrow>
    \<not> active_fact f"
proof -
  have in_table: "old \<in> set (fx_facts x)" "new \<in> set (fx_facts x)"
    using arg_cong [OF assms(2), of set] by (auto simp: session_facts_def)
  have "order_asc fact_order [old, new] = [old, new]"
    using assms(3) by (intro order_asc_sorted) simp
  moreover have "dedupe_best (3 / 10) old [] = (None, 0)" by (simp add: dedupe_best_def)
  moreover have "dedupe_best (3 / 10) new [old] = (Some old, fact_similarity new old)"
    using assms(5) by (simp add: dedupe_best_def duplicates_def)
  ultimately have "dedupeFacts (3 / 10) (session_facts p s x) =
      [\<lparr>fm_from = fa_fact_id new, fm_into = fa_fact_id old, fm_similarity = to_fixed 6 (fact_similarity new old)\<rparr>]"
    by (simp add: assms(2) dedupeFacts_def dedupe_run_def)
  then have y: "fx_facts (snd (dedupeSessionFacts env p s x)) = map (\<lambda>f. if fa_fact_id f = fa_fact_id new
      then f\<lparr>fa_merged_into := Some (fa_fact_id old), fa_updated_at := rn_now env\<rparr> else f) (fx_facts x)"
    by (simp add: dedupeSessionFacts_def Let_def merge_facts_def sql_update_def)
  have "distinct (map fa_fact_id (fx_facts x))" using assms(1) by (simp add: forest_def)
  from same_fact [OF this _ in_table(1)] show ?thesis
    using assms(4) unfolding y by (auto simp: active_fact_def)
qed

subsection \<open>Instances\<close>

definition sample_run :: run_env where
  "sample_run = \<lparr>rn_llm = silent_host, rn_now = ''2026-03'', rn_sha1 = (\<lambda>s. s)\<rparr>"

definition sample_options :: run_options where
  "sample_options = \<lparr>ro_reason = None, ro_project = Some ''p'', ro_session_id = Some ''s'', ro_limit = None\<rparr>"

definition sample_facts_db :: fact_db where
  "sample_facts_db = \<lparr>fx_mem = empty_db, fx_facts = [], fx_queue = [], fx_queue_next = 1\<rparr>"

lemma sample_facts_ok: "facts_ok sample_facts_db"
  by (simp add: sample_facts_db_def facts_ok_def owned_facts_def queue_rows_ok_def)

definition queued_db :: fact_db where
  "queued_db = enqueueConsolidationJob ''2026-02'' ''p'' ''t'' ''test''
     (enqueueConsolidationJob ''2026-01'' ''p'' ''s'' ''test'' sample_facts_db)"

theorem queued_jobs_get_done_witness:
  "pending_jobs queued_db = 2 \<and>
   pending_jobs (((\<lambda>v. snd (runConsolidationOnce sample_run
     \<lparr>ro_reason = None, ro_project = None, ro_session_id = None, ro_limit = Some 1\<rparr> v)) ^^ 2) queued_db) = 0"
proof -
  have ok: "facts_ok queued_db"
    using enqueue_upholds sample_facts_ok unfolding queued_db_def upholds_def by blast
  have p: "pending_jobs queued_db = 2"
    by (simp add: queued_db_def sample_facts_db_def enqueueConsolidationJob_def pending_jobs_def sql_where_def)
  show ?thesis
    using queued_jobs_get_done [OF ok, where opts = "\<lparr>ro_reason = None, ro_project = None, ro_session_id = None, ro_limit = Some 1\<rparr>"
        and env = sample_run and k = 2] p by (simp add: job_limit_def)
qed

definition superseded_db :: fact_db where
  "superseded_db = sample_facts_db\<lparr>fx_facts :=
     [(sample_fact ''a'' ''use sqlite'' ''2026-01'')\<lparr>fa_superseded_by := Some ''b''\<rparr>,
      sample_fact ''b'' ''use sqlite now'' ''2026-02'']\<rparr>"

theorem superseding_fact_can_be_lost_witness:
  "loadExistingFacts ''p'' superseded_db \<noteq> [] \<and>
   loadExistingFacts ''p'' (snd (dedupeSessionFacts sample_run ''p'' ''s'' superseded_db)) = []"
proof -
  let ?a = "(sample_fact ''a'' ''use sqlite'' ''2026-01'')\<lparr>fa_superseded_by := Some ''b''\<rparr>"
    and ?b = "sample_fact ''b'' ''use sqlite now'' ''2026-02''"
  let ?y = "snd (dedupeSessionFacts sample_run ''p'' ''s'' superseded_db)"
  have facts: "fx_facts superseded_db = [?a, ?b]" by (simp add: superseded_db_def)
  have forest: "forest (fx_facts superseded_db)"
    unfolding facts forest_def using survivor.stays [of ?a "[?a, ?b]"] survivor.stays [of ?b "[?a, ?b]"]
    by (auto simp: sample_fact_def)
  have order: "fact_order ?a < fact_order ?b" by code_simp
  have sess: "session_facts ''p'' ''s'' superseded_db = [?a, ?b]" by code_simp
  have "duplicates (3 / 10) ?b ?a" by code_simp
  from superseding_fact_can_be_lost [OF forest sess order _ this, of sample_run]
  have lost: "\<forall>f \<in> set (fx_facts ?y). fa_fact_id f \<in> {''a'', ''b''} \<longrightarrow> \<not> active_fact f"
    by (simp add: sample_fact_def)
  have "map fa_fact_id (fx_facts ?y) = map fa_fact_id (fx_facts superseded_db)"
    by (simp add: dedupeSessionFacts_def Let_def)
  then have "\<forall>f \<in> set (fx_facts ?y). fa_fact_id f \<in> {''a'', ''b''}"
    using arg_cong [of _ _ set] unfolding facts by (fastforce simp: sample_fact_def)
  then have "sql_where (\<lambda>f. fa_project f = ''p'' \<and> active_fact f) (fx_facts ?y) = []"
    using lost by (auto simp: sql_where_def filter_empty_conv)
  then have "loadExistingFacts ''p'' ?y = []" by (simp add: loadExistingFacts_def order_asc_def)
  moreover have "loadExistingFacts ''p'' superseded_db \<noteq> []" by code_simp
  ultimately show ?thesis by blast
qed

text \<open>A session with an observation that yields two facts.\<close>

definition observed_db :: fact_db where
  "observed_db = sample_facts_db\<lparr>fx_mem := empty_db\<lparr>
     db_sessions := [\<lparr>ss_session_id = ''s'', ss_platform = ''claude'', ss_project = ''p'', ss_started_at = ''2026'',
       ss_ended_at = None, ss_summary = None, ss_summary_mode = None, ss_correlation_id = None, ss_user_id = ''u'', ss_team_id = None,
       ss_created_at = ''2026'', ss_updated_at = ''2026''\<rparr>],
     db_observations := [(sample_row ''o'' ''2026-01'')\<lparr>ob_session_id := ''s'', ob_project := ''p'', ob_event_id := None,
       ob_content_dedupe_hash := None, ob_title := None,
       ob_content_redacted := ''We decide to use sqlite. It is next to the code''\<rparr>]\<rparr>\<rparr>"

theorem consolidating_again_adds_nothing_witness:
  "fst (upsertFactsForSession sample_run ''p'' ''s'' observed_db) = 2 \<and>
   rs_facts_extracted (fst (runConsolidationOnce (sample_run\<lparr>rn_now := ''2026-04''\<rparr>) sample_options
     (snd (runConsolidationOnce sample_run sample_options observed_db)))) = 0"
proof
  show "fst (upsertFactsForSession sample_run ''p'' ''s'' observed_db) = 2"
    by code_simp
  have ok: "facts_ok observed_db"
    by (simp add: observed_db_def sample_facts_db_def facts_ok_def owned_facts_def queue_rows_ok_def core_ok_def
        refs_ok_def session_ids_def event_ids_def obs_ids_def empty_db_def sample_row_def)
  have "\<not> isLlmModeEnabled (rn_llm sample_run)" by code_simp
  from consolidating_again_adds_nothing [OF ok this, of "sample_run\<lparr>rn_now := ''2026-04''\<rparr>" sample_options "''p''" "''s''"]
  show "rs_facts_extracted (fst (runConsolidationOnce (sample_run\<lparr>rn_now := ''2026-04''\<rparr>) sample_options
     (snd (runConsolidationOnce sample_run sample_options observed_db)))) = 0"
    by (simp add: sample_options_def) (metis prod.collapse)
qed

end
