(* ===== verification/Contradictions.thy ===== *)
theory Contradictions
  imports Read_Filters Observation_Links Grouping
begin

text \<open>
  The contradiction detector, \<open>memory-server/src/consolidation/contradiction-detector.ts\<close>: observations that
  share a concept tag and most of their words go in pairs to an adjudicator, and a confirmed pair is linked
  from the newer to the older observation. The adjudicator, a language model, is a parameter: each pair
  is put to it once, so a function of the pair says all it can answer. So is \<open>Date.parse\<close>.
\<close>

record group_row =
  gr_project :: string
  gr_concept :: string
  gr_observation_id :: string
  gr_content :: string
  gr_created_at :: string

record adjudicator_verdict =
  vd_contradiction :: bool
  vd_confidence :: rat

record contradiction_input =
  ci_observation_id :: string
  ci_content :: string
  ci_created_at :: string

record contradiction_pair =
  cp_older_id :: string
  cp_newer_id :: string
  cp_project :: string
  cp_concept :: string
  cp_jaccard :: rat

record detector_options =
  do_threshold :: "rat option"
  do_max_pairs :: "rat option"
  do_min_confidence :: "rat option"
  do_adjudicator :: "(contradiction_input \<Rightarrow> contradiction_input \<Rightarrow> adjudicator_verdict) option"
  do_project :: "string option"
  do_now :: string
  do_date_parse :: "string \<Rightarrow> int option"

record detector_result =
  dr_scanned_groups :: nat
  dr_candidate_pairs :: nat
  dr_contradictions :: "contradiction_pair list"
  dr_links_created :: nat

definition word_separator :: "char \<Rightarrow> bool" where
  "word_separator c \<longleftrightarrow> is_js_space c \<or> c \<in> set (''.,;:!?()[]{}`<>=/+*-'' @ [CHR 0x22, CHR 0x27, CHR 0x5C])"

definition detector_tokens :: "string \<Rightarrow> string list" where
  "detector_tokens text =
     keep_first {} (filter (\<lambda>t. 2 \<le> length t) (map js_trim (split_runs word_separator [] (js_lower text))))"

definition set_jaccard :: "string list \<Rightarrow> string list \<Rightarrow> rat" where
  "set_jaccard a b =
     (if a = [] \<and> b = [] then 0
      else (let inter = length (filter (\<lambda>x. x \<in> set b) a); union = length a + length b - inter
            in if union = 0 then 0 else of_nat inter / of_nat union))"

subsection \<open>loadConceptGroups\<close>

definition tagged_rows :: "string \<Rightarrow> string option \<Rightarrow> string set \<Rightarrow> mem_db \<Rightarrow> group_row list" where
  "tagged_rows now project types db =
     [\<lparr>gr_project = ob_project r, gr_concept = tg_tag t, gr_observation_id = ob_id r,
       gr_content = ob_content_redacted r, gr_created_at = ob_created_at r\<rparr>.
       r \<leftarrow> db_observations db, t \<leftarrow> db_tags db,
       tg_observation_id t = ob_id r \<and> ob_archived_at r = None \<and> expiredFilter now r \<and>
       tg_tag_type t \<in> types \<and> (truthy project \<longrightarrow> Some (ob_project r) = project)]"

definition loadConceptGroups :: "string \<Rightarrow> string option \<Rightarrow> mem_db \<Rightarrow> (string \<times> group_row list) list" where
  "loadConceptGroups now project db =
     (let conceptRows = tagged_rows now project {''concept''} db;
          legacyRows = tagged_rows now project {''topic'', ''category''} db;
          rows = conceptRows @ filter (\<lambda>r. gr_observation_id r \<notin> gr_observation_id ` set conceptRows) legacyRows
      in group_by (\<lambda>r. Some (gr_project r @ ''::'' @ gr_concept r)) rows)"

subsection \<open>detectContradictions\<close>

text \<open>\<open>Date.parse(t) || 0\<close>\<close>

definition row_time :: "detector_options \<Rightarrow> group_row \<Rightarrow> int" where
  "row_time opts r = or_else (do_date_parse opts (gr_created_at r)) 0"

definition max_pairs :: "detector_options \<Rightarrow> rat" where
  "max_pairs opts = max 1 (or_else (do_max_pairs opts) 50)"

text \<open>\<open>xs.slice(0, n)\<close> for a number that need not be whole.\<close>

definition slice_to :: "rat \<Rightarrow> 'a list \<Rightarrow> 'a list" where
  "slice_to n xs = take (nat \<lfloor>n\<rfloor>) xs"

definition group_window :: "detector_options \<Rightarrow> group_row list \<Rightarrow> group_row list" where
  "group_window opts rows =
     slice_to (min (of_nat (length rows)) (max 2 (max_pairs opts * 2))) (order_desc (row_time opts) rows)"

definition pair_similarity :: "group_row \<times> group_row \<Rightarrow> rat" where
  "pair_similarity = (\<lambda>(a, b). set_jaccard (detector_tokens (gr_content a)) (detector_tokens (gr_content b)))"

definition group_pairs :: "detector_options \<Rightarrow> group_row list \<Rightarrow> (group_row \<times> group_row) list" where
  "group_pairs opts rows =
     slice_to (max_pairs opts)
       (order_desc (\<lambda>(a, b). max (row_time opts a) (row_time opts b))
         (filter (\<lambda>p. or_else (do_threshold opts) (9 / 10) \<le> pair_similarity p) (all_pairs (group_window opts rows))))"

definition pair_key :: "string \<Rightarrow> string \<Rightarrow> string" where
  "pair_key a b = (if a < b then a @ ''|'' @ b else b @ ''|'' @ a)"

text \<open>\<open>Date.parse(a) <= Date.parse(b)\<close> is false when one of them is no date.\<close>

definition in_order :: "detector_options \<Rightarrow> group_row \<Rightarrow> group_row \<Rightarrow> bool" where
  "in_order opts a b \<longleftrightarrow>
     (case (do_date_parse opts (gr_created_at a), do_date_parse opts (gr_created_at b)) of
        (Some s, Some t) \<Rightarrow> s \<le> t | _ \<Rightarrow> False)"

definition candidate_pair :: "detector_options \<Rightarrow> string \<Rightarrow> group_row \<times> group_row \<Rightarrow> contradiction_pair" where
  "candidate_pair opts concept = (\<lambda>(a, b).
     (let older = (if in_order opts a b then a else b); newer = (if in_order opts a b then b else a)
      in \<lparr>cp_older_id = gr_observation_id older, cp_newer_id = gr_observation_id newer, cp_project = gr_project older,
          cp_concept = concept, cp_jaccard = pair_similarity (a, b)\<rparr>))"

definition visit_pair :: "detector_options \<Rightarrow> string \<Rightarrow> group_row \<times> group_row \<Rightarrow>
    string list \<times> contradiction_pair list \<Rightarrow> string list \<times> contradiction_pair list" where
  "visit_pair opts concept = (\<lambda>p (seen, pending).
     (let key = pair_key (gr_observation_id (fst p)) (gr_observation_id (snd p)) in
      if key \<in> set seen then (seen, pending) else (key # seen, pending @ [candidate_pair opts concept p])))"

definition visit_group :: "detector_options \<Rightarrow> group_row list \<Rightarrow>
    string list \<times> contradiction_pair list \<Rightarrow> string list \<times> contradiction_pair list" where
  "visit_group opts rows = fold (visit_pair opts (gr_concept (hd rows))) (group_pairs opts rows)"

definition scanned_groups :: "detector_options \<Rightarrow> mem_db \<Rightarrow> group_row list list" where
  "scanned_groups opts db =
     filter (\<lambda>rows. 2 \<le> length rows) (map snd (loadConceptGroups (do_now opts) (do_project opts) db))"

definition pending_pairs :: "detector_options \<Rightarrow> mem_db \<Rightarrow> contradiction_pair list" where
  "pending_pairs opts db = snd (fold (visit_group opts) (scanned_groups opts db) ([], []))"

definition adjudicate :: "detector_options \<Rightarrow> contradiction_input \<Rightarrow> contradiction_input \<Rightarrow> adjudicator_verdict" where
  "adjudicate opts = or_else (do_adjudicator opts) (\<lambda>a b. \<lparr>vd_contradiction = False, vd_confidence = 0\<rparr>)"

definition input_of_row :: "string \<Rightarrow> obs_row \<Rightarrow> contradiction_input" where
  "input_of_row i r = \<lparr>ci_observation_id = i, ci_content = ob_content_redacted r, ci_created_at = ob_created_at r\<rparr>"

definition confirmed :: "detector_options \<Rightarrow> mem_db \<Rightarrow> contradiction_pair \<Rightarrow> bool" where
  "confirmed opts db p \<longleftrightarrow>
     (case (observation_by_id db (cp_older_id p), observation_by_id db (cp_newer_id p)) of
        (Some a, Some b) \<Rightarrow>
          (let v = adjudicate opts (input_of_row (cp_older_id p) a) (input_of_row (cp_newer_id p) b)
           in vd_contradiction v \<and> or_else (do_min_confidence opts) (7 / 10) \<le> vd_confidence v)
      | _ \<Rightarrow> False)"

definition detectContradictions :: "detector_options \<Rightarrow> mem_db \<Rightarrow> detector_result \<times> mem_db" where
  "detectContradictions opts db =
     (let pending = pending_pairs opts db; pairs = filter (confirmed opts db) pending;
          db1 = add_links (map (\<lambda>p. link (cp_newer_id p) (cp_older_id p) ''superseded'' 1 (do_now opts)) pairs) db
      in (\<lparr>dr_scanned_groups = length (scanned_groups opts db), dr_candidate_pairs = length pending,
           dr_contradictions = pairs, dr_links_created = length (db_links db1) - length (db_links db)\<rparr>, db1))"

subsection \<open>What gets to the adjudicator\<close>

lemma slice_to_mem: "x \<in> set (slice_to n xs) \<Longrightarrow> x \<in> set xs"
  by (auto simp: slice_to_def dest: in_set_takeD)

lemma length_slice: "of_nat (length (slice_to n xs)) \<le> max 0 n"
proof -
  have "length (slice_to n xs) \<le> nat \<lfloor>n\<rfloor>" by (simp add: slice_to_def)
  then have "rat_of_nat (length (slice_to n xs)) \<le> rat_of_nat (nat \<lfloor>n\<rfloor>)" by simp
  also have "\<dots> \<le> max 0 n" by (cases "0 \<le> n") (simp_all add: nat_floor_neg)
  finally show ?thesis .
qed

lemma group_pairs_mem:
  assumes "(a, b) \<in> set (group_pairs opts rows)"
  shows "a \<in> set rows" "b \<in> set rows" "or_else (do_threshold opts) (9 / 10) \<le> pair_similarity (a, b)"
proof -
  have "(a, b) \<in> set (all_pairs (group_window opts rows))" "or_else (do_threshold opts) (9 / 10) \<le> pair_similarity (a, b)"
    using slice_to_mem [OF assms [unfolded group_pairs_def]] by simp_all
  then show "a \<in> set rows" "b \<in> set rows" "or_else (do_threshold opts) (9 / 10) \<le> pair_similarity (a, b)"
    by (auto dest!: all_pairs_mem slice_to_mem simp: group_window_def)
qed

text \<open>A row of a group stands for a tagged observation that is in force.\<close>

lemma tagged_rows_mem:
  assumes "g \<in> set (tagged_rows now project types db)"
  obtains r t where "r \<in> set (db_observations db)" "t \<in> set (db_tags db)" "tg_observation_id t = ob_id r"
    "ob_archived_at r = None" "expiredFilter now r" "tg_tag_type t \<in> types"
    "g = \<lparr>gr_project = ob_project r, gr_concept = tg_tag t, gr_observation_id = ob_id r,
       gr_content = ob_content_redacted r, gr_created_at = ob_created_at r\<rparr>"
  using assms by (auto simp: tagged_rows_def split: if_splits)

lemma loadConceptGroups_mem:
  assumes "(k, rows) \<in> set (loadConceptGroups now project db)" "g \<in> set rows"
  shows "g \<in> set (tagged_rows now project {''concept''} db) \<union> set (tagged_rows now project {''topic'', ''category''} db)"
    "gr_project g @ ''::'' @ gr_concept g = k"
  using assms by (auto simp: loadConceptGroups_def Let_def group_by_mem)

lemma visit_pairs_effect:
  assumes "fold (visit_pair opts c) ps (seen, pending) = (seen', pending')"
  shows "\<exists>new. pending' = pending @ new \<and> length new \<le> length ps \<and> (\<forall>p \<in> set new. \<exists>ab \<in> set ps. p = candidate_pair opts c ab) \<and>
    seen' = rev (map (\<lambda>p. pair_key (cp_older_id p) (cp_newer_id p)) new) @ seen \<and>
    (distinct seen \<longrightarrow> distinct seen')"
  using assms
proof (induction ps arbitrary: seen pending)
  case (Cons ab ps)
  obtain a b where ab: "ab = (a, b)" by (cases ab)
  have sym: "pair_key x y = pair_key y x" for x y by (auto simp: pair_key_def)
  have key: "pair_key (cp_older_id (candidate_pair opts c ab)) (cp_newer_id (candidate_pair opts c ab)) =
      pair_key (gr_observation_id a) (gr_observation_id b)"
    using sym by (simp add: candidate_pair_def ab Let_def)
  show ?case
  proof (cases "pair_key (gr_observation_id a) (gr_observation_id b) \<in> set seen")
    case True
    then have "fold (visit_pair opts c) ps (seen, pending) = (seen', pending')"
      using Cons.prems by (simp add: visit_pair_def ab)
    from Cons.IH [OF this] show ?thesis by (auto intro: le_SucI)
  next
    case False
    let ?k = "pair_key (gr_observation_id a) (gr_observation_id b)" and ?p = "candidate_pair opts c ab"
    have "fold (visit_pair opts c) ps (?k # seen, pending @ [?p]) = (seen', pending')"
      using Cons.prems False by (simp add: visit_pair_def ab)
    from Cons.IH [OF this] obtain new where new: "pending' = (pending @ [?p]) @ new" "length new \<le> length ps"
      "\<forall>p \<in> set new. \<exists>ab \<in> set ps. p = candidate_pair opts c ab"
      "seen' = rev (map (\<lambda>p. pair_key (cp_older_id p) (cp_newer_id p)) new) @ ?k # seen"
      "distinct (?k # seen) \<longrightarrow> distinct seen'" by blast
    then show ?thesis
      using False key by (intro exI [of _ "?p # new"]) auto
  qed
qed simp

lemma group_pairs_length: "length (group_pairs opts rows) \<le> nat \<lfloor>max_pairs opts\<rfloor>"
  by (simp add: group_pairs_def slice_to_def)

text \<open>The pairs one group gives: no more than its limit, each similar.\<close>

definition pairs_of_group :: "detector_options \<Rightarrow> group_row list \<Rightarrow> contradiction_pair list \<Rightarrow> bool" where
  "pairs_of_group opts rows ps \<longleftrightarrow> length ps \<le> nat \<lfloor>max_pairs opts\<rfloor> \<and>
     (\<forall>p \<in> set ps. \<exists>ab \<in> set (group_pairs opts rows). p = candidate_pair opts (gr_concept (hd rows)) ab)"

lemma visit_groups_effect:
  assumes "fold (visit_group opts) gs (seen, pending) = (seen', pending')"
  shows "\<exists>pss. pending' = pending @ concat pss \<and> list_all2 (pairs_of_group opts) gs pss \<and>
    seen' = rev (map (\<lambda>p. pair_key (cp_older_id p) (cp_newer_id p)) (concat pss)) @ seen \<and>
    (distinct seen \<longrightarrow> distinct seen')"
  using assms
proof (induction gs arbitrary: seen pending)
  case (Cons rows gs)
  obtain seen1 pending1 where mid: "visit_group opts rows (seen, pending) = (seen1, pending1)" by fastforce
  obtain new1 where 1: "pending1 = pending @ new1" "length new1 \<le> length (group_pairs opts rows)"
    "\<forall>p \<in> set new1. \<exists>ab \<in> set (group_pairs opts rows). p = candidate_pair opts (gr_concept (hd rows)) ab"
    "seen1 = rev (map (\<lambda>p. pair_key (cp_older_id p) (cp_newer_id p)) new1) @ seen" "distinct seen \<longrightarrow> distinct seen1"
    using visit_pairs_effect [OF mid [unfolded visit_group_def]] by blast
  have "fold (visit_group opts) gs (seen1, pending1) = (seen', pending')" using Cons.prems mid by simp
  from Cons.IH [OF this] obtain pss where 2: "pending' = pending1 @ concat pss" "list_all2 (pairs_of_group opts) gs pss"
    "seen' = rev (map (\<lambda>p. pair_key (cp_older_id p) (cp_newer_id p)) (concat pss)) @ seen1" "distinct seen1 \<longrightarrow> distinct seen'"
    by blast
  have "length new1 \<le> nat \<lfloor>max_pairs opts\<rfloor>" using 1(2) group_pairs_length by (rule order_trans)
  then have "pairs_of_group opts rows new1" using 1(3) by (simp add: pairs_of_group_def)
  then show ?case using 1 2 by (intro exI [of _ "new1 # pss"]) auto
qed simp

lemma pending_pairs_effect:
  obtains pss where "pending_pairs opts db = concat pss" "list_all2 (pairs_of_group opts) (scanned_groups opts db) pss"
    "distinct (map (\<lambda>p. pair_key (cp_older_id p) (cp_newer_id p)) (concat pss))"
proof -
  obtain seen pending where f: "fold (visit_group opts) (scanned_groups opts db) ([], []) = (seen, pending)" by fastforce
  then have p: "pending_pairs opts db = pending" by (simp add: pending_pairs_def)
  from visit_groups_effect [OF f] obtain pss where "pending = concat pss"
    "list_all2 (pairs_of_group opts) (scanned_groups opts db) pss"
    "seen = rev (map (\<lambda>p. pair_key (cp_older_id p) (cp_newer_id p)) (concat pss))" "distinct seen" by auto
  then show thesis using p that by (metis distinct_rev)
qed

text \<open>The words two texts share, of the words they have.\<close>

definition word_overlap :: "string \<Rightarrow> string \<Rightarrow> rat" where
  "word_overlap s t =
     of_nat (card (set (detector_tokens s) \<inter> set (detector_tokens t))) /
     of_nat (card (set (detector_tokens s) \<union> set (detector_tokens t)))"

lemma word_overlap_sym: "word_overlap s t = word_overlap t s"
  by (simp add: word_overlap_def Int_commute Un_commute)

lemma pair_similarity_overlap: "pair_similarity (a, b) = word_overlap (gr_content a) (gr_content b)"
proof -
  let ?a = "detector_tokens (gr_content a)" and ?b = "detector_tokens (gr_content b)"
  have d: "distinct ?a" "distinct ?b" by (simp_all add: detector_tokens_def distinct_keep_first)
  have "set (filter (\<lambda>x. x \<in> set ?b) ?a) = set ?a \<inter> set ?b" by auto
  then have inter: "length (filter (\<lambda>x. x \<in> set ?b) ?a) = card (set ?a \<inter> set ?b)"
    using d(1) by (metis distinct_card distinct_filter)
  have "card (set ?a) + card (set ?b) = card (set ?a \<union> set ?b) + card (set ?a \<inter> set ?b)"
    by (rule card_Un_Int) simp_all
  then have union: "length ?a + length ?b - card (set ?a \<inter> set ?b) = card (set ?a \<union> set ?b)"
    using d by (simp add: distinct_card)
  show ?thesis
    unfolding pair_similarity_def set_jaccard_def word_overlap_def Let_def prod.case inter union by simp
qed

text \<open>The observations of a pending pair.\<close>

definition sound_pair :: "detector_options \<Rightarrow> mem_db \<Rightarrow> contradiction_pair \<Rightarrow> bool" where
  "sound_pair opts db p \<longleftrightarrow>
     (\<exists>a \<in> set (db_observations db). \<exists>b \<in> set (db_observations db).
        ob_id a = cp_older_id p \<and> ob_id b = cp_newer_id p \<and> ob_project a = cp_project p \<and>
        live a \<and> live b \<and> expiredFilter (do_now opts) a \<and> expiredFilter (do_now opts) b \<and>
        cp_jaccard p = word_overlap (ob_content_redacted a) (ob_content_redacted b) \<and>
        or_else (do_threshold opts) (9 / 10) \<le> cp_jaccard p \<and>
        (\<forall>s t. do_date_parse opts (ob_created_at a) = Some s \<and> do_date_parse opts (ob_created_at b) = Some t \<longrightarrow> s \<le> t))"

lemma group_row_observation:
  assumes "rows \<in> set (scanned_groups opts db)" "g \<in> set rows"
  obtains r where "r \<in> set (db_observations db)" "live r" "expiredFilter (do_now opts) r" "ob_id r = gr_observation_id g"
    "ob_project r = gr_project g" "ob_created_at r = gr_created_at g" "ob_content_redacted r = gr_content g"
proof -
  obtain k where "(k, rows) \<in> set (loadConceptGroups (do_now opts) (do_project opts) db)"
    using assms(1) by (auto simp: scanned_groups_def)
  from loadConceptGroups_mem(1) [OF this assms(2)] obtain types where
    "g \<in> set (tagged_rows (do_now opts) (do_project opts) types db)" by auto
  then show thesis
    by (rule tagged_rows_mem) (rule that; simp add: live_def)
qed

lemma pending_sound:
  assumes rows: "rows \<in> set (scanned_groups opts db)" "(a, b) \<in> set (group_pairs opts rows)"
      "p = candidate_pair opts (gr_concept (hd rows)) (a, b)"
  shows "sound_pair opts db p"
proof -
  note ab = group_pairs_mem [OF rows(2)]
  let ?older = "if in_order opts a b then a else b" and ?newer = "if in_order opts a b then b else a"
  have p: "cp_older_id p = gr_observation_id ?older" "cp_newer_id p = gr_observation_id ?newer"
    "cp_project p = gr_project ?older" "cp_jaccard p = pair_similarity (a, b)"
    using rows(3) by (simp_all add: candidate_pair_def Let_def)
  have mem: "?older \<in> set rows" "?newer \<in> set rows" using ab(1,2) by simp_all
  obtain r where r: "r \<in> set (db_observations db)" "live r" "expiredFilter (do_now opts) r" "ob_id r = cp_older_id p"
      "ob_project r = cp_project p" "ob_created_at r = gr_created_at ?older" "ob_content_redacted r = gr_content ?older"
    using group_row_observation [OF rows(1) mem(1)] unfolding p by blast
  obtain s where s: "s \<in> set (db_observations db)" "live s" "expiredFilter (do_now opts) s" "ob_id s = cp_newer_id p"
      "ob_created_at s = gr_created_at ?newer" "ob_content_redacted s = gr_content ?newer"
    using group_row_observation [OF rows(1) mem(2)] unfolding p by blast
  have "x \<le> y" if "do_date_parse opts (ob_created_at r) = Some x" "do_date_parse opts (ob_created_at s) = Some y" for x y
    using that r(6) s(5) by (auto simp: in_order_def split: if_splits option.splits)
  moreover have "cp_jaccard p = word_overlap (ob_content_redacted r) (ob_content_redacted s)"
    unfolding p(4) r(7) s(6) by (simp add: pair_similarity_overlap word_overlap_sym)
  ultimately show ?thesis
    using r(1-5) s(1-4) ab(3) p(4) unfolding sound_pair_def by (intro bexI [of _ r] bexI [of _ s]) simp_all
qed

lemma group_pairs_sound:
  assumes "rows \<in> set (scanned_groups opts db)" "pairs_of_group opts rows ps"
  shows "length ps \<le> nat \<lfloor>max_pairs opts\<rfloor> \<and>
    (\<forall>p \<in> set ps. sound_pair opts db p \<and> {cp_older_id p, cp_newer_id p} \<subseteq> gr_observation_id ` set rows)"
proof (intro conjI ballI)
  show "length ps \<le> nat \<lfloor>max_pairs opts\<rfloor>" using assms(2) by (simp add: pairs_of_group_def)
  fix p assume "p \<in> set ps"
  then obtain a b where ab: "(a, b) \<in> set (group_pairs opts rows)" "p = candidate_pair opts (gr_concept (hd rows)) (a, b)"
    using assms(2) unfolding pairs_of_group_def by fastforce
  show "sound_pair opts db p" by (rule pending_sound [OF assms(1) ab])
  show "{cp_older_id p, cp_newer_id p} \<subseteq> gr_observation_id ` set rows"
    using group_pairs_mem(1,2) [OF ab(1)] by (simp add: ab(2) candidate_pair_def Let_def)
qed

lemma sound_confirmed: "confirmed opts db p \<Longrightarrow> \<exists>a b. observation_by_id db (cp_older_id p) = Some a \<and>
    observation_by_id db (cp_newer_id p) = Some b \<and>
    vd_contradiction (adjudicate opts (input_of_row (cp_older_id p) a) (input_of_row (cp_newer_id p) b)) \<and>
    or_else (do_min_confidence opts) (7 / 10) \<le>
      vd_confidence (adjudicate opts (input_of_row (cp_older_id p) a) (input_of_row (cp_newer_id p) b))"
  by (auto simp: confirmed_def Let_def split: option.splits)

text \<open>
  C38. The detector puts each pair to the adjudicator once, and from every group of at least two rows at
  most as many as its limit; a pair is two tagged observations of the group that are in force, in the order of
  their dates, whose contents share at least the threshold of their words. It confirms what the
  adjudicator calls a contradiction with enough confidence, and changes nothing but links, which it adds
  from the newer to the older observation of confirmed pairs.
\<close>

theorem contradictions_are_adjudicated:
  assumes "detectContradictions opts db = (res, db')"
  shows "\<exists>pss. dr_contradictions res = filter (confirmed opts db) (concat pss) \<and>
    dr_candidate_pairs res = length (concat pss) \<and> dr_scanned_groups res = length pss \<and>
    distinct (map (\<lambda>p. pair_key (cp_older_id p) (cp_newer_id p)) (concat pss)) \<and>
    list_all2 (\<lambda>rows ps. length ps \<le> nat \<lfloor>max_pairs opts\<rfloor> \<and>
        (\<forall>p \<in> set ps. sound_pair opts db p \<and> {cp_older_id p, cp_newer_id p} \<subseteq> gr_observation_id ` set rows))
      (scanned_groups opts db) pss \<and>
    db' = db\<lparr>db_links := db_links db'\<rparr> \<and>
    set (db_links db') \<subseteq> set (db_links db) \<union>
      (\<lambda>p. link (cp_newer_id p) (cp_older_id p) ''superseded'' 1 (do_now opts)) ` set (dr_contradictions res)"
proof -
  obtain pss where pss: "pending_pairs opts db = concat pss" "list_all2 (pairs_of_group opts) (scanned_groups opts db) pss"
    "distinct (map (\<lambda>p. pair_key (cp_older_id p) (cp_newer_id p)) (concat pss))"
    by (rule pending_pairs_effect)
  let ?pairs = "filter (confirmed opts db) (concat pss)"
  let ?ls = "map (\<lambda>p. link (cp_newer_id p) (cp_older_id p) ''superseded'' 1 (do_now opts)) ?pairs"
  have res: "dr_contradictions res = ?pairs" "dr_candidate_pairs res = length (concat pss)"
    "dr_scanned_groups res = length pss" and db': "db' = add_links ?ls db"
    using assms list_all2_lengthD [OF pss(2)] by (auto simp: detectContradictions_def Let_def pss(1))
  have "list_all2 (\<lambda>rows ps. length ps \<le> nat \<lfloor>max_pairs opts\<rfloor> \<and>
      (\<forall>p \<in> set ps. sound_pair opts db p \<and> {cp_older_id p, cp_newer_id p} \<subseteq> gr_observation_id ` set rows))
    (scanned_groups opts db) pss"
    using pss(2) by (rule list.rel_mono_strong) (rule group_pairs_sound)
  moreover have "db_links db' = fold (insert_or_ignore link_key) ?ls (db_links db)" by (simp add: db' add_links_def)
  then have "set (db_links db') \<subseteq> set (db_links db) \<union> set ?ls"
    using fold_insert_set [of link_key ?ls "db_links db"] by simp
  moreover have "db' = db\<lparr>db_links := db_links db'\<rparr>" by (simp add: db' add_links_def)
  ultimately show ?thesis using pss(3) unfolding res set_map by blast
qed

subsection \<open>Tags that make no group\<close>

lemma no_concept_no_groups:
  assumes "\<forall>t \<in> set (db_tags db). tg_tag_type t \<notin> {''concept'', ''topic'', ''category''}"
  shows "detectContradictions opts db =
    (\<lparr>dr_scanned_groups = 0, dr_candidate_pairs = 0, dr_contradictions = [], dr_links_created = 0\<rparr>, db)"
proof -
  have none: "tagged_rows now project types db = []" if "types \<subseteq> {''concept'', ''topic'', ''category''}" for now project types
  proof (rule ccontr)
    assume "tagged_rows now project types db \<noteq> []"
    then obtain g where "g \<in> set (tagged_rows now project types db)" by (cases "tagged_rows now project types db") auto
    then show False by (rule tagged_rows_mem) (use assms that in blast)
  qed
  have "loadConceptGroups now project db = []" for now project
    by (simp add: loadConceptGroups_def none group_by_def)
  then have "scanned_groups opts db = []" by (simp add: scanned_groups_def)
  then show ?thesis
    by (simp add: detectContradictions_def pending_pairs_def add_links_def)
qed

subsection \<open>Instances\<close>

definition tagged_row :: "string \<Rightarrow> string \<Rightarrow> obs_row" where
  "tagged_row i t = (sample_row i ''the team uses sqlite'')\<lparr>ob_created_at := t\<rparr>"

definition sample_tag :: "string \<Rightarrow> string \<Rightarrow> tag_row" where
  "sample_tag i ty = \<lparr>tg_observation_id = i, tg_tag = ''db'', tg_tag_type = ty, tg_created_at = ''1''\<rparr>"

definition sample_detector :: detector_options where
  "sample_detector = \<lparr>do_threshold = None, do_max_pairs = None, do_min_confidence = None,
     do_adjudicator = Some (\<lambda>a b. \<lparr>vd_contradiction = True, vd_confidence = 1\<rparr>), do_project = None,
     do_now = ''3'', do_date_parse = parse_int\<rparr>"

definition tagged_db :: mem_db where
  "tagged_db = empty_db\<lparr>db_observations := [tagged_row ''a'' ''1'', tagged_row ''b'' ''2''],
     db_tags := [sample_tag ''a'' ''concept'', sample_tag ''b'' ''topic'']\<rparr>"

theorem contradictions_are_adjudicated_witness:
  "\<exists>res db' pss. detectContradictions sample_detector tagged_db = (res, db') \<and>
     map (\<lambda>p. (cp_newer_id p, cp_older_id p)) (dr_contradictions res) = [(''b'', ''a'')] \<and>
     dr_contradictions res = filter (confirmed sample_detector tagged_db) (concat pss) \<and>
     dr_scanned_groups res = length pss"
proof -
  obtain res db' where d: "detectContradictions sample_detector tagged_db = (res, db')" by fastforce
  have "map (\<lambda>p. (cp_newer_id p, cp_older_id p)) (dr_contradictions (fst (detectContradictions sample_detector tagged_db))) = [(''b'', ''a'')]"
    by code_simp
  then show ?thesis using d contradictions_are_adjudicated [OF d] by auto
qed

text \<open>An observation that has one tag as its topic and as its category is paired with itself.\<close>

lemma twice_tagged_is_linked_to_itself:
  "map link_key (db_links (snd (detectContradictions sample_detector
     (empty_db\<lparr>db_observations := [tagged_row ''a'' ''1''], db_tags := [sample_tag ''a'' ''topic'', sample_tag ''a'' ''category'']\<rparr>)))) =
   [(''a'', ''a'', ''superseded'')]"
  by code_simp

end
