(* ===== verification/Service.thy ===== *)
theory Service
  imports Consolidation_Safety Contradictions Forget_Policy Admin_Ops Retry_Worker
begin

text \<open>
  The service over one database: recording, the retry worker, consolidation with its contradiction scan
  and forget policy (\<open>runConsolidation\<close> of \<open>core/harness-mem-core.ts\<close>), compression, the clean-up of
  duplicates, sharing and bulk deletion. What each component keeps of the tables is put together here into
  one invariant over every interleaving of their operations.
\<close>

subsection \<open>runConsolidation\<close>

record consolidation_request =
  cq_reason :: "string option"
  cq_project :: "string option"
  cq_session_id :: "string option"
  cq_limit :: "rat option"
  cq_scan :: "detector_options option"
  cq_forget :: "forget_options option"

text \<open>
  The configuration, the clock and the judge of contradictions, and the texts of the two audit rows whose
  details hold fractions.
\<close>

record core_env =
  ce_enabled :: bool
  ce_run :: run_env
  ce_host :: host
  ce_auto_forget :: "string option"
  ce_clock :: ms
  ce_adjudicator :: "contradiction_input \<Rightarrow> contradiction_input \<Rightarrow> adjudicator_verdict"
  ce_scan_details :: "detector_result \<Rightarrow> string"
  ce_forget_details :: "forget_audit \<Rightarrow> string"

record consolidation_reply =
  cy_stats :: run_stats
  cy_scan :: "detector_result option"
  cy_forget :: "forget_result option"

definition writeAuditLog :: "string \<Rightarrow> string \<Rightarrow> string \<Rightarrow> string \<Rightarrow> string \<Rightarrow> mem_db \<Rightarrow> mem_db" where
  "writeAuditLog now action ttype tid details db =
     db\<lparr>db_audit := write_plain \<lparr>aw_action = action, aw_target_type = ttype, aw_target_id = tid,
        aw_details_json = details, aw_actor = ''system'', aw_created_at = now\<rparr> (db_audit db)\<rparr>"

definition stats_details :: "run_stats \<Rightarrow> string \<Rightarrow> string" where
  "stats_details stats reason =
     stringify (JObj [(''jobs_processed'', JNum (int (rs_jobs_processed stats))),
       (''facts_extracted'', JNum (int (rs_facts_extracted stats))),
       (''facts_merged'', JNum (int (rs_facts_merged stats))),
       (''pending_jobs'', JNum (int (rs_pending_jobs stats))),
       (''derives_links_created'', JNum (int (rs_derives_links stats))), (''reason'', JStr reason)])"

definition contradiction_scan ::
  "core_env \<Rightarrow> consolidation_request \<Rightarrow> mem_db \<Rightarrow> detector_result option \<times> mem_db" where
  "contradiction_scan ce req db =
     (case cq_scan req of
        None \<Rightarrow> (None, db)
      | Some opts \<Rightarrow>
          (let (res, db1) = detectContradictions
                 (opts\<lparr>do_project := cq_project req, do_adjudicator := Some (ce_adjudicator ce)\<rparr>) db
           in (Some res, writeAuditLog (rn_now (ce_run ce)) ''admin.contradiction_scan.run'' ''observation'' []
                 (ce_scan_details ce res) db1)))"

definition forget_pass ::
  "core_env \<Rightarrow> consolidation_request \<Rightarrow> mem_db \<Rightarrow> forget_result option \<times> mem_db" where
  "forget_pass ce req db =
     (case cq_forget req of
        None \<Rightarrow> (None, db)
      | Some opts \<Rightarrow>
          (let (res, details, rows) = runForgetPolicy (ce_host ce) (ce_auto_forget ce)
                 (opts\<lparr>fo_project := cq_project req\<rparr>) (ce_clock ce) (rn_now (ce_run ce)) (db_observations db)
           in (Some res, writeAuditLog (rn_now (ce_run ce)) ''admin.forget_policy.run'' ''observation'' []
                 (ce_forget_details ce details) (db\<lparr>db_observations := rows\<rparr>))))"

definition runConsolidation ::
  "core_env \<Rightarrow> consolidation_request \<Rightarrow> fact_db \<Rightarrow> consolidation_reply option \<times> fact_db" where
  "runConsolidation ce req x =
     (if \<not> ce_enabled ce then (None, x)
      else (let reason = or_text (or_else (cq_reason req) []) ''manual'';
                (stats, x1) = runConsolidationOnce (ce_run ce)
                  \<lparr>ro_reason = Some reason, ro_project = cq_project req, ro_session_id = cq_session_id req,
                   ro_limit = cq_limit req\<rparr> x;
                db2 = writeAuditLog (rn_now (ce_run ce)) ''admin.consolidation.run'' ''consolidation'' []
                  (stats_details stats reason) (fx_mem x1);
                (scan, db3) = contradiction_scan ce req db2;
                (forgotten, db4) = forget_pass ce req db3
            in (Some \<lparr>cy_stats = stats, cy_scan = scan, cy_forget = forgotten\<rparr>, x1\<lparr>fx_mem := db4\<rparr>)))"

definition enqueueConsolidation :: "bool \<Rightarrow> string \<Rightarrow> string \<Rightarrow> string \<Rightarrow> string \<Rightarrow> fact_db \<Rightarrow> fact_db" where
  "enqueueConsolidation enabled now project sid reason x =
     (if \<not> enabled then x else enqueueConsolidationJob now project sid reason x)"

subsection \<open>The service\<close>

record service =
  sv_rec :: recorder
  sv_facts :: "fact_row list"
  sv_queue :: "job_row list"
  sv_queue_next :: nat

definition fact_view :: "service \<Rightarrow> fact_db" where
  "fact_view s = \<lparr>fx_mem = rc_db (sv_rec s), fx_facts = sv_facts s, fx_queue = sv_queue s, fx_queue_next = sv_queue_next s\<rparr>"

definition with_view :: "fact_db \<Rightarrow> service \<Rightarrow> service" where
  "with_view x s = s\<lparr>sv_rec := (sv_rec s)\<lparr>rc_db := fx_mem x\<rparr>, sv_facts := fx_facts x, sv_queue := fx_queue x,
     sv_queue_next := fx_queue_next x\<rparr>"

definition with_db :: "mem_db \<Rightarrow> service \<Rightarrow> service" where
  "with_db db s = s\<lparr>sv_rec := (sv_rec s)\<lparr>rc_db := db\<rparr>\<rparr>"

datatype service_op =
    Record recorder_env envelope bool
  | RetryPass bool bool worker_env
  | Finalized bool string string string
  | Consolidate core_env consolidation_request
  | Compress run_env compress_request
  | Cleanup read_env bool "rat option"
  | Share read_env "string list" share_request
  | BulkDelete bulk_request

definition service_step :: "service_op \<Rightarrow> service \<Rightarrow> service" where
  "service_step op s =
     (case op of
        Record env e q \<Rightarrow> s\<lparr>sv_rec := snd (recordEvent env e q (sv_rec s))\<rparr>
      | RetryPass stopping force w \<Rightarrow> s\<lparr>sv_rec := processRetryQueue stopping force w (sv_rec s)\<rparr>
      | Finalized enabled now project sid \<Rightarrow>
          with_view (enqueueConsolidation enabled now project sid ''finalize'' (fact_view s)) s
      | Consolidate ce req \<Rightarrow> with_view (snd (runConsolidation ce req (fact_view s))) s
      | Compress env req \<Rightarrow> with_view (snd (compressMemory env req (fact_view s))) s
      | Cleanup env execute limit \<Rightarrow>
          with_db (snd (cleanupDuplicateObservations env execute limit (rc_db (sv_rec s)))) s
      | Share env teams req \<Rightarrow> with_db (snd (shareObservationToTeam env teams req (rc_db (sv_rec s)))) s
      | BulkDelete req \<Rightarrow> with_db (snd (bulkDeleteObservations req (rc_db (sv_rec s)))) s)"

definition empty_service :: service where
  "empty_service = \<lparr>sv_rec = empty_recorder, sv_facts = [], sv_queue = [], sv_queue_next = 1\<rparr>"


subsection \<open>Changes of observations in place\<close>

text \<open>A change that keeps the keys of a row, and puts no row back in force.\<close>

definition tame :: "(obs_row \<Rightarrow> obs_row) \<Rightarrow> bool" where
  "tame f \<longleftrightarrow> (\<forall>r. ob_id (f r) = ob_id r \<and> ob_session_id (f r) = ob_session_id r \<and> ob_event_id (f r) = ob_event_id r \<and>
     ob_content_dedupe_hash (f r) = ob_content_dedupe_hash r \<and> (live (f r) \<longrightarrow> live r))"

lemma core_update:
  assumes ok: "core_ok db" and f: "tame f"
  shows "core_ok (db\<lparr>db_observations := sql_update p f (db_observations db)\<rparr>)" (is "core_ok ?d")
proof -
  let ?g = "\<lambda>r. if p r then f r else r"
  have rows: "db_observations ?d = map ?g (db_observations db)" by (simp add: sql_update_def)
  have g: "ob_id (?g r) = ob_id r" "ob_session_id (?g r) = ob_session_id r" "ob_event_id (?g r) = ob_event_id r"
    "ob_content_dedupe_hash (?g r) = ob_content_dedupe_hash r" "live (?g r) \<Longrightarrow> live r" for r
    using f by (auto simp: tame_def split: if_splits)
  have same: "session_ids ?d = session_ids db" "event_ids ?d = event_ids db" by (simp_all add: session_ids_def event_ids_def)
  show ?thesis
  proof (rule core_okI)
    show "distinct (map ob_id (db_observations ?d))"
      using core_okD(4) [OF ok] unfolding rows by (simp add: comp_def g(1) del: if_image_distrib)
    show "ob_session_id r \<in> session_ids ?d" if "r \<in> set (db_observations ?d)" for r
      using that core_okD(6) [OF ok] g(2) unfolding rows same by (force simp del: if_image_distrib)
    show "e \<in> event_ids ?d" if "r \<in> set (db_observations ?d)" "ob_event_id r = Some e" for r e
      using that core_okD(7) [OF ok] g(3) unfolding rows same by (force simp del: if_image_distrib)
    show "r = s" if r: "r \<in> set (db_observations ?d)" and s: "s \<in> set (db_observations ?d)" and h: "h \<noteq> []"
      "live r" "live s" "ob_content_dedupe_hash r = Some h" "ob_content_dedupe_hash s = Some h" for r s h
    proof -
      obtain r0 where r0: "r0 \<in> set (db_observations db)" "r = ?g r0" using r unfolding rows by (auto simp del: if_image_distrib)
      obtain s0 where s0: "s0 \<in> set (db_observations db)" "s = ?g s0" using s unfolding rows by (auto simp del: if_image_distrib)
      have "live r0" "live s0" using h(2,3) g(5) r0(2) s0(2) by blast+
      moreover have "ob_content_dedupe_hash r0 = Some h" "ob_content_dedupe_hash s0 = Some h"
        using h(4,5) g(4) r0(2) s0(2) by metis+
      ultimately have "r0 = s0" using core_okD(8) [OF ok r0(1) s0(1) h(1)] by blast
      then show ?thesis using r0(2) s0(2) by simp
    qed
  qed (use core_okD [OF ok] same in simp_all)
qed

text \<open>What the service's tables keep through an operation: the ids of the observations only grow.\<close>

definition written_types :: "string set" where
  "written_types = {''tag'', ''privacy'', ''provenance'', ''auto''}"

definition db_ok :: "mem_db \<Rightarrow> bool" where
  "db_ok db \<longleftrightarrow> core_ok db \<and> refs_ok db \<and> tag_types db \<subseteq> written_types"

definition grows :: "mem_db \<Rightarrow> mem_db \<Rightarrow> bool" where
  "grows db db' \<longleftrightarrow> obs_ids db \<subseteq> obs_ids db' \<and> (tag_types db \<subseteq> written_types \<longrightarrow> tag_types db' \<subseteq> written_types)"

lemma grows_refl [simp]: "grows db db"
  by (simp add: grows_def)

lemma grows_trans: "grows a b \<Longrightarrow> grows b c \<Longrightarrow> grows a c"
  by (auto simp: grows_def)

lemma grows_frame: "obs_ids db' = obs_ids db \<Longrightarrow> tag_types db' = tag_types db \<Longrightarrow> grows db db'"
  by (simp add: grows_def)

lemma grows_tags: "tg_tag_type ` set gs \<subseteq> written_types \<Longrightarrow> grows db (add_tags gs db)"
  using tag_types_add [of gs db] unfolding grows_def add_tags_simps by blast

lemma db_ok_update:
  assumes "db_ok db" "tame f"
  shows "db_ok (db\<lparr>db_observations := sql_update p f (db_observations db)\<rparr>) \<and>
    grows db (db\<lparr>db_observations := sql_update p f (db_observations db)\<rparr>)" (is "db_ok ?d \<and> _")
proof -
  have "map ob_id (sql_update p f (db_observations db)) = map ob_id (db_observations db)"
    by (rule map_sql_update) (use assms(2) in \<open>simp add: tame_def\<close>)
  then have o: "obs_ids ?d = obs_ids db" by (simp add: obs_ids_def) (metis list.set_map)
  have "refs_ok ?d" using assms(1) by (simp add: db_ok_def refs_ok_def o)
  moreover have "core_ok ?d" using assms by (intro core_update) (simp_all add: db_ok_def)
  ultimately show ?thesis using assms(1) o by (simp add: db_ok_def grows_def)
qed

lemma db_ok_audit [simp]: "db_ok (db\<lparr>db_audit := l\<rparr>) = db_ok db" "grows db0 (db\<lparr>db_audit := l\<rparr>) = grows db0 db"
proof -
  have "core_ok (db\<lparr>db_audit := l\<rparr>) = core_ok db" by (simp add: core_ok_def session_ids_def event_ids_def)
  moreover have "refs_ok (db\<lparr>db_audit := l\<rparr>) = refs_ok db" by (simp add: refs_ok_def obs_ids_def)
  ultimately show "db_ok (db\<lparr>db_audit := l\<rparr>) = db_ok db" by (simp add: db_ok_def)
  show "grows db0 (db\<lparr>db_audit := l\<rparr>) = grows db0 db" by (simp add: grows_def obs_ids_def)
qed

subsection \<open>What recording does\<close>

lemma grows_store: "grows db (store_observation env p a x db)"
proof -
  let ?u = "db\<lparr>db_observations := upsert_obs_row (obs_row_of env p a x) (db_observations db)\<rparr>"
  have 1: "grows db ?u"
    using map_upsert_obs [of "obs_row_of env p a x" "db_observations db"]
    by (auto simp: grows_def obs_ids_def dest: arg_cong [of _ _ set] split: if_splits)
  have tags: "grows d (add_tags (tag_rows env p k ts) d)" if "k \<in> written_types" for d k ts
    using that by (intro grows_tags) (auto simp: tag_rows_def)
  have 2: "grows d (add_provenance env p d)" for d
  proof -
    have "grows d ((add_tags (tag_rows env p ''provenance'' ts) d)\<lparr>db_events := es\<rparr>)" for ts es
      using tags [of "''provenance''" d ts] by (simp add: written_types_def grows_def obs_ids_def tag_types_def)
    then show ?thesis by (auto simp: add_provenance_def Let_def split: option.split)
  qed
  show ?thesis
    unfolding store_observation_def Let_def
    by (rule grows_trans [OF 1 grows_trans [OF tags grows_trans [OF tags 2]]]) (simp_all add: written_types_def)
qed

lemma same_core_grows: "same_core db db' \<Longrightarrow> grows db db'"
  by (simp add: same_core_def grows_def obs_ids_def tag_types_def)

lemma grows_written:
  assumes "write_observation env p a db = Inr (w, db')"
  shows "grows db db'"
proof -
  from write_observation_Inr [OF assms] obtain x d src where d: "db' = enrich env p d"
    "d = store_observation env p a x db \<or> upsertVector env p src (store_observation env p a x db) = Inr d" by blast
  have "grows (store_observation env p a x db) d"
    using d(2) same_core_vector same_core_grows by auto
  moreover have "grows d db'" unfolding d(1) by (rule same_core_grows) (simp add: enrich_frame)
  ultimately show ?thesis using grows_store [of db env p a x] grows_trans by blast
qed

lemma grows_transaction:
  assumes "transaction env p a db = Inr (w, db')"
  shows "grows db db'"
proof -
  have ins: "grows db (session_ensured env p db)" "grows db (event_inserted env p db)"
    "grows db ((event_inserted env p db)\<lparr>db_events := es\<rparr>)" for es
    by (rule grows_frame; simp add: event_inserted_def obs_ids_def tag_types_def)+
  show ?thesis
    using assms ins grows_trans [OF ins(2) grows_written]
    by (auto simp: transaction_cases split: if_splits option.splits sum.splits)
qed

lemma grows_record:
  assumes "recordEvent env e q st = (r, st')"
  shows "grows (rc_db st) (rc_db st')"
  using assms
proof (cases rule: record_forms)
  case refused
  then show ?thesis by (simp add: untouched_def)
next
  case early
  then show ?thesis by (simp add: journaled_def)
next
  case (committed pr p rep a ws cache)
  let ?j = "journaled env pr ws cache st"
  have "grows (rc_db ?j) (enqueueRetry env (pr_event p) msg (rc_db ?j))" for msg
    by (rule grows_frame) (simp_all add: enqueueRetry_def obs_ids_def tag_types_def)
  then have "grows (rc_db ?j) (rc_db st')"
    using committed(4) grows_transaction [of env p a "rc_db ?j"]
    by (auto simp: commit_def split: sum.splits written.splits)
  moreover have "grows (rc_db st) (rc_db ?j)" by (simp add: journaled_def)
  ultimately show ?thesis using grows_trans by blast
qed


text \<open>A step of the recorder: its invariant holds after it, and its observations only gained ids.\<close>

definition rec_ok :: "recorder \<Rightarrow> bool" where
  "rec_ok st \<longleftrightarrow> db_ok (rc_db st) \<and> ring_ok (rc_stream st)"

definition advances :: "recorder \<Rightarrow> recorder \<Rightarrow> bool" where
  "advances st st' \<longleftrightarrow> rec_ok st' \<and> grows (rc_db st) (rc_db st')"

lemma advances_trans: "advances a b \<Longrightarrow> advances b c \<Longrightarrow> advances a c"
  using grows_trans by (auto simp: advances_def)

lemma advances_record:
  assumes "rec_ok st" "recordEvent env e q st = (r, st')"
  shows "advances st st'"
  using record_effect [of st env e q] grows_record [OF assms(2)] assms
  by (auto simp: rec_ok_def advances_def db_ok_def grows_def)

lemma advances_queue: "rec_ok st \<Longrightarrow> advances st (st\<lparr>rc_db := (rc_db st)\<lparr>db_retry := rows\<rparr>\<rparr>)"
  by (simp add: advances_def rec_ok_def db_ok_def grows_def obs_ids_def tag_types_def core_ok_def refs_ok_def
      session_ids_def event_ids_def)

lemma advances_retry_row:
  assumes "rec_ok st" "retry_row_step w row st = (b, st')"
  shows "advances st st'"
proof (cases "wk_parse w (rt_event_json row)")
  case None
  then show ?thesis using assms advances_queue by (auto simp: retry_row_step_def delete_retry_def)
next
  case (Some e)
  obtain r st1 where r: "recordEvent (wk_recorder w row) e False st = (r, st1)" by fastforce
  have 1: "advances st st1" by (rule advances_record [OF assms(1) r])
  then have ok: "rec_ok st1" by (simp add: advances_def)
  have "advances st1 (delete_retry (rt_id row) st1)" "advances st1 (postpone_retry w row st1)"
    using advances_queue [OF ok] by (simp_all add: delete_retry_def postpone_retry_def Let_def)
  then show ?thesis
    using assms(2) Some r 1 advances_trans [OF 1] by (auto simp: retry_row_step_def split: response.splits if_splits)
qed

lemma advances_retries:
  assumes "rec_ok st"
  shows "advances st (processRetryQueue stopping force w st)"
proof -
  have "advances st (retry_rows w rows st)" if "rec_ok st" for rows st
    using that
  proof (induction rows arbitrary: st)
    case Nil
    then show ?case by (simp add: advances_def)
  next
    case (Cons row rows)
    obtain b st1 where s: "retry_row_step w row st = (b, st1)" by fastforce
    have 1: "advances st st1" by (rule advances_retry_row [OF Cons.prems s])
    with Cons.IH [of st1] have "advances st1 (retry_rows w rows st1)" by (simp add: advances_def)
    with 1 s show ?case by (auto intro: advances_trans)
  qed
  with assms show ?thesis by (simp add: processRetryQueue_def advances_def)
qed

subsection \<open>What the other operations do\<close>

lemma tame_archived:
  "tame (\<lambda>r. r\<lparr>ob_archived_at := Some t, ob_updated_at := u\<rparr>)"
  "tame (\<lambda>r. r\<lparr>ob_team_id := x, ob_updated_at := u\<rparr>)"
  by (simp_all add: tame_def live_def)

lemma forget_keeps:
  assumes "db_ok db" "runForgetPolicy h auto opts now ts (db_observations db) = (res, det, rows)"
  shows "db_ok (db\<lparr>db_observations := rows\<rparr>) \<and> grows db (db\<lparr>db_observations := rows\<rparr>)"
proof -
  have "rows = snd (snd (runForgetPolicy h auto opts now ts (db_observations db)))" using assms(2) by simp
  then have "rows = db_observations db \<or> (\<exists>ids. rows = archive_rows ts ids (db_observations db))"
    unfolding run_table by (auto split: if_splits)
  then show ?thesis
    using assms(1) db_ok_update [OF assms(1) tame_archived(1)] by (auto simp: archive_rows_def)
qed

lemma share_keeps:
  assumes "db_ok db"
  shows "db_ok (snd (shareObservationToTeam env teams req db)) \<and> grows db (snd (shareObservationToTeam env teams req db))"
  using assms db_ok_update [OF assms tame_archived(2)]
  by (auto simp: shareObservationToTeam_def Let_def share_audit_def read_audit_def split: option.split bool.split)

lemma cleanup_keeps:
  assumes "db_ok db"
  shows "db_ok (snd (cleanupDuplicateObservations env execute limit db)) \<and>
    grows db (snd (cleanupDuplicateObservations env execute limit db))"
proof -
  have "db_ok (snd (cleanup_groups env execute n gs items db)) \<and> grows db (snd (cleanup_groups env execute n gs items db))" for n gs items
  proof -
    obtain items' db' where c: "cleanup_groups env execute n gs items db = (items', db')" by fastforce
    from cleanup_groups_effect [OF c] obtain new where "cleaned env execute new db db'" by blast
    then obtain l where "db' = (db\<lparr>db_observations := (if execute then archive_ids (re_now env) (concat (map ci_archived_ids new)) (db_observations db)
        else db_observations db)\<rparr>)\<lparr>db_audit := l\<rparr>" by (auto simp: cleaned_def)
    then show ?thesis using c assms db_ok_update [OF assms tame_archived(1)] by (simp add: archive_ids_def)
  qed
  then show ?thesis unfolding cleanupDuplicateObservations_def Let_def by blast
qed

text \<open>The scan of a database whose tags the service wrote.\<close>

lemma scan_finds_nothing:
  assumes "tag_types db \<subseteq> written_types"
  shows "detectContradictions opts db =
    (\<lparr>dr_scanned_groups = 0, dr_candidate_pairs = 0, dr_contradictions = [], dr_links_created = 0\<rparr>, db)"
proof (rule no_concept_no_groups)
  have "written_types \<inter> {''concept'', ''topic'', ''category''} = {}" by (auto simp: written_types_def)
  with assms show "\<forall>t \<in> set (db_tags db). tg_tag_type t \<notin> {''concept'', ''topic'', ''category''}"
    unfolding tag_types_def by blast
qed

text \<open>A service whose facts and tables are whole.\<close>

definition whole :: "fact_db \<Rightarrow> bool" where
  "whole x \<longleftrightarrow> facts_ok x \<and> tag_types (fx_mem x) \<subseteq> written_types"

lemma whole_db_ok: "whole x \<Longrightarrow> db_ok (fx_mem x)"
  by (simp add: whole_def facts_ok_def db_ok_def)

lemma whole_upholds: "whole x \<Longrightarrow> upholds x y \<Longrightarrow> whole y"
  by (auto simp: whole_def upholds_def written_types_def)

lemma whole_grows:
  assumes "whole x" "db_ok db" "grows (fx_mem x) db"
  shows "whole (x\<lparr>fx_mem := db\<rparr>)"
proof -
  have "insert None (Some ` obs_ids (fx_mem x)) \<subseteq> insert None (Some ` obs_ids db)"
    using assms(3) by (intro insert_mono image_mono) (simp add: grows_def)
  moreover have "fa_observation_id ` set (fx_facts x) \<subseteq> insert None (Some ` obs_ids (fx_mem x))"
    using assms(1) by (simp add: whole_def facts_ok_def owned_facts_def)
  ultimately have "fa_observation_id ` set (fx_facts x) \<subseteq> insert None (Some ` obs_ids db)"
    by (rule subset_trans [rotated])
  then have "owned_facts (x\<lparr>fx_mem := db\<rparr>)" by (simp add: owned_facts_def)
  then show ?thesis using assms(1,2) by (simp add: whole_def facts_ok_def db_ok_def queue_rows_ok_def)
qed

lemma consolidation_whole:
  assumes "whole x"
  shows "whole (snd (runConsolidation ce req x))"
proof -
  let ?opts = "\<lparr>ro_reason = Some (or_text (or_else (cq_reason req) []) ''manual''), ro_project = cq_project req,
    ro_session_id = cq_session_id req, ro_limit = cq_limit req\<rparr>"
  obtain stats x1 where 1: "runConsolidationOnce (ce_run ce) ?opts x = (stats, x1)" by fastforce
  have w1: "whole x1"
    using consolidation_upholds [of x "ce_run ce" ?opts] assms whole_upholds [OF assms] 1 by (simp add: whole_def)
  let ?db2 = "writeAuditLog (rn_now (ce_run ce)) ''admin.consolidation.run'' ''consolidation'' []
      (stats_details stats (or_text (or_else (cq_reason req) []) ''manual'')) (fx_mem x1)"
  have db2: "db_ok ?db2" "grows (fx_mem x1) ?db2" using whole_db_ok [OF w1] by (simp_all add: writeAuditLog_def)
  obtain scan db3 where 3: "contradiction_scan ce req ?db2 = (scan, db3)" by fastforce
  have "\<exists>l. db3 = ?db2\<lparr>db_audit := l\<rparr>"
  proof (cases "cq_scan req")
    case None
    then show ?thesis using 3 by (auto simp: contradiction_scan_def intro: exI [of _ "db_audit ?db2"])
  next
    case (Some o)
    have "tag_types ?db2 \<subseteq> written_types" using db2(1) by (simp add: db_ok_def)
    from scan_finds_nothing [OF this] Some 3 show ?thesis
      by (auto simp: contradiction_scan_def Let_def writeAuditLog_def [of _ "''admin.contradiction_scan.run''"])
  qed
  then obtain l where l: "db3 = ?db2\<lparr>db_audit := l\<rparr>" by blast
  have db3: "db_ok db3" "grows (fx_mem x1) db3" using db2 by (simp_all add: l)
  obtain fo db4 where 4: "forget_pass ce req db3 = (fo, db4)" by fastforce
  have "db_ok db4 \<and> grows db3 db4"
    using 4 db3(1) forget_keeps [OF db3(1)]
    by (auto simp: forget_pass_def Let_def writeAuditLog_def split: option.splits prod.splits)
  then have "whole (x1\<lparr>fx_mem := db4\<rparr>)" using w1 db3(2) grows_trans by (intro whole_grows) blast+
  then show ?thesis
    using 1 3 4 assms by (cases "ce_enabled ce") (simp_all add: runConsolidation_def Let_def)
qed


subsection \<open>The invariant of the service\<close>

definition service_ok :: "service \<Rightarrow> bool" where
  "service_ok s \<longleftrightarrow> whole (fact_view s) \<and> ring_ok (rc_stream (sv_rec s))"

lemma fact_view_with [simp]: "fact_view (with_view x s) = x" "rc_stream (sv_rec (with_view x s)) = rc_stream (sv_rec s)"
  by (simp_all add: fact_view_def with_view_def)

lemma fact_view_db [simp]:
  "fact_view (with_db db s) = (fact_view s)\<lparr>fx_mem := db\<rparr>" "rc_stream (sv_rec (with_db db s)) = rc_stream (sv_rec s)"
  by (simp_all add: fact_view_def with_db_def)

lemma fact_view_rec: "fact_view (s\<lparr>sv_rec := r\<rparr>) = (fact_view s)\<lparr>fx_mem := rc_db r\<rparr>"
  by (simp add: fact_view_def)

lemma service_recorder:
  assumes "service_ok s" "\<And>r. rec_ok r \<Longrightarrow> advances r (f r)"
  shows "service_ok (s\<lparr>sv_rec := f (sv_rec s)\<rparr>)"
proof -
  have "rec_ok (sv_rec s)"
    using assms(1) whole_db_ok [of "fact_view s"] by (simp add: service_ok_def rec_ok_def fact_view_def)
  then have "advances (sv_rec s) (f (sv_rec s))" by (rule assms(2))
  then show ?thesis
    using assms(1) whole_grows [of "fact_view s" "rc_db (f (sv_rec s))"]
    by (simp add: service_ok_def advances_def rec_ok_def fact_view_rec) (simp add: fact_view_def)
qed

lemma service_tables:
  assumes "service_ok s" "\<And>db. db_ok db \<Longrightarrow> db_ok (f db) \<and> grows db (f db)"
  shows "service_ok (with_db (f (rc_db (sv_rec s))) s)"
  using assms(1) assms(2) [of "rc_db (sv_rec s)"] whole_db_ok [of "fact_view s"] whole_grows [of "fact_view s" "f (rc_db (sv_rec s))"]
  by (simp add: service_ok_def) (simp add: fact_view_def)

lemma service_facts: "service_ok s \<Longrightarrow> (\<And>x. whole x \<Longrightarrow> whole (f x)) \<Longrightarrow> service_ok (with_view (f (fact_view s)) s)"
  by (simp add: service_ok_def)

lemma service_ok_step:
  assumes "service_ok s"
  shows "service_ok (service_step op s)"
proof (cases op)
  case (Record env e q)
  then show ?thesis
    using service_recorder [OF assms, of "\<lambda>r. snd (recordEvent env e q r)"] advances_record
    by (simp add: service_step_def) (metis prod.collapse)
next
  case (RetryPass stopping force w)
  then show ?thesis
    using service_recorder [OF assms advances_retries] by (simp add: service_step_def)
next
  case (Finalized enabled now project sid)
  have "whole (enqueueConsolidation enabled now project sid r x)" if "whole x" for r x
    using that enqueue_upholds [of x now project sid r] whole_upholds [OF that]
    by (auto simp: enqueueConsolidation_def whole_def)
  with Finalized show ?thesis using service_facts [OF assms] by (simp add: service_step_def)
next
  case (Consolidate ce req)
  then show ?thesis using service_facts [OF assms consolidation_whole] by (simp add: service_step_def)
next
  case (Compress env req)
  have "whole (snd (compressMemory env req x))" if "whole x" for x
    using that compression_upholds [of x env req] whole_upholds [OF that] by (simp add: whole_def)
  with Compress show ?thesis
    using service_facts [OF assms, of "\<lambda>x. snd (compressMemory env req x)"] by (simp add: service_step_def)
next
  case (Cleanup env execute limit)
  then show ?thesis using service_tables [OF assms cleanup_keeps] by (simp add: service_step_def)
next
  case (Share env teams req)
  then show ?thesis using service_tables [OF assms share_keeps] by (simp add: service_step_def)
next
  case (BulkDelete req)
  have "snd (bulkDeleteObservations req db) = db" for db
    by (simp add: bulkDeleteObservations_def bulk_loop_skips)
  with BulkDelete show ?thesis using service_tables [OF assms, of "\<lambda>db. db"] by (simp add: service_step_def)
qed

interpretation service_machine: invariant_machine service_step service_ok
  by unfold_locales (rule service_ok_step)

lemma service_ok_empty: "service_ok empty_service"
proof -
  have "ring_ok (rc_stream empty_recorder)"
    by (simp add: ring_ok_def empty_recorder_def empty_ring_def streamEventRetention_def)
  moreover have "rc_db empty_recorder = empty_db" by (simp add: empty_recorder_def empty_db_def)
  moreover have "tag_types empty_db = {}" by (simp add: tag_types_def empty_db_def)
  ultimately show ?thesis
    by (simp add: service_ok_def fact_view_def empty_service_def whole_def facts_ok_def owned_facts_def queue_rows_ok_def)
qed

text \<open>
  C1. The service stays whole, whatever operations run in whatever order: sessions, events, observations
  and all that refers to them hold together, every fact belongs to a stored observation, the chain of merges
  from any fact ends at one fact that is not merged, the jobs of the queue have keys of their own, and the
  stream keeps at most its newest 600 events.
\<close>

theorem service_stays_whole:
  "facts_ok (fact_view (fold service_step ops empty_service)) \<and>
   length (sr_events (rc_stream (sv_rec (fold service_step ops empty_service)))) \<le> 600"
proof -
  from service_machine.run_inv [OF service_ok_empty, of ops] show ?thesis
    by (simp add: service_ok_def whole_def ring_ok_def streamEventRetention_def)
qed

text \<open>
  C15. The contradiction scan finds nothing, on any database the service itself has filled and whatever
  the judge would say: it groups observations by tags of three types, and no operation writes a tag of one of them.
\<close>

theorem contradiction_scans_find_nothing:
  "detectContradictions opts (rc_db (sv_rec (fold service_step ops empty_service))) =
     (\<lparr>dr_scanned_groups = 0, dr_candidate_pairs = 0, dr_contradictions = [], dr_links_created = 0\<rparr>,
      rc_db (sv_rec (fold service_step ops empty_service)))"
proof (rule scan_finds_nothing)
  from service_machine.run_inv [OF service_ok_empty, of ops]
  show "tag_types (rc_db (sv_rec (fold service_step ops empty_service))) \<subseteq> written_types"
    by (simp add: service_ok_def whole_def fact_view_def)
qed

end
