(* ===== verification/Verify.thy ===== *)
theory Verify
  imports Read_Endpoints
begin

text \<open>
  The citation trace of an observation: \<open>verifyObservation\<close> of \<open>memory-server/src/core/verify.ts\<close>, from
  an observation over its event to the provenance in the event's payload, and its endpoint
  \<open>POST /v1/observations/verify\<close> of \<open>server.ts\<close>. The provenance extractor is a parameter, as it is in the
  code. What the trace may not show must look as if it were not there.
\<close>

record verify_request =
  vq_observation_id :: string
  vq_include_private :: bool
  vq_include_archived :: bool
  vq_user_id :: "string option"
  vq_team_id :: "string option"

text \<open>The columns of the observation; all of them are null when it is reported as missing.\<close>

record verify_columns =
  vc_session_id :: string
  vc_project :: string
  vc_platform :: string
  vc_event_id :: "string option"
  vc_created_at :: string
  vc_title :: "string option"

record verify_node =
  vn_observation_id :: string
  vn_columns :: "verify_columns option"

datatype verify_event =
    EventMissing string
  | EventUnparseable string string string
  | EventFound string string string "string option"

record 'p verify_result =
  vr_ok :: bool
  vr_observation :: verify_node
  vr_event :: "verify_event option"
  vr_provenance :: "'p option"
  vr_notes :: "string list"

record 'p verify_env =
  ve_now_ms :: int
  ve_date_parse :: "string \<Rightarrow> int option"
  ve_extractor :: "rat json_value \<Rightarrow> 'p option"

definition safeParsePayload :: "string \<Rightarrow> rat json_value option" where
  "safeParsePayload raw =
     (if raw = [] then None
      else (case parse_decimals raw of Some (JObj kvs) \<Rightarrow> Some (JObj kvs) | _ \<Rightarrow> None))"

definition privacy_tags_of :: "string \<Rightarrow> string list" where
  "privacy_tags_of raw =
     (if raw = [] then []
      else (case parse_decimals raw of
              Some (JArr xs) \<Rightarrow> List.map_filter (\<lambda>x. as_string (Some x)) xs | _ \<Rightarrow> []))"

definition isPrivate :: "string list \<Rightarrow> bool" where
  "isPrivate tags \<longleftrightarrow> (\<exists>t \<in> set tags. js_lower t = ''private'' \<or> js_lower t = ''secret'' \<or> js_lower t = ''sensitive'')"

definition not_shown :: "string \<Rightarrow> string \<Rightarrow> 'p verify_result" where
  "not_shown oid note =
     \<lparr>vr_ok = False, vr_observation = \<lparr>vn_observation_id = oid, vn_columns = None\<rparr>, vr_event = None,
      vr_provenance = None, vr_notes = [note]\<rparr>"

text \<open>A time that is no date is not in the past.\<close>

definition is_expired_at :: "'p verify_env \<Rightarrow> obs_row \<Rightarrow> bool" where
  "is_expired_at env r \<longleftrightarrow>
     (case ob_expires_at r of
        None \<Rightarrow> False
      | Some e \<Rightarrow> (case ve_date_parse env e of None \<Rightarrow> False | Some t \<Rightarrow> t \<le> ve_now_ms env))"

definition verify_tenant :: "verify_request \<Rightarrow> obs_row \<Rightarrow> bool" where
  "verify_tenant req r \<longleftrightarrow>
     (truthy (vq_user_id req) \<longrightarrow>
        Some (ob_user_id r) = vq_user_id req \<or> (truthy (vq_team_id req) \<and> ob_team_id r = vq_team_id req))"

text \<open>From the event of a row on.\<close>

definition trace_event :: "'p verify_env \<Rightarrow> mem_db \<Rightarrow> obs_row \<Rightarrow> 'p verify_result" where
  "trace_event env db r =
     (let found = (\<lambda>e p notes. \<lparr>vr_ok = True,
            vr_observation = \<lparr>vn_observation_id = ob_id r, vn_columns = Some \<lparr>vc_session_id = ob_session_id r,
              vc_project = ob_project r, vc_platform = ob_platform r, vc_event_id = ob_event_id r,
              vc_created_at = ob_created_at r, vc_title = ob_title r\<rparr>\<rparr>,
            vr_event = e, vr_provenance = p, vr_notes = notes\<rparr>)
      in if \<not> truthy (ob_event_id r) then found None None [''observation has no linked event_id'']
         else (let eid = or_else (ob_event_id r) [] in
           case sql_get (sql_where (\<lambda>e. ev_event_id e = eid) (db_events db)) of
             None \<Rightarrow> found (Some (EventMissing eid)) None
               [''linked event row missing (cascade retention likely trimmed it)'']
           | Some e \<Rightarrow>
               (case safeParsePayload (ev_payload_json e) of
                  None \<Rightarrow> found (Some (EventUnparseable (ev_event_id e) (ev_event_type e) (ev_ts e))) None
                    [''event payload is empty or non-object JSON'']
                | Some payload \<Rightarrow>
                    (let tool = as_string (jget (Some payload) ''tool_name''); p = ve_extractor env payload in
                     found (Some (EventFound (ev_event_id e) (ev_event_type e) (ev_ts e) tool)) p
                       (if p \<noteq> None then []
                        else if truthy tool
                        then [''provenance-extractor did not recognise tool_name='' @ or_else tool []]
                        else [''event payload has no tool_name; skipping provenance extraction''])))))"

definition verifyObservation :: "'p verify_env \<Rightarrow> verify_request \<Rightarrow> mem_db \<Rightarrow> 'p verify_result" where
  "verifyObservation env req db =
     (let oid = js_trim (vq_observation_id req) in
      if oid = [] then not_shown [] ''observation_id is required''
      else (case findById oid db of
              None \<Rightarrow> not_shown oid ''observation not found''
            | Some r \<Rightarrow>
                if \<not> vq_include_archived req \<and> (ob_archived_at r \<noteq> None \<or> is_expired_at env r)
                then not_shown oid ''observation not found''
                else if \<not> verify_tenant req r then not_shown oid ''observation not found''
                else if \<not> vq_include_private req \<and> isPrivate (privacy_tags_of (ob_privacy_tags_json r))
                then not_shown (ob_id r) ''observation not found''
                else trace_event env db r))"

datatype 'p verify_reply = VerifyRaised | VerifyNoToken | VerifyBad string | Verified_trace bool "'p verify_result"

text \<open>The answer of the core says whether the trace is \<open>ok\<close>.\<close>

definition verify_endpoint ::
  "server_env \<Rightarrow> 'p verify_env \<Rightarrow> request \<Rightarrow> json option \<Rightarrow> mem_db \<Rightarrow> 'p verify_reply" where
  "verify_endpoint srv env rq raw db =
     (case resolveAccess srv rq of
        Inl _ \<Rightarrow> VerifyRaised
      | Inr Unauthorized \<Rightarrow> VerifyNoToken
      | Inr (Access user team) \<Rightarrow>
          (let body = parseRequestJson raw; oid = string_or_empty (jget body ''observation_id'') in
           if oid = [] then VerifyBad ''observation_id is required''
           else (let asked = parseBooleanLike (jget body ''include_archived'') False;
                     who = resolveRequestIdentity srv rq;
                     archived = (asked \<and> (en_auth_config srv \<noteq> None \<longrightarrow>
                       (case who of Inr (Some ctx) \<Rightarrow> id_role ctx = Admin | _ \<Rightarrow> False)));
                     result = verifyObservation env
                       \<lparr>vq_observation_id = oid, vq_include_private = parseBooleanLike (jget body ''include_private'') False,
                        vq_include_archived = archived, vq_user_id = user, vq_team_id = team\<rparr> db
                 in Verified_trace (vr_ok result) result)))"


subsection \<open>What is hidden\<close>

lemma findById_filter:
  assumes "distinct (map ob_id (db_observations db))"
  shows "findById oid (db\<lparr>db_observations := filter P (db_observations db)\<rparr>) =
    (case findById oid db of None \<Rightarrow> None | Some r \<Rightarrow> if P r then Some r else None)"
proof -
  have "sql_get (sql_where (\<lambda>r. ob_id r = oid) (filter P t)) =
      (case sql_get (sql_where (\<lambda>r. ob_id r = oid) t) of None \<Rightarrow> None | Some r \<Rightarrow> if P r then Some r else None)"
    if "distinct (map ob_id t)" for t
    using that
  proof (induction t)
    case (Cons r t)
    have "filter (\<lambda>s. ob_id s = oid) (filter P t) = []" if "ob_id r = oid"
      using Cons.prems that by (auto simp: filter_empty_conv image_iff)
    then show ?case using Cons by (auto simp: sql_where_def)
  qed (simp add: sql_where_def)
  from this [OF assms] show ?thesis by (simp add: findById_def)
qed

definition verify_permitted :: "'p verify_env \<Rightarrow> verify_request \<Rightarrow> obs_row \<Rightarrow> bool" where
  "verify_permitted env req r \<longleftrightarrow>
     (vq_include_archived req \<or> (ob_archived_at r = None \<and> \<not> is_expired_at env r)) \<and> verify_tenant req r \<and>
     (vq_include_private req \<or> \<not> isPrivate (privacy_tags_of (ob_privacy_tags_json r)))"

text \<open>A row that is not permitted is answered like one that does not exist.\<close>

lemma verify_unseen:
  assumes "distinct (map ob_id (db_observations db))" "\<And>r. verify_permitted env req r \<Longrightarrow> P r"
  shows "verifyObservation env req (db\<lparr>db_observations := filter P (db_observations db)\<rparr>) = verifyObservation env req db"
proof -
  let ?oid = "js_trim (vq_observation_id req)" and ?d = "db\<lparr>db_observations := filter P (db_observations db)\<rparr>"
  note find = findById_filter [OF assms(1), of ?oid P]
  have trace: "trace_event env ?d r = trace_event env db r" for r by (simp add: trace_event_def)
  show ?thesis
  proof (cases "findById ?oid db")
    case None
    then show ?thesis unfolding verifyObservation_def Let_def find trace by simp
  next
    case (Some r)
    then have "ob_id r = ?oid" by (auto simp: findById_def sql_where_def dest!: sql_get_in)
    then have "\<not> P r \<Longrightarrow> verifyObservation env req db = (if ?oid = [] then not_shown [] ''observation_id is required''
        else not_shown ?oid ''observation not found'')"
      using Some assms(2) [of r] by (auto simp: verifyObservation_def Let_def verify_permitted_def)
    then show ?thesis
      using Some by (cases "P r") (auto simp: verifyObservation_def Let_def find trace)
  qed
qed

lemma member_has_config:
  "resolveRequestIdentity srv rq = Inr (Some ctx) \<Longrightarrow> id_role ctx = Member \<Longrightarrow> en_auth_config srv \<noteq> None"
  by (auto simp: resolveRequestIdentity_def Let_def admin_identity_def split: option.splits if_splits sum.splits)

text \<open>
  C16. The trace tells a member of a team nothing of rows it may not see: the answer is the same, to the
  letter, on a database from which all rows of other tenants, all archived and expired ones and, unless the
  body asks for them, all private ones are removed.
\<close>

theorem verify_hides_what_it_may_not_show:
  assumes "distinct (map ob_id (db_observations db))"
    and "resolveRequestIdentity srv rq = Inr (Some ctx)" "team_member ctx team"
  shows "verify_endpoint srv env rq raw db = verify_endpoint srv env rq raw
    (db\<lparr>db_observations := filter (\<lambda>r. owned_by ctx (ob_user_id r) (ob_team_id r) \<and>
       ob_archived_at r = None \<and> \<not> is_expired_at env r \<and>
       (parseBooleanLike (jget (parseRequestJson raw) ''include_private'') False \<or>
          \<not> isPrivate (privacy_tags_of (ob_privacy_tags_json r)))) (db_observations db)\<rparr>)"
    (is "_ = verify_endpoint srv env rq raw (db\<lparr>db_observations := filter ?P _\<rparr>)")
proof -
  have m: "id_role ctx = Member" "id_team_id ctx = Some team" "id_user_id ctx \<noteq> []" "team \<noteq> []"
    using assms(3) by (simp_all add: team_member_def)
  note access = member_access_resolved [OF assms(2) m(1)]
  let ?req = "\<lparr>vq_observation_id = string_or_empty (jget (parseRequestJson raw) ''observation_id''),
      vq_include_private = parseBooleanLike (jget (parseRequestJson raw) ''include_private'') False,
      vq_include_archived = False, vq_user_id = Some (id_user_id ctx), vq_team_id = id_team_id ctx\<rparr>"
  have "?P r" if "verify_permitted env ?req r" for r
    using that m by (auto simp: verify_permitted_def verify_tenant_def owned_by_def)
  from verify_unseen [OF assms(1), of env ?req, OF this] access member_has_config [OF assms(2) m(1)] assms(2) m(1)
  show ?thesis by (simp add: verify_endpoint_def Let_def)
qed

definition sample_tracer :: "string verify_env" where
  "sample_tracer = \<lparr>ve_now_ms = 0, ve_date_parse = (\<lambda>s. None), ve_extractor = (\<lambda>p. None)\<rparr>"

definition trace_body :: "json option" where
  "trace_body = Some (JObj [(''observation_id'', JStr ''b'')])"

theorem verify_hides_what_it_may_not_show_witness:
  "verify_endpoint (rs_auth sample_server) sample_tracer member_request trace_body two_tenants =
     Verified_trace False (not_shown ''b'' ''observation not found'')"
proof -
  let ?ctx = "\<lparr>id_user_id = ''u1'', id_team_id = Some ''t1'', id_role = Member\<rparr>"
  have m: "team_member ?ctx ''t1''" by code_simp
  have d: "distinct (map ob_id (db_observations two_tenants))" by code_simp
  have e: "verify_endpoint (rs_auth sample_server) sample_tracer member_request trace_body (db\<lparr>db_observations := rs\<rparr>) =
      Verified_trace False (not_shown ''b'' ''observation not found'')" if "rs = filter (\<lambda>r. ob_id r = ''a'') rs" for rs db
  proof -
    have "findById ''b'' (db\<lparr>db_observations := rs\<rparr>) = None"
      unfolding findById_def sql_where_def by (simp, subst that) (simp add: filter_empty_conv)
    moreover have "resolveAccess (rs_auth sample_server) member_request = Inr (Access (Some ''u1'') (Some ''t1''))"
      by (rule member_access_resolved [OF sample_member, simplified])
    moreover have "js_trim ''b'' = ''b''" by code_simp
    ultimately show ?thesis
      by (simp add: verify_endpoint_def verifyObservation_def trace_body_def parseRequestJson_def is_object_def
          string_or_empty_def as_string_def Let_def not_shown_def)
  qed
  show ?thesis
    unfolding verify_hides_what_it_may_not_show [OF d sample_member m, of sample_tracer trace_body]
    by (rule e) (auto simp: two_tenants_def sample_db_def sample_obs_def owned_by_def)
qed

end
