(* ===== verification/Spec2Isabelle.thy ===== *)
theory Spec2Isabelle
  imports Audit_Chain Privacy_Tags Ddouns_Gate Lease_Store Signal_Store Rate_Limiter
    Circuit_Breaker Retry_Queue Validator Auth Coordination_Api Sync_Engine Projection
    Managed_Backend Front_Door Forget_Policy Graph_Reasoner Read_Endpoints Admin_Ops
    Consolidation_Again Contradictions Service Verify
begin

text \<open>
  A verification library for harness-mem, a memory server for coding agents (the TypeScript sources
  under \<open>memory-server/src\<close> and \<open>mcp-server/src\<close>; paths below are relative to \<open>memory-server/src\<close> unless
  they start with another directory). Agents send events over HTTP; the server strips private text,
  decides whether it may keep the event, and stores an event row and an observation with its tags,
  vector, entities, relations, nuggets and links in one SQLite transaction. Other endpoints read
  observations back, coordinate agents by leases and signals, consolidate observations into facts, and
  replicate events to a managed PostgreSQL backend or between devices.

  \<^bold>\<open>The parts and their theories.\<close> Shared ground. \<open>Prelude\<close> has JavaScript's string functions, the part of SQL the stores use (a table is
  the list of its rows in insertion order) and the interface \<open>invariant_machine\<close> of a state machine whose
  operations keep an invariant; \<open>Bounded_Queue\<close> is the interface of a queue that forgets its oldest
  elements; \<open>Grouping\<close> collects rows by key, as the code does with a \<open>Map\<close>. \<open>Json\<close> and \<open>Json_Parse\<close> are
  JSON values, \<open>JSON.stringify\<close> and \<open>JSON.parse\<close>, with the reader of numbers as an interface of its own
  that both the integers and the decimal fractions satisfy. \<open>Tables\<close> and \<open>Memory_Db\<close> are the rows and the
  tables of \<open>db/schema.ts\<close>, with the two invariants of the database, \<open>core_ok\<close> (keys, references between
  sessions, events and observations, one live row for a content hash) and \<open>refs_ok\<close> (what hangs on
  observations).

  The way of an event in. \<open>Auth\<close> models \<open>auth/token-resolver.ts\<close>, \<open>auth/access-control.ts\<close> and the
  resolution of a tenant in \<open>server.ts\<close>; \<open>Rate_Limiter\<close> and \<open>Validator\<close> the two middlewares; \<open>Front_Door\<close>
  composes them with the handler of \<open>POST /v1/events/record\<close> and with the recorder. The recorder,
  \<open>core/event-recorder.ts\<close>, is split by concern: \<open>Privacy_Tags\<close> (\<open>core/privacy-tags.ts\<close>), \<open>Ddouns_Gate\<close>
  (\<open>core/ddouns-gate.ts\<close>), \<open>Text_Rules\<close> (tags, redaction, titles), \<open>Event_Build\<close> (hashes, dates, the
  prepared event), \<open>Observation_Links\<close> and \<open>Nuggets\<close> (\<open>core/auto-linker.ts\<close>, \<open>core/nugget-splitter.ts\<close>),
  and \<open>Event_Recorder\<close> (\<open>recordEvent\<close> with its transaction). \<open>Stream_Ring\<close> is the ring of stream events and
  the write queue, \<open>Retry_Worker\<close> the worker that records failed events again, \<open>Audit_Chain\<close> the
  hash-chained audit log of \<open>core/audit-chain.ts\<close>, \<open>Circuit_Breaker\<close> the guard around the embedding provider.

  The ways out. \<open>Read_Filters\<close> has the filters every read applies (privacy, archiving, expiry, tenancy),
  \<open>Feed\<close> and \<open>Feed_Cursor\<close> the paginated feed, \<open>Detail_Reads\<close> the timeline and the details of single
  observations, \<open>Read_Endpoints\<close> their HTTP handlers, \<open>Verify\<close> the citation trace of an observation
  (\<open>core/verify.ts\<close>), which answers as if the rows it may not show did not exist, \<open>Graph_Reasoner\<close> the
  expansion of search results over shared entities (\<open>core/graph-reasoner.ts\<close>).

  Upkeep. \<open>Facts\<close> (\<open>consolidation/extractor.ts\<close>), \<open>Fact_Merging\<close> (\<open>deduper.ts\<close>, \<open>auto-reflection.ts\<close>) and
  \<open>Consolidation\<close> (\<open>worker.ts\<close> and \<open>compressMemory\<close>) turn observations into facts; \<open>Contradictions\<close> looks
  for observations that contradict each other, \<open>Forget_Policy\<close> archives stale ones, \<open>Admin_Ops\<close> deletes,
  exports, shares and deduplicates. \<open>Service\<close> puts recording, retrying and all of the upkeep over one
  database together, in the order \<open>runConsolidation\<close> of \<open>core/harness-mem-core.ts\<close> has.

  Coordination and replication. \<open>Lease_Store\<close>, \<open>Signal_Store\<close> and \<open>Coordination_Api\<close> are
  \<open>lease/lease-store.ts\<close>, \<open>lease/signal-store.ts\<close> and their endpoints; \<open>Sync_Engine\<close> is \<open>sync/engine.ts\<close>
  with its store and connector registry; \<open>Pg_Server\<close> the PostgreSQL tables, with the
  connections and transactions of \<open>db/postgres-adapter.ts\<close>, \<open>Projection\<close> the event store and projector over
  them, \<open>Managed_Backend\<close> the shadow synchronisation and its replication queue; \<open>Retry_Queue\<close> the local queue
  of the MCP server's hybrid mode (\<open>mcp-server/src/hybrid\<close>).

  \<^bold>\<open>How the code is read.\<close> An operation is a function from arguments and state to a result and the new state; a raised error or an
  early return is a constructor of the result. Every operation of a component is one definition under the
  name the code gives it, with the loop bodies and queries it consists of as definitions of their own. What
  lies outside the sources is a field of an environment record: the clock (one reading for one call), fresh
  ids, hash functions, \<open>Date.parse\<close>, the embedding and the language model, the extractors of entities,
  relations and provenance. Nothing is assumed of them unless a theorem says so.

  Times are numbers of milliseconds where the code computes with them and texts where it compares texts.
  Numbers the code keeps as doubles are exact fractions; the rounding of doubles is not modelled. A
  character is a code unit below 256, so patterns for Japanese text are left out. \<open>localeCompare\<close> is the
  order of code units. The order of rows that SQL leaves open is the order of insertion.

  \<^bold>\<open>What the lemmas show.\<close> Invariants: \<open>Recorder_Safety\<close> proves that a run of the recorder keeps \<open>core_ok\<close>, \<open>refs_ok\<close> and a
  well-formed audit log, \<open>Consolidation_Safety\<close> that facts stay a forest over stored observations, and
  \<open>Service\<close> that every interleaving of all operations does. \<open>Lease_Store\<close>, \<open>Signal_Store\<close>, \<open>Rate_Limiter\<close>,
  \<open>Circuit_Breaker\<close>, \<open>Stream_Ring\<close>, \<open>Projection\<close> and \<open>Managed_Backend\<close> have machines of their own.

  Contracts: the gate refines its specification (\<open>Ddouns_Gate\<close>), events are stored at most once
  (\<open>Recorder_Retry\<close>, and \<open>Projection\<close> where an append goes over one connection), a failed write leaves no trace in the tables but its place in
  the retry queue and rows of the audit log (\<open>Recorder_Safety\<close>) and gets stored by the worker once writing works again (\<open>Retry_Worker\<close>), a member of a
  team reads nothing of other tenants (\<open>Read_Endpoints\<close>), walking the feed while the database changes
  loses and repeats nothing (\<open>Feed\<close>), a cursor is read back as it was handed out (\<open>Feed_Cursor\<close>), merging
  facts keeps exactly one of each group of duplicates (\<open>Fact_Merging\<close>), consolidating twice is consolidating
  once (\<open>Consolidation_Again\<close>), expansion is reachability within a number of hops (\<open>Graph_Reasoner\<close>),
  exchanging stores converges (\<open>Sync_Engine\<close>).

  Errors and gaps: where the code does less than it means to, the theorem states what it does: the
  feed answers callers without a valid token, bulk deletion deletes and export exports nothing, a
  fact that supersedes another can be merged into it, the contradiction scan never finds a pair, an append whose
  statements a pool spreads over connections is neither atomic nor reliable, and rebuilding the managed
  observations leaves none.

  Bounds and fuel: the bounds are those of the code, such as 600 stream events, 1000 replicated events and
  100 rows of a retry pass. Fuel occurs in the JSON parser alone, where twice the length of the text and one
  is shown to be enough for every text (\<open>enough_fuel\<close> of the locale \<open>number_reader\<close>); all other recursion
  is structural or has a measure.

  \<^bold>\<open>Not modelled.\<close> Search and its ranking in \<open>core/observation-store.ts\<close> and \<open>retrieval/router.ts\<close>: full-text and vector
  scores in floating point, and patterns over Japanese text; so also the answer compiler. The embedding,
  reranking and language model providers, the extractors of entities, relations and provenance: numeric
  kernels, remote services and large regular expressions, which enter as parameters. The importers of
  \<open>core/ingest-coordinator.ts\<close> and \<open>ingest\<close>, the session manager's summaries, analytics, the project
  profile and the collector of the system environment: file formats, text composition and read-only
  aggregates around the operations modelled here. The dispatch of \<open>server.ts\<close> outside the endpoints named
  above, the tools of the MCP server, which forward their arguments to those endpoints, the clients (user
  interface, SDKs, editor extension), the connectors to remote services, the SQL texts of the PostgreSQL client, benchmarks
  and scripts. The mirror of vectors in \<open>sqlite-vec\<close> has no effect on the tables. JavaScript lists the
  integer-like keys of an object first; objects here keep the order of insertion.
\<close>

end
